(* ===== verification/Prelude.thy ===== *)
theory Prelude
  imports Main "HOL-Library.Word" "HOL-Library.Multiset"
begin

text \<open>
  Shared vocabulary of the libsmartereye2 development: machine integer names, the errors the
  C++ code raises, little-endian byte encodings of packed structs, and the generic list, map
  and word lemmas that several components use.  \<open>se_simps\<close> collects the unfolding
  facts that component proofs hand to the simplifier.
\<close>

named_theorems se_simps \<open>definitions that component proofs unfold\<close>

unbundle bit_operations_syntax

section \<open>Machine integers and errors\<close>

type_synonym u8 = "8 word"
type_synonym u16 = "16 word"
type_synonym u32 = "32 word"
type_synonym u64 = "64 word"

text \<open>
  The ways a C++ call can fail to return a value: the exceptions the library throws, and
  \<open>Undefined\<close> for an access the language gives no meaning to (a null dereference, a read
  or write outside an object, the use of a freed frame).
\<close>

datatype se_error =
    Runtime_error string
  | Invalid_argument string
  | Out_of_range
  | Undefined string

definition is_error :: "'e + 'a \<Rightarrow> bool" where
  "is_error r = (case r of Inl _ \<Rightarrow> True | Inr _ \<Rightarrow> False)"

lemma is_error_simps [simp]: "is_error (Inl e)" "\<not> is_error (Inr x)"
  by (simp_all add: is_error_def)

definition bind_result :: "'e + 'a \<Rightarrow> ('a \<Rightarrow> 'e + 'b) \<Rightarrow> 'e + 'b" where
  "bind_result r f = (case r of Inl e \<Rightarrow> Inl e | Inr x \<Rightarrow> f x)"

lemma bind_result_simps [simp]:
  "bind_result (Inl e) f = Inl e" "bind_result (Inr x) f = f x"
  by (simp_all add: bind_result_def)

lemma bind_result_Inr:
  "bind_result r f = Inr y \<longleftrightarrow> (\<exists>x. r = Inr x \<and> f x = Inr y)"
  by (cases r) auto

section \<open>Little-endian bytes\<close>

text \<open>The packed structs are read and written by casting byte buffers on a little-endian host.\<close>

fun le_bytes :: "nat \<Rightarrow> nat \<Rightarrow> u8 list" where
  "le_bytes 0 n = []"
| "le_bytes (Suc k) n = of_nat (n mod 256) # le_bytes k (n div 256)"

fun le_val :: "u8 list \<Rightarrow> nat" where
  "le_val [] = 0"
| "le_val (b # bs) = unat b + 256 * le_val bs"

lemma length_le_bytes [simp]: "length (le_bytes k n) = k"
  by (induction k arbitrary: n) auto

lemma unat_u8_mod [simp]: "unat (of_nat (n mod 256) :: u8) = n mod 256"
  by (simp add: unat_of_nat)

lemma le_val_bytes_mod: "le_val (le_bytes k n) = n mod 256 ^ k"
proof (induction k arbitrary: n)
  case 0
  then show ?case by simp
next
  case (Suc k)
  have "le_val (le_bytes (Suc k) n) = n mod 256 + 256 * (n div 256 mod 256 ^ k)"
    by (simp add: Suc)
  also have "\<dots> = n mod (256 * 256 ^ k)"
    by (simp add: mod_mult2_eq)
  finally show ?case by simp
qed

lemma le_val_bytes: "n < 256 ^ k \<Longrightarrow> le_val (le_bytes k n) = n"
  by (simp add: le_val_bytes_mod)

lemma le_val_bound: "le_val bs < 256 ^ length bs"
proof (induction bs)
  case Nil
  then show ?case by simp
next
  case (Cons b bs)
  have "unat b < 2 ^ 8" using unsigned_less [of b] by simp
  with Cons show ?case by simp
qed

definition u32_bytes :: "u32 \<Rightarrow> u8 list" where
  "u32_bytes w = le_bytes 4 (unat w)"

definition u32_of :: "u8 list \<Rightarrow> u32" where
  "u32_of bs = of_nat (le_val bs)"

definition u16_bytes :: "u16 \<Rightarrow> u8 list" where
  "u16_bytes w = le_bytes 2 (unat w)"

definition u64_bytes :: "u64 \<Rightarrow> u8 list" where
  "u64_bytes w = le_bytes 8 (unat w)"

definition u64_of :: "u8 list \<Rightarrow> u64" where
  "u64_of bs = of_nat (le_val bs)"

lemma length_word_bytes [simp]:
  "length (u32_bytes w) = 4" "length (u16_bytes v) = 2" "length (u64_bytes u) = 8"
  by (simp_all add: u32_bytes_def u16_bytes_def u64_bytes_def)

lemma u32_of_bytes [simp]: "u32_of (u32_bytes w) = w"
proof -
  have "unat w < 2 ^ 32" using unsigned_less [of w] by simp
  then show ?thesis by (simp add: u32_of_def u32_bytes_def le_val_bytes)
qed

lemma u64_of_bytes [simp]: "u64_of (u64_bytes w) = w"
proof -
  have "unat w < 2 ^ 64" using unsigned_less [of w] by simp
  then show ?thesis by (simp add: u64_of_def u64_bytes_def le_val_bytes)
qed

section \<open>Integers converted to double\<close>

text \<open>
  Time stamps are 64-bit integers on the wire and \<open>double\<close> in a frame.  \<open>double_of n\<close> is the value of
  the conversion: \<open>n\<close> rounded to 53 significant bits, to the nearest such number and to the even one of
  two equally near.  Every value stays in the range of the type, so there is no infinity.
\<close>

fun halvings :: "nat \<Rightarrow> nat" where
  "halvings n = (if n < 2 ^ 53 then 0 else Suc (halvings (n div 2)))"

declare halvings.simps [simp del]

definition round_even :: "nat \<Rightarrow> nat \<Rightarrow> nat" where
  "round_even u n =
     (let q = n div u; r = n mod u
      in u * (if u < 2 * r \<or> u = 2 * r \<and> odd q then q + 1 else q))"

definition double_of :: "int \<Rightarrow> int" where
  "double_of n = sgn n * int (round_even (2 ^ halvings (nat \<bar>n\<bar>)) (nat \<bar>n\<bar>))"

lemma round_even_1 [simp]: "round_even (Suc 0) n = n"
  by (simp add: round_even_def)

lemma round_even_multiple: "0 < u \<Longrightarrow> round_even u (u * q) = u * q"
  by (simp add: round_even_def)

lemma round_even_near:
  assumes "0 < u"
  shows "2 * \<bar>int (round_even u n) - int n\<bar> \<le> int u"
proof -
  have n: "u * (n div u) + n mod u = n" by simp
  have r: "n mod u < u" using assms by simp
  show ?thesis
  proof (cases "u < 2 * (n mod u) \<or> u = 2 * (n mod u) \<and> odd (n div u)")
    case True
    then have "round_even u n = u * (n div u) + u" by (simp add: round_even_def Let_def)
    then have "int (round_even u n) - int n = int u - int (n mod u)" using n by linarith
    with True r show ?thesis by auto
  next
    case False
    then have "round_even u n = u * (n div u)" by (simp only: round_even_def Let_def if_False)
    then have "int (round_even u n) - int n = - int (n mod u)" using n by linarith
    with False show ?thesis by auto
  qed
qed

text \<open>Up to \<open>2 ^ 53\<close> the conversion is exact; beyond, it is off by half a unit of the last place.\<close>

lemma double_of_small: "\<bar>n\<bar> < 2 ^ 53 \<Longrightarrow> double_of n = n"
proof -
  assume "\<bar>n\<bar> < 2 ^ 53"
  then have "halvings (nat \<bar>n\<bar>) = 0" by (simp add: halvings.simps nat_less_iff)
  then show ?thesis by (simp add: double_of_def sgn_mult_abs)
qed

lemma double_of_near: "2 * \<bar>double_of n - n\<bar> \<le> 2 ^ halvings (nat \<bar>n\<bar>)"
proof -
  let ?u = "2 ^ halvings (nat \<bar>n\<bar>) :: nat" and ?m = "nat \<bar>n\<bar>"
  have "double_of n - n = sgn n * (int (round_even ?u ?m) - int ?m)"
    by (simp add: double_of_def right_diff_distrib sgn_mult_abs)
  then have "\<bar>double_of n - n\<bar> \<le> \<bar>int (round_even ?u ?m) - int ?m\<bar>"
    by (cases "n = 0") (simp_all add: abs_mult abs_sgn_eq)
  moreover have "2 * \<bar>int (round_even ?u ?m) - int ?m\<bar> \<le> int ?u" by (rule round_even_near) simp
  ultimately have "2 * \<bar>double_of n - n\<bar> \<le> int ?u" by linarith
  then show ?thesis by simp
qed

lemma halvings_u64: "n < 2 ^ 64 \<Longrightarrow> halvings n \<le> 11"
proof -
  have step: "(n < 2 ^ 53 \<longrightarrow> halvings n = 0) \<and> (\<not> n < 2 ^ 53 \<longrightarrow> halvings n = Suc (halvings (n div 2)))" for n
    by (simp add: halvings.simps)
  have "n < 2 ^ (53 + k) \<Longrightarrow> halvings n \<le> k" for n k
  proof (induction k arbitrary: n)
    case (Suc k)
    from Suc.prems have "n < 2 ^ Suc (53 + k)" by (simp only: add_Suc_right)
    then have "n < 2 ^ (53 + k) * 2" by (simp only: power_Suc mult.commute)
    then have "n div 2 < 2 ^ (53 + k)" by (rule less_mult_imp_div_less)
    from Suc.IH [OF this] step [of n] show ?case by auto
  qed (use step in simp)
  from this [of n 11] show "n < 2 ^ 64 \<Longrightarrow> halvings n \<le> 11" by simp
qed

lemma double_of_u64: "\<bar>n\<bar> < 2 ^ 64 \<Longrightarrow> \<bar>double_of n - n\<bar> \<le> 1024"
proof -
  assume "\<bar>n\<bar> < 2 ^ 64"
  then have "halvings (nat \<bar>n\<bar>) \<le> 11" by (intro halvings_u64) (simp add: nat_less_iff)
  then have "(2 :: int) ^ halvings (nat \<bar>n\<bar>) \<le> 2 ^ 11" by (intro power_increasing) simp_all
  with double_of_near [of n] show ?thesis by simp
qed

lemma double_of_rounds: "double_of (2 ^ 53 + 1) = 2 ^ 53" "double_of (2 ^ 53 + 3) = 2 ^ 53 + 4"
proof -
  have "halvings (2 ^ 53 + 1) = 1" "halvings (2 ^ 53 + 3) = 1"
    by (subst halvings.simps, subst halvings.simps, simp)+
  then show "double_of (2 ^ 53 + 1) = 2 ^ 53" "double_of (2 ^ 53 + 3) = 2 ^ 53 + 4"
    by (simp_all add: double_of_def round_even_def)
qed

section \<open>Messages read off a byte stream\<close>

text \<open>
  The interface of an encoding that is read back off the front of a stream: what was written
  is read, and the rest of the stream is untouched.  A stream of messages is then read back
  message by message.
\<close>

fun decode_stream :: "nat \<Rightarrow> (u8 list \<Rightarrow> ('m \<times> u8 list) option) \<Rightarrow> u8 list \<Rightarrow> 'm list option" where
  "decode_stream 0 dec bs = (if bs = [] then Some [] else None)"
| "decode_stream (Suc n) dec bs =
     (if bs = [] then Some []
      else case dec bs of None \<Rightarrow> None
           | Some (m, rest) \<Rightarrow> map_option ((#) m) (decode_stream n dec rest))"

locale stream_codec =
  fixes enc :: "'m \<Rightarrow> u8 list"
    and dec :: "u8 list \<Rightarrow> ('m \<times> u8 list) option"
    and ok :: "'m \<Rightarrow> bool"
  assumes dec_enc: "ok m \<Longrightarrow> dec (enc m @ rest) = Some (m, rest)"
    and enc_nonempty: "ok m \<Longrightarrow> enc m \<noteq> []"
begin

lemma enc_inj:
  assumes "ok m" "ok m'" "enc m @ r = enc m' @ r'"
  shows "m = m' \<and> r = r'"
proof -
  have "Some (m, r) = dec (enc m @ r)" by (rule dec_enc [OF assms(1), symmetric])
  also have "\<dots> = Some (m', r')" unfolding assms(3) by (rule dec_enc [OF assms(2)])
  finally show ?thesis by simp
qed

lemma decode_stream_enc:
  "list_all ok ms \<Longrightarrow> length ms \<le> n \<Longrightarrow> decode_stream n dec (concat (map enc ms)) = Some ms"
proof (induction ms arbitrary: n)
  case Nil
  then show ?case by (cases n) auto
next
  case (Cons m ms)
  then obtain k where "n = Suc k" by (cases n) auto
  with Cons show ?case by (simp add: dec_enc enc_nonempty)
qed

end

section \<open>Lists with a cell overwritten\<close>

text \<open>\<open>write_at off bs buf\<close> is a \<open>memcpy\<close> of \<open>bs\<close> into \<open>buf\<close> at \<open>off\<close>.\<close>

definition write_at :: "nat \<Rightarrow> 'a list \<Rightarrow> 'a list \<Rightarrow> 'a list" where
  "write_at off bs buf = take off buf @ bs @ drop (off + length bs) buf"

lemma length_write_at [simp]:
  "off + length bs \<le> length buf \<Longrightarrow> length (write_at off bs buf) = length buf"
  by (simp add: write_at_def)

lemma take_write_at [simp]:
  "off \<le> length buf \<Longrightarrow> take (off + length bs) (write_at off bs buf) = take off buf @ bs"
  by (simp add: write_at_def)

lemma take_write_at_prefix:
  "n \<le> off \<Longrightarrow> off \<le> length buf \<Longrightarrow> take n (write_at off bs buf) = take n buf"
  by (simp add: write_at_def)

text \<open>Counting the elements with a property when one cell changes.\<close>

lemma length_filter_update:
  assumes "i < length xs"
  shows "length (filter P (xs[i := x])) + (if P (xs ! i) then 1 else 0)
    = length (filter P xs) + (if P x then 1 else 0)"
proof -
  have "xs = take i xs @ xs ! i # drop (Suc i) xs"
    using assms by (rule id_take_nth_drop)
  then have "length (filter P xs) = length (filter P (take i xs))
      + length (filter P (xs ! i # drop (Suc i) xs))"
    by (metis filter_append length_append)
  moreover have "xs[i := x] = take i xs @ x # drop (Suc i) xs"
    using assms by (rule upd_conv_take_nth_drop)
  ultimately show ?thesis by simp
qed

lemma sum_list_update_nat:
  fixes f :: "'a \<Rightarrow> nat"
  assumes "i < length xs"
  shows "sum_list (map f (xs[i := x])) + f (xs ! i) = sum_list (map f xs) + f x"
proof -
  have "xs = take i xs @ xs ! i # drop (Suc i) xs"
    using assms by (rule id_take_nth_drop)
  then have "sum_list (map f xs)
      = sum_list (map f (take i xs)) + (f (xs ! i) + sum_list (map f (drop (Suc i) xs)))"
    by (metis map_append list.simps(9) sum_list.Cons sum_list_append)
  moreover have "xs[i := x] = take i xs @ x # drop (Suc i) xs"
    using assms by (rule upd_conv_take_nth_drop)
  ultimately show ?thesis by simp
qed

text \<open>The values present in a list of results that may be empty.\<close>

fun somes :: "'a option list \<Rightarrow> 'a list" where
  "somes [] = []"
| "somes (None # xs) = somes xs"
| "somes (Some x # xs) = x # somes xs"

section \<open>Ordered maps\<close>

text \<open>
  A \<open>std::map\<close> iterated by its owner is a list of pairs in ascending key order;
  \<open>omap_put\<close> is an assignment to \<open>m[k]\<close>.
\<close>

fun omap_put :: "'k::linorder \<Rightarrow> 'v \<Rightarrow> ('k \<times> 'v) list \<Rightarrow> ('k \<times> 'v) list" where
  "omap_put k v [] = [(k, v)]"
| "omap_put k v ((k', v') # xs) =
     (if k < k' then (k, v) # (k', v') # xs
      else if k = k' then (k, v) # xs
      else (k', v') # omap_put k v xs)"

definition omap_ok :: "('k::linorder \<times> 'v) list \<Rightarrow> bool" where
  "omap_ok xs = sorted_wrt (<) (map fst xs)"

lemma omap_ok_simps [simp]:
  "omap_ok []" "omap_ok ((k, v) # xs) = ((\<forall>k'\<in>fst ` set xs. k < k') \<and> omap_ok xs)"
  by (auto simp: omap_ok_def)

lemma fst_omap_put [simp]: "fst ` set (omap_put k v xs) = insert k (fst ` set xs)"
  by (induction k v xs rule: omap_put.induct) auto

lemma omap_put_neq_Nil [simp]: "omap_put k v xs \<noteq> []"
  by (induction k v xs rule: omap_put.induct) auto

lemma omap_put_ok [simp, intro]: "omap_ok xs \<Longrightarrow> omap_ok (omap_put k v xs)"
  by (induction k v xs rule: omap_put.induct) auto

lemma omap_lookup_less:
  "\<forall>k'\<in>fst ` set xs. (k :: 'k :: linorder) < k' \<Longrightarrow> map_of xs k = None"
  by (induction xs) auto

lemma map_of_omap_put: "omap_ok xs \<Longrightarrow> map_of (omap_put k v xs) = (map_of xs)(k \<mapsto> v)"
  by (induction k v xs rule: omap_put.induct) (auto simp: fun_eq_iff)

lemma snd_omap_put:
  "omap_ok xs \<Longrightarrow> snd ` set (omap_put k v xs) \<subseteq> insert v (snd ` set xs)"
  by (induction k v xs rule: omap_put.induct) auto

lemma mset_omap_put:
  "omap_ok xs \<Longrightarrow>
   (case map_of xs k of
      None \<Rightarrow> mset (map snd (omap_put k v xs)) = add_mset v (mset (map snd xs))
    | Some w \<Rightarrow> add_mset w (mset (map snd (omap_put k v xs))) = add_mset v (mset (map snd xs)))"
proof (induction k v xs rule: omap_put.induct)
  case (1 k v)
  then show ?case by simp
next
  case (2 k v k' v' xs)
  show ?case
  proof (cases "k < k'")
    case True
    then have "map_of ((k', v') # xs) k = None" using 2(2) by (intro omap_lookup_less) auto
    with True show ?thesis by simp
  next
    case False
    with 2 show ?thesis by (cases "k = k'") (auto simp: add_mset_commute split: option.splits)
  qed
qed

lemma length_omap_put:
  "length (omap_put k v xs) \<le> Suc (length xs)"
  by (induction k v xs rule: omap_put.induct) auto

lemma distinct_omap: "omap_ok xs \<Longrightarrow> distinct (map fst xs)"
  by (simp add: omap_ok_def strict_sorted_iff)

end
