(* ===== verification/Small_Heap.thy ===== *)
theory Small_Heap
  imports Prelude
begin

text \<open>
  \<open>SmallHeap<T, C>\<close> of \<open>include/smartereye2/se_types.hpp\<close>: a fixed pool of
  \<open>C\<close> objects handed out by index, and the callback counter built on it
  (\<open>CallbacksHeap\<close>, \<open>CallbackInvocationHolder\<close> of \<open>se_callbacks.hpp\<close>).
  A slot's address is its index in \<open>buffer\<close>; an address outside the buffer is an index
  that is not below the capacity.  Every operation runs under the heap's mutex, so a thread
  interleaving is a sequence of operations.
\<close>

section \<open>State and operations\<close>

record 'a small_heap =
  buffer :: "'a list"
  is_free :: "bool list"
  keep_allocating :: bool
  heap_size :: int

definition new_heap :: "nat \<Rightarrow> 'a \<Rightarrow> 'a small_heap" where
  "new_heap c t = \<lparr>buffer = replicate c t, is_free = replicate c True,
                   keep_allocating = True, heap_size = 0\<rparr>"

text \<open>The scan for the first free slot.\<close>

fun first_free :: "bool list \<Rightarrow> nat option" where
  "first_free [] = None"
| "first_free (b # bs) = (if b then Some 0 else map_option Suc (first_free bs))"

definition heap_allocate :: "'a small_heap \<Rightarrow> nat option \<times> 'a small_heap" where
  "heap_allocate h =
     (if \<not> keep_allocating h then (None, h)
      else case first_free (is_free h) of
             None \<Rightarrow> (None, h)
           | Some i \<Rightarrow> (Some i, h\<lparr>is_free := (is_free h)[i := False], heap_size := heap_size h + 1\<rparr>))"

text \<open>
  \<open>deallocate\<close> assigns a fresh \<open>T()\<close> to the slot; what that assignment leaves of the
  old object is \<open>T\<close>'s move assignment, the parameter \<open>reset\<close>.  The slot's flag is not
  tested.
\<close>

definition heap_deallocate :: "('a \<Rightarrow> 'a) \<Rightarrow> nat \<Rightarrow> 'a small_heap \<Rightarrow> se_error + 'a small_heap" where
  "heap_deallocate reset i h =
     (if length (buffer h) \<le> i
      then Inl (Runtime_error ''Trying to return item to a heap that didn't allocate it!'')
      else Inr (h\<lparr>buffer := (buffer h)[i := reset (buffer h ! i)],
                  is_free := (is_free h)[i := True], heap_size := heap_size h - 1\<rparr>))"

definition heap_stop_allocating :: "'a small_heap \<Rightarrow> 'a small_heap" where
  "heap_stop_allocating h = h\<lparr>keep_allocating := False\<rparr>"

definition heap_empty :: "'a small_heap \<Rightarrow> bool" where
  "heap_empty h = (heap_size h = 0)"

text \<open>
  \<open>waitUntilEmpty\<close> sleeps on the condition variable while other threads operate on the
  heap; \<open>ops\<close> are the operations they perform meanwhile, and the wait ends as soon as the
  heap is empty.  \<open>None\<close>: it is still waiting after all of them.
\<close>

datatype heap_op = Alloc | Dealloc nat | Stop_alloc

definition heap_step :: "('a \<Rightarrow> 'a) \<Rightarrow> heap_op \<Rightarrow> 'a small_heap \<Rightarrow> se_error + 'a small_heap" where
  "heap_step reset op h =
     (case op of Alloc \<Rightarrow> Inr (snd (heap_allocate h))
      | Dealloc i \<Rightarrow> heap_deallocate reset i h
      | Stop_alloc \<Rightarrow> Inr (heap_stop_allocating h))"

fun heap_wait_until_empty ::
    "('a \<Rightarrow> 'a) \<Rightarrow> heap_op list \<Rightarrow> 'a small_heap \<Rightarrow> 'a small_heap option" where
  "heap_wait_until_empty reset [] h = (if heap_empty h then Some h else None)"
| "heap_wait_until_empty reset (op # ops) h =
     (if heap_empty h then Some h
      else case heap_step reset op h of
             Inl _ \<Rightarrow> heap_wait_until_empty reset ops h
           | Inr h' \<Rightarrow> heap_wait_until_empty reset ops h')"

section \<open>Invariant: the counter counts the slots in use\<close>

definition heap_used :: "'a small_heap \<Rightarrow> nat set" where
  "heap_used h = {i. i < length (is_free h) \<and> \<not> is_free h ! i}"

definition heap_inv :: "'a small_heap \<Rightarrow> bool" where
  "heap_inv h \<longleftrightarrow> length (is_free h) = length (buffer h)
     \<and> heap_size h = int (length (filter Not (is_free h)))"

lemma heap_inv_new [simp, intro]: "heap_inv (new_heap c t)"
  by (simp add: heap_inv_def new_heap_def)

lemma heap_used_new [simp]: "heap_used (new_heap c t) = {}"
  by (simp add: heap_used_def new_heap_def)

lemma finite_heap_used [simp, intro]: "finite (heap_used h)"
  by (simp add: heap_used_def)

lemma card_heap_used: "card (heap_used h) = length (filter Not (is_free h))"
  by (simp add: heap_used_def length_filter_conv_card)

lemma heap_size_card: "heap_inv h \<Longrightarrow> heap_size h = int (card (heap_used h))"
  by (simp add: heap_inv_def card_heap_used)

lemma first_free_Some:
  "first_free bs = Some i \<Longrightarrow> i < length bs \<and> bs ! i \<and> (\<forall>j<i. \<not> bs ! j)"
proof (induction bs arbitrary: i)
  case Nil
  then show ?case by simp
next
  case (Cons b bs)
  show ?case
  proof (cases b)
    case True
    with Cons.prems show ?thesis by simp
  next
    case False
    with Cons.prems obtain k where "first_free bs = Some k" "i = Suc k" by auto
    with Cons.IH False show ?thesis by (auto simp: nth_Cons split: nat.splits)
  qed
qed

lemma first_free_None: "first_free bs = None \<longleftrightarrow> (\<forall>i<length bs. \<not> bs ! i)"
  by (induction bs) (auto simp: nth_Cons split: nat.splits)

lemma heap_allocate_Some:
  assumes "heap_inv h" "heap_allocate h = (Some i, h')"
  shows "i \<notin> heap_used h" "heap_used h' = insert i (heap_used h)" "heap_inv h'"
    "i < length (buffer h)" "buffer h' = buffer h"
    "is_free h' = (is_free h)[i := False]" "keep_allocating h"
proof -
  from assms(2) have ff: "first_free (is_free h) = Some i"
    and ka: "keep_allocating h"
    and h': "h' = h\<lparr>is_free := (is_free h)[i := False], heap_size := heap_size h + 1\<rparr>"
    by (auto simp: heap_allocate_def split: if_splits option.splits)
  note i = first_free_Some [OF ff]
  show "i \<notin> heap_used h" using i by (simp add: heap_used_def)
  show "heap_used h' = insert i (heap_used h)"
    using i by (auto simp: heap_used_def h' nth_list_update)
  show "heap_inv h'"
    using assms(1) i length_filter_update [of i "is_free h" Not False]
    by (simp add: heap_inv_def h')
  show "i < length (buffer h)" using i assms(1) by (simp add: heap_inv_def)
  show "buffer h' = buffer h" "is_free h' = (is_free h)[i := False]" "keep_allocating h"
    using ka by (simp_all add: h')
qed

lemma heap_allocate_None:
  assumes "heap_allocate h = (None, h')"
  shows "h' = h" "\<not> keep_allocating h \<or> heap_used h = {0..<length (is_free h)}"
  using assms
  by (auto simp: heap_allocate_def heap_used_def first_free_None split: if_splits option.splits)

lemma heap_deallocate_used:
  assumes "heap_inv h" "i \<in> heap_used h"
  shows "\<exists>h'. heap_deallocate reset i h = Inr h' \<and> heap_inv h'
    \<and> heap_used h' = heap_used h - {i}"
proof -
  have i: "i < length (is_free h)" "\<not> is_free h ! i"
    using assms(2) by (auto simp: heap_used_def)
  then have "i < length (buffer h)" using assms(1) by (simp add: heap_inv_def)
  then show ?thesis
    using assms(1) i length_filter_update [of i "is_free h" Not True]
    by (auto simp: heap_deallocate_def heap_inv_def heap_used_def nth_list_update not_le)
qed

lemma heap_stop_allocating_inv [simp]:
  "heap_inv (heap_stop_allocating h) = heap_inv h"
  "heap_used (heap_stop_allocating h) = heap_used h"
  by (simp_all add: heap_stop_allocating_def heap_inv_def heap_used_def)

lemma heap_empty_used: "heap_inv h \<Longrightarrow> heap_empty h \<longleftrightarrow> heap_used h = {}"
  by (simp add: heap_empty_def heap_size_card)

section \<open>The slot allocator interface\<close>

text \<open>
  What the archive and the callback counter rely on: an allocated slot was not in use, it
  stays in use until it is returned, and returning it frees that slot alone.  The client
  lemmas follow a run of allocations and returns.
\<close>

locale slot_allocator =
  fixes alloc :: "'h \<Rightarrow> nat option \<times> 'h"
    and free :: "nat \<Rightarrow> 'h \<Rightarrow> se_error + 'h"
    and used :: "'h \<Rightarrow> nat set"
    and inv :: "'h \<Rightarrow> bool"
  assumes alloc_Some: "inv h \<Longrightarrow> alloc h = (Some i, h') \<Longrightarrow>
      i \<notin> used h \<and> used h' = insert i (used h) \<and> inv h'"
    and alloc_None: "inv h \<Longrightarrow> alloc h = (None, h') \<Longrightarrow> used h' = used h \<and> inv h'"
    and free_used: "inv h \<Longrightarrow> i \<in> used h \<Longrightarrow>
      \<exists>h'. free i h = Inr h' \<and> used h' = used h - {i} \<and> inv h'"
    and used_finite: "inv h \<Longrightarrow> finite (used h)"
begin

lemma alloc_inv: "inv h \<Longrightarrow> inv (snd (alloc h))"
  by (cases "alloc h") (metis alloc_None alloc_Some not_Some_eq snd_conv)

lemma alloc_mono: "inv h \<Longrightarrow> used h \<subseteq> used (snd (alloc h))"
  by (cases "alloc h") (metis alloc_None alloc_Some not_Some_eq snd_conv subset_insertI subset_refl)

lemma alloc_free_used:
  assumes "inv h" "alloc h = (Some i, h')"
  shows "\<exists>h''. free i h' = Inr h'' \<and> used h'' = used h \<and> inv h''"
proof -
  from alloc_Some [OF assms] have "i \<notin> used h" "used h' = insert i (used h)" "inv h'" by auto
  then show ?thesis using free_used [of h' i] by auto
qed

lemma alloc_card:
  "inv h \<Longrightarrow> alloc h = (Some i, h') \<Longrightarrow> card (used h') = Suc (card (used h))"
  using alloc_Some [of h i h'] used_finite [of h] by simp

text \<open>Returning a set of slots in use, in any order, succeeds and frees exactly those.\<close>

lemma free_all:
  "inv h \<Longrightarrow> distinct is \<Longrightarrow> set is \<subseteq> used h \<Longrightarrow>
   \<exists>h'. fold (\<lambda>i r. bind_result r (free i)) is (Inr h) = Inr h' \<and> used h' = used h - set is \<and> inv h'"
proof (induction "is" arbitrary: h)
  case Nil
  then show ?case by simp
next
  case (Cons i "is")
  obtain h1 where h1: "free i h = Inr h1" "used h1 = used h - {i}" "inv h1"
    using Cons.prems free_used [of h i] by auto
  with Cons.prems have "set is \<subseteq> used h1" "distinct is" by auto
  from Cons.IH [OF h1(3) this(2,1)] h1 show ?case by (auto simp: insert_Diff_if)
qed

end

interpretation heap: slot_allocator heap_allocate "heap_deallocate reset" heap_used heap_inv
  for reset
  by unfold_locales
    (auto dest: heap_allocate_Some heap_allocate_None heap_deallocate_used)

section \<open>Callback holders\<close>

text \<open>
  \<open>CallbacksHeap\<close> is a \<open>SmallHeap\<close> of one slot; \<open>begin_callback\<close> takes the slot
  (or none, when it is taken or the heap is stopped) and the holder's destructor returns it.
\<close>

type_synonym callbacks_heap = "unit small_heap"

definition new_callbacks :: callbacks_heap where
  "new_callbacks = new_heap 1 ()"

definition begin_callback :: "callbacks_heap \<Rightarrow> nat option \<times> callbacks_heap" where
  "begin_callback h = heap_allocate h"

definition end_callback :: "nat option \<Rightarrow> callbacks_heap \<Rightarrow> se_error + callbacks_heap" where
  "end_callback c h = (case c of None \<Rightarrow> Inr h | Some i \<Rightarrow> heap_deallocate id i h)"

lemma begin_end_callback:
  assumes "heap_inv h" "begin_callback h = (c, h')"
  shows "\<exists>h''. end_callback c h' = Inr h'' \<and> heap_used h'' = heap_used h \<and> heap_inv h''"
proof (cases c)
  case None
  with assms show ?thesis
    using heap.alloc_None [of h h'] by (auto simp: begin_callback_def end_callback_def)
next
  case (Some i)
  with assms show ?thesis
    using heap.alloc_free_used [of h i h' id] by (auto simp: begin_callback_def end_callback_def)
qed

end
