(* ===== verification/Consumer_Queue.thy ===== *)
theory Consumer_Queue
  imports Prelude "HOL-Library.Sublist"
begin

text \<open>
  \<open>ConsumerQueue<T>\<close> of \<open>src/concurrency/consumer_queue.h\<close>, the bounded queue between
  the threads of the library, and \<open>ConsumerFrameQueue\<close> of \<open>proc/syncer_process.h\<close>.

  Every method body runs under the queue's mutex, which a condition-variable wait gives up.
  A critical section is therefore one operation on the state, and what other threads do while
  a call waits is a list of critical sections (\<open>cq_op\<close>).  A waiting call looks at its
  predicate again only when one of those sections notifies its condition variable; a timed
  wait looks once more when it times out.
\<close>

section \<open>State and critical sections\<close>

record 'a cq =
  items :: "'a list"
  capacity :: nat
  accepting :: bool
  need_to_flush :: bool
  was_flushed :: bool

definition kQueueMaxSize :: nat where
  "kQueueMaxSize = 256"

definition new_cq :: "nat \<Rightarrow> 'a cq" where
  "new_cq c = \<lparr>items = [], capacity = c, accepting = True,
               need_to_flush = False, was_flushed = False\<rparr>"

definition cq_enqueue :: "'a \<Rightarrow> 'a cq \<Rightarrow> 'a cq" where
  "cq_enqueue x q =
     (if accepting q
      then let xs = items q @ [x]
           in q\<lparr>items := (if length xs > capacity q then tl xs else xs)\<rparr>
      else q)"

text \<open>The predicate a blocked producer waits for, and the push it then makes.\<close>

definition cq_can_push :: "'a cq \<Rightarrow> bool" where
  "cq_can_push q = (length (items q) < capacity q \<or> need_to_flush q)"

definition cq_push :: "'a \<Rightarrow> 'a cq \<Rightarrow> 'a cq" where
  "cq_push x q = q\<lparr>items := items q @ [x]\<rparr>"

text \<open>The entry of \<open>dequeue\<close>, the predicate a consumer waits for, and the read it then makes.\<close>

definition cq_deq_enter :: "'a cq \<Rightarrow> 'a cq" where
  "cq_deq_enter q = q\<lparr>accepting := True, was_flushed := True\<rparr>"

definition cq_ready :: "'a cq \<Rightarrow> bool" where
  "cq_ready q = (items q \<noteq> [] \<or> need_to_flush q)"

definition cq_take :: "'a cq \<Rightarrow> 'a option \<times> 'a cq" where
  "cq_take q = (case items q of [] \<Rightarrow> (None, q) | x # xs \<Rightarrow> (Some x, q\<lparr>items := xs\<rparr>))"

definition cq_try_dequeue :: "'a cq \<Rightarrow> 'a option \<times> 'a cq" where
  "cq_try_dequeue q = cq_take (q\<lparr>accepting := True\<rparr>)"

definition cq_pop_front :: "'a cq \<Rightarrow> 'a cq" where
  "cq_pop_front q = (if items q \<noteq> [] then q\<lparr>items := tl (items q)\<rparr> else q)"

definition cq_peek :: "'a cq \<Rightarrow> 'a option" where
  "cq_peek q = (case items q of [] \<Rightarrow> None | x # _ \<Rightarrow> Some x)"

definition cq_clear :: "'a cq \<Rightarrow> 'a cq" where
  "cq_clear q = q\<lparr>accepting := False, need_to_flush := True, items := []\<rparr>"

definition cq_start :: "'a cq \<Rightarrow> 'a cq" where
  "cq_start q = q\<lparr>need_to_flush := False, accepting := True\<rparr>"

definition cq_size :: "'a cq \<Rightarrow> nat" where
  "cq_size q = length (items q)"

lemmas cq_defs = cq_enqueue_def cq_can_push_def cq_push_def cq_deq_enter_def cq_ready_def
  cq_take_def cq_try_dequeue_def cq_pop_front_def cq_peek_def cq_clear_def cq_start_def cq_size_def

section \<open>Interleavings\<close>

text \<open>
  The critical sections: \<open>Push\<close> and \<open>Take\<close> are the second halves of
  \<open>blockingEnqueue\<close> and \<open>dequeue\<close>, which run only when their predicate holds.
\<close>

datatype 'a cq_op =
    Enqueue 'a
  | Push 'a
  | Deq_enter
  | Take
  | Try_dequeue
  | Pop_front
  | Clear
  | Start

fun cq_exec :: "'a cq_op \<Rightarrow> 'a cq \<Rightarrow> 'a cq" where
  "cq_exec (Enqueue x) q = cq_enqueue x q"
| "cq_exec (Push x) q = (if cq_can_push q then cq_push x q else q)"
| "cq_exec Deq_enter q = cq_deq_enter q"
| "cq_exec Take q = (if cq_ready q then snd (cq_take q) else q)"
| "cq_exec Try_dequeue q = snd (cq_try_dequeue q)"
| "cq_exec Pop_front q = cq_pop_front q"
| "cq_exec Clear q = cq_clear q"
| "cq_exec Start q = cq_start q"

text \<open>Which sections notify the consumers' and the producers' condition variables.\<close>

fun cq_notifies_deq :: "'a cq_op \<Rightarrow> 'a cq \<Rightarrow> bool" where
  "cq_notifies_deq (Enqueue x) q = True"
| "cq_notifies_deq (Push x) q = True"
| "cq_notifies_deq Clear q = True"
| "cq_notifies_deq _ q = False"

fun cq_notifies_enq :: "'a cq_op \<Rightarrow> 'a cq \<Rightarrow> bool" where
  "cq_notifies_enq Take q = (items q \<noteq> [])"
| "cq_notifies_enq Try_dequeue q = (items q \<noteq> [])"
| "cq_notifies_enq Clear q = True"
| "cq_notifies_enq _ q = False"

text \<open>
  A wait: \<open>(True, q', rest)\<close> when the predicate is found to hold after a notification,
  \<open>(False, q', [])\<close> when the call is still asleep after all the sections.
\<close>

fun cq_wait ::
    "('a cq \<Rightarrow> bool) \<Rightarrow> ('a cq_op \<Rightarrow> 'a cq \<Rightarrow> bool) \<Rightarrow> 'a cq_op list \<Rightarrow> 'a cq
      \<Rightarrow> bool \<times> 'a cq \<times> 'a cq_op list" where
  "cq_wait p n [] q = (False, q, [])"
| "cq_wait p n (oper # ops) q =
     (let q' = cq_exec oper q
      in if n oper q \<and> p q' then (True, q', ops) else cq_wait p n ops q')"

text \<open>
  \<open>dequeue(item, timeout)\<close>: \<open>ops\<close> is what the other threads do before the timeout.
  Both \<open>return false\<close> branches give no item.
\<close>

definition cq_dequeue :: "'a cq_op list \<Rightarrow> 'a cq \<Rightarrow> 'a option \<times> 'a cq" where
  "cq_dequeue ops q =
     (let q1 = cq_deq_enter q
      in if cq_ready q1 then cq_take q1
         else case cq_wait cq_ready cq_notifies_deq ops q1 of
                (True, q2, _) \<Rightarrow> cq_take q2
              | (False, q2, _) \<Rightarrow> if cq_ready q2 then cq_take q2 else (None, q2))"

text \<open>
  \<open>blockingEnqueue(item)\<close> has no timeout: \<open>None\<close> is a producer still asleep after
  \<open>ops\<close>.  \<open>accepting\<close> is tested before the wait only.
\<close>

definition cq_blocking_enqueue :: "'a \<Rightarrow> 'a cq_op list \<Rightarrow> 'a cq \<Rightarrow> 'a cq option" where
  "cq_blocking_enqueue x ops q =
     (if \<not> accepting q then Some q
      else if cq_can_push q then Some (cq_push x q)
      else case cq_wait cq_can_push cq_notifies_enq ops q of
             (True, q', _) \<Rightarrow> Some (cq_push x q')
           | (False, _, _) \<Rightarrow> None)"

text \<open>\<open>ConsumerFrameQueue::enqueue\<close> chooses by the frame's blocking flag.\<close>

definition cfq_enqueue :: "bool \<Rightarrow> 'a \<Rightarrow> 'a cq_op list \<Rightarrow> 'a cq \<Rightarrow> 'a cq option" where
  "cfq_enqueue is_blocking x ops q =
     (if is_blocking then cq_blocking_enqueue x ops q else Some (cq_enqueue x q))"

fun cq_run :: "'a cq_op list \<Rightarrow> 'a cq \<Rightarrow> 'a cq" where
  "cq_run [] q = q"
| "cq_run (oper # ops) q = cq_run ops (cq_exec oper q)"

lemma cq_run_append: "cq_run (xs @ ys) q = cq_run ys (cq_run xs q)"
  by (induction xs arbitrary: q) auto

section \<open>Order: what leaves the queue is what entered it, in order\<close>

text \<open>The items a section lets in, and what it hands to a consumer: the value the call returns.\<close>

fun cq_accepts :: "'a cq_op \<Rightarrow> 'a cq \<Rightarrow> 'a list" where
  "cq_accepts (Enqueue x) q = (if accepting q then [x] else [])"
| "cq_accepts (Push x) q = (if cq_can_push q then [x] else [])"
| "cq_accepts _ q = []"

fun cq_delivers :: "'a cq_op \<Rightarrow> 'a cq \<Rightarrow> 'a list" where
  "cq_delivers Take q = (if cq_ready q then somes [fst (cq_take q)] else [])"
| "cq_delivers Try_dequeue q = somes [fst (cq_try_dequeue q)]"
| "cq_delivers _ q = []"

fun cq_accepted :: "'a cq_op list \<Rightarrow> 'a cq \<Rightarrow> 'a list" where
  "cq_accepted [] q = []"
| "cq_accepted (oper # ops) q = cq_accepts oper q @ cq_accepted ops (cq_exec oper q)"

fun cq_delivered :: "'a cq_op list \<Rightarrow> 'a cq \<Rightarrow> 'a list" where
  "cq_delivered [] q = []"
| "cq_delivered (oper # ops) q = cq_delivers oper q @ cq_delivered ops (cq_exec oper q)"

lemma cq_exec_prefix:
  "\<exists>gone. gone @ items (cq_exec oper q) = items q @ cq_accepts oper q
     \<and> subseq (cq_delivers oper q) gone"
proof (cases oper)
  case (Enqueue x)
  show ?thesis
  proof (cases "accepting q \<and> length (items q @ [x]) > capacity q")
    case True
    then have "[hd (items q @ [x])] @ items (cq_exec oper q) = items q @ cq_accepts oper q"
      using Enqueue by (simp add: cq_enqueue_def Let_def)
    moreover have "cq_delivers oper q = []" using Enqueue by simp
    ultimately show ?thesis by (metis list_emb_Nil)
  next
    case False
    with Enqueue show ?thesis by (auto simp: cq_enqueue_def Let_def)
  qed
next
  case (Push x)
  then show ?thesis by (auto simp: cq_push_def)
next
  case Deq_enter
  then show ?thesis by (auto simp: cq_deq_enter_def)
next
  case Take
  then show ?thesis
    by (cases "items q") (auto simp: cq_take_def cq_ready_def)
next
  case Try_dequeue
  then show ?thesis
    by (cases "items q") (auto simp: cq_try_dequeue_def cq_take_def)
next
  case Pop_front
  then show ?thesis
    by (cases "items q") (auto simp: cq_pop_front_def)
next
  case Clear
  then show ?thesis by (auto simp: cq_clear_def)
next
  case Start
  then show ?thesis by (auto simp: cq_start_def)
qed

lemma cq_run_prefix:
  "\<exists>gone. gone @ items (cq_run ops q) = items q @ cq_accepted ops q
     \<and> subseq (cq_delivered ops q) gone"
proof (induction ops arbitrary: q)
  case Nil
  then show ?case by auto
next
  case (Cons oper ops)
  obtain g1 where g1: "g1 @ items (cq_exec oper q) = items q @ cq_accepts oper q"
    and s1: "subseq (cq_delivers oper q) g1"
    using cq_exec_prefix [of oper q] by auto
  obtain g2 where g2: "g2 @ items (cq_run ops (cq_exec oper q))
      = items (cq_exec oper q) @ cq_accepted ops (cq_exec oper q)"
    and s2: "subseq (cq_delivered ops (cq_exec oper q)) g2"
    using Cons.IH [of "cq_exec oper q"] by auto
  have "(g1 @ g2) @ items (cq_run (oper # ops) q) = items q @ cq_accepted (oper # ops) q"
    using g1 g2 by (metis append.assoc cq_accepted.simps(2) cq_run.simps(2))
  moreover have "subseq (cq_delivered (oper # ops) q) (g1 @ g2)"
    using s1 s2 by (simp add: list_emb_append_mono)
  ultimately show ?case by blast
qed

text \<open>The sections that lose nothing: an item leaves only to a consumer.\<close>

fun cq_lossless :: "'a cq_op \<Rightarrow> bool" where
  "cq_lossless (Enqueue x) = False"
| "cq_lossless Pop_front = False"
| "cq_lossless Clear = False"
| "cq_lossless _ = True"

lemma cq_exec_lossless:
  "cq_lossless oper \<Longrightarrow> cq_delivers oper q @ items (cq_exec oper q) = items q @ cq_accepts oper q"
  by (cases oper) (auto simp: cq_defs split: list.splits)

lemma cq_run_lossless:
  "list_all cq_lossless ops \<Longrightarrow> cq_delivered ops q @ items (cq_run ops q) = items q @ cq_accepted ops q"
proof (induction ops arbitrary: q)
  case (Cons oper ops)
  then have "cq_delivers oper q @ (cq_delivered ops (cq_exec oper q) @ items (cq_run ops (cq_exec oper q)))
      = (cq_delivers oper q @ items (cq_exec oper q)) @ cq_accepted ops (cq_exec oper q)" by simp
  also have "\<dots> = items q @ cq_accepts oper q @ cq_accepted ops (cq_exec oper q)"
    using Cons.prems by (simp add: cq_exec_lossless)
  finally show ?case by simp
qed simp

section \<open>Bounds\<close>

lemma cq_exec_capacity [simp]: "capacity (cq_exec oper q) = capacity q"
  by (cases oper) (auto simp: cq_defs Let_def split: list.splits)

lemma cq_run_capacity [simp]: "capacity (cq_run ops q) = capacity q"
  by (induction ops arbitrary: q) auto

lemma cq_exec_no_flush:
  "oper \<noteq> Clear \<Longrightarrow> \<not> need_to_flush q \<Longrightarrow> \<not> need_to_flush (cq_exec oper q)"
  by (cases oper) (auto simp: cq_defs Let_def split: list.splits)

lemma cq_exec_bounded:
  "\<not> need_to_flush q \<Longrightarrow> length (items q) \<le> capacity q \<Longrightarrow>
   length (items (cq_exec oper q)) \<le> capacity q"
  by (cases oper) (auto simp: cq_defs Let_def split: list.splits)

lemma cq_run_bounded:
  "Clear \<notin> set ops \<Longrightarrow> \<not> need_to_flush q \<Longrightarrow> length (items q) \<le> capacity q \<Longrightarrow>
   length (items (cq_run ops q)) \<le> capacity q"
proof (induction ops arbitrary: q)
  case Nil
  then show ?case by simp
next
  case (Cons oper ops)
  then have "\<not> need_to_flush (cq_exec oper q)"
    "length (items (cq_exec oper q)) \<le> capacity (cq_exec oper q)" "Clear \<notin> set ops"
    using cq_exec_no_flush [of oper q] cq_exec_bounded [of q oper] by auto
  from Cons.IH [OF this(3,1,2)] show ?case by simp
qed

lemma cq_enqueue_bounded:
  "length (items q) \<le> capacity q \<Longrightarrow> length (items (cq_enqueue x q)) \<le> capacity q"
  by (auto simp: cq_enqueue_def Let_def)

section \<open>Waiting\<close>

lemma cq_wait_run:
  "cq_wait p n ops q = (w, q', rest) \<Longrightarrow>
   \<exists>done. ops = done @ rest \<and> q' = cq_run done q \<and> (w \<longrightarrow> p q') \<and> (\<not> w \<longrightarrow> rest = [])"
proof (induction ops arbitrary: q)
  case Nil
  then show ?case by auto
next
  case (Cons oper ops)
  show ?case
  proof (cases "n oper q \<and> p (cq_exec oper q)")
    case True
    with Cons.prems have "w" "q' = cq_exec oper q" "rest = ops" by (auto simp: Let_def)
    with True show ?thesis by (intro exI [of _ "[oper]"]) auto
  next
    case False
    with Cons.prems have "cq_wait p n ops (cq_exec oper q) = (w, q', rest)"
      by (auto simp: Let_def)
    from Cons.IH [OF this] obtain d where
      "ops = d @ rest" "q' = cq_run d (cq_exec oper q)" "w \<longrightarrow> p q'" "\<not> w \<longrightarrow> rest = []"
      by auto
    then show ?thesis by (intro exI [of _ "oper # d"]) auto
  qed
qed

lemma cq_dequeue_now:
  "items q = x # xs \<Longrightarrow>
   cq_dequeue ops q = (Some x, q\<lparr>items := xs, accepting := True, was_flushed := True\<rparr>)"
  by (simp add: cq_dequeue_def cq_deq_enter_def cq_ready_def cq_take_def Let_def)

lemma cq_dequeue_flushing:
  "items q = [] \<Longrightarrow> need_to_flush q \<Longrightarrow> cq_dequeue ops q = (None, cq_deq_enter q)"
  by (simp add: cq_dequeue_def cq_deq_enter_def cq_ready_def cq_take_def Let_def)

lemma cq_dequeue_wakes:
  "items q = [] \<Longrightarrow> 0 < capacity q \<Longrightarrow> \<not> need_to_flush q \<Longrightarrow>
   fst (cq_dequeue (Enqueue x # ops) q) = Some x"
  by (simp add: cq_dequeue_def cq_deq_enter_def cq_ready_def cq_take_def cq_enqueue_def Let_def)

section \<open>The bounded FIFO interface\<close>

text \<open>
  What the aggregator and the frame queues rely on: an enqueue keeps the newest items, up
  to the capacity, and a dequeue hands over the oldest one.
\<close>

definition last_n :: "nat \<Rightarrow> 'a list \<Rightarrow> 'a list" where
  "last_n n xs = drop (length xs - n) xs"

lemma length_last_n [simp]: "length (last_n n xs) = min n (length xs)"
  by (simp add: last_n_def)

lemma last_n_all [simp]: "length xs \<le> n \<Longrightarrow> last_n n xs = xs"
  by (simp add: last_n_def)

lemma last_n_snoc: "length xs \<le> n \<Longrightarrow> last_n n (xs @ [x]) = (if length xs = n then tl (xs @ [x]) else xs @ [x])"
  by (cases xs) (auto simp: last_n_def)

lemma last_n_append_last_n: "last_n n (last_n n xs @ ys) = last_n n (xs @ ys)"
proof -
  have "drop k (drop m xs @ ys) = drop (k + m) (xs @ ys)" if "m \<le> length xs" for k m
    using that by (simp add: algebra_simps)
  then show ?thesis by (cases "length xs \<le> n") (auto simp: last_n_def add.commute)
qed

locale bounded_fifo =
  fixes enq :: "'a \<Rightarrow> 'q \<Rightarrow> 'q"
    and deq :: "'q \<Rightarrow> 'a option \<times> 'q"
    and contents :: "'q \<Rightarrow> 'a list"
    and cap :: "'q \<Rightarrow> nat"
    and inv :: "'q \<Rightarrow> bool"
  assumes enq_contents: "inv q \<Longrightarrow> contents (enq x q) = last_n (cap q) (contents q @ [x])"
    and enq_inv: "inv q \<Longrightarrow> inv (enq x q) \<and> cap (enq x q) = cap q"
    and deq_contents: "inv q \<Longrightarrow>
      (case contents q of [] \<Rightarrow> fst (deq q) = None \<and> contents (snd (deq q)) = []
       | x # xs \<Rightarrow> fst (deq q) = Some x \<and> contents (snd (deq q)) = xs)"
    and deq_inv: "inv q \<Longrightarrow> inv (snd (deq q)) \<and> cap (snd (deq q)) = cap q"
    and bounded: "inv q \<Longrightarrow> length (contents q) \<le> cap q"
begin

fun drain :: "nat \<Rightarrow> 'q \<Rightarrow> 'a list \<times> 'q" where
  "drain 0 q = ([], q)"
| "drain (Suc n) q =
     (case deq q of (None, q') \<Rightarrow> ([], q')
      | (Some x, q') \<Rightarrow> (let (xs, q'') = drain n q' in (x # xs, q'')))"

lemma enq_all:
  "inv q \<Longrightarrow> contents (fold enq xs q) = last_n (cap q) (contents q @ xs)
     \<and> inv (fold enq xs q) \<and> cap (fold enq xs q) = cap q"
proof (induction xs arbitrary: q)
  case Nil
  then show ?case using bounded by simp
next
  case (Cons x xs)
  have "inv (enq x q)" "cap (enq x q) = cap q"
    "contents (enq x q) = last_n (cap q) (contents q @ [x])"
    using Cons.prems enq_inv enq_contents by auto
  with Cons.IH [of "enq x q"] show ?case
    by (simp add: last_n_append_last_n)
qed

lemma drain_contents:
  "inv q \<Longrightarrow> length (contents q) \<le> n \<Longrightarrow> fst (drain n q) = contents q"
proof (induction n arbitrary: q)
  case 0
  then show ?case by simp
next
  case (Suc n)
  show ?case
  proof (cases "contents q")
    case Nil
    with Suc.prems deq_contents [of q] have "fst (deq q) = None" by simp
    with Nil show ?thesis by (cases "deq q") auto
  next
    case (Cons x xs)
    with Suc.prems deq_contents [of q] deq_inv [of q]
    have d: "fst (deq q) = Some x" "contents (snd (deq q)) = xs" "inv (snd (deq q))" by auto
    with Cons Suc.prems Suc.IH [of "snd (deq q)"] have "fst (drain n (snd (deq q))) = xs" by simp
    with d Cons show ?thesis by (cases "deq q") (auto split: prod.splits)
  qed
qed

lemma enq_drain:
  "inv q \<Longrightarrow> contents q = [] \<Longrightarrow> length xs \<le> cap q \<Longrightarrow>
   fst (drain (length xs) (fold enq xs q)) = xs"
  using enq_all [of q xs] drain_contents [of "fold enq xs q" "length xs"] by simp

end

definition cq_open :: "'a cq \<Rightarrow> bool" where
  "cq_open q \<longleftrightarrow> accepting q \<and> length (items q) \<le> capacity q"

lemma cq_enqueue_last_n:
  "cq_open q \<Longrightarrow> items (cq_enqueue x q) = last_n (capacity q) (items q @ [x])"
  by (auto simp: cq_open_def cq_enqueue_def Let_def last_n_snoc)

interpretation cq: bounded_fifo cq_enqueue cq_try_dequeue items capacity cq_open
proof unfold_locales
  fix q :: "'a cq" and x
  assume q: "cq_open q"
  show "items (cq_enqueue x q) = last_n (capacity q) (items q @ [x])"
    using q by (rule cq_enqueue_last_n)
  show "cq_open (cq_enqueue x q) \<and> capacity (cq_enqueue x q) = capacity q"
    using q cq_enqueue_bounded [of q x] by (auto simp: cq_open_def cq_enqueue_def Let_def)
  show "case items q of [] \<Rightarrow> fst (cq_try_dequeue q) = None \<and> items (snd (cq_try_dequeue q)) = []
        | x # xs \<Rightarrow> fst (cq_try_dequeue q) = Some x \<and> items (snd (cq_try_dequeue q)) = xs"
    by (auto simp: cq_try_dequeue_def cq_take_def split: list.splits)
  show "cq_open (snd (cq_try_dequeue q)) \<and> capacity (snd (cq_try_dequeue q)) = capacity q"
    using q by (auto simp: cq_open_def cq_try_dequeue_def cq_take_def split: list.splits)
  show "length (items q) \<le> capacity q" using q by (simp add: cq_open_def)
qed

section \<open>Properties\<close>

text \<open>C19: Whatever the threads do, what the queue holds is the end of what was put into it,
  in order, and the values that \<open>dequeue\<close> and \<open>tryDequeue\<close> returned are, in order, among those that
  left: nothing is delivered twice, reordered or made up.  When nothing is dropped, that is with only
  blocking producers, no \<open>popFront\<close> and no \<open>clear\<close>, every item that leaves is returned.\<close>

theorem queue_fifo_order:
  "(\<exists>gone. gone @ items (cq_run ops q) = items q @ cq_accepted ops q \<and> subseq (cq_delivered ops q) gone)
   \<and> (list_all cq_lossless ops \<longrightarrow> cq_delivered ops q @ items (cq_run ops q) = items q @ cq_accepted ops q)"
  using cq_run_prefix cq_run_lossless by blast

theorem queue_fifo_order_witness:
  "cq_delivered [Push 1, Deq_enter, Push 2, Take, Try_dequeue, Push 3] (new_cq 2) @ [3] = [1, 2, 3 :: nat]"
proof -
  let ?ops = "[Push 1, Deq_enter, Push 2, Take, Try_dequeue, Push 3] :: nat cq_op list"
  have "items (cq_run ?ops (new_cq 2)) = [3]" "items (new_cq 2 :: nat cq) @ cq_accepted ?ops (new_cq 2) = [1, 2, 3]"
    by (simp_all add: cq_defs new_cq_def)
  moreover have "list_all cq_lossless ?ops" by simp
  ultimately show ?thesis using queue_fifo_order [of ?ops "new_cq 2"] by simp
qed

text \<open>As long as the queue is not cleared it never holds more than its capacity, for any
  interleaving of enqueues, blocking pushes and dequeues.\<close>

theorem queue_within_capacity:
  assumes "Clear \<notin> set ops" and "\<not> need_to_flush q" and "length (items q) \<le> capacity q"
  shows "length (items (cq_run ops q)) \<le> capacity q"
  using assms by (rule cq_run_bounded)

theorem queue_within_capacity_witness:
  "length (items (cq_run [Enqueue (1::nat), Push 2, Enqueue 3, Deq_enter, Take] (new_cq 2)))
     \<le> capacity (new_cq 2 :: nat cq)"
  by (rule queue_within_capacity) (simp_all add: new_cq_def)

text \<open>C33: Enqueues on an accepting queue never fail: they keep the newest items up to the
  capacity, dropping the oldest ones.\<close>

theorem queue_enqueue_keeps_newest:
  assumes "cq_open q"
  shows "items (fold cq_enqueue xs q) = last_n (capacity q) (items q @ xs)"
  using cq.enq_all [OF assms] by blast

theorem queue_enqueue_keeps_newest_witness:
  "items (fold cq_enqueue [1, 2, 3 :: nat] (new_cq 2)) = last_n 2 [1, 2, 3]"
  using queue_enqueue_keeps_newest [of "new_cq 2 :: nat cq" "[1, 2, 3]"]
  by (simp add: cq_open_def new_cq_def)

text \<open>A producer blocked on a full queue is not stopped by clear(): clear() wakes it, and
  because blockingEnqueue tests accepting_ only before it waits, it pushes its item into the
  queue that was just cleared and no longer accepts items.\<close>

theorem blocked_producer_fills_cleared_queue:
  assumes "accepting q" and "\<not> cq_can_push q"
  shows "\<exists>q'. cq_blocking_enqueue x (Clear # ops) q = Some q' \<and> items q' = [x]
    \<and> \<not> accepting q' \<and> need_to_flush q'"
  using assms
  by (simp add: cq_blocking_enqueue_def cq_can_push_def cq_clear_def cq_push_def Let_def)

theorem blocked_producer_fills_cleared_queue_witness:
  "\<exists>q'. cq_blocking_enqueue (2::nat) [Clear, Deq_enter] (cq_enqueue 1 (new_cq 1)) = Some q'
    \<and> items q' = [2] \<and> \<not> accepting q' \<and> need_to_flush q'"
  by (rule blocked_producer_fills_cleared_queue)
    (simp_all add: new_cq_def cq_enqueue_def cq_can_push_def Let_def)

text \<open>popFront() makes room without notifying the producers: one blocked on a full queue
  sleeps on, however many items other threads pop that way.\<close>

theorem blocked_producer_misses_pop_front:
  assumes "accepting q" and "\<not> cq_can_push q"
  shows "cq_blocking_enqueue x (replicate n Pop_front) q = None"
proof -
  have "\<exists>q'. cq_wait cq_can_push cq_notifies_enq (replicate n Pop_front) r = (False, q', [])"
    for r :: "'a cq"
    by (induction n arbitrary: r) (auto simp: Let_def)
  then obtain q' where "cq_wait cq_can_push cq_notifies_enq (replicate n Pop_front) q = (False, q', [])"
    by blast
  with assms show ?thesis by (simp add: cq_blocking_enqueue_def)
qed

theorem blocked_producer_misses_pop_front_witness:
  "cq_blocking_enqueue (2::nat) (replicate 5 Pop_front) (cq_enqueue 1 (new_cq 1)) = None"
  by (rule blocked_producer_misses_pop_front)
    (simp_all add: new_cq_def cq_enqueue_def cq_can_push_def Let_def)

end
