(* ===== verification/Dispatcher.thy ===== *)
theory Dispatcher
  imports Consumer_Queue
begin

text \<open>
  The worker threads of \<open>src/concurrency\<close>: \<open>Dispatcher\<close> (one thread that runs queued
  tasks), \<open>RepeatOperation\<close> (a task that queues itself again) and \<open>Watchdog\<close>.

  The dispatcher is a step relation over three parties: the worker thread, the owner that
  calls \<open>start()\<close>, \<open>stop()\<close> and the destructor, and any number of callers of
  \<open>invoke()\<close>.  \<open>invoke()\<close> tests \<open>was_stopped_\<close> without a lock before it
  enqueues, so the test and the enqueue are two steps.  The callers are those that do not block, as the
  sensor's; a blocking enqueue is in \<open>Consumer_Queue\<close>.
\<close>

section \<open>State\<close>

text \<open>
  Where the worker is in its loop: at the \<open>while\<close> test, about to call \<open>dequeue\<close>,
  asleep in it, about to run a task, about to set \<open>was_flushed_\<close>, or returned.
\<close>

datatype 'a worker_pc = W_loop | W_enter | W_wait | W_run 'a | W_flag | W_done

text \<open>
  Where the owner is: between calls (running or stopped), after the first statement of
  \<open>start()\<close>, at one of the three later blocks of \<open>stop()\<close>, or in the destructor.
\<close>

datatype owner_pc = O_started | O_start_queue | O_clear | O_unflag | O_wait | O_stopped | O_join

record 'a disp =
  dqueue :: "'a cq"
  was_stopped :: bool
  flushed :: bool
  is_alive :: bool
  worker :: "'a worker_pc"
  owner :: owner_pc
  invoking :: "'a list"
  run_log :: "'a list"
  accept_log :: "'a list"
  late :: bool

text \<open>
  \<open>invoking\<close> are the calls of \<open>invoke()\<close> past their test; the logs record the
  tasks run and the tasks the queue accepted; \<open>late\<close> tells that a task was enqueued
  after \<open>stop()\<close> had set \<open>was_stopped_\<close>.
\<close>

definition new_disp :: "nat \<Rightarrow> 'a disp" where
  "new_disp cap = \<lparr>dqueue = new_cq cap, was_stopped = True, flushed = False, is_alive = True,
     worker = W_loop, owner = O_stopped, invoking = [], run_log = [], accept_log = [],
     late = False\<rparr>"

section \<open>The worker thread\<close>

text \<open>One iteration of the lambda of the constructor, step by step.\<close>

definition worker_read :: "'a disp \<Rightarrow> 'a disp" where
  "worker_read s =
     (case cq_take (dqueue s) of
        (Some x, q) \<Rightarrow> s\<lparr>dqueue := q, worker := W_run x\<rparr>
      | (None, q) \<Rightarrow> s\<lparr>dqueue := q, worker := W_flag\<rparr>)"

fun worker_step :: "'a disp \<Rightarrow> 'a disp" where
  "worker_step s =
     (case worker s of
        W_loop \<Rightarrow> s\<lparr>worker := (if is_alive s then W_enter else W_done)\<rparr>
      | W_enter \<Rightarrow>
          (let s1 = s\<lparr>dqueue := cq_deq_enter (dqueue s)\<rparr>
           in if cq_ready (dqueue s1) then worker_read s1 else s1\<lparr>worker := W_wait\<rparr>)
      | W_wait \<Rightarrow> worker_read s
      | W_run x \<Rightarrow> s\<lparr>run_log := run_log s @ [x], worker := W_flag\<rparr>
      | W_flag \<Rightarrow> s\<lparr>flushed := True, worker := W_loop\<rparr>
      | W_done \<Rightarrow> s)"

section \<open>Callers of invoke\<close>

definition invoke_test :: "'a \<Rightarrow> 'a disp \<Rightarrow> 'a disp" where
  "invoke_test x s = (if was_stopped s then s else s\<lparr>invoking := invoking s @ [x]\<rparr>)"

definition invoke_enqueue :: "'a \<Rightarrow> 'a disp \<Rightarrow> 'a disp" where
  "invoke_enqueue x s =
     s\<lparr>invoking := remove1 x (invoking s), dqueue := cq_enqueue x (dqueue s),
       accept_log := accept_log s @ (if accepting (dqueue s) then [x] else []),
       late := (late s \<or> was_stopped s)\<rparr>"

section \<open>The owner\<close>

text \<open>
  \<open>start()\<close> clears \<open>was_stopped_\<close> and then restarts the queue; \<open>stop()\<close> sets
  \<open>was_stopped_\<close>, clears the queue, clears \<open>was_flushed_\<close> and waits for the worker
  to set it; the destructor stops, clears once more and ends the worker.
\<close>

fun owner_step :: "'a disp \<Rightarrow> 'a disp" where
  "owner_step s =
     (case owner s of
        O_start_queue \<Rightarrow> s\<lparr>dqueue := cq_start (dqueue s), owner := O_started\<rparr>
      | O_clear \<Rightarrow> s\<lparr>dqueue := cq_clear (dqueue s), owner := O_unflag\<rparr>
      | O_unflag \<Rightarrow> s\<lparr>flushed := False, owner := O_wait\<rparr>
      | O_wait \<Rightarrow> (if flushed s then s\<lparr>owner := O_stopped\<rparr> else s)
      | _ \<Rightarrow> s)"

definition disp_start :: "'a disp \<Rightarrow> 'a disp" where
  "disp_start s = s\<lparr>was_stopped := False, owner := O_start_queue, late := False\<rparr>"

definition disp_stop :: "'a disp \<Rightarrow> 'a disp" where
  "disp_stop s = s\<lparr>was_stopped := True, owner := O_clear\<rparr>"

definition disp_destroy :: "'a disp \<Rightarrow> 'a disp" where
  "disp_destroy s = s\<lparr>dqueue := cq_clear (dqueue s), is_alive := False, owner := O_join\<rparr>"

inductive disp_step :: "'a disp \<Rightarrow> 'a disp \<Rightarrow> bool" where
  work: "worker s \<noteq> W_done \<Longrightarrow> disp_step s (worker_step s)"
| test: "disp_step s (invoke_test x s)"
| enqueue: "x \<in> set (invoking s) \<Longrightarrow> disp_step s (invoke_enqueue x s)"
| start: "owner s \<in> {O_started, O_stopped} \<Longrightarrow> disp_step s (disp_start s)"
| stop: "owner s \<in> {O_started, O_stopped} \<Longrightarrow> disp_step s (disp_stop s)"
| own: "disp_step s (owner_step s)"
| destroy: "owner s = O_stopped \<Longrightarrow> disp_step s (disp_destroy s)"

inductive disp_reachable :: "nat \<Rightarrow> 'a disp \<Rightarrow> bool" for cap where
  init: "disp_reachable cap (new_disp cap)"
| step: "disp_reachable cap s \<Longrightarrow> disp_step s s' \<Longrightarrow> disp_reachable cap s'"

inductive_cases disp_stepE: "disp_step s s'"

lemma disp_reachable_work: "disp_reachable cap s \<Longrightarrow> disp_reachable cap (worker_step s)"
  using disp_step.work [of s]
  by (cases "worker s = W_done") (auto intro: disp_reachable.step simp del: worker_step.simps,
      simp)

lemma disp_reachable_own: "disp_reachable cap s \<Longrightarrow> disp_reachable cap (owner_step s)"
  by (blast intro: disp_reachable.step disp_step.own)

lemma disp_reachable_works:
  "disp_reachable cap s \<Longrightarrow> disp_reachable cap ((worker_step ^^ n) s)"
  by (induction n) (auto intro: disp_reachable_work simp del: worker_step.simps)

lemma disp_reachable_owns:
  "disp_reachable cap s \<Longrightarrow> disp_reachable cap ((owner_step ^^ n) s)"
  by (induction n) (auto intro: disp_reachable_own simp del: owner_step.simps)

section \<open>A stopped dispatcher is quiet\<close>

definition holding :: "'a disp \<Rightarrow> 'a list" where
  "holding s = (case worker s of W_run x \<Rightarrow> [x] | _ \<Rightarrow> [])"

definition stop_inv :: "'a disp \<Rightarrow> bool" where
  "stop_inv s \<longleftrightarrow>
     (owner s \<in> {O_clear, O_unflag, O_wait, O_stopped, O_join} \<longrightarrow> was_stopped s)
   \<and> (owner s \<in> {O_unflag, O_wait, O_stopped, O_join} \<and> \<not> late s \<longrightarrow> items (dqueue s) = [])
   \<and> (owner s = O_wait \<and> flushed s \<and> \<not> late s \<longrightarrow> holding s = [])
   \<and> (owner s \<in> {O_stopped, O_join} \<and> \<not> late s \<longrightarrow> holding s = [])"

lemma worker_read_items:
  "items (dqueue s) = [] \<Longrightarrow>
   items (dqueue (worker_read s)) = [] \<and> worker (worker_read s) = W_flag"
  by (simp add: worker_read_def cq_take_def)

lemma worker_read_frame [simp]:
  "was_stopped (worker_read s) = was_stopped s" "flushed (worker_read s) = flushed s"
  "is_alive (worker_read s) = is_alive s" "owner (worker_read s) = owner s"
  "late (worker_read s) = late s" "run_log (worker_read s) = run_log s"
  "accept_log (worker_read s) = accept_log s"
  by (auto simp: worker_read_def split: prod.splits option.splits)

lemma worker_step_frame [simp]:
  "was_stopped (worker_step s) = was_stopped s" "owner (worker_step s) = owner s"
  "late (worker_step s) = late s" "is_alive (worker_step s) = is_alive s"
  "accept_log (worker_step s) = accept_log s"
  by (auto simp: Let_def split: worker_pc.splits)

lemma worker_step_empty:
  "items (dqueue s) = [] \<Longrightarrow> items (dqueue (worker_step s)) = []"
  by (auto simp: Let_def worker_read_def cq_take_def cq_deq_enter_def
      split: worker_pc.splits list.splits)

lemma worker_step_holding:
  "items (dqueue s) = [] \<Longrightarrow> holding s = [] \<Longrightarrow> holding (worker_step s) = []"
  by (auto simp: Let_def worker_read_def cq_take_def cq_deq_enter_def holding_def
      split: worker_pc.splits list.splits)

lemma worker_step_flushed:
  "flushed (worker_step s) \<Longrightarrow> \<not> flushed s \<Longrightarrow> holding (worker_step s) = []"
  by (auto simp: Let_def holding_def split: worker_pc.splits if_splits)

lemma stop_inv_work: "stop_inv s \<Longrightarrow> stop_inv (worker_step s)"
  using worker_step_empty [of s] worker_step_holding [of s] worker_step_flushed [of s]
  by (auto simp: stop_inv_def simp del: worker_step.simps)

lemma stop_inv_own: "stop_inv s \<Longrightarrow> stop_inv (owner_step s)"
  by (auto simp: stop_inv_def holding_def cq_clear_def split: owner_pc.splits)

lemma stop_inv_step: "disp_step s s' \<Longrightarrow> stop_inv s \<Longrightarrow> stop_inv s'"
proof (induction rule: disp_step.induct)
  case (work s)
  then show ?case by (blast intro: stop_inv_work)
next
  case (own s)
  then show ?case by (blast intro: stop_inv_own)
qed (auto simp: stop_inv_def holding_def invoke_test_def invoke_enqueue_def disp_start_def
      disp_stop_def disp_destroy_def cq_clear_def)

lemma stop_inv_reachable: "disp_reachable cap s \<Longrightarrow> stop_inv s"
proof (induction rule: disp_reachable.induct)
  case init
  show ?case by (simp add: stop_inv_def new_disp_def new_cq_def holding_def)
next
  case (step s s')
  then show ?case by (blast intro: stop_inv_step)
qed

section \<open>Tasks run at most once, in the order they were accepted\<close>

definition order_inv :: "'a disp \<Rightarrow> bool" where
  "order_inv s \<longleftrightarrow> subseq (run_log s @ holding s @ items (dqueue s)) (accept_log s)"

lemma order_inv_read:
  assumes "subseq (run_log s @ items (dqueue s)) (accept_log s)"
  shows "order_inv (worker_read s)"
  using assms
  by (cases "items (dqueue s)")
    (auto simp: order_inv_def worker_read_def cq_take_def holding_def)

lemma order_inv_work: "order_inv s \<Longrightarrow> order_inv (worker_step s)"
  by (cases "worker s")
    (auto simp: Let_def intro!: order_inv_read,
     auto simp: order_inv_def holding_def cq_deq_enter_def)

lemma subseq_enqueue:
  "subseq (xs @ items q) ys \<Longrightarrow>
   subseq (xs @ items (cq_enqueue x q)) (ys @ (if accepting q then [x] else []))"
proof -
  assume h: "subseq (xs @ items q) ys"
  then have "subseq (xs @ items q @ [x]) (ys @ [x])"
    using list_emb_append_mono [of "(=)" "xs @ items q" ys "[x]" "[x]"] by simp
  moreover have "subseq (xs @ tl (items q @ [x])) (xs @ items q @ [x])"
    by (cases "items q") (auto intro: list_emb_append_mono)
  ultimately show ?thesis
    using h by (auto simp: cq_enqueue_def Let_def intro: subseq_order.trans)
qed

lemma order_inv_clear:
  "order_inv s \<Longrightarrow> subseq (run_log s @ holding s) (accept_log s)"
  unfolding order_inv_def
  by (rule subseq_order.trans [of _ "(run_log s @ holding s) @ items (dqueue s)"]) auto

lemma order_inv_step: "disp_step s s' \<Longrightarrow> order_inv s \<Longrightarrow> order_inv s'"
proof (induction rule: disp_step.induct)
  case (work s)
  then show ?case by (blast intro: order_inv_work)
next
  case (enqueue x s)
  then show ?case
    using subseq_enqueue [of "run_log s @ holding s" "dqueue s" "accept_log s" x]
    by (simp add: order_inv_def invoke_enqueue_def holding_def)
next
  case (own s)
  then show ?case
    using order_inv_clear [of s]
    by (cases "owner s") (auto simp: order_inv_def holding_def cq_clear_def cq_start_def)
next
  case (destroy s)
  then show ?case
    using order_inv_clear [of s]
    by (auto simp: order_inv_def holding_def cq_clear_def disp_destroy_def)
qed (auto simp: order_inv_def holding_def invoke_test_def disp_start_def disp_stop_def)

lemma order_inv_reachable: "disp_reachable cap s \<Longrightarrow> order_inv s"
proof (induction rule: disp_reachable.induct)
  case init
  show ?case by (simp add: order_inv_def new_disp_def new_cq_def holding_def)
next
  case (step s s')
  then show ?case by (blast intro: order_inv_step)
qed

section \<open>stop returns\<close>

lemma worker_step_need_flush:
  "need_to_flush (dqueue s) \<Longrightarrow> need_to_flush (dqueue (worker_step s))"
  by (auto simp: Let_def worker_read_def cq_take_def cq_deq_enter_def
      split: worker_pc.splits list.splits)

text \<open>The worker lives until the destructor, and a caller of \<open>stop()\<close> is not there.\<close>

definition alive_inv :: "'a disp \<Rightarrow> bool" where
  "alive_inv s \<longleftrightarrow> (owner s \<noteq> O_join \<longrightarrow> is_alive s \<and> worker s \<noteq> W_done)"

lemma worker_step_alive: "is_alive s \<Longrightarrow> worker s \<noteq> W_done \<Longrightarrow> worker (worker_step s) \<noteq> W_done"
  by (auto simp: Let_def worker_read_def split: worker_pc.splits prod.splits option.splits)

lemma alive_inv_step: "disp_step s s' \<Longrightarrow> alive_inv s \<Longrightarrow> alive_inv s'"
proof (induction rule: disp_step.induct)
  case (work s)
  then show ?case using worker_step_alive [of s] by (auto simp: alive_inv_def simp del: worker_step.simps)
next
  case (own s)
  then show ?case by (cases "owner s") (auto simp: alive_inv_def)
qed (auto simp: alive_inv_def invoke_test_def invoke_enqueue_def disp_start_def disp_stop_def disp_destroy_def)

lemma alive_inv_reachable: "disp_reachable cap s \<Longrightarrow> alive_inv s"
proof (induction rule: disp_reachable.induct)
  case init
  show ?case by (simp add: alive_inv_def new_disp_def)
next
  case (step s s')
  then show ?case by (blast intro: alive_inv_step)
qed

text \<open>What the other threads do while the owner is in \<open>stop()\<close>: the worker and the callers of \<open>invoke()\<close>.\<close>

datatype 'a other_act = Worker | Invoke_test 'a | Invoke_enqueue 'a

fun other_step :: "'a other_act \<Rightarrow> 'a disp \<Rightarrow> 'a disp" where
  "other_step Worker s = worker_step s"
| "other_step (Invoke_test x) s = invoke_test x s"
| "other_step (Invoke_enqueue x) s = (if x \<in> set (invoking s) then invoke_enqueue x s else s)"

text \<open>How many of its steps the worker is from setting \<open>was_flushed_\<close> when the queue is flushing.\<close>

fun steps_to_flag :: "'a worker_pc \<Rightarrow> nat" where
  "steps_to_flag W_flag = 1"
| "steps_to_flag (W_run x) = 2"
| "steps_to_flag W_wait = 3"
| "steps_to_flag W_enter = 3"
| "steps_to_flag W_loop = 4"
| "steps_to_flag W_done = 0"

lemma steps_to_flag_read: "steps_to_flag (worker (worker_read s)) \<le> 2"
  by (auto simp: worker_read_def split: prod.splits option.splits)

lemma worker_comes_closer:
  assumes "need_to_flush (dqueue s)" "is_alive s" "worker s \<noteq> W_done"
  shows "flushed (worker_step s) \<or> steps_to_flag (worker (worker_step s)) < steps_to_flag (worker s)"
  using assms steps_to_flag_read [of "s\<lparr>dqueue := cq_deq_enter (dqueue s)\<rparr>"] steps_to_flag_read [of s]
  by (cases "worker s") (auto simp: Let_def cq_ready_def cq_deq_enter_def)

lemma worker_step_flag_kept: "flushed s \<Longrightarrow> flushed (worker_step s)"
  by (auto simp: Let_def split: worker_pc.splits)

lemma cq_enqueue_need_flush [simp]: "need_to_flush (cq_enqueue x q) = need_to_flush q"
  by (simp add: cq_enqueue_def Let_def)

lemma other_step_kept:
  "owner (other_step a s) = owner s" "is_alive (other_step a s) = is_alive s"
  "flushed s \<Longrightarrow> flushed (other_step a s)"
  "need_to_flush (dqueue s) \<Longrightarrow> need_to_flush (dqueue (other_step a s))"
  "is_alive s \<Longrightarrow> worker s \<noteq> W_done \<Longrightarrow> worker (other_step a s) \<noteq> W_done"
  by (cases a; auto simp: invoke_test_def invoke_enqueue_def worker_step_need_flush worker_step_flag_kept
      worker_step_alive simp del: worker_step.simps)+

definition other_steps :: "'a other_act list \<Rightarrow> 'a disp \<Rightarrow> 'a disp" where
  "other_steps as s = fold other_step as s"

lemma other_steps_kept:
  "owner (other_steps as s) = owner s" "is_alive (other_steps as s) = is_alive s"
  "flushed s \<Longrightarrow> flushed (other_steps as s)"
  "need_to_flush (dqueue s) \<Longrightarrow> need_to_flush (dqueue (other_steps as s))"
  "is_alive s \<Longrightarrow> worker s \<noteq> W_done \<Longrightarrow> worker (other_steps as s) \<noteq> W_done"
  unfolding other_steps_def
  by (induction as arbitrary: s) (simp_all add: other_step_kept)

lemma other_steps_flush:
  assumes "need_to_flush (dqueue s)" "is_alive s" "worker s \<noteq> W_done"
    and "steps_to_flag (worker s) \<le> length (filter (\<lambda>a. a = Worker) as)"
  shows "flushed (other_steps as s)"
  using assms
proof (induction as arbitrary: s)
  case Nil
  then show ?case by (cases "worker s") simp_all
next
  case (Cons a as)
  note kept = other_step_kept(4) [OF Cons.prems(1), of a] other_step_kept(2) [of a s]
    other_step_kept(5) [OF Cons.prems(2,3), of a]
  have run: "other_steps (a # as) s = other_steps as (other_step a s)" by (simp add: other_steps_def)
  show ?case
  proof (cases "flushed (other_step a s)")
    case True
    then show ?thesis unfolding run by (rule other_steps_kept(3))
  next
    case False
    have "steps_to_flag (worker (other_step a s)) \<le> length (filter (\<lambda>a. a = Worker) as)"
      using False worker_comes_closer [OF Cons.prems(1,2,3)] Cons.prems(4)
      by (cases a) (auto simp: invoke_test_def invoke_enqueue_def simp del: worker_step.simps)
    then show ?thesis unfolding run using kept Cons.prems(2) by (intro Cons.IH) auto
  qed
qed

lemma steps_to_flag_le: "steps_to_flag pc \<le> 4"
  by (cases pc) simp_all

section \<open>The watchdog\<close>

text \<open>
  \<open>Watchdog\<close> runs its check on a \<open>RepeatOperation\<close>: when the sleep was not cut
  short by a stop (\<open>trySleep\<close> returned true), the operation fires unless \<open>kick()\<close>
  was called since the last check, and the flag is cleared.
\<close>

record watchdog =
  kicked :: bool
  wd_running :: bool
  wd_timeout :: nat
  fired :: nat

definition new_watchdog :: "nat \<Rightarrow> watchdog" where
  "new_watchdog ms = \<lparr>kicked = False, wd_running = False, wd_timeout = ms, fired = 0\<rparr>"

datatype wd_event = Kick | Check bool | Wd_start | Wd_stop | Set_timeout nat

fun watchdog_step :: "wd_event \<Rightarrow> watchdog \<Rightarrow> watchdog" where
  "watchdog_step Kick w = w\<lparr>kicked := True\<rparr>"
| "watchdog_step (Check slept) w =
     (if slept
      then w\<lparr>fired := (if kicked w then fired w else Suc (fired w)), kicked := False\<rparr>
      else w)"
| "watchdog_step Wd_start w = w\<lparr>wd_running := True\<rparr>"
| "watchdog_step Wd_stop w = w\<lparr>wd_running := False\<rparr>"
| "watchdog_step (Set_timeout ms) w = w\<lparr>wd_timeout := ms\<rparr>"

fun watchdog_run :: "wd_event list \<Rightarrow> watchdog \<Rightarrow> watchdog" where
  "watchdog_run [] w = w"
| "watchdog_run (e # es) w = watchdog_run es (watchdog_step e w)"

lemma watchdog_run_append: "watchdog_run (xs @ ys) w = watchdog_run ys (watchdog_run xs w)"
  by (induction xs arbitrary: w) auto

text \<open>Between two checks: the flag tells whether there was a kick.\<close>

lemma watchdog_run_no_check:
  "Check True \<notin> set es \<Longrightarrow>
   kicked (watchdog_run es w) = (kicked w \<or> Kick \<in> set es) \<and> fired (watchdog_run es w) = fired w"
proof (induction es arbitrary: w)
  case Nil
  then show ?case by simp
next
  case (Cons e es)
  then show ?case by (cases e) auto
qed

section \<open>Properties\<close>

text \<open>C18: Once stop() has returned, and until the next start(), the dispatcher holds no
  task and its worker is not about to run one, unless a caller of invoke() had passed the
  was_stopped_ test before stop() set the flag and enqueued afterwards.\<close>

theorem dispatcher_stop_quiet:
  assumes "disp_reachable cap s" and "owner s = O_stopped" and "\<not> late s"
  shows "items (dqueue s) = [] \<and> (\<forall>x. worker s \<noteq> W_run x)"
proof -
  have "items (dqueue s) = []" "holding s = []"
    using stop_inv_reachable [OF assms(1)] assms(2,3) by (auto simp: stop_inv_def)
  then show ?thesis by (auto simp: holding_def)
qed

theorem dispatcher_stop_quiet_witness:
  "items (dqueue (new_disp 4 :: nat disp)) = [] \<and> (\<forall>x. worker (new_disp 4 :: nat disp) \<noteq> W_run x)"
  by (rule dispatcher_stop_quiet [OF disp_reachable.init]) (simp_all add: new_disp_def)

text \<open>The exception in the previous property is real: a caller that passed the test of
  invoke() before stop() can enqueue after stop() has returned, because the worker's own
  dequeue has set the queue's accepting_ flag again, and the worker then runs the task.\<close>

theorem dispatcher_runs_after_stop:
  "\<exists>s. disp_reachable 4 s \<and> owner s = O_stopped \<and> worker s = W_run (7 :: nat)"
proof -
  let ?s1 = "invoke_test 7 (owner_step (disp_start (new_disp 4 :: nat disp)))"
  let ?s2 = "(worker_step ^^ 4) ((owner_step ^^ 2) (disp_stop ?s1))"
  let ?s3 = "(worker_step ^^ 2) (owner_step ?s2)"
  let ?s4 = "(worker_step ^^ 2) (invoke_enqueue 7 ?s3)"
  have "disp_reachable 4 (disp_start (new_disp 4 :: nat disp))"
    by (rule disp_reachable.step [OF disp_reachable.init disp_step.start])
      (simp add: new_disp_def)
  then have "disp_reachable 4 ?s1"
    by (blast intro: disp_reachable_own disp_reachable.step disp_step.test)
  then have "disp_reachable 4 (disp_stop ?s1)"
    by (rule disp_reachable.step [OF _ disp_step.stop])
      (simp add: disp_start_def invoke_test_def)
  then have "disp_reachable 4 ?s3"
    by (intro disp_reachable_works disp_reachable_own disp_reachable_owns)
  moreover have "7 \<in> set (invoking ?s3)"
    by (simp add: numeral_eq_Suc disp_stop_def invoke_test_def disp_start_def new_disp_def new_cq_def
        cq_defs worker_read_def Let_def)
  ultimately have "disp_reachable 4 (invoke_enqueue 7 ?s3)"
    by (rule disp_reachable.step [OF _ disp_step.enqueue])
  then have "disp_reachable 4 ?s4" by (rule disp_reachable_works)
  moreover have "owner ?s4 = O_stopped \<and> worker ?s4 = W_run 7"
    by (simp add: numeral_eq_Suc disp_stop_def invoke_enqueue_def invoke_test_def disp_start_def
        new_disp_def new_cq_def cq_defs worker_read_def Let_def)
  ultimately show ?thesis by blast
qed

text \<open>C34: The tasks the worker has run, the one it is about to run and the ones still
  queued form, in that order, a subsequence of the tasks the queue accepted: no task runs
  twice or overtakes another.\<close>

theorem dispatcher_run_order:
  assumes "disp_reachable cap s"
  shows "subseq (run_log s @ holding s @ items (dqueue s)) (accept_log s)"
  using order_inv_reachable [OF assms] by (simp add: order_inv_def)

theorem dispatcher_run_order_witness:
  "subseq (run_log (new_disp 4 :: nat disp) @ holding (new_disp 4 :: nat disp)
     @ items (dqueue (new_disp 4 :: nat disp))) (accept_log (new_disp 4 :: nat disp))"
  by (rule dispatcher_run_order [OF disp_reachable.init])

text \<open>C35: stop() returns: called on a dispatcher in any reachable state outside start(), stop() and
  the destructor, its three blocks interleaved in any way with the worker and with callers of invoke(),
  it finds was_flushed_ set and returns after the worker has made four steps of its loop, wherever the
  worker was and however many tasks are enqueued meanwhile.\<close>

theorem dispatcher_stop_returns:
  assumes "disp_reachable cap s" and "owner s \<in> {O_started, O_stopped}"
    and "4 \<le> length (filter (\<lambda>a. a = Worker) as)"
  shows "owner (owner_step (other_steps as (owner_step (other_steps bs
           (owner_step (other_steps cs (disp_stop s))))))) = O_stopped"
proof -
  let ?s1 = "other_steps cs (disp_stop s)"
  let ?s2 = "other_steps bs (owner_step ?s1)"
  let ?s3 = "owner_step ?s2"
  have alive: "is_alive (disp_stop s)" "worker (disp_stop s) \<noteq> W_done"
    using alive_inv_reachable [OF assms(1)] assms(2) by (auto simp: alive_inv_def disp_stop_def)
  have s1: "owner ?s1 = O_clear" "is_alive ?s1" "worker ?s1 \<noteq> W_done"
    using alive by (simp_all add: other_steps_kept) (simp add: disp_stop_def)
  have "owner (owner_step ?s1) = O_unflag" "need_to_flush (dqueue (owner_step ?s1))"
    "is_alive (owner_step ?s1)" "worker (owner_step ?s1) \<noteq> W_done"
    using s1 by (simp_all add: cq_clear_def)
  then have s2: "owner ?s2 = O_unflag" "need_to_flush (dqueue ?s2)" "is_alive ?s2" "worker ?s2 \<noteq> W_done"
    by (simp_all add: other_steps_kept del: owner_step.simps)
  then have s3: "owner ?s3 = O_wait" "need_to_flush (dqueue ?s3)" "is_alive ?s3" "worker ?s3 \<noteq> W_done"
    by simp_all
  have "flushed (other_steps as ?s3)"
    using s3(2-4) assms(3) steps_to_flag_le [of "worker ?s3"] by (intro other_steps_flush) linarith+
  then show ?thesis using s3(1) by (simp add: other_steps_kept(1))
qed

theorem dispatcher_stop_returns_witness:
  "owner (owner_step (other_steps [Worker, Worker, Invoke_test 7, Worker, Worker]
     (owner_step (other_steps [Invoke_enqueue 7]
       (owner_step (other_steps [Worker] (disp_stop
         (invoke_test (7 :: nat) (owner_step (disp_start (new_disp 4)))))))))))
   = O_stopped"
proof (rule dispatcher_stop_returns)
  have "disp_reachable 4 (disp_start (new_disp 4 :: nat disp))"
    by (rule disp_reachable.step [OF disp_reachable.init disp_step.start]) (simp add: new_disp_def)
  then show "disp_reachable 4 (invoke_test (7 :: nat) (owner_step (disp_start (new_disp 4))))"
    by (blast intro: disp_reachable_own disp_reachable.step disp_step.test)
qed (simp_all add: disp_start_def new_disp_def invoke_test_def)

text \<open>Between two checks of the watchdog, the operation fires at the second one exactly
  when there was no kick in between.\<close>

theorem watchdog_fires_iff_not_kicked:
  assumes "Check True \<notin> set es"
  shows "fired (watchdog_run (Check True # es @ [Check True]) w)
      = fired (watchdog_run [Check True] w) + (if Kick \<in> set es then 0 else 1)"
  using watchdog_run_no_check [OF assms, of "watchdog_step (Check True) w"]
  by (simp add: watchdog_run_append)

theorem watchdog_fires_iff_not_kicked_witness:
  "fired (watchdog_run (Check True # [Wd_start, Kick] @ [Check True]) (new_watchdog 5000))
      = fired (watchdog_run [Check True] (new_watchdog 5000)) + 0"
  using watchdog_fires_iff_not_kicked [of "[Wd_start, Kick]" "new_watchdog 5000"] by simp

end
