(* ===== verification/Stream_Types.thy ===== *)
theory Stream_Types
  imports Prelude
begin

text \<open>
  Frame identifiers, formats and extension types of \<open>include/smartereye2\<close>
  (\<open>stream_types.hpp\<close>, \<open>se_types.hpp\<close>, \<open>core_types.hpp\<close>), stream profiles
  (\<open>src/streaming/stream_profile.*\<close>), and the selection of profiles by tag
  (\<open>SensorBase::getStreamProfiles\<close>, \<open>DevicePrivate::tagProfiles\<close>).
\<close>

section \<open>Frame identifiers and formats\<close>

text \<open>
  \<open>enum class FrameId : uint32_t\<close> is used as a bit set (\<open>|\<close> and \<open>&\<close> are
  overloaded on it), so it is the word itself.
\<close>

type_synonym frame_id = u32

definition fid_NotUsed :: frame_id where "fid_NotUsed = 0"
definition fid_LeftCamera :: frame_id where "fid_LeftCamera = push_bit 0 1"
definition fid_RightCamera :: frame_id where "fid_RightCamera = push_bit 1 1"
definition fid_CalibLeftCamera :: frame_id where "fid_CalibLeftCamera = push_bit 2 1"
definition fid_CalibRightCamera :: frame_id where "fid_CalibRightCamera = push_bit 3 1"
definition fid_Disparity :: frame_id where "fid_Disparity = push_bit 6 1"
definition fid_LDownSample :: frame_id where "fid_LDownSample = push_bit 12 1"
definition fid_RDownSample :: frame_id where "fid_RDownSample = push_bit 13 1"
definition fid_Lane :: frame_id where "fid_Lane = push_bit 16 1"
definition fid_Obstacle :: frame_id where "fid_Obstacle = push_bit 17 1"
definition fid_FreeSpace :: frame_id where "fid_FreeSpace = push_bit 18 1"
definition fid_TrafficSign :: frame_id where "fid_TrafficSign = push_bit 19 1"
definition fid_TrafficLight :: frame_id where "fid_TrafficLight = push_bit 20 1"
definition fid_J2Perception :: frame_id where "fid_J2Perception = push_bit 21 1"
definition fid_SmallObstacle :: frame_id where "fid_SmallObstacle = push_bit 22 1"
definition fid_Flatness :: frame_id where "fid_Flatness = push_bit 23 1"
definition fid_VehicleInfo :: frame_id where "fid_VehicleInfo = push_bit 24 1"
definition fid_Matrix :: frame_id where "fid_Matrix = push_bit 25 1"

lemmas fid_defs = fid_NotUsed_def fid_LeftCamera_def fid_RightCamera_def fid_CalibLeftCamera_def
  fid_CalibRightCamera_def fid_Disparity_def fid_LDownSample_def fid_RDownSample_def fid_Lane_def
  fid_Obstacle_def fid_FreeSpace_def fid_TrafficSign_def fid_TrafficLight_def fid_J2Perception_def
  fid_SmallObstacle_def fid_Flatness_def fid_VehicleInfo_def fid_Matrix_def

definition fid_or :: "frame_id \<Rightarrow> frame_id \<Rightarrow> frame_id" where
  "fid_or a b = a OR b"

definition fid_and :: "frame_id \<Rightarrow> frame_id \<Rightarrow> u32" where
  "fid_and a b = a AND b"

text \<open>\<open>enum class FrameFormat : int\<close>, cast from device values, so any \<open>int\<close>.\<close>

type_synonym frame_format = int

definition fmt_Any :: frame_format where "fmt_Any = -1"
definition fmt_Gray :: frame_format where "fmt_Gray = 0"
definition fmt_Color :: frame_format where "fmt_Color = 1"
definition fmt_YUV422 :: frame_format where "fmt_YUV422 = 2"
definition fmt_YUV422Planar :: frame_format where "fmt_YUV422Planar = 4"
definition fmt_Custom :: frame_format where "fmt_Custom = 65"
definition fmt_Disparity16 :: frame_format where "fmt_Disparity16 = 517"

definition kFrameFormat2bpp :: "frame_format \<rightharpoonup> int" where
  "kFrameFormat2bpp = [fmt_Gray \<mapsto> 1, fmt_Color \<mapsto> 3, fmt_YUV422 \<mapsto> 2,
     fmt_YUV422Planar \<mapsto> 2, fmt_Disparity16 \<mapsto> 2]"

definition getBppByFormat :: "frame_format \<Rightarrow> int" where
  "getBppByFormat f = (case kFrameFormat2bpp f of Some b \<Rightarrow> b | None \<Rightarrow> 0)"

text \<open>\<open>enum class SeExtension\<close>.\<close>

datatype se_extension =
    EXT_UNKNOWN | EXT_VIDEO_FRAME | EXT_MOTION_FRAME | EXT_COMPOSITE_FRAME | EXT_POINTS
  | EXT_DEPTH_FRAME | EXT_DISPARITY_FRAME | EXT_POSE_FRAME | EXT_JOURNEY_FRAME
  | EXT_OBSTACLE_FRAME | EXT_LANE_FRAME | EXT_FREESPACE_FRAME | EXT_SMALL_OBS_FRAME
  | EXT_TRAFFIC_SIGN_FRAME | EXT_TRAFFIC_LIGHT_FRAME | EXT_FLATNESS_FRAME
  | EXT_VEHICLE_INFO_FRAME | EXT_Matrix

text \<open>The order of the enumerators, by which a \<open>std::map\<close> keyed with them is iterated.\<close>

fun ext_rank :: "se_extension \<Rightarrow> nat" where
  "ext_rank EXT_UNKNOWN = 0" | "ext_rank EXT_VIDEO_FRAME = 1" | "ext_rank EXT_MOTION_FRAME = 2"
| "ext_rank EXT_COMPOSITE_FRAME = 3" | "ext_rank EXT_POINTS = 4" | "ext_rank EXT_DEPTH_FRAME = 5"
| "ext_rank EXT_DISPARITY_FRAME = 6" | "ext_rank EXT_POSE_FRAME = 7" | "ext_rank EXT_JOURNEY_FRAME = 8"
| "ext_rank EXT_OBSTACLE_FRAME = 9" | "ext_rank EXT_LANE_FRAME = 10"
| "ext_rank EXT_FREESPACE_FRAME = 11" | "ext_rank EXT_SMALL_OBS_FRAME = 12"
| "ext_rank EXT_TRAFFIC_SIGN_FRAME = 13" | "ext_rank EXT_TRAFFIC_LIGHT_FRAME = 14"
| "ext_rank EXT_FLATNESS_FRAME = 15" | "ext_rank EXT_VEHICLE_INFO_FRAME = 16"
| "ext_rank EXT_Matrix = 17"

definition ext_all :: "se_extension list" where
  "ext_all = [EXT_UNKNOWN, EXT_VIDEO_FRAME, EXT_MOTION_FRAME, EXT_COMPOSITE_FRAME, EXT_POINTS,
     EXT_DEPTH_FRAME, EXT_DISPARITY_FRAME, EXT_POSE_FRAME, EXT_JOURNEY_FRAME, EXT_OBSTACLE_FRAME,
     EXT_LANE_FRAME, EXT_FREESPACE_FRAME, EXT_SMALL_OBS_FRAME, EXT_TRAFFIC_SIGN_FRAME,
     EXT_TRAFFIC_LIGHT_FRAME, EXT_FLATNESS_FRAME, EXT_VEHICLE_INFO_FRAME, EXT_Matrix]"

lemma ext_all_rank: "ext_all ! ext_rank e = e"
  by (cases e) (simp_all add: ext_all_def)

lemma ext_rank_eq [simp]: "ext_rank a = ext_rank b \<longleftrightarrow> a = b"
  by (metis ext_all_rank)

instantiation se_extension :: linorder
begin

definition less_eq_se_extension :: "se_extension \<Rightarrow> se_extension \<Rightarrow> bool" where
  "less_eq_se_extension a b = (ext_rank a \<le> ext_rank b)"

definition less_se_extension :: "se_extension \<Rightarrow> se_extension \<Rightarrow> bool" where
  "less_se_extension a b = (ext_rank a < ext_rank b)"

instance
  by standard (auto simp: less_eq_se_extension_def less_se_extension_def simp flip: ext_rank_eq)

end

datatype timestamp_domain = HARDWARE_CLOCK | SYSTEM_TIME | GLOBAL_TIME

datatype frame_metadata_value = MD_None | MD_EmbeddedLine

section \<open>Stream profiles\<close>

text \<open>
  \<open>StreamProfileBase\<close> and its two subclasses.  Intrinsics and extrinsics are the
  bytes of the structs (48 and 28 bytes), \<open>None\<close> while default-constructed.
\<close>

datatype profile_kind = Base_profile | Video_profile int int | Motion_profile "u8 list"

record stream_profile =
  sp_index :: int
  sp_uid :: int
  sp_fps :: u32
  sp_frame_id :: frame_id
  sp_format :: frame_format
  sp_tag :: int
  sp_intrinsics :: "u8 list option"
  sp_extrinsics :: "u8 list option"
  sp_kind :: profile_kind

definition new_profile :: "profile_kind \<Rightarrow> stream_profile" where
  "new_profile k = \<lparr>sp_index = 1, sp_uid = 0, sp_fps = 0, sp_frame_id = fid_NotUsed,
     sp_format = fmt_Any, sp_tag = 0, sp_intrinsics = None, sp_extrinsics = None, sp_kind = k\<rparr>"

text \<open>The three \<open>clone()\<close> methods: each builds a default profile and copies some fields.\<close>

definition clone_profile :: "stream_profile \<Rightarrow> stream_profile" where
  "clone_profile p =
     (case sp_kind p of
        Base_profile \<Rightarrow> (new_profile Base_profile)\<lparr>sp_uid := sp_uid p + 1, sp_fps := sp_fps p\<rparr>
      | Video_profile w h \<Rightarrow> (new_profile (Video_profile w h))\<lparr>sp_uid := sp_uid p + 1,
          sp_intrinsics := sp_intrinsics p, sp_fps := sp_fps p\<rparr>
      | Motion_profile mi \<Rightarrow> (new_profile (Motion_profile mi))\<lparr>sp_uid := sp_uid p + 1,
          sp_fps := sp_fps p\<rparr>)"

text \<open>\<open>enum ProfileTag\<close> and the filter of \<open>SensorBase::getStreamProfiles\<close>.\<close>

definition PROFILE_TAG_ANY :: int where "PROFILE_TAG_ANY = 0"
definition PROFILE_TAG_SUPERSET :: int where "PROFILE_TAG_SUPERSET = 1"
definition PROFILE_TAG_DEFAULT :: int where "PROFILE_TAG_DEFAULT = 2"
definition PROFILE_TAG_CAPTURE :: int where "PROFILE_TAG_CAPTURE = 4"

definition getStreamProfiles :: "int \<Rightarrow> stream_profile list \<Rightarrow> stream_profile list" where
  "getStreamProfiles tag ps =
     (if tag = PROFILE_TAG_ANY then ps else filter (\<lambda>p. sp_tag p AND tag \<noteq> 0) ps)"

text \<open>
  \<open>DevicePrivate::tagProfiles\<close>.  The \<open>-1\<close> wildcards of the unsigned fields are
  the all-ones word, and the profile's signed dimensions are compared as unsigned.
\<close>

record tagged_profile =
  tp_frame_id :: frame_id
  tp_stream_index :: int
  tp_width :: u32
  tp_height :: u32
  tp_format :: frame_format
  tp_fps :: u32
  tp_tag :: int

definition tag_matches :: "tagged_profile \<Rightarrow> stream_profile \<Rightarrow> bool" where
  "tag_matches t p =
     (let common = (tp_frame_id t = fid_NotUsed \<or> sp_frame_id p = tp_frame_id t)
        \<and> (tp_format t = fmt_Any \<or> sp_format p = tp_format t)
        \<and> (tp_fps t = -1 \<or> sp_fps p = tp_fps t)
        \<and> (tp_stream_index t = -1 \<or> sp_index p = tp_stream_index t)
      in case sp_kind p of
           Video_profile w h \<Rightarrow> common
             \<and> (tp_width t = -1 \<or> word_of_int w = tp_width t)
             \<and> (tp_height t = -1 \<or> word_of_int h = tp_height t)
         | Motion_profile _ \<Rightarrow> common
         | Base_profile \<Rightarrow> False)"

fun tag_profile :: "tagged_profile list \<Rightarrow> stream_profile \<Rightarrow> stream_profile" where
  "tag_profile [] p = p"
| "tag_profile (t # ts) p =
     tag_profile ts (if tag_matches t p then p\<lparr>sp_tag := tp_tag t\<rparr> else p)"

definition tagProfiles :: "tagged_profile list \<Rightarrow> stream_profile list \<Rightarrow> stream_profile list" where
  "tagProfiles ts ps = map (tag_profile ts) ps"

lemma tag_matches_retag [simp]: "tag_matches t (p\<lparr>sp_tag := g\<rparr>) = tag_matches t p"
  by (simp add: tag_matches_def)

lemma tag_profile_filter:
  "tag_profile ts p =
     (case filter (\<lambda>t. tag_matches t p) ts of
        [] \<Rightarrow> p | ms \<Rightarrow> p\<lparr>sp_tag := tp_tag (last ms)\<rparr>)"
proof (induction ts arbitrary: p)
  case Nil
  then show ?case by simp
next
  case (Cons t ts)
  show ?case
    by (cases "tag_matches t p") (auto simp: Cons split: list.splits)
qed

section \<open>Properties\<close>

text \<open>tagProfiles gives every profile the tag of the last entry of the device's tag
  table that matches it, and leaves a profile no entry matches, and every other field,
  unchanged.\<close>

theorem tagProfiles_last_match:
  "tagProfiles ts ps =
     map (\<lambda>p. case filter (\<lambda>t. tag_matches t p) ts of
               [] \<Rightarrow> p | ms \<Rightarrow> p\<lparr>sp_tag := tp_tag (last ms)\<rparr>) ps"
  by (simp add: tagProfiles_def tag_profile_filter)

text \<open>A cloned profile never matches a request for the original's frame id, unless that
  is the NotUsed id: the three clone() methods keep the rate, but reset frame id, format,
  index and tag to the defaults.\<close>

theorem clone_profile_forgets:
  "sp_frame_id (clone_profile p) = fid_NotUsed \<and> sp_format (clone_profile p) = fmt_Any
   \<and> sp_index (clone_profile p) = 1 \<and> sp_tag (clone_profile p) = 0
   \<and> sp_fps (clone_profile p) = sp_fps p \<and> sp_uid (clone_profile p) = sp_uid p + 1
   \<and> sp_kind (clone_profile p) = sp_kind p"
  by (simp add: clone_profile_def new_profile_def split: profile_kind.splits)

end
