(* ===== verification/Frame_Store.thy ===== *)
theory Frame_Store
  imports Small_Heap Stream_Types
begin

text \<open>
  Reference-counted frames and the archives that own them: \<open>FrameData\<close> and
  \<open>CompositeFrameData\<close> (\<open>src/core/frame_data.*\<close>), \<open>FrameArchive\<close>
  (\<open>frame_archive.h\<close>) and \<open>FrameHolder\<close> (\<open>frame.h\<close>).

  The store is a list of archives.  A frame's address is its archive and its place there: a
  slot of the archive's pool, or an object made with \<open>new\<close>.  \<open>owner_\<close> is the archive
  that published the frame, the first component of its address.  A \<open>FrameHolder\<close> is an
  address or null; its constructors, moves and destructor become calls of \<open>acquire\<close>
  and \<open>release\<close>.
\<close>

section \<open>Frames\<close>

datatype loc = Slot nat | Obj nat

type_synonym addr = "nat \<times> loc"

text \<open>
  \<open>data_\<close> is a byte vector; a composite frame stores pointers to its children in it.
\<close>

datatype payload = Bytes "u8 list" | Children "addr option list"

text \<open>
  The time stamp is a \<open>double\<close>; every one the library stores is a 64-bit integer that was converted,
  so its value is an integer too (\<open>double_of\<close>).
\<close>

record frame_extension =
  fe_index :: u64
  fe_speed :: int
  fe_timestamp :: int
  fe_domain :: timestamp_domain
  fe_blocking :: bool
  fe_metadata_value :: frame_metadata_value
  fe_metadata_blob :: "u8 list"

definition new_extension :: frame_extension where
  "new_extension = \<lparr>fe_index = 0, fe_speed = 0, fe_timestamp = 0, fe_domain = SYSTEM_TIME,
     fe_blocking = False, fe_metadata_value = MD_None, fe_metadata_blob = []\<rparr>"

record frame =
  fr_payload :: payload
  fr_ext :: frame_extension
  ref_count :: int
  kept :: bool
  fixed :: bool
  frame_count :: nat
  fr_profile :: "stream_profile option"
  fr_sensor :: "nat option"
  fr_dims :: "int \<times> int \<times> int \<times> int"
  fr_items :: "u8 list list"

text \<open>
  \<open>fr_dims\<close> are width, height, bpp and stride of \<open>VideoFrameData\<close>; \<open>fr_items\<close> are
  the elements of the vectors the perception frame classes parse their data into, as bytes.
\<close>

definition new_frame :: frame where
  "new_frame = \<lparr>fr_payload = Bytes [], fr_ext = new_extension, ref_count = 0, kept = False,
     fixed = False, frame_count = 0, fr_profile = None, fr_sensor = None,
     fr_dims = (0, 0, 0, 0), fr_items = []\<rparr>"

text \<open>
  \<open>operator=(FrameData &&)\<close> moves the data, the extension, the reference count and
  the kept flag, and the implicit move assignments of the derived classes their own members;
  \<open>fixed_\<close>, \<open>stream_profile_\<close> and \<open>sensor_\<close> of the target stay as they are.
\<close>

definition frame_move :: "frame \<Rightarrow> frame \<Rightarrow> frame" where
  "frame_move target src =
     target\<lparr>fr_payload := fr_payload src, fr_ext := fr_ext src, ref_count := ref_count src,
            kept := kept src, frame_count := frame_count src,
            fr_dims := fr_dims src, fr_items := fr_items src\<rparr>"

definition frame_reset :: "frame \<Rightarrow> frame" where
  "frame_reset f = frame_move f new_frame"

definition children :: "frame \<Rightarrow> addr list" where
  "children f = (case fr_payload f of Bytes _ \<Rightarrow> []
     | Children cs \<Rightarrow> somes (take (frame_count f) cs))"

lemma set_somes: "set (somes xs) = {x. Some x \<in> set xs}"
  by (induction xs rule: somes.induct) auto

lemma somes_map_Some [simp]: "somes (map Some xs) = xs"
  by (induction xs) auto

section \<open>Archives\<close>

definition kUserQueueSize :: nat where
  "kUserQueueSize = 128"

record archive =
  published :: "frame small_heap"
  objs :: "frame option list"
  published_count :: u32
  max_queue :: u32
  callbacks :: callbacks_heap
  pending_frames :: int
  arc_sensor :: "nat option"

definition new_archive :: "u32 \<Rightarrow> archive" where
  "new_archive mx = \<lparr>published = new_heap kUserQueueSize new_frame, objs = [],
     published_count = 0, max_queue = mx, callbacks = new_callbacks, pending_frames = 0,
     arc_sensor = None\<rparr>"

definition arc_look :: "archive \<Rightarrow> loc \<Rightarrow> frame option" where
  "arc_look A l =
     (case l of
        Slot i \<Rightarrow> if i \<in> heap_used (published A) \<and> i < length (buffer (published A))
                  then Some (buffer (published A) ! i) else None
      | Obj n \<Rightarrow> if n < length (objs A) then objs A ! n else None)"

definition arc_put :: "loc \<Rightarrow> frame \<Rightarrow> archive \<Rightarrow> archive" where
  "arc_put l f A =
     (case l of
        Slot i \<Rightarrow> A\<lparr>published := (published A)\<lparr>buffer := (buffer (published A))[i := f]\<rparr>\<rparr>
      | Obj n \<Rightarrow> A\<lparr>objs := (objs A)[n := Some f]\<rparr>)"

text \<open>
  \<open>publish_frame\<close>: refuse when the user holds too many frames, take a pool slot (marked
  fixed) or make an object, count it, and move the back buffer into it.
\<close>

definition publish_frame :: "frame \<Rightarrow> archive \<Rightarrow> loc option \<times> archive" where
  "publish_frame cur A =
     (if 0 < max_queue A \<and> max_queue A \<le> published_count A then (None, A)
      else let A' = A\<lparr>published_count := published_count A + 1\<rparr>;
               (slot, h) = (if 0 < max_queue A then heap_allocate (published A)
                            else (None, published A))
           in case slot of
                Some i \<Rightarrow>
                  (Some (Slot i),
                   A'\<lparr>published := h\<lparr>buffer := (buffer h)[i := frame_move ((buffer h ! i)\<lparr>fixed := True\<rparr>) cur]\<rparr>\<rparr>)
              | None \<Rightarrow>
                  (Some (Obj (length (objs A))),
                   A'\<lparr>published := h, objs := objs A @ [Some (frame_move new_frame cur)]\<rparr>))"

text \<open>\<open>allocFrame\<close>: the back buffer, zeroed when memory is asked for.\<close>

definition alloc_back_buffer :: "nat \<Rightarrow> frame_extension \<Rightarrow> bool \<Rightarrow> frame" where
  "alloc_back_buffer sz ext requires_memory =
     new_frame\<lparr>fr_payload := Bytes (if requires_memory then replicate sz 0 else []),
               fr_ext := ext\<rparr>"

text \<open>\<open>keep_frame\<close> and \<open>unpublish_frame\<close> of the archive.\<close>

definition keep_frame :: "archive \<Rightarrow> archive" where
  "keep_frame A = A\<lparr>published_count := published_count A - 1\<rparr>"

definition unpublish_frame :: "loc \<Rightarrow> archive \<Rightarrow> se_error + archive" where
  "unpublish_frame l A =
     (case arc_look A l of
        None \<Rightarrow> Inl (Undefined ''use of a freed frame'')
      | Some f \<Rightarrow>
          let A1 = (if kept f then A else keep_frame A)
          in if fixed f
             then case l of
                    Slot i \<Rightarrow> bind_result (heap_deallocate frame_reset i (published A1))
                                (\<lambda>h. Inr (A1\<lparr>published := h\<rparr>))
                  | Obj n \<Rightarrow> Inl (Runtime_error ''Trying to return item to a heap that didn't allocate it!'')
             else case l of
                    Slot i \<Rightarrow> Inl (Undefined ''delete of a pool slot'')
                  | Obj n \<Rightarrow> Inr (A1\<lparr>objs := (objs A1)[n := None]\<rparr>))"

text \<open>
  \<open>flush\<close>: stop both pools, wait for the running callbacks (\<open>ops\<close> are the operations
  other threads do on the callback pool meanwhile), then note how many frames the user holds.
\<close>

definition arc_flush :: "heap_op list \<Rightarrow> archive \<Rightarrow> archive option" where
  "arc_flush ops A =
     (case heap_wait_until_empty id ops (heap_stop_allocating (callbacks A)) of
        None \<Rightarrow> None
      | Some c \<Rightarrow>
          let h = heap_stop_allocating (published A)
          in Some (A\<lparr>published := h, callbacks := c, pending_frames := heap_size h\<rparr>))"

lemma finite_dom_arc_look: "finite (dom (arc_look A))"
proof (rule finite_subset)
  show "dom (arc_look A) \<subseteq> Slot ` {..<length (buffer (published A))} \<union> Obj ` {..<length (objs A)}"
    by (auto simp: arc_look_def split: loc.splits if_splits)
qed auto

lemma arc_look_put:
  "arc_look A l = Some f \<Longrightarrow> arc_look (arc_put l g A) = (arc_look A)(l \<mapsto> g)"
  by (rule ext)
    (auto simp: arc_look_def arc_put_def heap_used_def nth_list_update split: loc.splits if_splits)

lemma arc_put_frame [simp]:
  "max_queue (arc_put l g A) = max_queue A" "published_count (arc_put l g A) = published_count A"
  "callbacks (arc_put l g A) = callbacks A"
  by (simp_all add: arc_put_def split: loc.splits)

lemma heap_inv_put [simp]:
  "heap_inv (published (arc_put l g A)) = heap_inv (published A)"
  by (simp add: arc_put_def heap_inv_def split: loc.splits)

lemma keep_frame_simps [simp]:
  "arc_look (keep_frame A) = arc_look A" "published (keep_frame A) = published A"
  "objs (keep_frame A) = objs A" "max_queue (keep_frame A) = max_queue A"
  "published_count (keep_frame A) = published_count A - 1"
  by (simp_all add: keep_frame_def arc_look_def fun_eq_iff split: loc.splits)

lemma unpublish_frame_look:
  assumes "unpublish_frame l A = Inr A'"
  shows "arc_look A' = (arc_look A)(l := None)" "max_queue A' = max_queue A"
proof -
  obtain f where f: "arc_look A l = Some f"
    using assms by (auto simp: unpublish_frame_def split: option.splits)
  show "arc_look A' = (arc_look A)(l := None)"
  proof (rule ext)
    fix x
    show "arc_look A' x = ((arc_look A)(l := None)) x"
      using assms f
      by (cases l; cases x)
        (auto simp: unpublish_frame_def Let_def arc_look_def heap_deallocate_def heap_used_def
          nth_list_update split: if_splits)
  qed
  show "max_queue A' = max_queue A"
    using assms f
    by (cases l)
      (auto simp: unpublish_frame_def Let_def heap_deallocate_def split: if_splits)
qed

text \<open>The two ways a publication can succeed.\<close>

lemma publish_frame_cases:
  assumes "publish_frame cur A = (Some l, A')"
  obtains (pool) i h where "heap_allocate (published A) = (Some i, h)" "l = Slot i"
      "A' = A\<lparr>published_count := published_count A + 1,
         published := h\<lparr>buffer := (buffer h)[i := frame_move ((buffer h ! i)\<lparr>fixed := True\<rparr>) cur]\<rparr>\<rparr>"
      "published_count A < max_queue A"
  | (obj) "l = Obj (length (objs A))"
      "A' = A\<lparr>published_count := published_count A + 1,
         objs := objs A @ [Some (frame_move new_frame cur)]\<rparr>"
      "max_queue A = 0 \<or> published_count A < max_queue A"
proof (cases "0 < max_queue A \<and> (\<exists>i h. heap_allocate (published A) = (Some i, h))")
  case True
  then obtain i h where ih: "heap_allocate (published A) = (Some i, h)" and m: "0 < max_queue A"
    by blast
  have g: "published_count A < max_queue A"
    using assms m by (auto simp: publish_frame_def not_le split: if_splits)
  then show ?thesis using assms ih m pool [of i h]
    by (simp add: publish_frame_def not_le [symmetric])
next
  case False
  have g: "max_queue A = 0 \<or> published_count A < max_queue A"
    using assms word_neq_0_conv [of "max_queue A"]
    by (cases "0 < max_queue A") (auto simp: publish_frame_def not_le split: if_splits)
  have "\<exists>h. (if 0 < max_queue A then heap_allocate (published A) else (None, published A)) = (None, h)
      \<and> h = published A"
  proof (cases "0 < max_queue A")
    case True
    with False obtain h where "heap_allocate (published A) = (None, h)"
      by (cases "heap_allocate (published A)") (metis not_Some_eq)
    with True show ?thesis using heap_allocate_None(1) by auto
  qed simp
  then have "publish_frame cur A = (Some (Obj (length (objs A))),
      A\<lparr>published_count := published_count A + 1,
         objs := objs A @ [Some (frame_move new_frame cur)]\<rparr>)"
    using g by (auto simp: publish_frame_def Let_def not_le [symmetric] split: prod.splits)
  with assms g show ?thesis by (intro obj) auto
qed

fun is_slot :: "loc \<Rightarrow> bool" where
  "is_slot (Slot i) = True"
| "is_slot (Obj n) = False"

text \<open>What publication keeps of the back buffer.\<close>

definition copy_of :: "frame \<Rightarrow> frame \<Rightarrow> bool" where
  "copy_of cur g \<longleftrightarrow> fr_payload g = fr_payload cur \<and> fr_ext g = fr_ext cur
     \<and> ref_count g = ref_count cur \<and> kept g = kept cur \<and> frame_count g = frame_count cur \<and> fr_items g = fr_items cur"

lemma copy_of_move [simp]: "copy_of cur (frame_move t cur)"
  by (simp add: copy_of_def frame_move_def)

lemma fixed_move [simp]: "fixed (frame_move t cur) = fixed t" "fixed new_frame = False"
  by (simp_all add: frame_move_def new_frame_def)

lemma publish_frame_spec:
  assumes "publish_frame cur A = (Some l, A')" "heap_inv (published A)"
  shows "\<exists>g. arc_look A l = None \<and> arc_look A' = (arc_look A)(l \<mapsto> g) \<and> copy_of cur g
    \<and> fixed g = is_slot l \<and> heap_inv (published A')"
  using assms(1)
proof (cases rule: publish_frame_cases)
  case (pool i h)
  note h = heap_allocate_Some [OF assms(2) pool(1)]
  let ?g = "frame_move ((buffer h ! i)\<lparr>fixed := True\<rparr>) cur"
  have "arc_look A' = (arc_look A)(l \<mapsto> ?g)"
    using pool h by (auto simp: arc_look_def fun_eq_iff heap_used_def nth_list_update split: loc.splits)
  moreover have "heap_inv (published A')"
    using pool h by (simp add: heap_inv_def)
  moreover have "arc_look A l = None"
    using pool h by (simp add: arc_look_def)
  ultimately show ?thesis using pool by (intro exI [of _ ?g]) simp
next
  case obj
  let ?g = "frame_move new_frame cur"
  have "arc_look A' = (arc_look A)(l \<mapsto> ?g)"
    using obj by (auto simp: arc_look_def fun_eq_iff nth_append split: loc.splits)
  moreover have "arc_look A l = None" using obj by (simp add: arc_look_def)
  ultimately show ?thesis using obj assms(2) by (intro exI [of _ ?g]) simp
qed

lemma publish_frame_count:
  assumes "publish_frame cur A = (Some l, A')"
  shows "published_count A' = published_count A + 1" "max_queue A' = max_queue A"
    "max_queue A = 0 \<or> published_count A < max_queue A" "callbacks A' = callbacks A"
  using assms by (auto elim!: publish_frame_cases)

lemma publish_frame_refused:
  "publish_frame cur A = (None, A') \<Longrightarrow>
   A' = A \<and> 0 < max_queue A \<and> max_queue A \<le> published_count A"
  by (auto simp: publish_frame_def Let_def split: if_splits prod.splits option.splits)

end
