(* ===== verification/Frame_Refs.thy ===== *)
theory Frame_Refs
  imports Frame_Store
begin

text \<open>
  The operations of \<open>FrameData\<close> on the store of archives (\<open>acquire\<close>,
  \<open>release\<close>, \<open>keep\<close>, allocation, \<open>SyntheticSource::allocateCompositeFrame\<close>), the
  reference-counting invariant, and what holders may rely on: a held frame is live, every
  release succeeds, and dropping the last holder frees everything it kept alive.
\<close>

section \<open>The store\<close>

type_synonym store = "archive list"

definition look :: "store \<Rightarrow> addr \<Rightarrow> frame option" where
  "look st a = (if fst a < length st then arc_look (st ! fst a) (snd a) else None)"

definition put :: "addr \<Rightarrow> frame \<Rightarrow> store \<Rightarrow> store" where
  "put a f st = st[fst a := arc_put (snd a) f (st ! fst a)]"

definition unpublish :: "addr \<Rightarrow> store \<Rightarrow> se_error + store" where
  "unpublish a st =
     (if fst a < length st
      then bind_result (unpublish_frame (snd a) (st ! fst a)) (\<lambda>A. Inr (st[fst a := A]))
      else Inl (Undefined ''use of a freed frame''))"

section \<open>The frame memory interface\<close>

text \<open>
  What the reference counting relies on: a write changes one live cell, a disposal empties
  one, and there are finitely many.  The sum of all reference counts is the measure under
  which a cascade of releases ends.
\<close>

locale frame_memory =
  fixes lk :: "'s \<Rightarrow> 'a \<Rightarrow> frame option"
    and wr :: "'a \<Rightarrow> frame \<Rightarrow> 's \<Rightarrow> 's"
    and kill :: "'a \<Rightarrow> 's \<Rightarrow> se_error + 's"
  assumes lk_wr: "lk s a = Some f \<Longrightarrow> lk (wr a g s) = (lk s)(a \<mapsto> g)"
    and lk_kill: "kill a s = Inr s' \<Longrightarrow> lk s' = (lk s)(a := None)"
    and finite_lk: "finite (dom (lk s))"
begin

definition refs :: "'s \<Rightarrow> nat" where
  "refs s = (\<Sum>a\<in>dom (lk s). nat (ref_count (the (lk s a))))"

lemma refs_wr:
  assumes "lk s a = Some f"
  shows "refs (wr a g s) + nat (ref_count f) = refs s + nat (ref_count g)"
proof -
  have dom: "dom (lk (wr a g s)) = dom (lk s)" and a: "a \<in> dom (lk s)"
    using assms lk_wr [OF assms] by auto
  have "refs (wr a g s) = nat (ref_count g)
      + (\<Sum>b\<in>dom (lk s) - {a}. nat (ref_count (the (lk (wr a g s) b))))"
    unfolding refs_def dom
    using sum.remove [OF finite_lk a, of "\<lambda>b. nat (ref_count (the (lk (wr a g s) b)))"]
    by (simp add: lk_wr [OF assms])
  also have "(\<Sum>b\<in>dom (lk s) - {a}. nat (ref_count (the (lk (wr a g s) b))))
      = (\<Sum>b\<in>dom (lk s) - {a}. nat (ref_count (the (lk s b))))"
    by (rule sum.cong) (auto simp: lk_wr [OF assms])
  finally show ?thesis
    unfolding refs_def
    using sum.remove [OF finite_lk a, of "\<lambda>b. nat (ref_count (the (lk s b)))"] assms by simp
qed

lemma refs_kill:
  assumes "kill a s = Inr s'"
  shows "refs s' \<le> refs s"
proof -
  have "refs s' = (\<Sum>b\<in>dom (lk s) - {a}. nat (ref_count (the (lk s b))))"
    unfolding refs_def using lk_kill [OF assms] by (intro sum.cong) auto
  also have "\<dots> \<le> refs s"
    unfolding refs_def by (rule sum_mono2 [OF finite_lk]) auto
  finally show ?thesis .
qed

end

lemma look_put: "look st a = Some f \<Longrightarrow> look (put a g st) = (look st)(a \<mapsto> g)"
proof (rule ext)
  fix b
  assume a: "look st a = Some f"
  then have "fst a < length st" "arc_look (st ! fst a) (snd a) = Some f"
    by (auto simp: look_def split: if_splits)
  then show "look (put a g st) b = ((look st)(a \<mapsto> g)) b"
    using arc_look_put [of "st ! fst a" "snd a" f g]
    by (cases a; cases b) (auto simp: look_def put_def nth_list_update)
qed

lemma look_unpublish: "unpublish a st = Inr st' \<Longrightarrow> look st' = (look st)(a := None)"
proof (rule ext)
  fix b
  assume "unpublish a st = Inr st'"
  then obtain A where "fst a < length st" "unpublish_frame (snd a) (st ! fst a) = Inr A"
    "st' = st[fst a := A]"
    by (auto simp: unpublish_def bind_result_Inr split: if_splits)
  then show "look st' b = ((look st)(a := None)) b"
    using unpublish_frame_look(1) [of "snd a" "st ! fst a" A]
    by (cases a; cases b) (auto simp: look_def nth_list_update)
qed

lemma finite_dom_look: "finite (dom (look st))"
proof (rule finite_subset)
  show "dom (look st) \<subseteq> {..<length st} \<times> (\<Union>k<length st. dom (arc_look (st ! k)))"
    by (auto simp: look_def dom_def split: if_splits)
  show "finite ({..<length st} \<times> (\<Union>k<length st. dom (arc_look (st ! k))))"
    by (simp add: finite_dom_arc_look)
qed

interpretation mem: frame_memory look put unpublish
  by unfold_locales (auto simp: look_put look_unpublish finite_dom_look)

section \<open>acquire, release, keep\<close>

definition acquire :: "addr \<Rightarrow> store \<Rightarrow> se_error + store" where
  "acquire a st =
     (case look st a of
        None \<Rightarrow> Inl (Undefined ''use of a freed frame'')
      | Some f \<Rightarrow> Inr (put a (f\<lparr>ref_count := ref_count f + 1\<rparr>) st))"

text \<open>
  \<open>release()\<close>: the thread that takes the count from one to zero releases the children of a
  composite frame, in order, and then unpublishes the frame.  The pending calls of that
  recursion are a worklist.
\<close>

datatype release_call = Rel addr | Unpub addr

function run_release :: "release_call list \<Rightarrow> store \<Rightarrow> se_error + store" where
  "run_release [] st = Inr st"
| "run_release (Rel a # ws) st =
     (case look st a of
        None \<Rightarrow> Inl (Undefined ''use of a freed frame'')
      | Some f \<Rightarrow>
          let st' = put a (f\<lparr>ref_count := ref_count f - 1\<rparr>) st
          in if ref_count f = 1
             then run_release (map Rel (children f) @ Unpub a # ws) st'
             else run_release ws st')"
| "run_release (Unpub a # ws) st =
     (case unpublish a st of Inl e \<Rightarrow> Inl e | Inr st' \<Rightarrow> run_release ws st')"
  by pat_completeness auto
termination
proof (relation "measures [\<lambda>(ws, st). mem.refs st, \<lambda>(ws, st). length ws]", goal_cases)
  case 1
  show ?case by simp
next
  case (2 a ws st f st')
  then have "mem.refs st' + nat (ref_count f) = mem.refs st + nat (ref_count f - 1)"
    using mem.refs_wr [of st a f] by simp
  with 2 show ?case by simp
next
  case (3 a ws st f st')
  then have "mem.refs st' + nat (ref_count f) = mem.refs st + nat (ref_count f - 1)"
    using mem.refs_wr [of st a f] by simp
  moreover have "nat (ref_count f - 1) \<le> nat (ref_count f)" by simp
  ultimately show ?case by auto
next
  case (4 a ws st st')
  then show ?case using mem.refs_kill [of a st st'] by auto
qed

definition release :: "addr \<Rightarrow> store \<Rightarrow> se_error + store" where
  "release a st = run_release [Rel a] st"

definition keep :: "addr \<Rightarrow> store \<Rightarrow> se_error + store" where
  "keep a st =
     (case look st a of
        None \<Rightarrow> Inl (Undefined ''use of a freed frame'')
      | Some f \<Rightarrow>
          if kept f then Inr st
          else let st' = put a (f\<lparr>kept := True\<rparr>) st
               in Inr (st'[fst a := keep_frame (st' ! fst a)]))"

section \<open>Allocation\<close>

text \<open>\<open>alloc_and_track\<close>: publish the back buffer and take the first reference.\<close>

definition alloc_and_track ::
    "nat \<Rightarrow> nat \<Rightarrow> frame_extension \<Rightarrow> bool \<Rightarrow> store \<Rightarrow> se_error + addr option \<times> store" where
  "alloc_and_track k sz ext requires_memory st =
     (if k < length st
      then case publish_frame (alloc_back_buffer sz ext requires_memory) (st ! k) of
             (None, A) \<Rightarrow> Inr (None, st[k := A])
           | (Some l, A) \<Rightarrow>
               bind_result (acquire (k, l) (st[k := A])) (\<lambda>st'. Inr (Some (k, l), st'))
      else Inl (Runtime_error ''Requested frame type is not supported!''))"

text \<open>
  \<open>allocateCompositeFrame(holders)\<close>: \<open>k\<close> is the composite archive.  When the frame is
  refused, the vector of holders is destroyed and releases them all; otherwise the holders'
  pointers move into the frame.  \<open>isBlocking()\<close> dereferences every holder.
\<close>

definition allocate_composite ::
    "nat \<Rightarrow> addr option list \<Rightarrow> store \<Rightarrow> se_error + addr option \<times> store" where
  "allocate_composite k hs st =
     bind_result (alloc_and_track k (8 * length hs) new_extension True st)
       (\<lambda>(r, st1).
          case r of
            None \<Rightarrow> bind_result (run_release (map Rel (somes hs)) st1) (\<lambda>st2. Inr (None, st2))
          | Some a \<Rightarrow>
              if None \<in> set hs then Inl (Undefined ''null frame holder'')
              else (case look st1 a of
                     None \<Rightarrow> Inl (Undefined ''use of a freed frame'')
                   | Some f \<Rightarrow>
                       let blocking = list_ex (\<lambda>h. (case look st1 h of
                             None \<Rightarrow> False | Some g \<Rightarrow> fe_blocking (fr_ext g))) (somes hs);
                           ext' = (if blocking then (fr_ext f)\<lparr>fe_blocking := True\<rparr> else fr_ext f)
                       in Inr (Some a, put a (f\<lparr>frame_count := length hs,
                                 fr_payload := Children hs, fr_ext := ext'\<rparr>) st1)))"

text \<open>
  The setters of \<open>FrameData\<close> and \<open>loadData\<close> of the frame types that hold bytes.
\<close>

definition set_frame :: "(frame \<Rightarrow> frame) \<Rightarrow> addr \<Rightarrow> store \<Rightarrow> se_error + store" where
  "set_frame g a st =
     (case look st a of
        None \<Rightarrow> Inl (Undefined ''use of a freed frame'')
      | Some f \<Rightarrow> Inr (put a (g f) st))"

definition frame_load_data :: "u8 list \<Rightarrow> frame \<Rightarrow> frame" where
  "frame_load_data bs f = f\<lparr>fr_payload := Bytes bs\<rparr>"

text \<open>\<open>setTimestamp(double)\<close>: a caller that has an integer converts it (\<open>double_of\<close>).\<close>

definition frame_set_timestamp :: "int \<Rightarrow> frame \<Rightarrow> frame" where
  "frame_set_timestamp t f = f\<lparr>fr_ext := (fr_ext f)\<lparr>fe_timestamp := t\<rparr>\<rparr>"

definition frame_set_domain :: "timestamp_domain \<Rightarrow> frame \<Rightarrow> frame" where
  "frame_set_domain d f = f\<lparr>fr_ext := (fr_ext f)\<lparr>fe_domain := d\<rparr>\<rparr>"

definition frame_set_profile :: "stream_profile option \<Rightarrow> frame \<Rightarrow> frame" where
  "frame_set_profile p f = f\<lparr>fr_profile := p\<rparr>"

definition frame_set_sensor :: "nat option \<Rightarrow> frame \<Rightarrow> frame" where
  "frame_set_sensor s f = f\<lparr>fr_sensor := s\<rparr>"

section \<open>Counting references\<close>

lemma children_simps [simp]:
  "children (f\<lparr>ref_count := r\<rparr>) = children f" "children (f\<lparr>kept := b\<rparr>) = children f"
  "children (f\<lparr>fr_ext := e\<rparr>) = children f" "children (f\<lparr>fr_profile := p\<rparr>) = children f"
  "children (f\<lparr>fr_sensor := s\<rparr>) = children f" "children (f\<lparr>fixed := b\<rparr>) = children f"
  "children (f\<lparr>fr_dims := d\<rparr>) = children f" "children (f\<lparr>fr_items := x\<rparr>) = children f"
  by (simp_all add: children_def split: payload.split)

text \<open>
  \<open>owned m D X a\<close>: the references to \<open>a\<close> from the holders \<open>X\<close> and from the
  live frames other than the dying ones \<open>D\<close> (those whose children were already handed
  on).
\<close>

definition refs_from :: "(addr \<rightharpoonup> frame) \<Rightarrow> addr set \<Rightarrow> addr \<Rightarrow> nat" where
  "refs_from m D a = (\<Sum>b\<in>dom m - D. count_list (children (the (m b))) a)"

definition owned :: "(addr \<rightharpoonup> frame) \<Rightarrow> addr set \<Rightarrow> addr multiset \<Rightarrow> addr \<Rightarrow> nat" where
  "owned m D X a = count X a + refs_from m D a"

text \<open>
  The counting invariant: at a live address that is not dying the count is the number of
  owned references, and there is one; nothing refers to any other address.
\<close>

definition rc_at :: "(addr \<rightharpoonup> frame) \<Rightarrow> addr multiset \<Rightarrow> addr set \<Rightarrow> addr \<Rightarrow> bool" where
  "rc_at m X D a \<longleftrightarrow>
     (case if a \<in> D then None else m a of
        None \<Rightarrow> owned m D X a = 0
      | Some f \<Rightarrow> ref_count f = int (owned m D X a) \<and> 1 \<le> owned m D X a)"

definition rc_inv :: "(addr \<rightharpoonup> frame) \<Rightarrow> addr multiset \<Rightarrow> addr set \<Rightarrow> bool" where
  "rc_inv m X D \<longleftrightarrow> finite (dom m) \<and> D \<subseteq> dom m \<and> (\<forall>a. rc_at m X D a)"

lemma rc_inv_at: "rc_inv m X D \<Longrightarrow> rc_at m X D a"
  unfolding rc_inv_def by blast

lemma rc_at_cong:
  assumes "rc_at m X D a" "owned m' D' X' a = owned m D X a"
    "(if a \<in> D' then None else m' a) = (if a \<in> D then None else m a)"
  shows "rc_at m' X' D' a"
  using assms(1) unfolding rc_at_def assms(2,3) .

lemma rc_invD:
  assumes "rc_inv m X D" "a \<in># X"
  obtains f where "m a = Some f" "a \<notin> D" "ref_count f = int (owned m D X a)" "1 \<le> owned m D X a"
proof -
  have "owned m D X a \<noteq> 0" using assms(2) by (simp add: owned_def)
  moreover have "rc_at m X D a" using assms(1) by (rule rc_inv_at)
  ultimately show ?thesis using that by (auto simp: rc_at_def split: option.splits if_splits)
qed

lemma rc_inv_none:
  assumes "rc_inv m X D" "m a = None"
  shows "owned m D X a = 0"
proof -
  have "rc_at m X D a" using assms(1) by (rule rc_inv_at)
  then show ?thesis using assms(2) by (simp add: rc_at_def split: if_splits)
qed

lemma count_mset_list: "count (mset xs) x = count_list xs x"
  by (induction xs) auto

lemma refs_from_upd:
  assumes "finite (dom m)" "a \<in> dom m - D"
  shows "refs_from (m(a \<mapsto> g)) D x + count_list (children (the (m a))) x
    = refs_from m D x + count_list (children g) x"
proof -
  have fin: "finite (dom m - D)" using assms(1) by simp
  have dom: "dom (m(a \<mapsto> g)) - D = dom m - D" using assms(2) by auto
  have "refs_from (m(a \<mapsto> g)) D x = count_list (children g) x
      + (\<Sum>b\<in>dom m - D - {a}. count_list (children (the ((m(a \<mapsto> g)) b))) x)"
    unfolding refs_from_def dom
    using sum.remove [OF fin assms(2), of "\<lambda>b. count_list (children (the ((m(a \<mapsto> g)) b))) x"]
    by (simp only: fun_upd_same option.sel)
  also have "(\<Sum>b\<in>dom m - D - {a}. count_list (children (the ((m(a \<mapsto> g)) b))) x)
      = (\<Sum>b\<in>dom m - D - {a}. count_list (children (the (m b))) x)"
    by (rule sum.cong) auto
  finally show ?thesis
    unfolding refs_from_def
    using sum.remove [OF fin assms(2), of "\<lambda>b. count_list (children (the (m b))) x"]
    by (simp only:)
qed

lemma refs_from_same:
  assumes "finite (dom m)" "a \<in> dom m - D" "children g = children (the (m a))"
  shows "refs_from (m(a \<mapsto> g)) D = refs_from m D"
  using refs_from_upd [OF assms(1,2), of g] assms(3) by (auto simp: fun_eq_iff)

lemma refs_from_die:
  assumes "finite (dom m)" "a \<in> dom m - D"
  shows "refs_from (m(a \<mapsto> g)) (insert a D) x + count_list (children (the (m a))) x
    = refs_from m D x"
proof -
  have fin: "finite (dom m - D)" using assms(1) by simp
  have "dom (m(a \<mapsto> g)) - insert a D = dom m - D - {a}" using assms(2) by auto
  then have "refs_from (m(a \<mapsto> g)) (insert a D) x
      = (\<Sum>b\<in>dom m - D - {a}. count_list (children (the (m b))) x)"
    unfolding refs_from_def by (intro sum.cong) auto
  then show ?thesis
    unfolding refs_from_def
    using sum.remove [OF fin assms(2), of "\<lambda>b. count_list (children (the (m b))) x"]
    by (simp only: add.commute)
qed

lemma refs_from_kill:
  assumes "a \<in> D"
  shows "refs_from (m(a := None)) (D - {a}) = refs_from m D"
proof -
  have "dom (m(a := None)) - (D - {a}) = dom m - D" using assms by auto
  then show ?thesis
    unfolding refs_from_def using assms by (intro ext sum.cong) auto
qed

text \<open>The four changes a run of releases makes, and the changes of the other operations.\<close>

lemma rc_inv_facts:
  assumes "rc_inv m X D" "a \<in># X" "m a = Some f"
  shows "finite (dom m)" "D \<subseteq> dom m" "a \<in> dom m - D" "a \<notin> D"
    "ref_count f = int (owned m D X a)" "1 \<le> owned m D X a" "0 < count X a"
  using rc_invD [OF assms(1,2)] assms(2) assms(1) [unfolded rc_inv_def] by (auto simp: assms(3))

lemma rc_inv_intro:
  assumes inv: "rc_inv m X D" and fin: "finite (dom m')" "D' \<subseteq> dom m'" and a: "rc_at m' X' D' a"
    and other: "\<And>x. x \<noteq> a \<Longrightarrow> owned m' D' X' x = owned m D X x
      \<and> (if x \<in> D' then None else m' x) = (if x \<in> D then None else m x)"
  shows "rc_inv m' X' D'"
  unfolding rc_inv_def
proof (intro conjI allI)
  fix x
  show "rc_at m' X' D' x"
  proof (cases "x = a")
    case False
    have "rc_at m X D x" using inv by (rule rc_inv_at)
    then show ?thesis
      using other [OF False] by (elim conjE) (rule rc_at_cong)
  qed (simp add: a)
qed (use fin in auto)

lemma rc_inv_drop:
  assumes inv: "rc_inv m X D" and a: "a \<in># X" "m a = Some f" and r: "ref_count f \<noteq> 1"
  shows "rc_inv (m(a \<mapsto> f\<lparr>ref_count := ref_count f - 1\<rparr>)) (X - {#a#}) D"
    (is "rc_inv (m(a \<mapsto> ?g)) _ _")
proof -
  note F = rc_inv_facts [OF inv a]
  have rf: "refs_from (m(a \<mapsto> ?g)) D = refs_from m D"
    using F(1,3) a(2) by (intro refs_from_same) auto
  have ow: "owned (m(a \<mapsto> ?g)) D (X - {#a#}) x = owned m D X x - (if x = a then 1 else 0)" for x
    using F(7) by (simp add: owned_def rf)
  have "rc_at (m(a \<mapsto> ?g)) (X - {#a#}) D a"
    using F(4-6) r ow [of a] by (simp add: rc_at_def)
  then show ?thesis
    using F(1-3) ow by (intro rc_inv_intro [OF inv]) auto
qed

lemma rc_inv_die:
  assumes inv: "rc_inv m X D" and a: "a \<in># X" "m a = Some f" and r: "ref_count f = 1"
  shows "rc_inv (m(a \<mapsto> f\<lparr>ref_count := 0\<rparr>)) (X - {#a#} + mset (children f)) (insert a D)"
    (is "rc_inv (m(a \<mapsto> ?g)) ?X _")
proof -
  note F = rc_inv_facts [OF inv a]
  have ow: "owned (m(a \<mapsto> ?g)) (insert a D) ?X x = owned m D X x - (if x = a then 1 else 0)" for x
    using refs_from_die [OF F(1,3), of ?g x] a(2) F(7)
    by (cases "x = a") (simp_all add: owned_def count_mset_list del: count_greater_zero_iff)
  have "rc_at (m(a \<mapsto> ?g)) ?X (insert a D) a"
    using F(5) r ow [of a] by (simp add: rc_at_def)
  then show ?thesis
    using F(1-3) ow by (intro rc_inv_intro [OF inv]) auto
qed

lemma rc_inv_kill:
  assumes inv: "rc_inv m X D" and a: "a \<in> D"
  shows "rc_inv (m(a := None)) X (D - {a})"
proof -
  have ow: "owned (m(a := None)) (D - {a}) X = owned m D X"
    using refs_from_kill [OF a] by (auto simp: owned_def fun_eq_iff)
  have "rc_at m X D a" using inv by (rule rc_inv_at)
  then have "rc_at (m(a := None)) X (D - {a}) a" using a by (simp add: rc_at_def ow)
  moreover have "finite (dom (m(a := None)))" "D - {a} \<subseteq> dom (m(a := None))"
    using inv by (auto simp: rc_inv_def)
  ultimately show ?thesis by (intro rc_inv_intro [OF inv]) (auto simp: ow)
qed

lemma rc_inv_acquire:
  assumes inv: "rc_inv m X D" and a: "a \<in># X" "m a = Some f"
  shows "rc_inv (m(a \<mapsto> f\<lparr>ref_count := ref_count f + 1\<rparr>)) (add_mset a X) D"
    (is "rc_inv (m(a \<mapsto> ?g)) _ _")
proof -
  note F = rc_inv_facts [OF inv a]
  have rf: "refs_from (m(a \<mapsto> ?g)) D = refs_from m D"
    using F(1,3) a(2) by (intro refs_from_same) auto
  have ow: "owned (m(a \<mapsto> ?g)) D (add_mset a X) x = owned m D X x + (if x = a then 1 else 0)" for x
    by (simp add: owned_def rf)
  have "rc_at (m(a \<mapsto> ?g)) (add_mset a X) D a"
    using F(4,5) ow [of a] by (simp add: rc_at_def)
  then show ?thesis
    using F(1-3) ow by (intro rc_inv_intro [OF inv]) auto
qed

lemma refs_from_new:
  assumes "finite (dom m)" "a \<notin> dom m" "children g = []"
  shows "refs_from (m(a \<mapsto> g)) {} = refs_from m {}"
proof (rule ext)
  fix x
  have "refs_from (m(a \<mapsto> g)) {} x
      = (\<Sum>b\<in>insert a (dom m). count_list (children (the ((m(a \<mapsto> g)) b))) x)"
    by (simp add: refs_from_def)
  also have "\<dots> = (\<Sum>b\<in>dom m. count_list (children (the ((m(a \<mapsto> g)) b))) x)"
    using assms by (subst sum.insert) auto
  also have "\<dots> = refs_from m {} x"
    unfolding refs_from_def using assms(2) by (intro sum.cong) auto
  finally show "refs_from (m(a \<mapsto> g)) {} x = refs_from m {} x" .
qed

lemma rc_inv_new:
  assumes inv: "rc_inv m X {}" and a: "m a = None" and g: "children g = []" "ref_count g = 1"
  shows "rc_inv (m(a \<mapsto> g)) (add_mset a X) {}"
proof -
  have fin: "finite (dom m)" using inv by (simp add: rc_inv_def)
  have ow: "owned (m(a \<mapsto> g)) {} (add_mset a X) x = owned m {} X x + (if x = a then 1 else 0)" for x
    using refs_from_new [OF fin _ g(1), of a] a by (simp add: owned_def domIff)
  have "rc_at (m(a \<mapsto> g)) (add_mset a X) {} a"
    using rc_inv_none [OF inv a] g(2) ow [of a] by (simp add: rc_at_def)
  then show ?thesis using fin ow by (intro rc_inv_intro [OF inv]) auto
qed

lemma rc_inv_fill:
  assumes inv: "rc_inv m X {}" and a: "m a = Some f" "children f = []"
    and g: "mset (children g) \<subseteq># X" "ref_count g = ref_count f"
  shows "rc_inv (m(a \<mapsto> g)) (X - mset (children g)) {}"
proof -
  have fin: "finite (dom m)" and ad: "a \<in> dom m - {}" using inv a by (auto simp: rc_inv_def)
  have ow: "owned (m(a \<mapsto> g)) {} (X - mset (children g)) x = owned m {} X x" for x
  proof -
    have "refs_from (m(a \<mapsto> g)) {} x = refs_from m {} x + count_list (children g) x"
      using refs_from_upd [OF fin ad, of g x] a by simp
    moreover have "count_list (children g) x \<le> count X x"
      using g(1) by (metis count_mset_list mset_subset_eq_count)
    ultimately show ?thesis by (simp add: owned_def count_mset_list)
  qed
  have "rc_at m X {} a" using inv by (rule rc_inv_at)
  then have "rc_at (m(a \<mapsto> g)) (X - mset (children g)) {} a"
    using a(1) g(2) by (simp add: rc_at_def ow)
  then show ?thesis using fin ow by (intro rc_inv_intro [OF inv]) auto
qed

lemma rc_inv_set:
  assumes inv: "rc_inv m X {}" and a: "m a = Some f"
    and g: "children g = children f" "ref_count g = ref_count f"
  shows "rc_inv (m(a \<mapsto> g)) X {}"
proof -
  have "refs_from (m(a \<mapsto> g)) {} = refs_from m {}"
    using inv a g by (intro refs_from_same) (auto simp: rc_inv_def)
  then have ow: "owned (m(a \<mapsto> g)) {} X = owned m {} X" by (simp add: owned_def fun_eq_iff)
  have "rc_at m X {} a" using inv by (rule rc_inv_at)
  then have "rc_at (m(a \<mapsto> g)) X {} a" using a g(2) by (simp add: rc_at_def ow)
  moreover have "finite (dom (m(a \<mapsto> g)))" using inv by (simp add: rc_inv_def)
  ultimately show ?thesis using ow by (intro rc_inv_intro [OF inv]) auto
qed

end
