(* ===== verification/Frame_Safety.thy ===== *)
theory Frame_Safety
  imports Frame_Refs
begin

text \<open>
  What code that handles frames through \<open>FrameHolder\<close>s may rely on.  The users of the
  library are a multiset of holders; \<open>frame_exec\<close> performs one of their operations on the
  store.  Every reachable store satisfies the counting invariant of \<open>Frame_Refs\<close>, its
  archives count the frames the user holds, and the composite frames do not form cycles.
\<close>

section \<open>Archives\<close>

definition unkept :: "archive \<Rightarrow> loc set" where
  "unkept A = {l. \<exists>f. arc_look A l = Some f \<and> \<not> kept f}"

definition arc_ok :: "archive \<Rightarrow> bool" where
  "arc_ok A \<longleftrightarrow> heap_inv (published A)
     \<and> (\<forall>l f. arc_look A l = Some f \<longrightarrow> fixed f = is_slot l)
     \<and> published_count A = of_nat (card (unkept A))
     \<and> (0 < max_queue A \<longrightarrow> card (unkept A) \<le> unat (max_queue A))"

definition store_ok :: "store \<Rightarrow> bool" where
  "store_ok st \<longleftrightarrow> (\<forall>k<length st. arc_ok (st ! k))"

lemma finite_unkept [simp, intro]: "finite (unkept A)"
  by (rule finite_subset [OF _ finite_dom_arc_look [of A]]) (auto simp: unkept_def)

lemma unkept_look: "unkept A = {l. \<exists>f. arc_look A l = Some f \<and> \<not> kept f}"
  by (rule unkept_def)

lemma arc_ok_new: "arc_ok (new_archive mx)"
proof -
  have "arc_look (new_archive mx) l = None" for l
    by (cases l) (simp_all add: arc_look_def new_archive_def)
  then show ?thesis by (simp add: arc_ok_def unkept_def new_archive_def)
qed

lemma arc_ok_put:
  assumes A: "arc_ok A" and l: "arc_look A l = Some f" and g: "fixed g = fixed f" "kept g = kept f"
  shows "arc_ok (arc_put l g A)"
proof -
  have "unkept (arc_put l g A) = unkept A"
    using l g by (auto simp: unkept_def arc_look_put [OF l])
  then show ?thesis using A l g by (simp add: arc_ok_def arc_look_put [OF l])
qed

lemma arc_ok_keep:
  assumes A: "arc_ok A" and l: "arc_look A l = Some f" "\<not> kept f"
  shows "arc_ok (keep_frame (arc_put l (f\<lparr>kept := True\<rparr>) A))" (is "arc_ok (keep_frame ?A)")
proof -
  have u: "unkept (keep_frame ?A) = unkept A - {l}"
    by (auto simp: unkept_def arc_look_put [OF l(1)])
  have "l \<in> unkept A" using l by (simp add: unkept_def)
  then obtain n where n: "card (unkept A - {l}) = n" "card (unkept A) = Suc n"
    using card_Suc_Diff1 [OF finite_unkept] by metis
  have "heap_inv (published A)" "published_count A = of_nat (Suc n)"
    "0 < max_queue A \<longrightarrow> Suc n \<le> unat (max_queue A)"
    "\<forall>l f. arc_look A l = Some f \<longrightarrow> fixed f = is_slot l"
    using A n(2) by (simp_all add: arc_ok_def)
  then show ?thesis
    using l(1) unfolding arc_ok_def u n(1) by (auto simp: arc_look_put [OF l(1)])
qed

lemma unpublish_frame_Inr:
  assumes A: "arc_ok A" and l: "arc_look A l = Some f"
  shows "\<exists>A'. unpublish_frame l A = Inr A' \<and> heap_inv (published A')
    \<and> published_count A' = (if kept f then published_count A else published_count A - 1)"
proof (cases l)
  case (Slot i)
  have fx: "fixed f" using A l Slot by (auto simp: arc_ok_def)
  have i: "i \<in> heap_used (published A)" using l Slot by (simp add: arc_look_def split: if_splits)
  have "heap_inv (published A)" using A by (simp add: arc_ok_def)
  from heap_deallocate_used [OF this i, of frame_reset] obtain h where
    "heap_deallocate frame_reset i (published A) = Inr h" "heap_inv h" by blast
  then show ?thesis using l Slot fx by (auto simp: unpublish_frame_def Let_def)
next
  case (Obj n)
  then have "\<not> fixed f" using A l by (auto simp: arc_ok_def)
  then show ?thesis using l Obj A by (auto simp: unpublish_frame_def Let_def arc_ok_def)
qed

lemma arc_ok_unpublish:
  assumes A: "arc_ok A" and l: "arc_look A l = Some f"
  shows "\<exists>A'. unpublish_frame l A = Inr A' \<and> arc_ok A'"
proof -
  obtain A' where A': "unpublish_frame l A = Inr A'" "heap_inv (published A')"
    "published_count A' = (if kept f then published_count A else published_count A - 1)"
    using unpublish_frame_Inr [OF assms] by blast
  note lk = unpublish_frame_look [OF A'(1)]
  have u: "unkept A' = unkept A - {l}" by (auto simp: unkept_def lk)
  have "published_count A' = of_nat (card (unkept A'))"
  proof (cases "kept f")
    case True
    then have "l \<notin> unkept A" using l by (simp add: unkept_def)
    then show ?thesis using True A A'(3) by (simp add: u arc_ok_def)
  next
    case False
    then have "l \<in> unkept A" using l by (simp add: unkept_def)
    then obtain n where n: "card (unkept A - {l}) = n" "card (unkept A) = Suc n"
      using card_Suc_Diff1 [OF finite_unkept] by metis
    have "published_count A = of_nat (Suc n)" using A n(2) by (simp add: arc_ok_def)
    then show ?thesis using False A'(3) unfolding u n(1) by simp
  qed
  moreover have "card (unkept A') \<le> card (unkept A)" unfolding u by (rule card_mono) auto
  ultimately have "arc_ok A'" using A A'(2) lk by (auto simp: arc_ok_def)
  with A'(1) show ?thesis by blast
qed

lemma arc_ok_publish:
  assumes A: "arc_ok A" and p: "publish_frame cur A = (Some l, A')" and cur: "\<not> kept cur"
  shows "arc_ok A'"
proof -
  obtain g where g: "arc_look A l = None" "arc_look A' = (arc_look A)(l \<mapsto> g)" "copy_of cur g"
    "fixed g = is_slot l" "heap_inv (published A')"
    using publish_frame_spec [OF p] A by (auto simp: arc_ok_def)
  note c = publish_frame_count [OF p]
  have k: "\<not> kept g" using g(3) cur by (simp add: copy_of_def)
  have u: "unkept A' = insert l (unkept A)" using g(1,2) k by (auto simp: unkept_def)
  have "l \<notin> unkept A" using g(1) by (simp add: unkept_def)
  then have cd: "card (unkept A') = Suc (card (unkept A))" by (simp add: u)
  have "card (unkept A') \<le> unat (max_queue A)" if m: "0 < max_queue A"
  proof -
    have le: "card (unkept A) \<le> unat (max_queue A)" using A m by (simp add: arc_ok_def)
    have "unat (max_queue A) < 2 ^ 32" using unsigned_less [of "max_queue A"] by simp
    with le have "unat (of_nat (card (unkept A)) :: u32) = card (unkept A)"
      by (simp add: unat_of_nat take_bit_nat_eq_self)
    moreover have "published_count A < max_queue A" using c(3) m by auto
    ultimately show ?thesis
      using A cd by (simp add: arc_ok_def word_less_nat_alt)
  qed
  then show ?thesis using A g c cd by (simp add: arc_ok_def)
qed

section \<open>Stores\<close>

lemma look_SomeD: "look st a = Some f \<Longrightarrow> fst a < length st \<and> arc_look (st ! fst a) (snd a) = Some f"
  by (auto simp: look_def split: if_splits)

lemma store_ok_upd: "store_ok st \<Longrightarrow> arc_ok A \<Longrightarrow> store_ok (st[k := A])"
  by (cases "k < length st") (auto simp: store_ok_def nth_list_update)

lemma store_ok_put:
  assumes "store_ok st" "look st a = Some f" "fixed g = fixed f" "kept g = kept f"
  shows "store_ok (put a g st)"
  unfolding put_def
  using assms look_SomeD [OF assms(2)] by (intro store_ok_upd arc_ok_put) (auto simp: store_ok_def)

lemma unpublish_Inr:
  assumes "store_ok st" "look st a = Some f"
  shows "\<exists>st'. unpublish a st = Inr st' \<and> store_ok st'"
proof -
  have k: "fst a < length st" "arc_look (st ! fst a) (snd a) = Some f" "arc_ok (st ! fst a)"
    using look_SomeD [OF assms(2)] assms(1) by (auto simp: store_ok_def)
  then obtain A' where "unpublish_frame (snd a) (st ! fst a) = Inr A'" "arc_ok A'"
    using arc_ok_unpublish by blast
  then show ?thesis using k assms(1) by (auto simp: unpublish_def intro: store_ok_upd)
qed

section \<open>Releases\<close>

fun rels :: "release_call list \<Rightarrow> addr list" where
  "rels [] = []" | "rels (Rel a # ws) = a # rels ws" | "rels (Unpub a # ws) = rels ws"

fun unpubs :: "release_call list \<Rightarrow> addr list" where
  "unpubs [] = []" | "unpubs (Rel a # ws) = unpubs ws" | "unpubs (Unpub a # ws) = a # unpubs ws"

lemma rels_append [simp]:
  "rels (xs @ ys) = rels xs @ rels ys" "rels (map Rel as) = as"
  "unpubs (xs @ ys) = unpubs xs @ unpubs ys" "unpubs (map Rel as) = []"
proof -
  show "rels (xs @ ys) = rels xs @ rels ys" by (induction xs rule: rels.induct) auto
  show "unpubs (xs @ ys) = unpubs xs @ unpubs ys" by (induction xs rule: unpubs.induct) auto
qed (induction "as"; simp)+

text \<open>\<open>shrinks m m'\<close>: cells of \<open>m\<close> may be gone in \<open>m'\<close>, the others differ at
  most in their reference count.\<close>

definition shrinks :: "(addr \<rightharpoonup> frame) \<Rightarrow> (addr \<rightharpoonup> frame) \<Rightarrow> bool" where
  "shrinks m m' \<longleftrightarrow> (\<forall>a f'. m' a = Some f' \<longrightarrow> (\<exists>f. m a = Some f \<and> f' = f\<lparr>ref_count := ref_count f'\<rparr>))"

lemma shrinks_refl [simp]: "shrinks m m"
  by (simp add: shrinks_def)

lemma shrinks_trans: "shrinks m m' \<Longrightarrow> shrinks m' m'' \<Longrightarrow> shrinks m m''"
  unfolding shrinks_def
proof (intro allI impI)
  fix a f''
  assume s: "\<forall>a f'. m' a = Some f' \<longrightarrow> (\<exists>f. m a = Some f \<and> f' = f\<lparr>ref_count := ref_count f'\<rparr>)"
    "\<forall>a f'. m'' a = Some f' \<longrightarrow> (\<exists>f. m' a = Some f \<and> f' = f\<lparr>ref_count := ref_count f'\<rparr>)"
    and a: "m'' a = Some f''"
  obtain f' where f': "m' a = Some f'" "f'' = f'\<lparr>ref_count := ref_count f''\<rparr>" using s(2) a by blast
  obtain f where f: "m a = Some f" "f' = f\<lparr>ref_count := ref_count f'\<rparr>" using s(1) f'(1) by blast
  have "f'' = f\<lparr>ref_count := ref_count f''\<rparr>" by (subst f'(2), subst f(2)) simp
  with f(1) show "\<exists>f. m a = Some f \<and> f'' = f\<lparr>ref_count := ref_count f''\<rparr>" by blast
qed

lemma shrinks_upd: "m a = Some f \<Longrightarrow> shrinks m (m(a \<mapsto> f\<lparr>ref_count := r\<rparr>))"
  by (auto simp: shrinks_def)

lemma shrinks_none: "shrinks m (m(a := None))"
  by (auto simp: shrinks_def)

text \<open>A run of pending releases succeeds, and settles the counts for the remaining holders.\<close>

lemma run_release_ok:
  "rc_inv (look st) (X + mset (rels ws)) (set (unpubs ws)) \<Longrightarrow> distinct (unpubs ws) \<Longrightarrow> store_ok st
   \<Longrightarrow> \<exists>st'. run_release ws st = Inr st' \<and> rc_inv (look st') X {} \<and> store_ok st'
      \<and> shrinks (look st) (look st') \<and> length st' = length st"
proof (induction ws st rule: run_release.induct)
  case (1 st)
  then show ?case by simp
next
  case (2 a ws st)
  have inX: "a \<in># X + mset (rels (Rel a # ws))" by simp
  obtain f where f: "look st a = Some f" using rc_invD [OF 2(3) inX] by metis
  have eq: "X + mset (rels (Rel a # ws)) - {#a#} = X + mset (rels ws)" by simp
  let ?st = "put a (f\<lparr>ref_count := ref_count f - 1\<rparr>) st"
  have ok: "store_ok ?st" using store_ok_put [OF 2(5) f] by simp
  have sh: "shrinks (look st) (look ?st)" by (simp add: look_put [OF f] shrinks_upd f)
  have len: "length ?st = length st" by (simp add: put_def)
  show ?case
  proof (cases "ref_count f = 1")
    case True
    let ?ws = "map Rel (children f) @ Unpub a # ws"
    have "a \<notin> set (unpubs ws)" using rc_invD [OF 2(3) inX] by auto
    then have d: "distinct (unpubs ?ws)" using 2(4) by simp
    have "rc_inv (look ?st) (X + mset (rels ?ws)) (set (unpubs ?ws))"
      using rc_inv_die [OF 2(3) inX f True] True f
      by (simp add: look_put eq ac_simps)
    from 2(1) [OF f refl True this d ok] True f sh len show ?thesis
      by (auto intro: shrinks_trans)
  next
    case False
    have "rc_inv (look ?st) (X + mset (rels ws)) (set (unpubs ws))"
      using rc_inv_drop [OF 2(3) inX f False] f by (simp add: look_put eq)
    from 2(2) [OF f refl False this _ ok] 2(4) False f sh len show ?thesis
      by (auto intro: shrinks_trans)
  qed
next
  case (3 a ws st)
  have "a \<in> dom (look st)" using 3(2) by (auto simp: rc_inv_def)
  then obtain f where f: "look st a = Some f" by auto
  obtain st1 where st1: "unpublish a st = Inr st1" "store_ok st1"
    using unpublish_Inr [OF 3(4) f] by blast
  have len: "length st1 = length st"
    using st1(1) by (auto simp: unpublish_def bind_result_Inr split: if_splits)
  have "insert a (set (unpubs ws)) - {a} = set (unpubs ws)" using 3(3) by auto
  then have "rc_inv (look st1) (X + mset (rels ws)) (set (unpubs ws))"
    using rc_inv_kill [OF 3(2), of a] by (simp add: look_unpublish [OF st1(1)])
  from 3(1) [OF st1(1) this _ st1(2)] 3(3) st1(1) len show ?case
    using shrinks_trans [OF shrinks_none [of "look st" a, folded look_unpublish [OF st1(1)]]]
    by auto
qed

section \<open>Holders and their operations\<close>

text \<open>
  What code does with the frames it holds.  \<open>F_load\<close> and \<open>F_tag\<close> stand for the
  setters between allocation and delivery; \<open>F_compose\<close> moves holders into a composite
  frame.
\<close>

datatype frame_op =
    F_alloc nat nat frame_extension bool
  | F_clone addr
  | F_drop addr
  | F_keep addr
  | F_load addr "u8 list" int
  | F_tag addr "stream_profile option" "nat option"
  | F_compose nat "addr list"

fun frame_exec :: "frame_op \<Rightarrow> store \<Rightarrow> addr multiset \<Rightarrow> se_error + store \<times> addr multiset" where
  "frame_exec (F_alloc k sz ext mem) st X =
     bind_result (alloc_and_track k sz ext mem st)
       (\<lambda>(r, st'). Inr (st', case r of None \<Rightarrow> X | Some a \<Rightarrow> add_mset a X))"
| "frame_exec (F_clone a) st X = bind_result (acquire a st) (\<lambda>st'. Inr (st', add_mset a X))"
| "frame_exec (F_drop a) st X = bind_result (release a st) (\<lambda>st'. Inr (st', X - {#a#}))"
| "frame_exec (F_keep a) st X = bind_result (keep a st) (\<lambda>st'. Inr (st', X))"
| "frame_exec (F_load a bs ts) st X =
     bind_result (set_frame (frame_set_timestamp ts \<circ> frame_load_data bs) a st) (\<lambda>st'. Inr (st', X))"
| "frame_exec (F_tag a p sn) st X =
     bind_result (set_frame (frame_set_sensor sn \<circ> frame_set_profile p) a st) (\<lambda>st'. Inr (st', X))"
| "frame_exec (F_compose k as) st X =
     bind_result (allocate_composite k (map Some as) st)
       (\<lambda>(r, st'). Inr (st', case r of None \<Rightarrow> X - mset as | Some a \<Rightarrow> add_mset a (X - mset as)))"

text \<open>
  What the users owe: they name an archive that exists, they use frames they hold, they move
  a holder only once, and they load data into frames that are not composite.
\<close>

fun frame_allowed :: "frame_op \<Rightarrow> store \<Rightarrow> addr multiset \<Rightarrow> bool" where
  "frame_allowed (F_alloc k sz ext mem) st X = (k < length st)"
| "frame_allowed (F_clone a) st X = (a \<in># X)"
| "frame_allowed (F_drop a) st X = (a \<in># X)"
| "frame_allowed (F_keep a) st X = (a \<in># X)"
| "frame_allowed (F_load a bs ts) st X =
     (a \<in># X \<and> (\<forall>f. look st a = Some f \<longrightarrow> children f = []))"
| "frame_allowed (F_tag a p sn) st X = (a \<in># X)"
| "frame_allowed (F_compose k as) st X = (k < length st \<and> mset as \<subseteq># X)"

inductive frame_reach :: "u32 list \<Rightarrow> store \<Rightarrow> addr multiset \<Rightarrow> bool" for maxs where
  init: "frame_reach maxs (map new_archive maxs) {#}"
| step: "frame_reach maxs st X \<Longrightarrow> frame_allowed oper st X \<Longrightarrow> frame_exec oper st X = Inr (st', X')
    \<Longrightarrow> frame_reach maxs st' X'"

text \<open>Composite frames point to frames of a lower rank.\<close>

definition ranked :: "(addr \<rightharpoonup> frame) \<Rightarrow> (addr \<Rightarrow> nat) \<Rightarrow> bool" where
  "ranked m r \<longleftrightarrow> (\<forall>a f. m a = Some f \<longrightarrow> (\<forall>c\<in>set (children f). r c < r a))"

definition frames_ok :: "store \<Rightarrow> addr multiset \<Rightarrow> bool" where
  "frames_ok st X \<longleftrightarrow> rc_inv (look st) X {} \<and> store_ok st \<and> (\<exists>r. ranked (look st) r)"

lemma rankedD: "ranked m r \<Longrightarrow> m a = Some f \<Longrightarrow> c \<in> set (children f) \<Longrightarrow> r c < r a"
  unfolding ranked_def by blast

lemma ranked_shrinks: "ranked m r \<Longrightarrow> shrinks m m' \<Longrightarrow> ranked m' r"
  unfolding ranked_def shrinks_def
proof (intro allI impI)
  fix a f'
  assume r: "\<forall>a f. m a = Some f \<longrightarrow> (\<forall>c\<in>set (children f). r c < r a)"
    and s: "\<forall>a f'. m' a = Some f' \<longrightarrow> (\<exists>f. m a = Some f \<and> f' = f\<lparr>ref_count := ref_count f'\<rparr>)"
    and a: "m' a = Some f'"
  obtain f where f: "m a = Some f" "f' = f\<lparr>ref_count := ref_count f'\<rparr>" using s a by blast
  have "children f' = children f" by (subst f(2)) simp
  then show "\<forall>c\<in>set (children f'). r c < r a" using r f(1) by metis
qed

lemma ranked_set:
  "ranked m r \<Longrightarrow> m a = Some f \<Longrightarrow> children g = children f \<Longrightarrow> ranked (m(a \<mapsto> g)) r"
  by (auto simp: ranked_def)

lemma ranked_childless: "ranked m r \<Longrightarrow> children g = [] \<Longrightarrow> ranked (m(a \<mapsto> g)) r"
  by (auto simp: ranked_def)

lemma refs_from_zero:
  assumes "finite (dom m)" "refs_from m {} a = 0" "m b = Some f"
  shows "a \<notin> set (children f)"
proof -
  have "b \<in> dom m" using assms(3) by blast
  then have "count_list (children (the (m b))) a = 0"
    using assms(1,2) by (simp add: refs_from_def)
  then show ?thesis using assms(3) by (simp add: count_list_0_iff)
qed

lemma ranked_fill:
  assumes m: "ranked m r" "finite (dom m)" and a: "refs_from m {} a = 0" "a \<notin> set (children g)"
  shows "\<exists>r'. ranked (m(a \<mapsto> g)) r'"
proof -
  let ?r = "r(a := Suc (Max (insert 0 (r ` set (children g)))))"
  have "ranked (m(a \<mapsto> g)) ?r"
    unfolding ranked_def
  proof (intro allI impI ballI)
    fix b f c
    assume b: "(m(a \<mapsto> g)) b = Some f" and c: "c \<in> set (children f)"
    show "?r c < ?r b"
    proof (cases "b = a")
      case True
      with b c a(2) have c: "c \<in> set (children g)" "c \<noteq> a" by auto
      then have "r c \<le> Max (insert 0 (r ` set (children g)))" by (intro Max_ge) auto
      with True c(2) show ?thesis by (simp add: less_Suc_eq_le)
    next
      case False
      then have f: "m b = Some f" using b by simp
      have "a \<notin> set (children f)" using refs_from_zero [OF m(2) a(1) f] .
      with c have "c \<noteq> a" by auto
      then show ?thesis using rankedD [OF m(1) f c] False by simp
    qed
  qed
  then show ?thesis by blast
qed

text \<open>With no holder left, nothing is left: the highest frame would need a referrer.\<close>

lemma ranked_no_leak:
  assumes "rc_inv m {#} {}" "ranked m r"
  shows "m = Map.empty"
proof (rule ccontr)
  assume "m \<noteq> Map.empty"
  then have "dom m \<noteq> {}" by simp
  moreover have fin: "finite (dom m)" using assms(1) by (simp add: rc_inv_def)
  ultimately have "Max (r ` dom m) \<in> r ` dom m" by (intro Max_in) auto
  then obtain a f where a: "m a = Some f" "r a = Max (r ` dom m)" by auto
  have "rc_at m {#} {} a" using assms(1) by (rule rc_inv_at)
  then have "refs_from m {} a \<noteq> 0" using a(1) by (auto simp: rc_at_def owned_def)
  then obtain b where b: "b \<in> dom m" "a \<in> set (children (the (m b)))"
    using fin by (auto simp: refs_from_def count_list_0_iff)
  then obtain g where "m b = Some g" "a \<in> set (children g)" by (metis domD option.sel)
  then have "r a < r b" by (rule rankedD [OF assms(2)])
  moreover have "r b \<le> r a" using a(2) b(1) fin by simp
  ultimately show False by simp
qed

section \<open>Every allowed operation succeeds and keeps the invariants\<close>

lemma held_frame:
  assumes "frames_ok st X" "a \<in># X"
  obtains f where "look st a = Some f"
  using assms rc_invD [of "look st" X "{}" a] by (auto simp: frames_ok_def)

lemma acquire_ok:
  assumes ok: "frames_ok st X" and a: "a \<in># X"
  shows "\<exists>st'. acquire a st = Inr st' \<and> frames_ok st' (add_mset a X)"
proof -
  obtain f where f: "look st a = Some f" using held_frame [OF ok a] .
  obtain r where r: "ranked (look st) r" using ok by (auto simp: frames_ok_def)
  let ?g = "f\<lparr>ref_count := ref_count f + 1\<rparr>"
  have "rc_inv (look (put a ?g st)) (add_mset a X) {}"
    using ok a f unfolding look_put [OF f]
    by (intro rc_inv_acquire) (auto simp: frames_ok_def)
  moreover have "store_ok (put a ?g st)"
    using ok f by (intro store_ok_put) (auto simp: frames_ok_def)
  moreover have "ranked (look (put a ?g st)) r"
    unfolding look_put [OF f] by (rule ranked_set [OF r f]) simp
  ultimately show ?thesis by (auto simp: acquire_def f frames_ok_def)
qed

lemma releases_ok:
  assumes ok: "frames_ok st (X + mset as)"
  shows "\<exists>st'. run_release (map Rel as) st = Inr st' \<and> frames_ok st' X
    \<and> shrinks (look st) (look st') \<and> length st' = length st"
proof -
  obtain r where r: "ranked (look st) r" using ok by (auto simp: frames_ok_def)
  have "rc_inv (look st) (X + mset (rels (map Rel as))) (set (unpubs (map Rel as)))"
    using ok by (simp add: frames_ok_def)
  from run_release_ok [OF this] ok obtain st' where
    "run_release (map Rel as) st = Inr st'" "rc_inv (look st') X {}" "store_ok st'"
    "shrinks (look st) (look st')" "length st' = length st" by (auto simp: frames_ok_def)
  then show ?thesis using ranked_shrinks [OF r] by (auto simp: frames_ok_def)
qed

lemma release_ok:
  assumes ok: "frames_ok st X" and a: "a \<in># X"
  shows "\<exists>st'. release a st = Inr st' \<and> frames_ok st' (X - {#a#})
    \<and> shrinks (look st) (look st') \<and> length st' = length st"
  using releases_ok [of st "X - {#a#}" "[a]"] ok a by (simp add: release_def)

lemma set_frame_ok:
  assumes ok: "frames_ok st X" and a: "a \<in># X"
    and g: "\<And>f. look st a = Some f \<Longrightarrow> children (g f) = children f \<and> ref_count (g f) = ref_count f
      \<and> fixed (g f) = fixed f \<and> kept (g f) = kept f"
  shows "\<exists>st'. set_frame g a st = Inr st' \<and> frames_ok st' X"
proof -
  obtain f where f: "look st a = Some f" using held_frame [OF ok a] .
  obtain r where r: "ranked (look st) r" using ok by (auto simp: frames_ok_def)
  note gf = g [OF f]
  have "rc_inv (look (put a (g f) st)) X {}"
    using ok f gf unfolding look_put [OF f]
    by (intro rc_inv_set [where f = f]) (auto simp: frames_ok_def)
  moreover have "store_ok (put a (g f) st)"
    using ok f gf by (intro store_ok_put) (auto simp: frames_ok_def)
  moreover have "ranked (look (put a (g f) st)) r"
    unfolding look_put [OF f] using gf by (intro ranked_set [OF r f]) simp
  ultimately show ?thesis by (auto simp: set_frame_def f frames_ok_def)
qed

lemma look_keep_frame [simp]: "look (st[k := keep_frame (st ! k)]) = look st"
  by (rule ext) (cases "k < length st"; auto simp: look_def nth_list_update)

lemma keep_ok:
  assumes ok: "frames_ok st X" and a: "a \<in># X"
  shows "\<exists>st'. keep a st = Inr st' \<and> frames_ok st' X"
proof -
  obtain f where f: "look st a = Some f" using held_frame [OF ok a] .
  obtain r where r: "ranked (look st) r" using ok by (auto simp: frames_ok_def)
  show ?thesis
  proof (cases "kept f")
    case True
    then show ?thesis using ok by (simp add: keep_def f)
  next
    case False
    let ?g = "f\<lparr>kept := True\<rparr>"
    let ?st = "put a ?g st"
    let ?st' = "?st[fst a := keep_frame (?st ! fst a)]"
    have "rc_inv (look ?st') X {}"
      using ok f unfolding look_keep_frame look_put [OF f]
      by (intro rc_inv_set [where f = f]) (auto simp: frames_ok_def)
    moreover have "store_ok ?st'"
    proof -
      have k: "fst a < length st" "arc_look (st ! fst a) (snd a) = Some f"
        using look_SomeD [OF f] by auto
      have s: "store_ok st" using ok by (simp add: frames_ok_def)
      then have "arc_ok (keep_frame (arc_put (snd a) ?g (st ! fst a)))"
        using arc_ok_keep [OF _ k(2) False] k(1) by (simp add: store_ok_def)
      then have "store_ok (st[fst a := keep_frame (arc_put (snd a) ?g (st ! fst a))])"
        by (rule store_ok_upd [OF s])
      then show ?thesis using k(1) by (simp add: put_def)
    qed
    moreover have "ranked (look ?st') r"
      unfolding look_keep_frame look_put [OF f] by (rule ranked_set [OF r f]) simp
    ultimately show ?thesis by (auto simp: keep_def f False Let_def frames_ok_def)
  qed
qed

text \<open>A successful allocation adds one frame, held once, without children.\<close>

definition fresh_frame :: "store \<Rightarrow> addr \<Rightarrow> store \<Rightarrow> nat \<Rightarrow> frame_extension \<Rightarrow> bool \<Rightarrow> bool" where
  "fresh_frame st a st' sz ext mem \<longleftrightarrow> look st a = None
     \<and> (\<exists>f. look st' = (look st)(a \<mapsto> f) \<and> ref_count f = 1 \<and> children f = [] \<and> \<not> kept f
          \<and> fr_ext f = ext \<and> fr_payload f = Bytes (if mem then replicate sz 0 else []) \<and> fr_items f = [])"

lemma look_upd:
  assumes "k < length st" "arc_look A' = (arc_look (st ! k))(l \<mapsto> g)"
  shows "look (st[k := A']) = (look st)((k, l) \<mapsto> g)"
  using assms by (auto simp: look_def nth_list_update fun_eq_iff split: if_splits)

lemma alloc_and_track_ok:
  assumes ok: "frames_ok st X" and k: "k < length st"
  shows "\<exists>r st'. alloc_and_track k sz ext mem st = Inr (r, st') \<and> length st' = length st
    \<and> (case r of None \<Rightarrow> st' = st \<and> 0 < max_queue (st ! k) \<and> max_queue (st ! k) \<le> published_count (st ! k)
        | Some a \<Rightarrow> fst a = k \<and> frames_ok st' (add_mset a X) \<and> fresh_frame st a st' sz ext mem)"
proof -
  let ?cur = "alloc_back_buffer sz ext mem"
  obtain r A where p: "publish_frame ?cur (st ! k) = (r, A)" by (cases "publish_frame ?cur (st ! k)")
  have A: "arc_ok (st ! k)" using ok k by (simp add: frames_ok_def store_ok_def)
  show ?thesis
  proof (cases r)
    case None
    then show ?thesis
      using p publish_frame_refused [of ?cur "st ! k" A] k by (simp add: alloc_and_track_def)
  next
    case (Some l)
    have p: "publish_frame ?cur (st ! k) = (Some l, A)" using p Some by simp
    obtain g where g: "arc_look (st ! k) l = None" "arc_look A = (arc_look (st ! k))(l \<mapsto> g)"
      "copy_of ?cur g"
      using publish_frame_spec [OF p] A by (auto simp: arc_ok_def)
    have cg: "ref_count g = 0" "\<not> kept g" "fr_ext g = ext"
      "fr_payload g = Bytes (if mem then replicate sz 0 else [])" "fr_items g = []"
      using g(3) by (simp_all add: copy_of_def alloc_back_buffer_def new_frame_def)
    let ?a = "(k, l)" and ?st = "st[k := A]" and ?h = "g\<lparr>ref_count := 1\<rparr>"
    note lk = look_upd [OF k g(2)]
    have look_a: "look ?st ?a = Some g" using lk by simp
    have new: "look st ?a = None" using g(1) k by (simp add: look_def)
    have ch: "children ?h = []" using cg(4) by (simp add: children_def)
    have acq: "acquire ?a ?st = Inr (put ?a ?h ?st)" using look_a cg(1) by (simp add: acquire_def)
    have lk': "look (put ?a ?h ?st) = (look st)(?a \<mapsto> ?h)" by (simp add: look_put [OF look_a] lk)
    have "arc_ok A" using arc_ok_publish [OF A p] by (simp add: alloc_back_buffer_def new_frame_def)
    then have "store_ok ?st" using ok by (intro store_ok_upd) (auto simp: frames_ok_def)
    then have "store_ok (put ?a ?h ?st)" using look_a by (intro store_ok_put) auto
    moreover have "rc_inv (look (put ?a ?h ?st)) (add_mset ?a X) {}"
      unfolding lk' using ok new ch by (intro rc_inv_new) (auto simp: frames_ok_def)
    moreover have "\<exists>r. ranked (look (put ?a ?h ?st)) r"
    proof -
      obtain r where "ranked (look st) r" using ok by (auto simp: frames_ok_def)
      from ranked_childless [OF this ch] show ?thesis unfolding lk' by blast
    qed
    ultimately have "frames_ok (put ?a ?h ?st) (add_mset ?a X)" by (simp add: frames_ok_def)
    moreover have "fresh_frame st ?a (put ?a ?h ?st) sz ext mem"
      unfolding fresh_frame_def lk' using new ch cg by auto
    moreover have "alloc_and_track k sz ext mem st = Inr (Some ?a, put ?a ?h ?st)"
      using k p acq by (simp add: alloc_and_track_def)
    ultimately show ?thesis by (simp add: put_def)
  qed
qed

lemma owned_once:
  assumes "rc_inv m (add_mset a X) {}" "m a = Some f" "ref_count f = 1"
  shows "a \<notin># X" "refs_from m {} a = 0"
proof -
  have "owned m {} (add_mset a X) a = 1"
    using rc_invD [OF assms(1), of a] assms(2,3) by auto
  then show "a \<notin># X" "refs_from m {} a = 0"
    by (auto simp: owned_def simp flip: count_eq_zero_iff)
qed

lemma children_composite [simp]:
  "children (f\<lparr>frame_count := length as, fr_payload := Children (map Some as)\<rparr>) = as"
  by (simp add: children_def)

lemma allocate_composite_ok:
  assumes ok: "frames_ok st X" and k: "k < length st" and as: "mset as \<subseteq># X"
  shows "\<exists>r st'. allocate_composite k (map Some as) st = Inr (r, st')
    \<and> frames_ok st' (case r of None \<Rightarrow> X - mset as | Some a \<Rightarrow> add_mset a (X - mset as))
    \<and> (\<forall>a. r = Some a \<longrightarrow> (\<exists>f. look st' a = Some f \<and> children f = as))
    \<and> length st' = length st"
proof -
  obtain r st1 where al: "alloc_and_track k (8 * length as) new_extension True st = Inr (r, st1)"
    and r: "case r of None \<Rightarrow> st1 = st \<and> 0 < max_queue (st ! k) \<and> max_queue (st ! k) \<le> published_count (st ! k)
      | Some a \<Rightarrow> fst a = k \<and> frames_ok st1 (add_mset a X)
          \<and> fresh_frame st a st1 (8 * length as) new_extension True"
    and len: "length st1 = length st"
    using alloc_and_track_ok [OF ok k] by blast
  show ?thesis
  proof (cases r)
    case None
    have "frames_ok st (X - mset as + mset as)" using ok as by simp
    from releases_ok [OF this] obtain st' where
      "run_release (map Rel as) st = Inr st'" "frames_ok st' (X - mset as)" "length st' = length st"
      by blast
    then show ?thesis using al r None by (simp add: allocate_composite_def)
  next
    case (Some a)
    obtain f where f: "look st1 a = Some f" "ref_count f = 1" "children f = []"
      using r Some by (auto simp: fresh_frame_def)
    have ok1: "frames_ok st1 (add_mset a X)" using r Some by simp
    have rc: "rc_inv (look st1) (add_mset a X) {}" using ok1 by (simp add: frames_ok_def)
    obtain rk where rk: "ranked (look st1) rk" using ok1 by (auto simp: frames_ok_def)
    obtain e where comp: "allocate_composite k (map Some as) st = Inr (Some a,
        put a (f\<lparr>frame_count := length as, fr_payload := Children (map Some as), fr_ext := e\<rparr>) st1)"
      using al Some f(1) by (auto simp: allocate_composite_def Let_def)
    let ?g = "f\<lparr>frame_count := length as, fr_payload := Children (map Some as), fr_ext := e\<rparr>"
    note once = owned_once [OF rc f(1,2)]
    have na: "a \<notin> set as"
    proof
      assume "a \<in> set as"
      then have "a \<in># X" using mset_subset_eqD [OF as] by simp
      with once(1) show False by simp
    qed
    have "rc_inv ((look st1)(a \<mapsto> ?g)) (add_mset a X - mset (children ?g)) {}"
      using rc f as by (intro rc_inv_fill [where f = f]) (auto intro: subset_mset.order_trans [OF as])
    moreover have "add_mset a X - mset as = add_mset a (X - mset as)"
      using na by (simp add: diff_add_mset_swap)
    ultimately have "rc_inv (look (put a ?g st1)) (add_mset a (X - mset as)) {}"
      by (simp add: look_put [OF f(1)])
    moreover have "store_ok (put a ?g st1)"
      using ok1 f(1) by (intro store_ok_put) (auto simp: frames_ok_def)
    moreover have "\<exists>r. ranked (look (put a ?g st1)) r"
      unfolding look_put [OF f(1)] using rk rc once(2) na
      by (intro ranked_fill) (auto simp: rc_inv_def)
    ultimately have "frames_ok (put a ?g st1) (add_mset a (X - mset as))" by (simp add: frames_ok_def)
    moreover have "look (put a ?g st1) a = Some ?g" by (simp add: look_put [OF f(1)])
    moreover have "length (put a ?g st1) = length st" using len by (simp add: put_def)
    ultimately show ?thesis using comp by auto
  qed
qed

lemma frame_exec_ok:
  assumes ok: "frames_ok st X" and al: "frame_allowed oper st X"
  shows "\<exists>st' X'. frame_exec oper st X = Inr (st', X') \<and> frames_ok st' X'"
proof (cases oper)
  case (F_alloc k sz ext mem)
  with al have "k < length st" by simp
  from alloc_and_track_ok [OF ok this, of sz ext mem] obtain r st' where
    a: "alloc_and_track k sz ext mem st = Inr (r, st')"
    and r: "case r of None \<Rightarrow> st' = st \<and> 0 < max_queue (st ! k) \<and> max_queue (st ! k) \<le> published_count (st ! k)
      | Some a \<Rightarrow> fst a = k \<and> frames_ok st' (add_mset a X) \<and> fresh_frame st a st' sz ext mem"
    by blast
  have "frames_ok st' (case r of None \<Rightarrow> X | Some a \<Rightarrow> add_mset a X)"
    using r ok by (cases r) auto
  with F_alloc a show ?thesis by simp
next
  case (F_clone a)
  with al acquire_ok [OF ok, of a] show ?thesis by auto
next
  case (F_drop a)
  with al release_ok [OF ok, of a] show ?thesis by auto
next
  case (F_keep a)
  with al keep_ok [OF ok, of a] show ?thesis by auto
next
  case (F_load a bs ts)
  have a: "a \<in># X" using F_load al by simp
  let ?g = "frame_set_timestamp ts \<circ> frame_load_data bs"
  have "children (?g f) = children f \<and> ref_count (?g f) = ref_count f
      \<and> fixed (?g f) = fixed f \<and> kept (?g f) = kept f" if "look st a = Some f" for f
  proof -
    have "children f = []" using that F_load al by auto
    then show ?thesis by (simp add: frame_set_timestamp_def frame_load_data_def) (simp add: children_def)
  qed
  with set_frame_ok [OF ok a, of ?g] F_load show ?thesis by auto
next
  case (F_tag a p sn)
  have a: "a \<in># X" using F_tag al by simp
  show ?thesis
    using set_frame_ok [OF ok a, of "frame_set_sensor sn \<circ> frame_set_profile p"] F_tag
    by (auto simp: frame_set_sensor_def frame_set_profile_def)
next
  case (F_compose k as)
  with al have "k < length st" "mset as \<subseteq># X" by auto
  from allocate_composite_ok [OF ok this] F_compose show ?thesis by auto
qed

lemma look_new: "look (map new_archive maxs) = Map.empty"
proof (rule ext)
  fix a
  show "look (map new_archive maxs) a = None"
    by (cases a; cases "snd a")
      (auto simp: look_def arc_look_def new_archive_def)
qed

lemma frame_reach_ok: "frame_reach maxs st X \<Longrightarrow> frames_ok st X"
proof (induction rule: frame_reach.induct)
  case init
  have "store_ok (map new_archive maxs)" by (simp add: store_ok_def arc_ok_new)
  then show ?case
    by (auto simp: frames_ok_def look_new rc_inv_def rc_at_def owned_def refs_from_def ranked_def)
next
  case (step st X oper st' X')
  then show ?case using frame_exec_ok [of st X oper] by auto
qed

section \<open>Properties\<close>

text \<open>A reachable store with one frame held, for the concrete instances below.\<close>

definition one_frame :: store where
  "one_frame = [(new_archive 0)\<lparr>published_count := 1,
     objs := [Some (new_frame\<lparr>fr_payload := Bytes [0, 0], ref_count := 1\<rparr>)]\<rparr>]"

lemma one_frame_exec:
  "frame_exec (F_alloc 0 2 new_extension True) (map new_archive [0]) {#} = Inr (one_frame, {#(0, Obj 0)#})"
  by (simp add: one_frame_def alloc_and_track_def publish_frame_def new_archive_def
      alloc_back_buffer_def acquire_def look_def arc_look_def put_def arc_put_def frame_move_def
      new_frame_def numeral_eq_Suc)

lemma one_frame_reach: "frame_reach [0] one_frame {#(0, Obj 0)#}"
  by (rule frame_reach.step [OF frame_reach.init _ one_frame_exec]) simp

lemma one_frame_look: "look one_frame (0, Obj 0) = Some (new_frame\<lparr>fr_payload := Bytes [0, 0], ref_count := 1\<rparr>)"
  by (simp add: one_frame_def look_def arc_look_def)

lemma two_holders:
  "\<exists>st. frame_exec (F_clone (0, Obj 0)) one_frame {#(0, Obj 0)#} = Inr (st, {#(0, Obj 0), (0, Obj 0)#})
     \<and> frame_reach [0] st {#(0, Obj 0), (0, Obj 0)#}"
proof -
  obtain st where st: "frame_exec (F_clone (0, Obj 0)) one_frame {#(0, Obj 0)#}
      = Inr (st, {#(0, Obj 0), (0, Obj 0)#})"
    by (simp add: acquire_def one_frame_look)
  then show ?thesis by (metis frame_allowed.simps(2) frame_reach.step multi_member_last one_frame_reach)
qed

text \<open>C1: Code that uses only frames it holds cannot fail: every allocation, clone, drop, keep,
  setter and composition succeeds on every reachable store, so no frame is used after it was
  freed, no pool slot is returned twice, and a cascade of releases through composite frames
  ends.\<close>

theorem frame_ops_never_fail:
  assumes "frame_reach maxs st X" and "frame_allowed oper st X"
  shows "\<exists>st' X'. frame_exec oper st X = Inr (st', X') \<and> frame_reach maxs st' X'"
  using frame_exec_ok [OF frame_reach_ok [OF assms(1)] assms(2)] frame_reach.step [OF assms] by blast

theorem frame_ops_never_fail_witness:
  "\<exists>st' X'. frame_exec (F_drop (0, Obj 0)) one_frame {#(0, Obj 0)#} = Inr (st', X')
     \<and> frame_reach [0] st' X'"
  by (rule frame_ops_never_fail [OF one_frame_reach]) simp

text \<open>C2: The reference count of every live frame is the number of its holders plus the number
  of its occurrences in live composite frames, and is positive.\<close>

theorem frame_counts_references:
  assumes "frame_reach maxs st X" and "look st a = Some f"
  shows "ref_count f = int (count X a + (\<Sum>b\<in>dom (look st). count_list (children (the (look st b))) a))
    \<and> 0 < ref_count f"
proof -
  have "rc_inv (look st) X {}" using frame_reach_ok [OF assms(1)] by (simp add: frames_ok_def)
  then have "rc_at (look st) X {} a" by (rule rc_inv_at)
  then have "ref_count f = int (owned (look st) {} X a)" "1 \<le> owned (look st) {} X a"
    using assms(2) by (simp_all add: rc_at_def)
  then have "ref_count f = int (owned (look st) {} X a) \<and> 0 < ref_count f" by linarith
  then show ?thesis unfolding owned_def refs_from_def Diff_empty .
qed

theorem frame_counts_references_witness:
  "ref_count (new_frame\<lparr>fr_payload := Bytes [0, 0], ref_count := 1\<rparr>)
     = int (count {#(0 :: nat, Obj 0)#} (0, Obj 0)
         + (\<Sum>b\<in>dom (look one_frame). count_list (children (the (look one_frame b))) (0, Obj 0)))
   \<and> 0 < ref_count (new_frame\<lparr>fr_payload := Bytes [0, 0], ref_count := 1\<rparr>)"
  by (rule frame_counts_references [OF one_frame_reach one_frame_look])

text \<open>C13: Nothing leaks: once the last holder is dropped no frame is live in any archive,
  the children of composite frames included.\<close>

theorem frame_no_leak:
  assumes "frame_reach maxs st {#}"
  shows "look st = Map.empty"
  using frame_reach_ok [OF assms] ranked_no_leak by (auto simp: frames_ok_def)

theorem frame_no_leak_witness:
  "\<exists>st. frame_exec (F_drop (0, Obj 0)) one_frame {#(0, Obj 0)#} = Inr (st, {#}) \<and> look st = Map.empty"
proof -
  obtain st where st: "release (0, Obj 0) one_frame = Inr st"
    using release_ok [OF frame_reach_ok [OF one_frame_reach]] by fastforce
  then have e: "frame_exec (F_drop (0, Obj 0)) one_frame {#(0, Obj 0)#} = Inr (st, {#})" by simp
  have "frame_reach [0] st {#}" by (rule frame_reach.step [OF one_frame_reach _ e]) simp
  from frame_no_leak [OF this] e show ?thesis by blast
qed

text \<open>Dropping one holder leaves every frame that is still held as it was, its data,
  time stamp and profile included; only its reference count may change.\<close>

theorem frame_release_keeps_others:
  assumes "frame_reach maxs st X" and "a \<in># X" and "b \<in># X - {#a#}" and "release a st = Inr st'"
  shows "\<exists>f r. look st b = Some f \<and> look st' b = Some (f\<lparr>ref_count := r\<rparr>)"
proof -
  have ok: "frames_ok st' (X - {#a#})" "shrinks (look st) (look st')"
    using release_ok [OF frame_reach_ok [OF assms(1)] assms(2)] assms(4) by auto
  obtain f' where f': "look st' b = Some f'" using held_frame [OF ok(1) assms(3)] .
  with ok(2) obtain f where "look st b = Some f" "f' = f\<lparr>ref_count := ref_count f'\<rparr>"
    unfolding shrinks_def by blast
  with f' show ?thesis by metis
qed

theorem frame_release_keeps_others_witness:
  "\<exists>st st' f r. frame_reach [0] st {#(0, Obj 0), (0, Obj 0)#} \<and> release (0, Obj 0) st = Inr st'
     \<and> look st (0, Obj 0) = Some f \<and> look st' (0, Obj 0) = Some (f\<lparr>ref_count := r\<rparr>)"
proof -
  obtain st where st: "frame_reach [0] st {#(0, Obj 0), (0, Obj 0)#}" using two_holders by blast
  obtain st' where st': "release (0, Obj 0) st = Inr st'"
    using release_ok [OF frame_reach_ok [OF st], of "(0, Obj 0)"] by auto
  from frame_release_keeps_others [OF st _ _ st', of "(0, Obj 0)"] st st' show ?thesis by auto
qed

text \<open>C32: The archive's count of published frames is the number of live frames the user has
  not kept, and a bounded archive never has more of them than its limit.\<close>

theorem frame_publication_bounded:
  assumes "frame_reach maxs st X" and "k < length st"
  shows "published_count (st ! k) = of_nat (card (unkept (st ! k)))
    \<and> (max_queue (st ! k) = 0 \<or> card (unkept (st ! k)) \<le> unat (max_queue (st ! k)))"
  using frame_reach_ok [OF assms(1)] assms(2) word_neq_0_conv [of "max_queue (st ! k)"]
  by (auto simp: frames_ok_def store_ok_def arc_ok_def)

theorem frame_publication_bounded_witness:
  "published_count (one_frame ! 0) = of_nat (card (unkept (one_frame ! 0)))
    \<and> (max_queue (one_frame ! 0) = 0 \<or> card (unkept (one_frame ! 0)) \<le> unat (max_queue (one_frame ! 0)))"
  by (rule frame_publication_bounded [OF one_frame_reach]) (simp add: one_frame_def)



text \<open>A bounded archive of one frame, with its first pool slot written out.\<close>

lemma new_archive_1:
  "new_archive 1 = \<lparr>published = \<lparr>buffer = new_frame # replicate 127 new_frame,
       is_free = True # replicate 127 True, keep_allocating = True, heap_size = 0\<rparr>,
     objs = [], published_count = 0, max_queue = 1, callbacks = new_callbacks, pending_frames = 0,
     arc_sensor = None\<rparr>"
proof -
  have "(128::nat) = Suc 127" by simp
  then show ?thesis
    unfolding new_archive_def kUserQueueSize_def new_heap_def by (simp only: replicate_Suc)
qed

lemmas pool_exec_simps =
  new_archive_1 alloc_and_track_def publish_frame_def alloc_back_buffer_def acquire_def look_def
  arc_look_def put_def arc_put_def frame_move_def new_frame_def heap_allocate_def heap_used_def
  set_frame_def frame_set_sensor_def frame_set_profile_def release_def children_def unpublish_def
  unpublish_frame_def keep_frame_def heap_deallocate_def frame_reset_def Let_def

lemma recycled_slot_run:
  "\<exists>st1 st2 st3 st4.
     frame_exec (F_alloc 0 0 new_extension False) (map new_archive [1]) {#} = Inr (st1, {#(0, Slot 0)#})
   \<and> frame_exec (F_tag (0, Slot 0) (Some p) None) st1 {#(0, Slot 0)#} = Inr (st2, {#(0, Slot 0)#})
   \<and> frame_exec (F_drop (0, Slot 0)) st2 {#(0, Slot 0)#} = Inr (st3, {#})
   \<and> frame_exec (F_alloc 0 0 new_extension False) st3 {#} = Inr (st4, {#(0, Slot 0)#})
   \<and> map_option fr_profile (look st4 (0, Slot 0)) = Some (Some p)
   \<and> length st1 = 1 \<and> length st2 = 1 \<and> length st3 = 1"
  by (simp add: pool_exec_simps)

text \<open>A pool slot keeps the stream profile of its previous frame: returning a frame and
  publishing the next one into its slot move the data and the extension but not
  \<open>stream_profile_\<close>, so a newly allocated frame, which nobody has given a profile, reports
  the profile of a frame that was released.\<close>

theorem recycled_slot_keeps_profile:
  "\<exists>st st'. frame_reach [1] st {#}
     \<and> frame_exec (F_alloc 0 0 new_extension False) st {#} = Inr (st', {#(0, Slot 0)#})
     \<and> map_option fr_profile (look st' (0, Slot 0)) = Some (Some p)"
proof -
  obtain st1 st2 st3 st4 where
    e: "frame_exec (F_alloc 0 0 new_extension False) (map new_archive [1]) {#} = Inr (st1, {#(0, Slot 0)#})"
      "frame_exec (F_tag (0, Slot 0) (Some p) None) st1 {#(0, Slot 0)#} = Inr (st2, {#(0, Slot 0)#})"
      "frame_exec (F_drop (0, Slot 0)) st2 {#(0, Slot 0)#} = Inr (st3, {#})"
      "frame_exec (F_alloc 0 0 new_extension False) st3 {#} = Inr (st4, {#(0, Slot 0)#})"
      "map_option fr_profile (look st4 (0, Slot 0)) = Some (Some p)"
    using recycled_slot_run [of p] by blast
  have "frame_reach [1] st1 {#(0, Slot 0)#}" by (rule frame_reach.step [OF frame_reach.init _ e(1)]) simp
  then have "frame_reach [1] st2 {#(0, Slot 0)#}" by (rule frame_reach.step [OF _ _ e(2)]) simp
  then have "frame_reach [1] st3 {#}" by (rule frame_reach.step [OF _ _ e(3)]) simp
  with e(4,5) show ?thesis by blast
qed

end
