(* ===== verification/Frame_Source.thy ===== *)
theory Frame_Source
  imports Frame_Safety
begin

text \<open>
  \<open>FrameSource\<close> (\<open>src/core/frame_source.*\<close>): one archive per frame type, found by
  the type's \<open>SeExtension\<close>, and the callback frames are delivered to.  The archives live
  in the store of \<open>Frame_Refs\<close>; the source holds their indices.  After \<open>reset()\<close> the
  map keeps its keys with null pointers.
\<close>

section \<open>State and operations\<close>

record frame_source =
  src_archives :: "(se_extension \<times> nat option) list"
  src_callback :: "nat option"
  src_max :: u32

definition new_source :: "u32 \<Rightarrow> frame_source" where
  "new_source mx = \<lparr>src_archives = [], src_callback = None, src_max = mx\<rparr>"

text \<open>The types \<open>init\<close> makes archives for.\<close>

definition source_supported :: "se_extension list" where
  "source_supported =
     [EXT_VIDEO_FRAME, EXT_COMPOSITE_FRAME, EXT_POINTS, EXT_DEPTH_FRAME, EXT_DISPARITY_FRAME,
      EXT_MOTION_FRAME, EXT_POSE_FRAME, EXT_JOURNEY_FRAME, EXT_OBSTACLE_FRAME, EXT_LANE_FRAME,
      EXT_FREESPACE_FRAME, EXT_SMALL_OBS_FRAME, EXT_TRAFFIC_SIGN_FRAME, EXT_TRAFFIC_LIGHT_FRAME,
      EXT_FLATNESS_FRAME, EXT_VEHICLE_INFO_FRAME, EXT_Matrix]"

text \<open>\<open>makeArchive\<close>: every type but \<open>UNKNOWN\<close> has an archive class.\<close>

definition makeArchive :: "se_extension \<Rightarrow> u32 \<Rightarrow> se_error + archive" where
  "makeArchive ty mx =
     (if ty = EXT_UNKNOWN then Inl (Runtime_error ''Requested frame type is not supported!'')
      else Inr (new_archive mx))"

fun source_add :: "se_extension list \<Rightarrow> frame_source \<Rightarrow> store \<Rightarrow> se_error + frame_source \<times> store" where
  "source_add [] s st = Inr (s, st)"
| "source_add (ty # tys) s st =
     bind_result (makeArchive ty (src_max s))
       (\<lambda>A. source_add tys (s\<lparr>src_archives := omap_put ty (Some (length st)) (src_archives s)\<rparr>) (st @ [A]))"

definition source_init :: "frame_source \<Rightarrow> store \<Rightarrow> se_error + frame_source \<times> store" where
  "source_init s st = source_add source_supported s st"

definition source_reset :: "frame_source \<Rightarrow> frame_source" where
  "source_reset s = s\<lparr>src_callback := None,
     src_archives := map (\<lambda>(ty, _). (ty, None)) (src_archives s)\<rparr>"

definition source_set_callback :: "nat option \<Rightarrow> frame_source \<Rightarrow> frame_source" where
  "source_set_callback cb s = s\<lparr>src_callback := cb\<rparr>"

definition source_alloc_frame ::
    "se_extension \<Rightarrow> nat \<Rightarrow> frame_extension \<Rightarrow> bool \<Rightarrow> frame_source \<Rightarrow> store
      \<Rightarrow> se_error + addr option \<times> store" where
  "source_alloc_frame ty sz ext mem s st =
     (case map_of (src_archives s) ty of
        None \<Rightarrow> Inl (Runtime_error ''Requested frame type is not supported!'')
      | Some None \<Rightarrow> Inl (Undefined ''null archive'')
      | Some (Some k) \<Rightarrow> alloc_and_track k sz ext mem st)"

text \<open>
  How every producer makes a frame: allocate it, and if the allocation is not refused let
  \<open>load\<close> set its profile, sensor, data and the rest.
\<close>

definition alloc_filled ::
    "se_extension \<Rightarrow> nat \<Rightarrow> frame_extension \<Rightarrow> (frame \<Rightarrow> se_error + frame) \<Rightarrow> frame_source \<Rightarrow> store
      \<Rightarrow> se_error + addr option \<times> store" where
  "alloc_filled ty sz ext load s st =
     bind_result (source_alloc_frame ty sz ext True s st)
       (\<lambda>(r, st1).
          case r of
            None \<Rightarrow> Inr (None, st1)
          | Some a \<Rightarrow>
              (case look st1 a of
                 None \<Rightarrow> Inl (Undefined ''use of a freed frame'')
               | Some f \<Rightarrow> bind_result (load f) (\<lambda>f'. Inr (Some a, put a f' st1))))"

text \<open>
  \<open>set_sensor\<close> and \<open>flush\<close> visit the archives in key order; \<open>ops\<close> gives what the
  other threads do on each archive's callback pool while \<open>flush\<close> waits for it.
\<close>

fun archives_set_sensor :: "nat option \<Rightarrow> (se_extension \<times> nat option) list \<Rightarrow> store \<Rightarrow> se_error + store" where
  "archives_set_sensor sn [] st = Inr st"
| "archives_set_sensor sn ((ty, None) # as) st = Inl (Undefined ''null archive'')"
| "archives_set_sensor sn ((ty, Some k) # as) st =
     archives_set_sensor sn as (st[k := (st ! k)\<lparr>arc_sensor := sn\<rparr>])"

definition source_set_sensor :: "nat option \<Rightarrow> frame_source \<Rightarrow> store \<Rightarrow> se_error + store" where
  "source_set_sensor sn s st = archives_set_sensor sn (src_archives s) st"

fun archives_flush :: "(nat \<Rightarrow> heap_op list) \<Rightarrow> (se_extension \<times> nat option) list \<Rightarrow> store \<Rightarrow> store option" where
  "archives_flush ops [] st = Some st"
| "archives_flush ops ((ty, None) # as) st = archives_flush ops as st"
| "archives_flush ops ((ty, Some k) # as) st =
     (case arc_flush (ops k) (st ! k) of
        None \<Rightarrow> None
      | Some A \<Rightarrow> archives_flush ops as (st[k := A]))"

definition source_flush :: "(nat \<Rightarrow> heap_op list) \<Rightarrow> frame_source \<Rightarrow> store \<Rightarrow> store option" where
  "source_flush ops s st = archives_flush ops (src_archives s) st"

text \<open>
  \<open>invoke_callback\<close>: the frame goes to the callback, which owns it from then on, or is
  released with the holder when there is none.  The slot \<open>begin_callback\<close> takes in the
  frame's archive is returned when the call ends.
\<close>

definition with_callback :: "nat \<Rightarrow> store \<Rightarrow> (store \<Rightarrow> se_error + 'a \<times> store) \<Rightarrow> se_error + 'a \<times> store" where
  "with_callback k st f =
     (case begin_callback (callbacks (st ! k)) of
        (c, h) \<Rightarrow>
          bind_result (f (st[k := (st ! k)\<lparr>callbacks := h\<rparr>]))
            (\<lambda>(r, st'). bind_result (end_callback c (callbacks (st' ! k)))
               (\<lambda>h'. Inr (r, st'[k := (st' ! k)\<lparr>callbacks := h'\<rparr>]))))"

definition source_invoke_callback ::
    "addr option \<Rightarrow> frame_source \<Rightarrow> store \<Rightarrow> se_error + addr option \<times> store" where
  "source_invoke_callback fr s st =
     (case fr of
        None \<Rightarrow> Inr (None, st)
      | Some a \<Rightarrow>
          (case look st a of
             None \<Rightarrow> Inl (Undefined ''use of a freed frame'')
           | Some _ \<Rightarrow>
               with_callback (fst a) st
                 (\<lambda>st1. if src_callback s \<noteq> None then Inr (Some a, st1)
                        else bind_result (release a st1) (\<lambda>st2. Inr (None, st2)))))"

text \<open>\<open>FrameData::getSensor\<close>: the frame's own sensor, else that of its archive.\<close>

definition frame_sensor_of :: "addr \<Rightarrow> frame \<Rightarrow> store \<Rightarrow> nat option" where
  "frame_sensor_of a f st = (case fr_sensor f of Some sn \<Rightarrow> Some sn | None \<Rightarrow> arc_sensor (st ! fst a))"

section \<open>Frames made by a producer\<close>

text \<open>A source whose archives are the archives of a store.\<close>

definition source_within :: "frame_source \<Rightarrow> store \<Rightarrow> bool" where
  "source_within src st \<longleftrightarrow> (\<forall>e\<in>set (src_archives src). \<forall>k. snd e = Some k \<longrightarrow> k < length st)"

lemma source_withinD:
  "source_within src st \<Longrightarrow> map_of (src_archives src) ty = Some (Some k) \<Longrightarrow> k < length st"
  by (force simp: source_within_def dest: map_of_SomeD)

definition opt_addr :: "addr option \<Rightarrow> addr multiset" where
  "opt_addr r = (case r of None \<Rightarrow> {#} | Some a \<Rightarrow> {#a#})"

lemma opt_addr_simps [simp]: "opt_addr None = {#}" "opt_addr (Some a) = {#a#}"
  by (simp_all add: opt_addr_def)

text \<open>
  A frame that was allocated and filled is one new holder, and the frame is what \<open>load\<close> made of
  a fresh one; a refused allocation leaves the store as it was.
\<close>

lemma alloc_filled_ok:
  assumes st: "frames_ok st X" and src: "source_within src st"
    and load: "\<And>f g. children f = [] \<Longrightarrow> load f = Inr g \<Longrightarrow> children g = [] \<and> ref_count g = ref_count f
      \<and> fixed g = fixed f \<and> kept g = kept f"
    and r: "alloc_filled ty sz ext load src st = Inr (q, st')"
  shows "frames_ok st' (X + opt_addr q) \<and> length st' = length st
    \<and> (case q of None \<Rightarrow> st' = st
       | Some a \<Rightarrow> a \<notin># X \<and> (\<exists>f g. load f = Inr g \<and> look st' = (look st)(a \<mapsto> g) \<and> look st a = None \<and> children f = []
           \<and> fr_ext f = ext \<and> fr_items f = []))"
proof -
  obtain k where k: "map_of (src_archives src) ty = Some (Some k)"
    using r by (auto simp: alloc_filled_def source_alloc_frame_def split: option.splits)
  from alloc_and_track_ok [OF st source_withinD [OF src k], of sz ext True] obtain q' st1 where
    al: "alloc_and_track k sz ext True st = Inr (q', st1)" "length st1 = length st"
    and q: "case q' of None \<Rightarrow> st1 = st \<and> 0 < max_queue (st ! k) \<and> max_queue (st ! k) \<le> published_count (st ! k)
      | Some a \<Rightarrow> fst a = k \<and> frames_ok st1 (add_mset a X) \<and> fresh_frame st a st1 sz ext True" by blast
  have sa: "source_alloc_frame ty sz ext True src st = Inr (q', st1)"
    using k al(1) by (simp add: source_alloc_frame_def)
  show ?thesis
  proof (cases q')
    case None
    then show ?thesis using r sa q st by (simp add: alloc_filled_def)
  next
    case (Some a)
    obtain f where f: "look st1 a = Some f" "children f = []" "fr_ext f = ext" "look st a = None"
      "look st1 = (look st)(a \<mapsto> f)" "fr_items f = []"
      using q Some by (auto simp: fresh_frame_def)
    obtain g where g: "load f = Inr g" "st' = put a g st1" "q = Some a"
      using r sa Some f(1) by (auto simp: alloc_filled_def bind_result_Inr)
    from load [OF f(2) g(1)] have gf: "children g = children f" "ref_count g = ref_count f"
      "fixed g = fixed f" "kept g = kept f" using f(2) by simp_all
    have ok1: "frames_ok st1 (add_mset a X)" using q Some by simp
    have "set_frame (\<lambda>_. g) a st1 = Inr (put a g st1)" using f(1) by (simp add: set_frame_def)
    moreover have "\<exists>st2. set_frame (\<lambda>_. g) a st1 = Inr st2 \<and> frames_ok st2 (add_mset a X)"
      using gf f(1) by (intro set_frame_ok [OF ok1]) auto
    ultimately have "frames_ok st' (add_mset a X)" using g(2) by simp
    moreover have "look st' = (look st)(a \<mapsto> g)" using f(5) by (simp add: g(2) look_put [OF f(1)])
    moreover have "a \<notin># X" using held_frame [OF st, of a] f(4) by auto
    moreover have "length st' = length st" using al(2) g(2) by (simp add: put_def)
    ultimately show ?thesis using f(2-4,6) g(1,3) by auto
  qed
qed

lemma alloc_filled_loaded:
  assumes "alloc_filled ty sz ext load src st = Inr (Some a, st')"
  shows "\<exists>f g. load f = Inr g"
proof -
  obtain q st1 where q: "source_alloc_frame ty sz ext True src st = Inr (q, st1)"
    using assms by (cases "source_alloc_frame ty sz ext True src st") (auto simp: alloc_filled_def)
  obtain b where b: "q = Some b" using assms q by (cases q) (auto simp: alloc_filled_def)
  obtain f where f: "look st1 b = Some f" using assms q b by (cases "look st1 b") (auto simp: alloc_filled_def)
  show ?thesis using assms q b f by (cases "load f") (auto simp: alloc_filled_def)
qed

lemma alloc_filled_succeeds:
  assumes st: "frames_ok st X" and src: "source_within src st"
    and k: "map_of (src_archives src) ty = Some (Some k)"
    and load: "\<And>f. fr_ext f = ext \<Longrightarrow> \<exists>g. load f = Inr g"
  shows "\<exists>q st'. alloc_filled ty sz ext load src st = Inr (q, st')"
proof -
  from alloc_and_track_ok [OF st source_withinD [OF src k], of sz ext True] obtain q st1 where
    al: "alloc_and_track k sz ext True st = Inr (q, st1)"
    and q: "case q of None \<Rightarrow> st1 = st \<and> 0 < max_queue (st ! k) \<and> max_queue (st ! k) \<le> published_count (st ! k)
      | Some a \<Rightarrow> fst a = k \<and> frames_ok st1 (add_mset a X) \<and> fresh_frame st a st1 sz ext True"
    by blast
  show ?thesis
  proof (cases q)
    case None
    then show ?thesis using al k by (simp add: alloc_filled_def source_alloc_frame_def)
  next
    case (Some a)
    then obtain f where f: "look st1 a = Some f" "fr_ext f = ext" using q by (auto simp: fresh_frame_def)
    from load [OF f(2)] obtain g where "load f = Inr g" ..
    then show ?thesis using al k Some f by (simp add: alloc_filled_def source_alloc_frame_def)
  qed
qed

section \<open>What a source made by init provides\<close>

lemma source_add_Inr:
  "EXT_UNKNOWN \<notin> set tys \<Longrightarrow> omap_ok (src_archives s) \<Longrightarrow>
   \<exists>s'. source_add tys s st = Inr (s', st @ replicate (length tys) (new_archive (src_max s)))
     \<and> omap_ok (src_archives s') \<and> src_callback s' = src_callback s
     \<and> (\<forall>ty. ty \<notin> set tys \<longrightarrow> map_of (src_archives s') ty = map_of (src_archives s) ty)
     \<and> (\<forall>ty\<in>set tys. \<exists>k. map_of (src_archives s') ty = Some (Some k)
          \<and> length st \<le> k \<and> k < length st + length tys)"
proof (induction tys arbitrary: s st)
  case Nil
  then show ?case by simp
next
  case (Cons ty tys)
  let ?s = "s\<lparr>src_archives := omap_put ty (Some (length st)) (src_archives s)\<rparr>"
  let ?st = "st @ [new_archive (src_max s)]"
  obtain s' where s': "source_add tys ?s ?st = Inr (s', ?st @ replicate (length tys) (new_archive (src_max s)))"
    "omap_ok (src_archives s')" "src_callback s' = src_callback s"
    "\<forall>t. t \<notin> set tys \<longrightarrow> map_of (src_archives s') t = map_of (src_archives ?s) t"
    "\<forall>t\<in>set tys. \<exists>k. map_of (src_archives s') t = Some (Some k) \<and> length ?st \<le> k \<and> k < length ?st + length tys"
    using Cons.IH [of ?s ?st] Cons.prems by auto
  have step: "source_add (ty # tys) s st = source_add tys ?s ?st"
    using Cons.prems(1) by (auto simp: makeArchive_def)
  have old: "\<forall>t. t \<notin> set (ty # tys) \<longrightarrow> map_of (src_archives s') t = map_of (src_archives s) t"
    using s'(4) Cons.prems(2) by (simp add: map_of_omap_put)
  have new: "\<exists>k. map_of (src_archives s') t = Some (Some k) \<and> length st \<le> k
      \<and> k < length st + length (ty # tys)" if t: "t \<in> set (ty # tys)" for t
  proof (cases "t \<in> set tys")
    case True
    with s'(5) obtain k where "map_of (src_archives s') t = Some (Some k)"
      "length ?st \<le> k" "k < length ?st + length tys" by blast
    then show ?thesis by auto
  next
    case False
    with t s'(4) Cons.prems(2) have "map_of (src_archives s') t = Some (Some (length st))"
      by (simp add: map_of_omap_put)
    then show ?thesis by simp
  qed
  show ?case
    using s'(1-3) step old new by (intro exI [of _ s']) (auto simp: replicate_append_same)
qed

lemma source_init_Inr:
  assumes "omap_ok (src_archives s)"
  shows "\<exists>s'. source_init s st = Inr (s', st @ replicate 17 (new_archive (src_max s)))
    \<and> (\<forall>ty. ty \<noteq> EXT_UNKNOWN \<longrightarrow> (\<exists>k. map_of (src_archives s') ty = Some (Some k)
          \<and> length st \<le> k \<and> k < length st + 17))"
proof -
  have u: "EXT_UNKNOWN \<notin> set source_supported" "length source_supported = 17"
    by (simp_all add: source_supported_def)
  have all: "ty \<in> set source_supported" if "ty \<noteq> EXT_UNKNOWN" for ty
    using that by (cases ty) (simp_all add: source_supported_def)
  from source_add_Inr [OF u(1) assms, of st] show ?thesis
    unfolding source_init_def u(2) using all by auto
qed

lemma with_callback_frame:
  assumes "\<And>c. f (st[k := (st ! k)\<lparr>callbacks := c\<rparr>]) = Inr (r, st[k := (st ! k)\<lparr>callbacks := c\<rparr>])"
    and "heap_inv (callbacks (st ! k))" and "k < length st"
  shows "\<exists>h. with_callback k st f = Inr (r, st[k := (st ! k)\<lparr>callbacks := h\<rparr>])
    \<and> heap_used h = heap_used (callbacks (st ! k)) \<and> heap_inv h"
proof -
  obtain c h where b: "begin_callback (callbacks (st ! k)) = (c, h)" by fastforce
  from begin_end_callback [OF assms(2) b] obtain h'' where
    "end_callback c h = Inr h''" "heap_used h'' = heap_used (callbacks (st ! k))" "heap_inv h''" by blast
  then show ?thesis using assms(1,3) by (intro exI [of _ h'']) (simp add: with_callback_def b)
qed

section \<open>Properties\<close>

text \<open>After \<open>init\<close> every frame type of the library can be allocated: the allocation
  reaches an archive and is refused only by that archive, never for want of one.\<close>

theorem source_init_supports_all:
  assumes "omap_ok (src_archives s)" and "ty \<noteq> EXT_UNKNOWN"
  shows "\<exists>s' st' r st''. source_init s st = Inr (s', st')
     \<and> source_alloc_frame ty sz ext mem s' st' = Inr (r, st'')"
proof -
  obtain s' k where s': "source_init s st = Inr (s', st @ replicate 17 (new_archive (src_max s)))"
    "map_of (src_archives s') ty = Some (Some k)" "length st \<le> k" "k < length st + 17"
    using source_init_Inr [OF assms(1), of st] assms(2) by blast
  let ?A = "(st @ replicate 17 (new_archive (src_max s))) ! k"
  have A: "?A = new_archive (src_max s)" using s'(3,4) by (simp add: nth_append)
  obtain r B where p: "publish_frame (alloc_back_buffer sz ext mem) ?A = (r, B)" by fastforce
  have "\<exists>r st''. alloc_and_track k sz ext mem (st @ replicate 17 (new_archive (src_max s))) = Inr (r, st'')"
  proof (cases r)
    case None
    then show ?thesis using p s'(4) by (simp add: alloc_and_track_def)
  next
    case (Some l)
    have "heap_inv (published ?A)" unfolding A using arc_ok_new by (simp add: arc_ok_def)
    then have "arc_look B l \<noteq> None"
      using publish_frame_spec [of _ ?A l B] p Some by fastforce
    then show ?thesis
      using p Some s'(3,4) by (auto simp: alloc_and_track_def acquire_def look_def)
  qed
  with s' show ?thesis by (auto simp: source_alloc_frame_def)
qed

theorem source_init_supports_all_witness:
  "\<exists>s' st' r st''. source_init (new_source 256) [] = Inr (s', st')
     \<and> source_alloc_frame EXT_Matrix 8 new_extension True s' st' = Inr (r, st'')"
  by (rule source_init_supports_all) (simp_all add: new_source_def)

text \<open>After \<open>reset()\<close> the source keeps its keys with null archives, so an allocation
  that would be reported as an unsupported type dereferences a null pointer instead.\<close>

theorem source_reset_leaves_null:
  assumes "map_of (src_archives s) ty \<noteq> None"
  shows "source_alloc_frame ty sz ext mem (source_reset s) st = Inl (Undefined ''null archive'')"
proof -
  have "map_of (map (\<lambda>(ty, _). (ty, None :: nat option)) xs) ty = map_option (\<lambda>_. None) (map_of xs ty)"
    for xs :: "(se_extension \<times> nat option) list"
    by (induction xs) auto
  from this [of "src_archives s"] show ?thesis
    using assms by (auto simp: source_alloc_frame_def source_reset_def)
qed

theorem source_reset_leaves_null_witness:
  "source_alloc_frame EXT_Matrix 8 new_extension True
     (source_reset ((new_source 256)\<lparr>src_archives := [(EXT_Matrix, Some 0)]\<rparr>)) []
   = Inl (Undefined ''null archive'')"
  by (rule source_reset_leaves_null) simp

end
