(* ===== verification/Frame_Aggregator.thy ===== *)
theory Frame_Aggregator
  imports Frame_Source Consumer_Queue
begin

text \<open>
  \<open>FrameAggregator\<close> (\<open>src/core/frame_aggregator.*\<close>) and the \<open>ProcessingBlock\<close> that
  drives it (\<open>src/proc/processing.*\<close>): frames of the wanted streams are collected until
  each stream has one, and are then handed on as one composite frame through a queue.

  The aggregator owns the holders in \<open>last_set_\<close> and in its queue; \<open>agg_held\<close> lists
  them, and the safety theorem accounts for every reference they make.
\<close>

section \<open>State\<close>

definition kFrameNum2Aggregate :: nat where
  "kFrameNum2Aggregate = 250"

record aggregator =
  last_set :: "(int \<times> addr option) list"
  agg_queue :: "addr cq"
  wanted :: "int list"
  agg_accepting :: bool
  has_processing :: bool

text \<open>A \<open>std::set<int>\<close> is a sorted list without repetition.\<close>

definition new_aggregator :: "int list \<Rightarrow> aggregator" where
  "new_aggregator ids = \<lparr>last_set = [], agg_queue = new_cq kFrameNum2Aggregate,
     wanted = sort (remdups ids), agg_accepting = True, has_processing = False\<rparr>"

definition agg_start :: "aggregator \<Rightarrow> aggregator" where
  "agg_start ag = ag\<lparr>has_processing := True, agg_accepting := True\<rparr>"

text \<open>\<open>stop()\<close> clears the queue, which destroys the holders in it.\<close>

definition agg_stop :: "aggregator \<Rightarrow> store \<Rightarrow> se_error + aggregator \<times> store" where
  "agg_stop ag st =
     bind_result (run_release (map Rel (items (agg_queue ag))) st)
       (\<lambda>st'. Inr (ag\<lparr>agg_accepting := False, agg_queue := cq_clear (agg_queue ag),
                     has_processing := False\<rparr>, st'))"

section \<open>Holders\<close>

text \<open>\<open>last_set_[uid] = holder\<close>: the holder that was there is released.\<close>

definition assign_last :: "int \<Rightarrow> addr \<Rightarrow> aggregator \<Rightarrow> store \<Rightarrow> se_error + aggregator \<times> store" where
  "assign_last uid a ag st =
     (let ag' = ag\<lparr>last_set := omap_put uid (Some a) (last_set ag)\<rparr>
      in case map_of (last_set ag) uid of
           Some (Some old) \<Rightarrow> bind_result (release old st) (\<lambda>st'. Inr (ag', st'))
         | _ \<Rightarrow> Inr (ag', st))"

text \<open>The vector of clones of all holders of \<open>last_set_\<close>; a null holder clones to null.\<close>

fun clone_all :: "addr option list \<Rightarrow> store \<Rightarrow> se_error + store" where
  "clone_all [] st = Inr st"
| "clone_all (None # hs) st = clone_all hs st"
| "clone_all (Some a # hs) st = bind_result (acquire a st) (clone_all hs)"

text \<open>
  \<open>queue_->enqueue(holder)\<close>: the holder is destroyed when the queue does not accept, the
  oldest one when the queue overflows.
\<close>

definition agg_enqueue :: "addr \<Rightarrow> aggregator \<Rightarrow> store \<Rightarrow> se_error + aggregator \<times> store" where
  "agg_enqueue c ag st =
     (let q = agg_queue ag;
          dropped = (if \<not> accepting q then [c]
                     else if capacity q < length (items q @ [c]) then [hd (items q @ [c])] else [])
      in bind_result (run_release (map Rel dropped) st)
           (\<lambda>st'. Inr (ag\<lparr>agg_queue := cq_enqueue c q\<rparr>, st')))"

definition agg_pop_front :: "aggregator \<Rightarrow> store \<Rightarrow> se_error + aggregator \<times> store" where
  "agg_pop_front ag st =
     bind_result (run_release (map Rel (take 1 (items (agg_queue ag)))) st)
       (\<lambda>st'. Inr (ag\<lparr>agg_queue := cq_pop_front (agg_queue ag)\<rparr>, st'))"

section \<open>handleFrame\<close>

text \<open>
  The branch for a single frame.  \<open>k\<close> is the composite archive of the aggregator's own
  frame source.  The composite takes time stamp, domain, sensor and profile from the frame
  that completed the set.
\<close>

definition tag_sync_frame :: "addr \<Rightarrow> frame \<Rightarrow> store \<Rightarrow> frame \<Rightarrow> frame" where
  "tag_sync_frame a f st =
     frame_set_profile (fr_profile f) \<circ> frame_set_sensor (frame_sensor_of a f st)
     \<circ> frame_set_domain (fe_domain (fr_ext f)) \<circ> frame_set_timestamp (fe_timestamp (fr_ext f))"

definition publish_set :: "nat \<Rightarrow> addr \<Rightarrow> frame \<Rightarrow> aggregator \<Rightarrow> store \<Rightarrow> se_error + aggregator \<times> store" where
  "publish_set k a f ag st =
     bind_result (clone_all (map snd (last_set ag)) st) (\<lambda>st1.
     bind_result (allocate_composite k (map snd (last_set ag)) st1) (\<lambda>(r, st2).
       case r of
         None \<Rightarrow> Inr (ag, st2)
       | Some c \<Rightarrow>
           bind_result (set_frame (tag_sync_frame a f st2) c st2) (\<lambda>st3.
           bind_result (if cq_size (agg_queue ag) < kFrameNum2Aggregate
                        then bind_result (acquire c st3) (agg_enqueue c ag)
                        else agg_pop_front ag st3) (\<lambda>(ag4, st4).
           bind_result (run_release (map Rel (somes (map snd (last_set ag4)))) st4) (\<lambda>st5.
           bind_result (release c st5) (\<lambda>st6.
             Inr (ag4\<lparr>last_set := []\<rparr>, st6)))))))"

definition handle_single :: "nat \<Rightarrow> addr \<Rightarrow> aggregator \<Rightarrow> store \<Rightarrow> se_error + aggregator \<times> store" where
  "handle_single k a ag st =
     (case look st a of
        None \<Rightarrow> Inl (Undefined ''use of a freed frame'')
      | Some f \<Rightarrow>
          (case fr_profile f of
             None \<Rightarrow> Inr (ag, st)
           | Some p \<Rightarrow>
               if sp_uid p \<notin> set (wanted ag) then Inr (ag, st)
               else bind_result (acquire a st) (\<lambda>st1.
                    bind_result (assign_last (sp_uid p) a ag st1) (\<lambda>(ag2, st2).
                      if length (last_set ag2) = length (wanted ag2)
                      then publish_set k a f ag2 st2
                      else Inr (ag2, st2)))))"

text \<open>
  The branch for a composite frame: every child replaces the last frame of its stream,
  whether that stream is wanted or not; then the wanted streams are looked up with
  \<open>operator[]\<close>, which inserts a null holder for the first missing one.
\<close>

fun take_children :: "addr option list \<Rightarrow> aggregator \<Rightarrow> store \<Rightarrow> se_error + aggregator \<times> store" where
  "take_children [] ag st = Inr (ag, st)"
| "take_children (None # cs) ag st = Inl (Undefined ''null child frame'')"
| "take_children (Some c # cs) ag st =
     bind_result (acquire c st) (\<lambda>st1.
       case look st1 c of
         None \<Rightarrow> Inl (Undefined ''use of a freed frame'')
       | Some f \<Rightarrow>
           (case fr_profile f of
              None \<Rightarrow> Inl (Undefined ''null stream profile'')
            | Some p \<Rightarrow> bind_result (assign_last (sp_uid p) c ag st1)
                (\<lambda>(ag2, st2). take_children cs ag2 st2)))"

fun all_present :: "int list \<Rightarrow> (int \<times> addr option) list \<Rightarrow> bool \<times> (int \<times> addr option) list" where
  "all_present [] m = (True, m)"
| "all_present (sid # sids) m =
     (case map_of m sid of
        None \<Rightarrow> (False, omap_put sid None m)
      | Some None \<Rightarrow> (False, m)
      | Some (Some a) \<Rightarrow> all_present sids m)"

definition handle_composite :: "nat \<Rightarrow> addr \<Rightarrow> aggregator \<Rightarrow> store \<Rightarrow> se_error + aggregator \<times> store" where
  "handle_composite k a ag st =
     (case look st a of
        None \<Rightarrow> Inl (Undefined ''use of a freed frame'')
      | Some f \<Rightarrow>
          bind_result (take_children (case fr_payload f of Bytes _ \<Rightarrow> []
                         | Children cs \<Rightarrow> take (frame_count f) cs) ag st) (\<lambda>(ag1, st1).
            case all_present (wanted ag1) (last_set ag1) of
              (False, m) \<Rightarrow> Inr (ag1\<lparr>last_set := m\<rparr>, st1)
            | (True, m) \<Rightarrow>
                bind_result (clone_all (map snd m) st1) (\<lambda>st2.
                bind_result (allocate_composite k (map snd m) st2) (\<lambda>(r, st3).
                  case r of
                    None \<Rightarrow> Inr (ag1\<lparr>last_set := m\<rparr>, st3)
                  | Some c \<Rightarrow>
                      bind_result (acquire c st3) (\<lambda>st4.
                      bind_result (agg_enqueue c (ag1\<lparr>last_set := m\<rparr>) st4) (\<lambda>(ag5, st5).
                      bind_result (release c st5) (\<lambda>st6. Inr (ag5, st6))))))))"

text \<open>
  \<open>comps\<close> are the archives of composite frames, by which \<open>dynamic_cast\<close> tells a
  composite frame.
\<close>

definition handle_frame :: "nat list \<Rightarrow> nat \<Rightarrow> addr \<Rightarrow> aggregator \<Rightarrow> store \<Rightarrow> se_error + aggregator \<times> store" where
  "handle_frame comps k a ag st =
     (if \<not> agg_accepting ag then Inr (ag, st)
      else if fst a \<in> set comps then handle_composite k a ag st
      else handle_single k a ag st)"

text \<open>
  \<open>ProcessingBlock::invoke\<close>: with an output callback the frame goes there; otherwise the
  processing callback (\<open>InternalFrameProcessorCallback::onFrame\<close>) wraps it in a holder,
  handles it and releases it.  With neither, the raw pointer is dropped.  An error is given to the
  caller, although the code catches exceptions here: those of \<open>handleFrame\<close> are undefined behaviour, which
  nothing catches.  The slot of the block's own callback counter is free again at the end and left out.
\<close>

definition processor_on_frame ::
    "nat list \<Rightarrow> nat \<Rightarrow> addr \<Rightarrow> aggregator \<Rightarrow> store \<Rightarrow> se_error + aggregator \<times> store" where
  "processor_on_frame comps k a ag st =
     bind_result (handle_frame comps k a ag st)
       (\<lambda>(ag1, st1). bind_result (release a st1) (\<lambda>st2. Inr (ag1, st2)))"

definition block_invoke ::
    "nat list \<Rightarrow> nat \<Rightarrow> frame_source \<Rightarrow> addr \<Rightarrow> aggregator \<Rightarrow> store
      \<Rightarrow> se_error + addr option \<times> aggregator \<times> store" where
  "block_invoke comps k src a ag st =
     (if src_callback src \<noteq> None
      then bind_result (source_invoke_callback (Some a) src st) (\<lambda>(r, st1). Inr (r, ag, st1))
      else if has_processing ag
      then bind_result (processor_on_frame comps k a ag st) (\<lambda>(ag1, st1). Inr (None, ag1, st1))
      else Inr (None, ag, st))"

text \<open>\<open>dequeue\<close> and \<open>tryDequeue\<close> hand the holder to the caller.\<close>

definition agg_try_dequeue :: "aggregator \<Rightarrow> addr option \<times> aggregator" where
  "agg_try_dequeue ag =
     (case cq_try_dequeue (agg_queue ag) of (r, q) \<Rightarrow> (r, ag\<lparr>agg_queue := q\<rparr>))"

definition agg_dequeue :: "addr cq_op list \<Rightarrow> aggregator \<Rightarrow> addr option \<times> aggregator" where
  "agg_dequeue ops ag =
     (case cq_dequeue ops (agg_queue ag) of (r, q) \<Rightarrow> (r, ag\<lparr>agg_queue := q\<rparr>))"

section \<open>What the aggregator holds\<close>

definition agg_held :: "aggregator \<Rightarrow> addr multiset" where
  "agg_held ag = mset (somes (map snd (last_set ag))) + mset (items (agg_queue ag))"

definition agg_ok :: "aggregator \<Rightarrow> bool" where
  "agg_ok ag \<longleftrightarrow> omap_ok (last_set ag) \<and> None \<notin> snd ` set (last_set ag)
     \<and> fst ` set (last_set ag) \<subseteq> set (wanted ag) \<and> distinct (wanted ag)
     \<and> capacity (agg_queue ag) = kFrameNum2Aggregate"

lemma agg_ok_new: "agg_ok (new_aggregator ids)" "agg_held (new_aggregator ids) = {#}"
  by (simp_all add: agg_ok_def new_aggregator_def agg_held_def new_cq_def)

lemma somes_all_Some: "None \<notin> set hs \<Longrightarrow> map Some (somes hs) = hs"
  by (induction hs rule: somes.induct) auto

lemma mset_somes: "mset (somes hs) = image_mset the (filter_mset (\<lambda>h. h \<noteq> None) (mset hs))"
  by (induction hs rule: somes.induct) auto

lemma mset_somes_eq: "mset hs = mset hs' \<Longrightarrow> mset (somes hs) = mset (somes hs')"
  by (simp add: mset_somes)

lemma mset_somes_Cons: "mset (somes (h # hs)) = (case h of None \<Rightarrow> {#} | Some a \<Rightarrow> {#a#}) + mset (somes hs)"
  by (cases h) auto

lemma held_omap_put:
  assumes "omap_ok m"
  shows "mset (somes (map snd (omap_put k (Some a) m)))
      + (case map_of m k of Some (Some old) \<Rightarrow> {#old#} | _ \<Rightarrow> {#})
    = add_mset a (mset (somes (map snd m)))"
proof (cases "map_of m k")
  case None
  then have "mset (map snd (omap_put k (Some a) m)) = mset (Some a # map snd m)"
    using mset_omap_put [OF assms, of k "Some a"] by simp
  from mset_somes_eq [OF this] None show ?thesis by simp
next
  case (Some w)
  then have "mset (w # map snd (omap_put k (Some a) m)) = mset (Some a # map snd m)"
    using mset_omap_put [OF assms, of k "Some a"] by simp
  from mset_somes_eq [OF this] Some show ?thesis
    by (cases w) (auto simp: ac_simps)
qed

lemma clone_all_ok:
  "frames_ok st X \<Longrightarrow> set_mset (mset (somes hs)) \<subseteq> set_mset X \<Longrightarrow>
   \<exists>st'. clone_all hs st = Inr st' \<and> frames_ok st' (X + mset (somes hs)) \<and> length st' = length st"
proof (induction hs arbitrary: st X rule: somes.induct)
  case 1
  then show ?case by simp
next
  case (2 hs)
  then show ?case by simp
next
  case (3 a hs)
  then have "a \<in># X" by auto
  from acquire_ok [OF 3(2) this] obtain st1 where
    st1: "acquire a st = Inr st1" "frames_ok st1 (add_mset a X)" by blast
  have len: "length st1 = length st" using st1(1) by (auto simp: acquire_def put_def split: option.splits)
  have "set_mset (mset (somes hs)) \<subseteq> set_mset (add_mset a X)" using 3(3) by auto
  from 3(1) [OF st1(2) this] st1(1) len show ?case by auto
qed

lemma assign_last_ok:
  assumes st: "frames_ok st (X + agg_held ag + {#a#})" and ag: "agg_ok ag" "uid \<in> set (wanted ag)"
  shows "\<exists>ag' st'. assign_last uid a ag st = Inr (ag', st') \<and> frames_ok st' (X + agg_held ag')
    \<and> agg_ok ag' \<and> ag' = ag\<lparr>last_set := omap_put uid (Some a) (last_set ag)\<rparr> \<and> length st' = length st
    \<and> shrinks (look st) (look st')"
proof -
  let ?ag = "ag\<lparr>last_set := omap_put uid (Some a) (last_set ag)\<rparr>"
  have om: "omap_ok (last_set ag)" using ag(1) by (simp add: agg_ok_def)
  have ok: "agg_ok ?ag"
    using ag snd_omap_put [OF om, of uid "Some a"] om by (auto simp: agg_ok_def)
  note held = held_omap_put [OF om, of uid a]
  show ?thesis
  proof (cases "\<exists>old. map_of (last_set ag) uid = Some (Some old)")
    case True
    then obtain old where old: "map_of (last_set ag) uid = Some (Some old)" by blast
    have eq: "X + agg_held ag + {#a#} = X + agg_held ?ag + {#old#}"
      using held old by (simp add: agg_held_def ac_simps)
    have "old \<in># X + agg_held ag + {#a#}" unfolding eq by simp
    from release_ok [OF st this] obtain st' where
      "release old st = Inr st'" "frames_ok st' (X + agg_held ag + {#a#} - {#old#})"
      "shrinks (look st) (look st')" "length st' = length st" by blast
    then show ?thesis using old ok unfolding eq by (simp add: assign_last_def Let_def)
  next
    case False
    then have e: "(case map_of (last_set ag) uid of Some (Some old) \<Rightarrow> {#old#} | _ \<Rightarrow> {#}) = {#}"
      by (auto split: option.splits)
    have "X + agg_held ag + {#a#} = X + agg_held ?ag"
      using held unfolding e by (simp add: agg_held_def ac_simps)
    with st have "frames_ok st (X + agg_held ?ag)" by (simp only:)
    then show ?thesis
      using False ok by (auto simp: assign_last_def Let_def split: option.splits)
  qed
qed

text \<open>The holders the queue gives up on an enqueue are released.\<close>

lemma agg_enqueue_ok:
  assumes st: "frames_ok st (X + agg_held ag + {#c#})"
  shows "\<exists>ag' st'. agg_enqueue c ag st = Inr (ag', st') \<and> frames_ok st' (X + agg_held ag')
    \<and> ag' = ag\<lparr>agg_queue := cq_enqueue c (agg_queue ag)\<rparr> \<and> length st' = length st
    \<and> shrinks (look st) (look st')"
proof -
  let ?q = "agg_queue ag"
  let ?ag = "ag\<lparr>agg_queue := cq_enqueue c ?q\<rparr>"
  define dropped where "dropped = (if \<not> accepting ?q then [c]
    else if capacity ?q < length (items ?q @ [c]) then [hd (items ?q @ [c])] else [])"
  have "agg_held ag + {#c#} = agg_held ?ag + mset dropped"
  proof (cases "accepting ?q \<and> capacity ?q < length (items ?q @ [c])")
    case True
    obtain y ys where y: "items ?q @ [c] = y # ys" by (cases "items ?q @ [c]") auto
    from True have "items (cq_enqueue c ?q) = ys" using y by (simp add: cq_enqueue_def Let_def)
    moreover have "mset (items ?q) + {#c#} = add_mset y (mset ys)" using y
      by (metis mset.simps(1) mset.simps(2) mset_append)
    moreover have "dropped = [y]" using True y by (simp add: dropped_def)
    ultimately show ?thesis by (simp add: agg_held_def)
  next
    case False
    then show ?thesis by (auto simp: agg_held_def dropped_def cq_enqueue_def Let_def)
  qed
  then have "frames_ok st ((X + agg_held ?ag) + mset dropped)" using st by (simp add: ac_simps)
  from releases_ok [OF this] obtain st' where
    "run_release (map Rel dropped) st = Inr st'" "frames_ok st' (X + agg_held ?ag)"
    "shrinks (look st) (look st')" "length st' = length st" by blast
  then show ?thesis by (simp add: agg_enqueue_def Let_def flip: dropped_def)
qed

lemma agg_pop_front_ok:
  assumes st: "frames_ok st (X + agg_held ag)"
  shows "\<exists>ag' st'. agg_pop_front ag st = Inr (ag', st') \<and> frames_ok st' (X + agg_held ag')
    \<and> ag' = ag\<lparr>agg_queue := cq_pop_front (agg_queue ag)\<rparr> \<and> length st' = length st"
proof -
  let ?ag = "ag\<lparr>agg_queue := cq_pop_front (agg_queue ag)\<rparr>"
  have "X + agg_held ag = (X + agg_held ?ag) + mset (take 1 (items (agg_queue ag)))"
    by (cases "items (agg_queue ag)") (simp_all add: agg_held_def cq_pop_front_def ac_simps)
  with st have "frames_ok st ((X + agg_held ?ag) + mset (take 1 (items (agg_queue ag))))" by simp
  from releases_ok [OF this] show ?thesis by (auto simp: agg_pop_front_def)
qed

lemma tag_sync_frame_simps [simp]:
  "children (tag_sync_frame a f st g) = children g" "ref_count (tag_sync_frame a f st g) = ref_count g"
  "fixed (tag_sync_frame a f st g) = fixed g" "kept (tag_sync_frame a f st g) = kept g"
  "fr_profile (tag_sync_frame a f st g) = fr_profile f"
  "fe_timestamp (fr_ext (tag_sync_frame a f st g)) = fe_timestamp (fr_ext f)"
  "fe_domain (fr_ext (tag_sync_frame a f st g)) = fe_domain (fr_ext f)"
  by (simp_all add: tag_sync_frame_def frame_set_profile_def frame_set_sensor_def
      frame_set_domain_def frame_set_timestamp_def)

text \<open>The frame a completed set is published as.\<close>

definition sync_frame_ok :: "frame \<Rightarrow> addr list \<Rightarrow> frame \<Rightarrow> bool" where
  "sync_frame_ok f as g \<longleftrightarrow> children g = as \<and> fr_profile g = fr_profile f
     \<and> fe_timestamp (fr_ext g) = fe_timestamp (fr_ext f) \<and> fe_domain (fr_ext g) = fe_domain (fr_ext f)"

lemma shrinks_sync:
  assumes "shrinks m m'" "m c = Some g" "sync_frame_ok f as g" "m' c = Some g'"
  shows "sync_frame_ok f as g'"
proof -
  obtain h where "m c = Some h" "g' = h\<lparr>ref_count := ref_count g'\<rparr>"
    using assms(1,4) unfolding shrinks_def by blast
  then have "g' = g\<lparr>ref_count := ref_count g'\<rparr>" using assms(2) by simp
  then obtain r where "g' = g\<lparr>ref_count := r\<rparr>" by blast
  then show ?thesis using assms(3) by (simp add: sync_frame_ok_def)
qed

lemma sync_put:
  "look st c = Some g \<Longrightarrow> sync_frame_ok f as g \<Longrightarrow>
   acquire c st = Inr st' \<Longrightarrow> \<exists>g'. look st' c = Some g' \<and> sync_frame_ok f as g'"
  by (auto simp: acquire_def look_put sync_frame_ok_def)

text \<open>
  The end of \<open>publish_set\<close>: the set is cleared and the local holder of the composite
  frame dropped.  What the queue holds is untouched.
\<close>

lemma finish_set_ok:
  assumes st: "frames_ok st (X + agg_held ag + {#c#})"
  shows "\<exists>st' st''. run_release (map Rel (somes (map snd (last_set ag)))) st = Inr st'
    \<and> release c st' = Inr st'' \<and> frames_ok st'' (X + agg_held (ag\<lparr>last_set := []\<rparr>))
    \<and> length st'' = length st \<and> shrinks (look st) (look st'')"
proof -
  let ?as = "somes (map snd (last_set ag))"
  have eq: "X + agg_held ag + {#c#} = (X + mset (items (agg_queue ag)) + {#c#}) + mset ?as"
    by (simp add: agg_held_def ac_simps)
  have "frames_ok st ((X + mset (items (agg_queue ag)) + {#c#}) + mset ?as)"
    using st unfolding eq .
  from releases_ok [OF this] obtain st' where
    st': "run_release (map Rel ?as) st = Inr st'"
      "frames_ok st' (X + mset (items (agg_queue ag)) + {#c#})"
      "shrinks (look st) (look st')" "length st' = length st" by blast
  from release_ok [OF st'(2), of c] obtain st'' where
    "release c st' = Inr st''" "frames_ok st'' (X + mset (items (agg_queue ag)))"
    "shrinks (look st') (look st'')" "length st'' = length st'" by auto
  with st' show ?thesis by (auto simp: agg_held_def intro: shrinks_trans)
qed

definition published_as :: "frame \<Rightarrow> aggregator \<Rightarrow> aggregator \<Rightarrow> store \<Rightarrow> bool" where
  "published_as f ag ag' st' \<longleftrightarrow>
     (\<exists>c. ag' = ag\<lparr>agg_queue := cq_enqueue c (agg_queue ag), last_set := []\<rparr>
        \<and> (accepting (agg_queue ag) \<longrightarrow>
             (\<exists>g. look st' c = Some g \<and> sync_frame_ok f (map (the \<circ> snd) (last_set ag)) g)))"

lemma publish_set_ok:
  assumes st: "frames_ok st (X + agg_held ag)" and ag: "agg_ok ag" and k: "k < length st"
  shows "\<exists>ag' st'. publish_set k a f ag st = Inr (ag', st') \<and> frames_ok st' (X + agg_held ag')
    \<and> agg_ok ag' \<and> length st' = length st
    \<and> (ag' = ag \<or>
       (if cq_size (agg_queue ag) < kFrameNum2Aggregate
        then published_as f ag ag' st'
        else ag' = ag\<lparr>agg_queue := cq_pop_front (agg_queue ag), last_set := []\<rparr>))"
proof -
  let ?hs = "map snd (last_set ag)" and ?as = "somes (map snd (last_set ag))"
  have "None \<notin> set ?hs" using ag by (auto simp: agg_ok_def)
  then have hs: "map Some ?as = ?hs" by (rule somes_all_Some)
  have as: "?as = map (the \<circ> snd) (last_set ag)"
    using arg_cong [OF hs, of "map the"] by (simp add: o_def)
  have "set_mset (mset ?as) \<subseteq> set_mset (X + agg_held ag)" by (auto simp: agg_held_def)
  from clone_all_ok [OF st this] obtain st1 where
    st1: "clone_all ?hs st = Inr st1" "frames_ok st1 (X + agg_held ag + mset ?as)"
      "length st1 = length st" by auto
  have k1: "k < length st1" using k st1(3) by simp
  have sub: "mset ?as \<subseteq># X + agg_held ag + mset ?as" by simp
  have diff: "X + agg_held ag + mset ?as - mset ?as = X + agg_held ag" by simp
  from allocate_composite_ok [OF st1(2) k1 sub, unfolded hs diff] obtain r st2 where
    st2: "allocate_composite k ?hs st1 = Inr (r, st2)" "length st2 = length st"
      "frames_ok st2 (case r of None \<Rightarrow> X + agg_held ag | Some c \<Rightarrow> add_mset c (X + agg_held ag))"
      "\<forall>c. r = Some c \<longrightarrow> (\<exists>g. look st2 c = Some g \<and> children g = ?as)"
    using st1(3) by metis
  show ?thesis
  proof (cases r)
    case None
    then show ?thesis using st1 st2 ag by (auto simp: publish_set_def)
  next
    case (Some c)
    have ok2: "frames_ok st2 (add_mset c (X + agg_held ag))" using st2(3) Some by simp
    obtain g where g: "look st2 c = Some g" "children g = ?as" using st2(4) Some by blast
    let ?t = "tag_sync_frame a f st2"
    let ?st3 = "put c (?t g) st2"
    have set3: "set_frame ?t c st2 = Inr ?st3" using g(1) by (simp add: set_frame_def)
    have ok3: "frames_ok ?st3 (add_mset c (X + agg_held ag))"
      using set_frame_ok [OF ok2, of c ?t] set3 by simp
    have look3: "look ?st3 c = Some (?t g)" by (simp add: look_put [OF g(1)])
    have sync3: "sync_frame_ok f (map (the \<circ> snd) (last_set ag)) (?t g)"
      using g(2) as by (simp add: sync_frame_ok_def)
    have len3: "length ?st3 = length st" using st2(2) by (simp add: put_def)
    have pre: "publish_set k a f ag st = bind_result
        (if cq_size (agg_queue ag) < kFrameNum2Aggregate
         then bind_result (acquire c ?st3) (agg_enqueue c ag) else agg_pop_front ag ?st3)
        (\<lambda>(ag4, st4). bind_result (run_release (map Rel (somes (map snd (last_set ag4)))) st4)
          (\<lambda>st5. bind_result (release c st5) (\<lambda>st6. Inr (ag4\<lparr>last_set := []\<rparr>, st6))))"
      using st1(1) st2(1) Some set3 by (simp add: publish_set_def)
    show ?thesis
    proof (cases "cq_size (agg_queue ag) < kFrameNum2Aggregate")
      case True
      from acquire_ok [OF ok3, of c] obtain st4 where
        st4: "acquire c ?st3 = Inr st4" "frames_ok st4 (add_mset c (add_mset c (X + agg_held ag)))" by auto
      have len4: "length st4 = length st" using st4(1) len3 look3 by (auto simp: acquire_def put_def)
      obtain g4 where g4: "look st4 c = Some g4" "sync_frame_ok f (map (the \<circ> snd) (last_set ag)) g4"
        using sync_put [OF look3 sync3 st4(1)] by blast
      have "frames_ok st4 ((X + {#c#}) + agg_held ag + {#c#})" using st4(2) by (simp add: ac_simps)
      from agg_enqueue_ok [OF this] obtain ag5 st5 where
        st5: "agg_enqueue c ag st4 = Inr (ag5, st5)" "frames_ok st5 ((X + {#c#}) + agg_held ag5)"
          "ag5 = ag\<lparr>agg_queue := cq_enqueue c (agg_queue ag)\<rparr>" "length st5 = length st4"
          "shrinks (look st4) (look st5)" by blast
      have "frames_ok st5 (X + agg_held ag5 + {#c#})" using st5(2) by (simp add: ac_simps)
      from finish_set_ok [OF this] obtain st6 st7 where
        st6: "run_release (map Rel (somes (map snd (last_set ag5)))) st5 = Inr st6"
          "release c st6 = Inr st7" "frames_ok st7 (X + agg_held (ag5\<lparr>last_set := []\<rparr>))"
          "length st7 = length st5" "shrinks (look st5) (look st7)" by blast
      have sh: "shrinks (look st4) (look st7)" using st5(5) st6(5) by (rule shrinks_trans)
      have "accepting (agg_queue ag) \<longrightarrow> (\<exists>g. look st7 c = Some g
          \<and> sync_frame_ok f (map (the \<circ> snd) (last_set ag)) g)"
      proof
        assume acc: "accepting (agg_queue ag)"
        have "c \<in># X + agg_held (ag5\<lparr>last_set := []\<rparr>)"
          using acc True ag by (auto simp: st5(3) agg_held_def cq_enqueue_def Let_def cq_size_def agg_ok_def)
        with st6(3) obtain h where "look st7 c = Some h" by (rule held_frame)
        with shrinks_sync [OF sh g4(1,2)] show "\<exists>g. look st7 c = Some g
          \<and> sync_frame_ok f (map (the \<circ> snd) (last_set ag)) g" by blast
      qed
      then have "published_as f ag (ag5\<lparr>last_set := []\<rparr>) st7"
        unfolding published_as_def by (intro exI [of _ c]) (simp add: st5(3))
      moreover have "publish_set k a f ag st = Inr (ag5\<lparr>last_set := []\<rparr>, st7)"
        using pre True st4(1) st5(1) st6(1,2) by simp
      moreover have "agg_ok (ag5\<lparr>last_set := []\<rparr>)"
        using ag by (auto simp: agg_ok_def st5(3) cq_enqueue_def Let_def)
      ultimately show ?thesis
        using True st6(3,4) st5(4) len4 by auto
    next
      case False
      have "frames_ok ?st3 ((X + {#c#}) + agg_held ag)" using ok3 by (simp add: ac_simps)
      from agg_pop_front_ok [OF this] obtain ag5 st5 where
        st5: "agg_pop_front ag ?st3 = Inr (ag5, st5)" "frames_ok st5 ((X + {#c#}) + agg_held ag5)"
          "ag5 = ag\<lparr>agg_queue := cq_pop_front (agg_queue ag)\<rparr>" "length st5 = length ?st3" by blast
      have "frames_ok st5 (X + agg_held ag5 + {#c#})" using st5(2) by (simp add: ac_simps)
      from finish_set_ok [OF this] obtain st6 st7 where
        st6: "run_release (map Rel (somes (map snd (last_set ag5)))) st5 = Inr st6"
          "release c st6 = Inr st7" "frames_ok st7 (X + agg_held (ag5\<lparr>last_set := []\<rparr>))"
          "length st7 = length st5" by blast
      moreover have "agg_ok (ag5\<lparr>last_set := []\<rparr>)"
        using ag by (auto simp: agg_ok_def st5(3) cq_pop_front_def)
      ultimately show ?thesis
        using False pre st5 len3 by auto
    qed
  qed
qed

text \<open>What \<open>handle_single\<close> does with a frame of a wanted stream.\<close>

definition single_outcome :: "frame \<Rightarrow> stream_profile \<Rightarrow> addr \<Rightarrow> aggregator \<Rightarrow> aggregator \<Rightarrow> store \<Rightarrow> bool" where
  "single_outcome f p a ag ag' st' \<longleftrightarrow>
     (let ag2 = ag\<lparr>last_set := omap_put (sp_uid p) (Some a) (last_set ag)\<rparr>
      in if length (last_set ag2) \<noteq> length (wanted ag) then ag' = ag2
         else ag' = ag2 \<or>
           (if cq_size (agg_queue ag) < kFrameNum2Aggregate then published_as f ag2 ag' st'
            else ag' = ag2\<lparr>agg_queue := cq_pop_front (agg_queue ag), last_set := []\<rparr>))"

lemma handle_single_ok:
  assumes st: "frames_ok st (X + agg_held ag)" and a: "a \<in># X" and ag: "agg_ok ag" and k: "k < length st"
  shows "\<exists>ag' st'. handle_single k a ag st = Inr (ag', st') \<and> frames_ok st' (X + agg_held ag')
    \<and> agg_ok ag' \<and> length st' = length st
    \<and> (\<forall>f p. look st a = Some f \<and> fr_profile f = Some p \<and> sp_uid p \<in> set (wanted ag)
         \<longrightarrow> single_outcome f p a ag ag' st')"
proof -
  have aX: "a \<in># X + agg_held ag" using a by simp
  obtain f where f: "look st a = Some f" using held_frame [OF st aX] .
  show ?thesis
  proof (cases "\<exists>p. fr_profile f = Some p \<and> sp_uid p \<in> set (wanted ag)")
    case False
    then have "handle_single k a ag st = Inr (ag, st)"
      using f by (auto simp: handle_single_def split: option.splits)
    then show ?thesis using st ag f False by auto
  next
    case True
    then obtain p where p: "fr_profile f = Some p" "sp_uid p \<in> set (wanted ag)" by blast
    from acquire_ok [OF st aX] obtain st1 where
      st1: "acquire a st = Inr st1" "frames_ok st1 (add_mset a (X + agg_held ag))" by blast
    have len1: "length st1 = length st" using st1(1) f by (auto simp: acquire_def put_def)
    have "frames_ok st1 (X + agg_held ag + {#a#})" using st1(2) by (simp add: ac_simps)
    from assign_last_ok [OF this ag p(2)] obtain ag2 st2 where
      st2: "assign_last (sp_uid p) a ag st1 = Inr (ag2, st2)" "frames_ok st2 (X + agg_held ag2)"
        "agg_ok ag2" "ag2 = ag\<lparr>last_set := omap_put (sp_uid p) (Some a) (last_set ag)\<rparr>"
        "length st2 = length st1" by blast
    have step: "handle_single k a ag st =
        (if length (last_set ag2) = length (wanted ag2) then publish_set k a f ag2 st2 else Inr (ag2, st2))"
      using f p st1(1) st2(1) by (simp add: handle_single_def)
    show ?thesis
    proof (cases "length (last_set ag2) = length (wanted ag2)")
      case False
      then have "single_outcome f p a ag ag2 st2" by (simp add: single_outcome_def st2(4))
      then show ?thesis using step False st2 len1 f p by auto
    next
      case True
      have k2: "k < length st2" using k len1 st2(5) by simp
      from publish_set_ok [OF st2(2,3) k2, of a f] obtain ag' st' where
        r: "publish_set k a f ag2 st2 = Inr (ag', st')" "frames_ok st' (X + agg_held ag')" "agg_ok ag'"
          "length st' = length st2"
          "ag' = ag2 \<or> (if cq_size (agg_queue ag2) < kFrameNum2Aggregate then published_as f ag2 ag' st'
             else ag' = ag2\<lparr>agg_queue := cq_pop_front (agg_queue ag2), last_set := []\<rparr>)"
        by blast
      have "agg_queue ag2 = agg_queue ag" "wanted ag2 = wanted ag" by (simp_all add: st2(4))
      with r(5) True have "single_outcome f p a ag ag' st'"
        unfolding single_outcome_def Let_def st2(4) [symmetric] by (auto split: if_splits)
      then show ?thesis using step True r(1-4) len1 st2(5) f p by auto
    qed
  qed
qed

lemma processor_single_ok:
  assumes st: "frames_ok st (X + agg_held ag)" and a: "a \<in># X" and ag: "agg_ok ag"
    and k: "k < length st" and single: "fst a \<notin> set comps"
  shows "\<exists>ag' st'. processor_on_frame comps k a ag st = Inr (ag', st')
    \<and> frames_ok st' (X - {#a#} + agg_held ag') \<and> agg_ok ag' \<and> length st' = length st"
proof -
  have "\<exists>ag1 st1. handle_frame comps k a ag st = Inr (ag1, st1) \<and> frames_ok st1 (X + agg_held ag1)
      \<and> agg_ok ag1 \<and> length st1 = length st"
    using handle_single_ok [OF st a ag k] single st ag by (auto simp: handle_frame_def)
  then obtain ag1 st1 where r: "handle_frame comps k a ag st = Inr (ag1, st1)"
    "frames_ok st1 (X + agg_held ag1)" "agg_ok ag1" "length st1 = length st" by blast
  have "a \<in># X + agg_held ag1" using a by simp
  from release_ok [OF r(2) this] obtain st2 where
    st2: "release a st1 = Inr st2" "frames_ok st2 (X + agg_held ag1 - {#a#})" "length st2 = length st1"
    by blast
  have "X + agg_held ag1 - {#a#} = X - {#a#} + agg_held ag1" using a by simp
  with st2 r show ?thesis by (auto simp: processor_on_frame_def)
qed

lemma agg_stop_ok:
  assumes st: "frames_ok st (X + agg_held ag)"
  shows "\<exists>ag' st'. agg_stop ag st = Inr (ag', st') \<and> frames_ok st' (X + agg_held ag')
    \<and> items (agg_queue ag') = [] \<and> \<not> has_processing ag'"
proof -
  let ?ag = "ag\<lparr>agg_accepting := False, agg_queue := cq_clear (agg_queue ag), has_processing := False\<rparr>"
  have eq: "X + agg_held ag = (X + agg_held ?ag) + mset (items (agg_queue ag))"
    by (simp add: agg_held_def cq_clear_def ac_simps)
  have "frames_ok st ((X + agg_held ?ag) + mset (items (agg_queue ag)))" using st unfolding eq .
  from releases_ok [OF this] show ?thesis by (auto simp: agg_stop_def cq_clear_def)
qed

section \<open>Concrete stores for the instances below\<close>

definition uid_profile :: "int \<Rightarrow> stream_profile" where
  "uid_profile u = (new_profile (Video_profile 0 0))\<lparr>sp_uid := u\<rparr>"

definition obj_frame :: "int \<Rightarrow> int \<Rightarrow> frame" where
  "obj_frame r u = new_frame\<lparr>ref_count := r, fr_profile := Some (uid_profile u)\<rparr>"

definition video_store :: store where
  "video_store = [(new_archive 0)\<lparr>published_count := 1, objs := [Some (obj_frame 1 1)]\<rparr>, new_archive 0]"

lemmas obj_exec_simps =
  alloc_and_track_def publish_frame_def new_archive_def alloc_back_buffer_def acquire_def look_def
  arc_look_def put_def arc_put_def frame_move_def new_frame_def set_frame_def
  frame_set_sensor_def frame_set_profile_def Let_def obj_frame_def nth_Cons'

lemma video_store_reach: "frame_reach [0, 0] video_store {#(0, Obj 0)#}"
proof -
  obtain st1 where
    1: "frame_exec (F_alloc 0 0 new_extension False) (map new_archive [0, 0]) {#} = Inr (st1, {#(0, Obj 0)#})"
    and 2: "frame_exec (F_tag (0, Obj 0) (Some (uid_profile 1)) None) st1 {#(0, Obj 0)#}
      = Inr (video_store, {#(0, Obj 0)#})"
    by (simp add: obj_exec_simps video_store_def)
  have "frame_reach [0, 0] st1 {#(0, Obj 0)#}"
    by (rule frame_reach.step [OF frame_reach.init _ 1]) simp
  then show ?thesis by (rule frame_reach.step [OF _ _ 2]) simp
qed

lemma video_store_look: "look video_store (0, Obj 0) = Some (obj_frame 1 1)"
  by (simp add: video_store_def look_def arc_look_def)

lemma video_store_ok: "frames_ok video_store ({#(0, Obj 0)#} + agg_held (new_aggregator ids))"
  using frame_reach_ok [OF video_store_reach] by (simp add: agg_ok_new)

text \<open>
  A user composite \<open>C\<close> of one frame of stream 1 and a single frame \<open>B\<close> of stream 3.
\<close>

definition mixed_store :: store where
  "mixed_store =
     [(new_archive 0)\<lparr>published_count := 2, objs := [Some (obj_frame 1 1), Some (obj_frame 1 3)]\<rparr>,
      (new_archive 0)\<lparr>published_count := 1,
        objs := [Some (new_frame\<lparr>fr_payload := Children [Some (0, Obj 0)], ref_count := 1, frame_count := 1\<rparr>)]\<rparr>]"

lemma mixed_store_reach: "frame_reach [0, 0] mixed_store {#(1, Obj 0), (0, Obj 1)#}"
proof -
  obtain st1 st2 st3 where
    1: "frame_exec (F_alloc 0 0 new_extension False) video_store {#(0, Obj 0)#}
        = Inr (st1, {#(0, Obj 1), (0, Obj 0)#})"
    and 2: "frame_exec (F_tag (0, Obj 1) (Some (uid_profile 3)) None) st1 {#(0, Obj 1), (0, Obj 0)#}
        = Inr (st2, {#(0, Obj 1), (0, Obj 0)#})"
    and 3: "frame_exec (F_compose 1 [(0, Obj 0)]) st2 {#(0, Obj 1), (0, Obj 0)#}
        = Inr (mixed_store, {#(1, Obj 0), (0, Obj 1)#})"
    by (simp add: obj_exec_simps video_store_def mixed_store_def allocate_composite_def new_extension_def)
  have "frame_reach [0, 0] st1 {#(0, Obj 1), (0, Obj 0)#}"
    by (rule frame_reach.step [OF video_store_reach _ 1]) (simp add: video_store_def)
  then have reach: "frame_reach [0, 0] st2 {#(0, Obj 1), (0, Obj 0)#}"
    by (rule frame_reach.step [OF _ _ 2]) simp
  have "length st2 = 2" using 1 2 by (auto simp: obj_exec_simps video_store_def)
  then show ?thesis by (intro frame_reach.step [OF reach _ 3]) simp
qed

definition crash_step1 :: "aggregator \<times> store" where
  "crash_step1 = ((agg_start (new_aggregator [1, 2, 3]))\<lparr>last_set := [(1, Some (0, Obj 0)), (2, None)]\<rparr>,
     [(new_archive 0)\<lparr>published_count := 2, objs := [Some (obj_frame 1 1), Some (obj_frame 1 3)]\<rparr>,
      (new_archive 0)\<lparr>published_count := 0, objs := [None]\<rparr>])"

lemma crash_run:
  "processor_on_frame [1] 1 (1, Obj 0) (agg_start (new_aggregator [1, 2, 3])) mixed_store = Inr crash_step1"
  by (simp add: crash_step1_def processor_on_frame_def handle_frame_def handle_composite_def agg_start_def
      new_aggregator_def mixed_store_def obj_exec_simps uid_profile_def assign_last_def release_def
      unpublish_def unpublish_frame_def keep_frame_def children_def)

lemma crash_run2:
  "processor_on_frame [1] 1 (0, Obj 1) (fst crash_step1) (snd crash_step1) = Inl (Undefined ''null frame holder'')"
  by (simp add: crash_step1_def processor_on_frame_def handle_frame_def handle_single_def publish_set_def
      agg_start_def new_aggregator_def obj_exec_simps uid_profile_def assign_last_def
      allocate_composite_def)

section \<open>Properties\<close>



text \<open>When the queue is full, a completed set costs two: the queue pops its oldest frame
  set and the new one is not queued either, so the consumer loses the newest set and the
  queue shrinks.\<close>

theorem aggregator_full_queue_drops_both:
  assumes "frames_ok st (X + agg_held ag)" and "a \<in># X" and "agg_ok ag" and "k < length st"
    and "look st a = Some f" and "fr_profile f = Some p" and "sp_uid p \<in> set (wanted ag)"
    and "\<not> cq_size (agg_queue ag) < kFrameNum2Aggregate"
  shows "\<exists>ag' st'. handle_single k a ag st = Inr (ag', st')
    \<and> (last_set ag' \<noteq> [] \<or> items (agg_queue ag') = tl (items (agg_queue ag)))"
proof -
  from handle_single_ok [OF assms(1-4)] assms(5-7) obtain ag' st' where
    r: "handle_single k a ag st = Inr (ag', st')" "single_outcome f p a ag ag' st'" by blast
  with assms(8) show ?thesis
    by (cases "items (agg_queue ag)")
      (auto simp: single_outcome_def Let_def cq_pop_front_def cq_size_def split: if_splits)
qed

lemma clone_all_shrinks: "clone_all hs st = Inr st' \<Longrightarrow> shrinks (look st) (look st')"
proof (induction hs arbitrary: st rule: somes.induct)
  case (3 a hs)
  then obtain st1 where st1: "acquire a st = Inr st1" "clone_all hs st1 = Inr st'"
    by (auto simp: bind_result_Inr)
  have "shrinks (look st) (look st1)"
    using st1(1) by (auto simp: acquire_def look_put shrinks_upd split: option.splits)
  then show ?case using 3(1) [OF st1(2)] by (rule shrinks_trans)
qed simp_all

definition full_aggregator :: aggregator where
  "full_aggregator = (new_aggregator [1])\<lparr>agg_queue := (new_cq kFrameNum2Aggregate)\<lparr>items := replicate 250 (0, Obj 0)\<rparr>\<rparr>"

lemma full_aggregator_ok:
  "agg_ok full_aggregator" "agg_held full_aggregator = mset (replicate 250 (0, Obj 0))"
  "wanted full_aggregator = [1]" "cq_size (agg_queue full_aggregator) = 250"
  by (simp_all add: full_aggregator_def agg_ok_def new_aggregator_def agg_held_def new_cq_def cq_size_def)

theorem aggregator_full_queue_drops_both_witness:
  "\<exists>st ag' st'. frames_ok st ({#(0, Obj 0)#} + agg_held full_aggregator)
    \<and> handle_single 1 (0, Obj 0) full_aggregator st = Inr (ag', st')
    \<and> (last_set ag' \<noteq> [] \<or> items (agg_queue ag') = tl (items (agg_queue full_aggregator)))"
proof -
  let ?hs = "replicate 250 (Some (0 :: nat, Obj 0))"
  have hs: "?hs = map Some (replicate 250 (0, Obj 0))" by simp
  have ok: "frames_ok video_store {#(0, Obj 0)#}" using frame_reach_ok [OF video_store_reach] .
  have "set_mset (mset (somes ?hs)) \<subseteq> set_mset {#(0, Obj 0)#}" unfolding hs somes_map_Some by auto
  from clone_all_ok [OF ok this] obtain st where
    st: "clone_all ?hs video_store = Inr st"
      "frames_ok st ({#(0, Obj 0)#} + mset (somes ?hs))" "length st = length video_store" by blast
  have st2: "frames_ok st ({#(0, Obj 0)#} + agg_held full_aggregator)"
    using st(2) unfolding full_aggregator_ok(2) hs somes_map_Some .
  obtain f where f: "look st (0, Obj 0) = Some f" by (rule held_frame [OF st2]) auto
  obtain g where g: "look video_store (0, Obj 0) = Some g" "f = g\<lparr>ref_count := ref_count f\<rparr>"
    using clone_all_shrinks [OF st(1)] f unfolding shrinks_def by blast
  then have "f = (obj_frame 1 1)\<lparr>ref_count := ref_count f\<rparr>" using video_store_look by simp
  then have "fr_profile f = fr_profile (obj_frame 1 1)" by (rule ssubst [where P = "\<lambda>x. fr_profile x = _"]) simp
  then have p: "fr_profile f = Some (uid_profile 1)" by (simp add: obj_frame_def)
  have "\<exists>ag' st'. handle_single 1 (0, Obj 0) full_aggregator st = Inr (ag', st')
    \<and> (last_set ag' \<noteq> [] \<or> items (agg_queue ag') = tl (items (agg_queue full_aggregator)))"
  proof (rule aggregator_full_queue_drops_both [OF st2 _ full_aggregator_ok(1) _ f p])
    show "1 < length st" using st(3) by (simp add: video_store_def)
    show "sp_uid (uid_profile 1) \<in> set (wanted full_aggregator)"
      by (simp add: full_aggregator_ok uid_profile_def)
    show "\<not> cq_size (agg_queue full_aggregator) < kFrameNum2Aggregate"
      by (simp add: full_aggregator_ok kFrameNum2Aggregate_def)
  qed simp
  with st2 show ?thesis by blast
qed

text \<open>A composite frame that lacks a wanted stream poisons the aggregator: looking the
  stream up inserts a null holder, the next single frame of another stream makes the set look
  complete, and the null holder is dereferenced when the composite frame is allocated.\<close>

theorem aggregator_null_holder_crash:
  "\<exists>st ag' st'. frame_reach [0, 0] st {#(1, Obj 0), (0, Obj 1)#}
    \<and> processor_on_frame [1] 1 (1, Obj 0) (agg_start (new_aggregator [1, 2, 3])) st = Inr (ag', st')
    \<and> processor_on_frame [1] 1 (0, Obj 1) ag' st' = Inl (Undefined ''null frame holder'')"
  using mixed_store_reach crash_run crash_run2 by (metis prod.collapse)

text \<open>A frame that arrives after \<open>stop()\<close> is leaked: with neither callback set,
  \<open>ProcessingBlock::invoke\<close> has taken the raw pointer out of its holder and drops it, so
  the frame is neither delivered nor released and keeps its reference for ever.\<close>

theorem stopped_block_leaks_frame:
  assumes "agg_stop ag st = Inr (ag', st')" and "src_callback src = None"
  shows "block_invoke comps k src a ag' st' = Inr (None, ag', st')"
  using assms by (auto simp: agg_stop_def block_invoke_def bind_result_Inr)

theorem stopped_block_leaks_frame_witness:
  "block_invoke [1] 1 (new_source 256) (0, Obj 0)
     ((new_aggregator [1])\<lparr>agg_accepting := False, agg_queue := cq_clear (new_cq 250)\<rparr>) video_store
   = Inr (None, (new_aggregator [1])\<lparr>agg_accepting := False, agg_queue := cq_clear (new_cq 250)\<rparr>, video_store)"
  by (rule stopped_block_leaks_frame [where ag = "new_aggregator [1]" and st = video_store])
    (simp_all add: agg_stop_def new_aggregator_def new_cq_def kFrameNum2Aggregate_def new_source_def)

end
