(* ===== verification/Usb_Transfer.thy ===== *)
theory Usb_Transfer
  imports Prelude
begin

text \<open>
  USB transfers of the Gemini device (\<open>src/gemini/gemini_device.cc\<close>,
  \<open>src/usb/usb_messenger.cc\<close>, \<open>src/usb/usb_types.h\<close>): the messenger over libusb, the
  request and response over the bulk endpoints, and \<open>stream_read\<close>, which reassembles one
  frame packet from the bulk transfers the device cuts it into.

  libusb is not part of the repository: its transfers are the fields of the record \<open>libusb\<close>
  over an unknown device state.  Buffers are byte lists; a transfer that would write past the
  end of the caller's buffer is undefined behaviour.
\<close>

section \<open>Status codes, commands and the packet head\<close>

text \<open>
  \<open>UsbStatus\<close> values travel through plain ints (libusb's own error codes among them), so they
  are ints here.
\<close>

type_synonym usb_status = int

definition SE2_USB_STATUS_SUCCESS :: usb_status where "SE2_USB_STATUS_SUCCESS = 0"
definition SE2_USB_STATUS_IO :: usb_status where "SE2_USB_STATUS_IO = -1"
definition SE2_USB_STATUS_INVALID_PARAM :: usb_status where "SE2_USB_STATUS_INVALID_PARAM = -2"
definition SE2_USB_STATUS_ACCESS :: usb_status where "SE2_USB_STATUS_ACCESS = -3"
definition SE2_USB_STATUS_NO_DEVICE :: usb_status where "SE2_USB_STATUS_NO_DEVICE = -4"
definition SE2_USB_STATUS_NOT_FOUND :: usb_status where "SE2_USB_STATUS_NOT_FOUND = -5"
definition SE2_USB_STATUS_BUSY :: usb_status where "SE2_USB_STATUS_BUSY = -6"
definition SE2_USB_STATUS_TIMEOUT :: usb_status where "SE2_USB_STATUS_TIMEOUT = -7"
definition SE2_USB_STATUS_OVERFLOW :: usb_status where "SE2_USB_STATUS_OVERFLOW = -8"
definition SE2_USB_STATUS_PIPE :: usb_status where "SE2_USB_STATUS_PIPE = -9"
definition SE2_USB_STATUS_INTERRUPTED :: usb_status where "SE2_USB_STATUS_INTERRUPTED = -10"
definition SE2_USB_STATUS_NO_MEM :: usb_status where "SE2_USB_STATUS_NO_MEM = -11"
definition SE2_USB_STATUS_NOT_SUPPORTED :: usb_status where "SE2_USB_STATUS_NOT_SUPPORTED = -12"
definition SE2_USB_STATUS_OTHER :: usb_status where "SE2_USB_STATUS_OTHER = -13"
definition LIBUSB_ERROR_OTHER :: int where "LIBUSB_ERROR_OTHER = -99"

lemmas usb_status_defs =
  SE2_USB_STATUS_SUCCESS_def
  SE2_USB_STATUS_IO_def
  SE2_USB_STATUS_INVALID_PARAM_def
  SE2_USB_STATUS_ACCESS_def
  SE2_USB_STATUS_NO_DEVICE_def
  SE2_USB_STATUS_NOT_FOUND_def
  SE2_USB_STATUS_BUSY_def
  SE2_USB_STATUS_TIMEOUT_def
  SE2_USB_STATUS_OVERFLOW_def
  SE2_USB_STATUS_PIPE_def
  SE2_USB_STATUS_INTERRUPTED_def
  SE2_USB_STATUS_NO_MEM_def
  SE2_USB_STATUS_NOT_SUPPORTED_def
  SE2_USB_STATUS_OTHER_def
  LIBUSB_ERROR_OTHER_def

text \<open>The table that names a status; \<open>at(e)\<close> throws for a status it does not hold.\<close>

definition kUsbStatus2String :: "(int \<times> string) list" where
  "kUsbStatus2String =
    [(SE2_USB_STATUS_SUCCESS, ''SE2_USB_STATUS_SUCCESS''),
     (SE2_USB_STATUS_IO, ''SE2_USB_STATUS_IO''),
     (SE2_USB_STATUS_INVALID_PARAM, ''SE2_USB_STATUS_INVALID_PARAM''),
     (SE2_USB_STATUS_ACCESS, ''SE2_USB_STATUS_ACCESS''),
     (SE2_USB_STATUS_NO_DEVICE, ''SE2_USB_STATUS_NO_DEVICE''),
     (SE2_USB_STATUS_NOT_FOUND, ''SE2_USB_STATUS_NOT_FOUND''),
     (SE2_USB_STATUS_BUSY, ''SE2_USB_STATUS_BUSY''),
     (SE2_USB_STATUS_TIMEOUT, ''SE2_USB_STATUS_TIMEOUT''),
     (SE2_USB_STATUS_OVERFLOW, ''SE2_USB_STATUS_OVERFLOW''),
     (SE2_USB_STATUS_PIPE, ''SE2_USB_STATUS_PIPE''),
     (SE2_USB_STATUS_INTERRUPTED, ''SE2_USB_STATUS_INTERRUPTED''),
     (SE2_USB_STATUS_NO_MEM, ''SE2_USB_STATUS_NO_MEM''),
     (SE2_USB_STATUS_NOT_SUPPORTED, ''SE2_USB_STATUS_NOT_SUPPORTED''),
     (SE2_USB_STATUS_OTHER, ''SE2_USB_STATUS_OTHER'')]"

definition status_text :: "int \<Rightarrow> se_error + string" where
  "status_text e = (case map_of kUsbStatus2String e of None \<Rightarrow> Inl Out_of_range | Some t \<Rightarrow> Inr t)"

lemma status_text_known: "-13 \<le> e \<Longrightarrow> e \<le> 0 \<Longrightarrow> \<exists>t. status_text e = Inr t"
proof -
  assume "-13 \<le> e" "e \<le> 0"
  then have "e \<in> {-13..0}" by simp
  also have "{-13..0::int} = set [-13, -12, -11, -10, -9, -8, -7, -6, -5, -4, -3, -2, -1, 0]"
    by (simp add: atLeastAtMost_insertL set_eq_iff) presburger
  finally show ?thesis
    by (auto simp: status_text_def kUsbStatus2String_def usb_status_defs)
qed

lemma status_text_unknown: "status_text LIBUSB_ERROR_OTHER = Inl Out_of_range"
  by (simp add: status_text_def kUsbStatus2String_def usb_status_defs)

definition NO_CMD :: int where "NO_CMD = 0"
definition OPEN_CAM :: int where "OPEN_CAM = 1"
definition CLOSE_CAM :: int where "CLOSE_CAM = 2"
definition QUERY_FRAME_CAP :: int where "QUERY_FRAME_CAP = 4"
definition SET_FRAME_IDS :: int where "SET_FRAME_IDS = 8"
definition GET_FRAME :: int where "GET_FRAME = 16"
definition RELEASE_FRAME :: int where "RELEASE_FRAME = 32"
definition RESET_USB_EDP :: int where "RESET_USB_EDP = 64"

text \<open>Endpoint types and directions, and the endpoint itself: its address and attributes.\<close>

definition SE2_USB_ENDPOINT_CONTROL :: u8 where "SE2_USB_ENDPOINT_CONTROL = 0"
definition SE2_USB_ENDPOINT_ISOCHRONOUS :: u8 where "SE2_USB_ENDPOINT_ISOCHRONOUS = 1"
definition SE2_USB_ENDPOINT_BULK :: u8 where "SE2_USB_ENDPOINT_BULK = 2"
definition SE2_USB_ENDPOINT_INTERRUPT :: u8 where "SE2_USB_ENDPOINT_INTERRUPT = 3"

definition SE2_USB_ENDPOINT_DIRECTION_WRITE :: u8 where "SE2_USB_ENDPOINT_DIRECTION_WRITE = 0"
definition SE2_USB_ENDPOINT_DIRECTION_READ :: u8 where "SE2_USB_ENDPOINT_DIRECTION_READ = 0x80"

record usb_endpoint =
  ep_address :: u8
  ep_attributes :: u8
  ep_interface :: u8

definition getDirection :: "usb_endpoint \<Rightarrow> u8" where
  "getDirection ep =
     (if SE2_USB_ENDPOINT_DIRECTION_READ \<le> ep_address ep
      then SE2_USB_ENDPOINT_DIRECTION_READ else SE2_USB_ENDPOINT_DIRECTION_WRITE)"

text \<open>
  \<open>UsbCommonPackHead\<close> is packed: magic, pack length, command and a two-byte union (state,
  frame counts), twelve bytes in all; the fields are read by casting the buffer.
\<close>

definition pack_head_size :: nat where "pack_head_size = 12"

definition head_magic :: "u8 list \<Rightarrow> u32" where
  "head_magic mem = u32_of (take 4 mem)"

definition head_pack_length :: "u8 list \<Rightarrow> u32" where
  "head_pack_length mem = u32_of (take 4 (drop 4 mem))"

definition head_state :: "u8 list \<Rightarrow> int" where
  "head_state mem = sint (of_nat (le_val (take 2 (drop 10 mem))) :: 16 word)"

definition PACK_MAGIC :: u32 where "PACK_MAGIC = 0xAA55AA55"
definition ENDP0_REQUEST_IN :: int where "ENDP0_REQUEST_IN = 0xA0"
definition ENDP0_REQUEST_OUT :: int where "ENDP0_REQUEST_OUT = 0xC0"
definition kUsbTimeout :: u32 where "kUsbTimeout = 1000"
definition kUsbRequestTypeIn :: int where "kUsbRequestTypeIn = 0xC0"
definition kUsbRequestTypeOut :: int where "kUsbRequestTypeOut = 0x40"

section \<open>UsbMessenger\<close>

text \<open>
  libusb on one device handle.  A control transfer takes request type, request, value, index,
  the buffer, its length and the timeout, and returns the byte count or a negative error and
  the bytes the device sent.  A bulk or interrupt transfer takes the endpoint address, the
  buffer, the (signed) length and the timeout, and returns a status, the actual length and the
  bytes received.
\<close>

record 's libusb =
  lu_control :: "int \<Rightarrow> int \<Rightarrow> int \<Rightarrow> int \<Rightarrow> u8 list \<Rightarrow> u32 \<Rightarrow> u32 \<Rightarrow> 's \<Rightarrow> int \<times> u8 list \<times> 's"
  lu_bulk :: "u8 \<Rightarrow> u8 list \<Rightarrow> int \<Rightarrow> u32 \<Rightarrow> 's \<Rightarrow> int \<times> int \<times> u8 list \<times> 's"
  lu_interrupt :: "u8 \<Rightarrow> u8 list \<Rightarrow> int \<Rightarrow> u32 \<Rightarrow> 's \<Rightarrow> int \<times> int \<times> u8 list \<times> 's"
  lu_clear_halt :: "u8 \<Rightarrow> 's \<Rightarrow> int \<times> 's"

text \<open>A transfer's result: status, the buffer, the \<open>transferred\<close> reference, device state.\<close>

definition put_bytes :: "nat \<Rightarrow> u8 list \<Rightarrow> u8 list \<Rightarrow> se_error + u8 list" where
  "put_bytes off bs mem =
     (if off + length bs \<le> length mem then Inr (write_at off bs mem)
      else Inl (Undefined ''write past the buffer''))"

definition control_transfer ::
    "'s libusb \<Rightarrow> int \<Rightarrow> int \<Rightarrow> int \<Rightarrow> int \<Rightarrow> u8 list \<Rightarrow> u32 \<Rightarrow> u32 \<Rightarrow> u32 \<Rightarrow> 's
      \<Rightarrow> se_error + int \<times> u8 list \<times> u32 \<times> 's" where
  "control_transfer lu request_type request val idx mem len transferred timeout s =
     (case lu_control lu request_type request val idx mem len timeout s of
        (status, got, s') \<Rightarrow>
          bind_result (put_bytes 0 got mem) (\<lambda>mem'.
            if status < 0 then Inr (status, mem', transferred, s')
            else Inr (0, mem', of_int status, s')))"

definition bulk_transfer ::
    "'s libusb \<Rightarrow> usb_endpoint \<Rightarrow> nat \<Rightarrow> u8 list \<Rightarrow> u32 \<Rightarrow> u32 \<Rightarrow> u32 \<Rightarrow> 's
      \<Rightarrow> se_error + int \<times> u8 list \<times> u32 \<times> 's" where
  "bulk_transfer lu ep off mem len transferred timeout s =
     (if ep_attributes ep \<noteq> SE2_USB_ENDPOINT_BULK \<and> ep_attributes ep \<noteq> SE2_USB_ENDPOINT_INTERRUPT
      then Inr (LIBUSB_ERROR_OTHER, mem, transferred, s)
      else if getDirection ep = SE2_USB_ENDPOINT_DIRECTION_WRITE \<and> length mem < off + nat (sint len)
      then Inl (Undefined ''read past the buffer'')
      else case (if ep_attributes ep = SE2_USB_ENDPOINT_BULK then lu_bulk lu else lu_interrupt lu)
                  (ep_address ep) (drop off mem) (sint len) timeout s of
             (sts, actual, got, s') \<Rightarrow>
               bind_result (put_bytes off got mem) (\<lambda>mem'.
                 if sts < 0 then Inr (sts, mem', transferred, s')
                 else Inr (0, mem', of_int actual, s')))"

definition reset_endpoint :: "'s libusb \<Rightarrow> usb_endpoint \<Rightarrow> 's \<Rightarrow> int \<times> 's" where
  "reset_endpoint lu ep s =
     (case lu_clear_halt lu (ep_address ep) s of (sts, s') \<Rightarrow> (if sts < 0 then sts else 0, s'))"

section \<open>GeminiDevice: control and bulk requests\<close>

text \<open>The device's messenger and its two bulk endpoints.\<close>

record 's gemini =
  messenger :: "'s libusb"
  endpoint_bulk_in :: usb_endpoint
  endpoint_bulk_out :: usb_endpoint

definition control_transfer_in ::
    "'s gemini \<Rightarrow> int \<Rightarrow> int \<Rightarrow> u8 list option \<Rightarrow> u32 \<Rightarrow> 's \<Rightarrow> se_error + usb_status \<times> u8 list option \<times> 's" where
  "control_transfer_in g cmd idx response buffer_size s =
     (case response of
        None \<Rightarrow> Inr (SE2_USB_STATUS_OTHER, None, s)
      | Some mem \<Rightarrow>
          bind_result (control_transfer (messenger g) kUsbRequestTypeIn ENDP0_REQUEST_IN cmd idx
                         mem buffer_size 0 kUsbTimeout s)
            (\<lambda>(ret, mem', _, s'). Inr (ret, Some mem', s')))"

definition control_transfer_out ::
    "'s gemini \<Rightarrow> int \<Rightarrow> int \<Rightarrow> u8 list \<Rightarrow> u32 \<Rightarrow> 's \<Rightarrow> se_error + usb_status \<times> 's" where
  "control_transfer_out g cmd idx request buffer_size s =
     bind_result (control_transfer (messenger g) kUsbRequestTypeOut ENDP0_REQUEST_OUT cmd idx
                    request buffer_size 0 kUsbTimeout s)
       (\<lambda>(ret, _, _, s'). Inr (ret, s'))"

definition hardwareReset :: "'s gemini \<Rightarrow> 's \<Rightarrow> se_error + 's" where
  "hardwareReset g s =
     bind_result (control_transfer_out g RESET_USB_EDP 0 [] 0 s) (\<lambda>(_, s'). Inr s')"

text \<open>
  \<open>stream_write\<close> sends the packet: the head says how long it is.  An error status is logged
  with \<open>kUsbStatus2String.at\<close>.
\<close>

definition stream_write :: "'s gemini \<Rightarrow> u8 list \<Rightarrow> 's \<Rightarrow> se_error + usb_status \<times> 's" where
  "stream_write g request s =
     bind_result (bulk_transfer (messenger g) (endpoint_bulk_out g) 0 request
                    (head_pack_length request) 0 kUsbTimeout s)
       (\<lambda>(e, _, transferred, s').
          if e \<noteq> SE2_USB_STATUS_SUCCESS then bind_result (status_text e) (\<lambda>_. Inr (e, s'))
          else if transferred \<noteq> head_pack_length request then Inr (SE2_USB_STATUS_OTHER, s')
          else Inr (e, s'))"

text \<open>
  \<open>bulk_request_response\<close>: the same for the request, then the response, which must be as long
  as its head says.  A non-zero state in the response is only logged, whatever
  \<open>assert_success\<close> is.
\<close>

definition bulk_request_response ::
    "'s gemini \<Rightarrow> u8 list \<Rightarrow> u8 list \<Rightarrow> nat \<Rightarrow> bool \<Rightarrow> 's \<Rightarrow> se_error + usb_status \<times> u8 list \<times> 's" where
  "bulk_request_response g request response max_response_size assert_success s =
     bind_result (bulk_transfer (messenger g) (endpoint_bulk_out g) 0 request
                    (head_pack_length request) 0 kUsbTimeout s)
       (\<lambda>(e, _, transferred, s1).
          if e \<noteq> SE2_USB_STATUS_SUCCESS then bind_result (status_text e) (\<lambda>_. Inr (e, response, s1))
          else if transferred \<noteq> head_pack_length request then Inr (SE2_USB_STATUS_OTHER, response, s1)
          else bind_result (bulk_transfer (messenger g) (endpoint_bulk_in g) 0 response
                              (of_nat (if max_response_size = 0 then pack_head_size else max_response_size))
                              0 kUsbTimeout s1)
                 (\<lambda>(e2, response', transferred2, s2).
                    if e2 \<noteq> SE2_USB_STATUS_SUCCESS then bind_result (status_text e2) (\<lambda>_. Inr (e2, response', s2))
                    else if transferred2 \<noteq> head_pack_length response' then Inr (SE2_USB_STATUS_OTHER, response', s2)
                    else Inr (e2, response', s2)))"

text \<open>
  \<open>reset_usb_endpoint\<close> returns the state field of the answer.  Its sixteen byte buffer is
  uninitialised: \<open>junk\<close> is what it holds.
\<close>

definition reset_usb_endpoint :: "'s gemini \<Rightarrow> u8 list \<Rightarrow> 's \<Rightarrow> se_error + usb_status \<times> 's" where
  "reset_usb_endpoint g junk s =
     bind_result (control_transfer_in g RESET_USB_EDP 0 (Some junk) 16 s)
       (\<lambda>(ret, buf, s').
          if ret < 0 then Inr (SE2_USB_STATUS_OTHER, s')
          else Inr (head_state (the buf), s'))"

section \<open>GeminiDevice: stream_read\<close>

text \<open>
  The loop that reads the rest of a packet at \<open>off\<close>: \<open>read_size\<close> bytes were asked for last and
  \<open>transferred\<close> came.  \<open>None\<close> is a loop that never ends.
\<close>

partial_function (option) read_rest ::
    "'s gemini \<Rightarrow> nat \<Rightarrow> u8 list \<Rightarrow> u32 \<Rightarrow> u32 \<Rightarrow> int \<Rightarrow> 's \<Rightarrow> (se_error + usb_status \<times> u8 list \<times> 's) option" where
  "read_rest g off mem read_size transferred e s =
     (if transferred < read_size
      then case bulk_transfer (messenger g) (endpoint_bulk_in g) (off + unat transferred) mem
                  (read_size - transferred) transferred kUsbTimeout s of
             Inl err \<Rightarrow> Some (Inl err)
           | Inr r \<Rightarrow>
               (case r of (e', mem', transferred', s') \<Rightarrow>
                  if e' < 0 then Some (bind_result (status_text e') (\<lambda>_. Inr (e', mem', s')))
                  else read_rest g (off + unat transferred) mem' (read_size - transferred) transferred' e' s')
      else Some (Inr (e, mem, s)))"

text \<open>After a short head or a wrong magic the endpoint is reset, and if that succeeds the read goes on.\<close>

definition reset_if :: "bool \<Rightarrow> 's gemini \<Rightarrow> u8 list \<Rightarrow> 's \<Rightarrow> se_error + usb_status \<times> 's" where
  "reset_if bad g junk s = (if bad then reset_usb_endpoint g junk s else Inr (SE2_USB_STATUS_SUCCESS, s))"

definition read_body ::
    "'s gemini \<Rightarrow> u8 list \<Rightarrow> u32 \<Rightarrow> 's \<Rightarrow> (se_error + usb_status \<times> u8 list \<times> 's) option" where
  "read_body g mem transferred s =
     (let read_size = head_pack_length mem - transferred in
      case bulk_transfer (messenger g) (endpoint_bulk_in g) (unat transferred) mem read_size
             transferred kUsbTimeout s of
        Inl err \<Rightarrow> Some (Inl err)
      | Inr (e, mem', transferred', s') \<Rightarrow>
          if e = SE2_USB_STATUS_SUCCESS then read_rest g (unat transferred) mem' read_size transferred' e s'
          else Some (bind_result (status_text e) (\<lambda>_. Inr (e, mem', s'))))"

definition stream_read ::
    "'s gemini \<Rightarrow> u8 list \<Rightarrow> u8 list \<Rightarrow> 's \<Rightarrow> (se_error + usb_status \<times> u8 list \<times> 's) option" where
  "stream_read g junk mem s =
     (case control_transfer_out g GET_FRAME 0 [] 0 s of
        Inl err \<Rightarrow> Some (Inl err)
      | Inr (e, s1) \<Rightarrow>
          if e \<noteq> SE2_USB_STATUS_SUCCESS then Some (bind_result (status_text e) (\<lambda>_. Inr (e, mem, s1)))
          else (case bulk_transfer (messenger g) (endpoint_bulk_in g) 0 mem 1024 0 80 s1 of
             Inl err \<Rightarrow> Some (Inl err)
           | Inr (e, mem', transferred, s2) \<Rightarrow>
               if e \<noteq> SE2_USB_STATUS_SUCCESS then Some (bind_result (status_text e) (\<lambda>_. Inr (e, mem', s2)))
               else (case reset_if (unat transferred < pack_head_size + 8) g junk s2 of
                  Inl err \<Rightarrow> Some (Inl err)
                | Inr (e, s3) \<Rightarrow>
                    if e \<noteq> SE2_USB_STATUS_SUCCESS then Some (Inr (e, mem', s3))
                    else (case reset_if (head_magic mem' \<noteq> PACK_MAGIC) g junk s3 of
                       Inl err \<Rightarrow> Some (Inl err)
                     | Inr (e, s4) \<Rightarrow>
                         if e \<noteq> SE2_USB_STATUS_SUCCESS then Some (Inr (e, mem', s4))
                         else read_body g mem' transferred s4))))"

section \<open>Reassembly\<close>

text \<open>
  What the read relies on: the input endpoint is a bulk endpoint that hands out the bytes
  \<open>rem s\<close> the device still has to send, in order, in transfers of any size, but at least one
  byte when there is one and it was asked for.  This is what libusb documents for a bulk pipe
  that does not fail.
\<close>

definition delivers :: "'s gemini \<Rightarrow> ('s \<Rightarrow> u8 list) \<Rightarrow> bool" where
  "delivers g rem \<longleftrightarrow>
     ep_attributes (endpoint_bulk_in g) = SE2_USB_ENDPOINT_BULK
     \<and> getDirection (endpoint_bulk_in g) = SE2_USB_ENDPOINT_DIRECTION_READ
     \<and> (\<forall>buf len tmo s. 0 \<le> len \<longrightarrow>
         (\<exists>n s'. lu_bulk (messenger g) (ep_address (endpoint_bulk_in g)) buf len tmo s
             = (0, int n, take n (rem s), s')
           \<and> rem s' = drop n (rem s) \<and> n \<le> nat len \<and> n \<le> length (rem s)
           \<and> (0 < len \<and> rem s \<noteq> [] \<longrightarrow> 0 < n)))"

lemma read_neq_write [simp]:
  "SE2_USB_ENDPOINT_DIRECTION_READ \<noteq> SE2_USB_ENDPOINT_DIRECTION_WRITE"
  by (simp add: SE2_USB_ENDPOINT_DIRECTION_READ_def SE2_USB_ENDPOINT_DIRECTION_WRITE_def)

lemma sint_small: "unat (w :: u32) < 2 ^ 31 \<Longrightarrow> sint w = int (unat w)"
proof -
  assume h: "unat w < 2 ^ 31"
  have "sint w = signed_take_bit 31 (uint w)" by (simp add: sint_uint)
  moreover have "int (unat w) < int (2 ^ 31)"
    using h by (subst of_nat_less_iff)
  then have "uint w < 2 ^ 31" by simp
  moreover from this have "signed_take_bit 31 (uint w) = uint w"
    by (intro signed_take_bit_int_eq_self) (auto intro: order_trans [of _ 0])
  ultimately show ?thesis by simp
qed

locale usb_pipe =
  fixes g :: "'s gemini" and rem :: "'s \<Rightarrow> u8 list"
  assumes pipe: "delivers g rem"
begin

lemma bulk_in:
  assumes "unat len < 2 ^ 31" and "off + length (rem s) \<le> length mem"
  obtains n s' where "n \<le> unat len" "n \<le> length (rem s)" "rem s' = drop n (rem s)"
    "0 < len \<Longrightarrow> rem s \<noteq> [] \<Longrightarrow> 0 < n"
    "bulk_transfer (messenger g) (endpoint_bulk_in g) off mem len tr tmo s
      = Inr (0, write_at off (take n (rem s)) mem, of_nat n, s')"
proof -
  have len: "sint len = int (unat len)" using assms(1) by (rule sint_small)
  from pipe have d: "ep_attributes (endpoint_bulk_in g) = SE2_USB_ENDPOINT_BULK"
    "getDirection (endpoint_bulk_in g) = SE2_USB_ENDPOINT_DIRECTION_READ"
    "\<And>buf len tmo s. 0 \<le> len \<Longrightarrow> \<exists>n s'. lu_bulk (messenger g) (ep_address (endpoint_bulk_in g)) buf len tmo s
       = (0, int n, take n (rem s), s')
       \<and> rem s' = drop n (rem s) \<and> n \<le> nat len \<and> n \<le> length (rem s)
       \<and> (0 < len \<and> rem s \<noteq> [] \<longrightarrow> 0 < n)"
    unfolding delivers_def by blast+
  have "0 \<le> sint len" by (simp add: len)
  from d(3) [OF this] obtain n s' where n:
    "lu_bulk (messenger g) (ep_address (endpoint_bulk_in g)) (drop off mem) (sint len) tmo s
       = (0, int n, take n (rem s), s')"
    "rem s' = drop n (rem s)" "n \<le> nat (sint len)" "n \<le> length (rem s)"
    "0 < sint len \<and> rem s \<noteq> [] \<longrightarrow> 0 < n" by blast
  show ?thesis
  proof (rule that)
    show "bulk_transfer (messenger g) (endpoint_bulk_in g) off mem len tr tmo s
      = Inr (0, write_at off (take n (rem s)) mem, of_nat n, s')"
      using n(1,4) assms(2) by (simp add: bulk_transfer_def d(1,2) put_bytes_def)
    show "0 < n" if "0 < len" "rem s \<noteq> []"
    proof -
      from that(1) have "0 < sint len" unfolding len by (simp add: word_less_def)
      with n(5) that(2) show ?thesis by blast
    qed
  qed (use n len in simp_all)
qed

text \<open>The buffer when the first \<open>k\<close> bytes of the packet have arrived.\<close>

lemma write_next:
  assumes "k + n \<le> length pkt" "length pkt \<le> length mem"
  shows "write_at k (take n (drop k pkt)) (take k pkt @ drop k mem) = take (k + n) pkt @ drop (k + n) mem"
proof -
  have "length (take k pkt) = k" "length (take n (drop k pkt)) = n" using assms by simp_all
  then have "write_at k (take n (drop k pkt)) (take k pkt @ drop k mem)
    = take k pkt @ take n (drop k pkt) @ drop n (drop k mem)"
    by (simp add: write_at_def)
  then show ?thesis by (simp add: take_add add.commute)
qed

lemma read_rest_ok:
  assumes "off + unat tr \<le> length pkt" "unat rs = length pkt - off" "length pkt < 2 ^ 31"
    "length pkt \<le> length mem" "rem s = drop (off + unat tr) pkt"
  shows "\<exists>s'. read_rest g off (take (off + unat tr) pkt @ drop (off + unat tr) mem) rs tr 0 s
    = Some (Inr (0, pkt @ drop (length pkt) mem, s')) \<and> rem s' = []"
  using assms
proof (induction "length pkt - (off + unat tr)" arbitrary: off tr rs s rule: less_induct)
  case less
  let ?k = "off + unat tr"
  let ?m = "take ?k pkt @ drop ?k mem"
  show ?case
  proof (cases "tr < rs")
    case False
    then have "?k = length pkt" using less.prems by (simp add: word_less_nat_alt)
    with less.prems False show ?thesis by (simp add: read_rest.simps)
  next
    case True
    have k: "?k < length pkt" using less.prems True by (simp add: word_less_nat_alt)
    have rs: "unat (rs - tr) = length pkt - ?k"
      using less.prems True by (simp add: unat_sub word_less_nat_alt word_le_nat_alt)
    have "unat (rs - tr) < 2 ^ 31" "?k + length (rem s) \<le> length ?m"
      using rs less.prems by simp_all
    from bulk_in [OF this, of tr kUsbTimeout] obtain n s1 where n:
      "n \<le> unat (rs - tr)" "n \<le> length (rem s)" "rem s1 = drop n (rem s)"
      "0 < rs - tr \<Longrightarrow> rem s \<noteq> [] \<Longrightarrow> 0 < n"
      "bulk_transfer (messenger g) (endpoint_bulk_in g) ?k ?m (rs - tr) tr kUsbTimeout s
        = Inr (0, write_at ?k (take n (rem s)) ?m, of_nat n, s1)" by blast
    have "0 < n" using n(4) rs k less.prems by (simp add: word_less_nat_alt)
    have kn: "?k + n \<le> length pkt" using n(1) rs k by simp
    have un: "unat (of_nat n :: u32) = n" using n(1) rs less.prems by (simp add: unat_of_nat)
    have w: "write_at ?k (take n (rem s)) ?m = take (?k + n) pkt @ drop (?k + n) mem"
      using write_next [OF kn] less.prems by simp
    have "\<exists>s'. read_rest g ?k (take (?k + unat (of_nat n :: u32)) pkt @ drop (?k + unat (of_nat n :: u32)) mem)
        (rs - tr) (of_nat n) 0 s1 = Some (Inr (0, pkt @ drop (length pkt) mem, s')) \<and> rem s' = []"
      using less.prems kn rs n(3) \<open>0 < n\<close> k
      by (intro less.hyps) (simp_all add: un add.commute add.left_commute)
    with True n(5) w un show ?thesis by (subst read_rest.simps) simp
  qed
qed

text \<open>The whole read, after a first transfer of \<open>k\<close> bytes.\<close>

lemma stream_read_ok:
  assumes "control_transfer_out g GET_FRAME 0 [] 0 s = Inr (SE2_USB_STATUS_SUCCESS, s1)"
    and "rem s1 = pkt" "length pkt < 2 ^ 31" "length pkt \<le> length mem"
    and "head_magic pkt = PACK_MAGIC" "head_pack_length pkt = of_nat (length pkt)"
    and "lu_bulk (messenger g) (ep_address (endpoint_bulk_in g)) mem 1024 80 s1 = (0, int k, take k pkt, s2)"
    and "20 \<le> k" "k \<le> length pkt" "rem s2 = drop k pkt" "k \<le> 1024"
  shows "\<exists>s'. stream_read g junk mem s = Some (Inr (SE2_USB_STATUS_SUCCESS, pkt @ drop (length pkt) mem, s'))
    \<and> rem s' = []"
proof -
  let ?m = "take k pkt @ drop k mem"
  from pipe have d: "ep_attributes (endpoint_bulk_in g) = SE2_USB_ENDPOINT_BULK"
    "getDirection (endpoint_bulk_in g) = SE2_USB_ENDPOINT_DIRECTION_READ"
    unfolding delivers_def by blast+
  have one: "bulk_transfer (messenger g) (endpoint_bulk_in g) 0 mem 1024 0 80 s1 = Inr (0, ?m, of_nat k, s2)"
    using assms(4,7,9) by (simp add: bulk_transfer_def d put_bytes_def write_at_def)
  have uk: "unat (of_nat k :: u32) = k" using assms(11) by (simp add: unat_of_nat)
  have head: "head_magic ?m = head_magic pkt" "head_pack_length ?m = head_pack_length pkt"
    using assms(8,9) by (simp_all add: head_magic_def head_pack_length_def min_def drop_take)
  have ul: "unat (of_nat (length pkt) :: u32) = length pkt" using assms(3) by (simp add: unat_of_nat)
  have rs: "unat (of_nat (length pkt) - of_nat k :: u32) = length pkt - k"
    using ul uk assms(9) by (simp add: unat_sub word_le_nat_alt)
  have "unat (of_nat (length pkt) - of_nat k :: u32) < 2 ^ 31" "k + length (rem s2) \<le> length ?m"
    using rs assms(3,4,9,10) by simp_all
  from bulk_in [OF this, of "of_nat k" kUsbTimeout] obtain n s3 where n:
    "n \<le> unat (of_nat (length pkt) - of_nat k :: u32)" "n \<le> length (rem s2)" "rem s3 = drop n (rem s2)"
    "bulk_transfer (messenger g) (endpoint_bulk_in g) k ?m (of_nat (length pkt) - of_nat k) (of_nat k) kUsbTimeout s2
      = Inr (0, write_at k (take n (rem s2)) ?m, of_nat n, s3)" by blast
  have un: "unat (of_nat n :: u32) = n" using n(1) rs assms(3) by (simp add: unat_of_nat)
  have kn: "k + n \<le> length pkt" using n(1) rs assms(9) by simp
  have w: "write_at k (take n (rem s2)) ?m = take (k + n) pkt @ drop (k + n) mem"
    using write_next [OF kn assms(4)] assms(10) by simp
  have "\<exists>s'. read_rest g k (take (k + unat (of_nat n :: u32)) pkt @ drop (k + unat (of_nat n :: u32)) mem)
      (of_nat (length pkt) - of_nat k) (of_nat n) 0 s3
    = Some (Inr (0, pkt @ drop (length pkt) mem, s')) \<and> rem s' = []"
    by (rule read_rest_ok) (use n rs un kn assms in \<open>simp_all add: add.commute\<close>)
  with assms(1,5,6,8) one head n(4) w un uk show ?thesis
    by (simp add: stream_read_def reset_if_def read_body_def pack_head_size_def SE2_USB_STATUS_SUCCESS_def)
qed

text \<open>A packet that is longer than the buffer is written past its end, whatever the transfers are.\<close>

lemma bulk_in_any:
  assumes "unat len < 2 ^ 31"
  obtains n s' where "n \<le> unat len" "n \<le> length (rem s)" "rem s' = drop n (rem s)"
    "0 < len \<Longrightarrow> rem s \<noteq> [] \<Longrightarrow> 0 < n"
    "bulk_transfer (messenger g) (endpoint_bulk_in g) off mem len tr tmo s
      = bind_result (put_bytes off (take n (rem s)) mem) (\<lambda>mem'. Inr (0, mem', of_nat n, s'))"
proof -
  have len: "sint len = int (unat len)" using assms(1) by (rule sint_small)
  from pipe have d: "ep_attributes (endpoint_bulk_in g) = SE2_USB_ENDPOINT_BULK"
    "getDirection (endpoint_bulk_in g) = SE2_USB_ENDPOINT_DIRECTION_READ"
    "\<And>buf len tmo s. 0 \<le> len \<Longrightarrow> \<exists>n s'. lu_bulk (messenger g) (ep_address (endpoint_bulk_in g)) buf len tmo s
       = (0, int n, take n (rem s), s')
       \<and> rem s' = drop n (rem s) \<and> n \<le> nat len \<and> n \<le> length (rem s)
       \<and> (0 < len \<and> rem s \<noteq> [] \<longrightarrow> 0 < n)"
    unfolding delivers_def by blast+
  have "0 \<le> sint len" by (simp add: len)
  from d(3) [OF this] obtain n s' where n:
    "lu_bulk (messenger g) (ep_address (endpoint_bulk_in g)) (drop off mem) (sint len) tmo s
       = (0, int n, take n (rem s), s')"
    "rem s' = drop n (rem s)" "n \<le> nat (sint len)" "n \<le> length (rem s)"
    "0 < sint len \<and> rem s \<noteq> [] \<longrightarrow> 0 < n" by blast
  have "0 < len \<Longrightarrow> 0 < sint len" unfolding len by (simp add: word_less_def)
  with n len show ?thesis by (intro that [of n s']) (simp_all add: bulk_transfer_def d(1,2))
qed

lemma read_rest_overruns:
  assumes "off + unat tr \<le> length mem" "length mem < length pkt" "unat rs = length pkt - off" "length pkt < 2 ^ 31"
    "rem s = drop (off + unat tr) pkt"
  shows "read_rest g off mem rs tr 0 s = Some (Inl (Undefined ''write past the buffer''))"
  using assms
proof (induction "length pkt - (off + unat tr)" arbitrary: off tr rs s mem rule: less_induct)
  case less
  let ?k = "off + unat tr"
  have k: "?k < length pkt" using less.prems by simp
  have lt: "tr < rs" using k less.prems(3) by (simp add: word_less_nat_alt)
  have rs: "unat (rs - tr) = length pkt - ?k"
    using less.prems(3) lt by (simp add: unat_sub word_less_nat_alt word_le_nat_alt)
  have "unat (rs - tr) < 2 ^ 31" using rs less.prems(4) by simp
  from bulk_in_any [OF this, of s ?k mem tr kUsbTimeout] obtain n s1 where n:
    "n \<le> unat (rs - tr)" "n \<le> length (rem s)" "rem s1 = drop n (rem s)"
    "0 < rs - tr \<Longrightarrow> rem s \<noteq> [] \<Longrightarrow> 0 < n"
    "bulk_transfer (messenger g) (endpoint_bulk_in g) ?k mem (rs - tr) tr kUsbTimeout s
      = bind_result (put_bytes ?k (take n (rem s)) mem) (\<lambda>mem'. Inr (0, mem', of_nat n, s1))" by blast
  have "0 < n" using n(4) rs k less.prems(5) by (simp add: word_less_nat_alt)
  have un: "unat (of_nat n :: u32) = n" using n(1) rs less.prems(4) by (simp add: unat_of_nat)
  have ln: "length (take n (rem s)) = n" using n(2) by simp
  show ?case
  proof (cases "?k + n \<le> length mem")
    case False
    then have "put_bytes ?k (take n (rem s)) mem = Inl (Undefined ''write past the buffer'')"
      using ln by (simp add: put_bytes_def)
    then show ?thesis using lt n(5) by (subst read_rest.simps) simp
  next
    case True
    let ?m = "write_at ?k (take n (rem s)) mem"
    have m: "put_bytes ?k (take n (rem s)) mem = Inr ?m" "length ?m = length mem"
      using True ln by (simp_all add: put_bytes_def)
    have "read_rest g ?k ?m (rs - tr) (of_nat n) 0 s1 = Some (Inl (Undefined ''write past the buffer''))"
      using less.prems rs n(3) \<open>0 < n\<close> k True m(2)
      by (intro less.hyps) (simp_all add: un add.commute add.left_commute)
    then show ?thesis using lt n(5) m(1) by (subst read_rest.simps) simp
  qed
qed

lemma stream_read_overruns:
  assumes "control_transfer_out g GET_FRAME 0 [] 0 s = Inr (SE2_USB_STATUS_SUCCESS, s1)"
    and "rem s1 = pkt" "length pkt < 2 ^ 31" "length mem < length pkt"
    and "head_magic pkt = PACK_MAGIC" "head_pack_length pkt = of_nat (length pkt)"
    and "lu_bulk (messenger g) (ep_address (endpoint_bulk_in g)) mem 1024 80 s1 = (0, int k, take k pkt, s2)"
    and "20 \<le> k" "k \<le> length pkt" "rem s2 = drop k pkt" "k \<le> 1024"
  shows "stream_read g junk mem s = Some (Inl (Undefined ''write past the buffer''))"
proof -
  from pipe have d: "ep_attributes (endpoint_bulk_in g) = SE2_USB_ENDPOINT_BULK"
    "getDirection (endpoint_bulk_in g) = SE2_USB_ENDPOINT_DIRECTION_READ"
    unfolding delivers_def by blast+
  have one: "bulk_transfer (messenger g) (endpoint_bulk_in g) 0 mem 1024 0 80 s1
      = bind_result (put_bytes 0 (take k pkt) mem) (\<lambda>mem'. Inr (0, mem', of_nat k, s2))"
    using assms(7) by (simp add: bulk_transfer_def d)
  show ?thesis
  proof (cases "k \<le> length mem")
    case False
    then have "put_bytes 0 (take k pkt) mem = Inl (Undefined ''write past the buffer'')"
      using assms(9) by (simp add: put_bytes_def)
    with one assms(1) show ?thesis by (simp add: stream_read_def SE2_USB_STATUS_SUCCESS_def)
  next
    case True
    let ?m = "take k pkt @ drop k mem"
    have p: "put_bytes 0 (take k pkt) mem = Inr ?m" using True assms(9) by (simp add: put_bytes_def write_at_def)
    have lm: "length ?m = length mem" using True assms(9) by simp
    have uk: "unat (of_nat k :: u32) = k" using assms(11) by (simp add: unat_of_nat)
    have head: "head_magic ?m = head_magic pkt" "head_pack_length ?m = head_pack_length pkt"
      using assms(8,9) by (simp_all add: head_magic_def head_pack_length_def min_def drop_take)
    have ul: "unat (of_nat (length pkt) :: u32) = length pkt" using assms(3) by (simp add: unat_of_nat)
    have rs: "unat (of_nat (length pkt) - of_nat k :: u32) = length pkt - k"
      using ul uk assms(9) by (simp add: unat_sub word_le_nat_alt)
    have "unat (of_nat (length pkt) - of_nat k :: u32) < 2 ^ 31" using rs assms(3) by simp
    from bulk_in_any [OF this, of s2 k ?m "of_nat k" kUsbTimeout] obtain n s3 where n:
      "n \<le> unat (of_nat (length pkt) - of_nat k :: u32)" "n \<le> length (rem s2)" "rem s3 = drop n (rem s2)"
      "bulk_transfer (messenger g) (endpoint_bulk_in g) k ?m (of_nat (length pkt) - of_nat k) (of_nat k) kUsbTimeout s2
        = bind_result (put_bytes k (take n (rem s2)) ?m) (\<lambda>mem'. Inr (0, mem', of_nat n, s3))" by blast
    have un: "unat (of_nat n :: u32) = n" using n(1) rs assms(3) by (simp add: unat_of_nat)
    have ln: "length (take n (rem s2)) = n" using n(2) by simp
    have body: "read_body g ?m (of_nat k) s2 = Some (Inl (Undefined ''write past the buffer''))"
    proof (cases "k + n \<le> length mem")
      case False
      then have "put_bytes k (take n (rem s2)) ?m = Inl (Undefined ''write past the buffer'')"
        using ln lm by (simp add: put_bytes_def)
      then show ?thesis using n(4) uk head assms(6) by (simp add: read_body_def)
    next
      case fits: True
      let ?m2 = "write_at k (take n (rem s2)) ?m"
      have m2: "put_bytes k (take n (rem s2)) ?m = Inr ?m2" "length ?m2 = length mem"
        using fits ln lm by (simp_all add: put_bytes_def)
      have "read_rest g k ?m2 (of_nat (length pkt) - of_nat k) (of_nat n) 0 s3 = Some (Inl (Undefined ''write past the buffer''))"
        by (rule read_rest_overruns) (use n rs un assms fits m2 in \<open>simp_all add: add.commute\<close>)
      then show ?thesis using n(4) uk head assms(6) m2(1) by (simp add: read_body_def SE2_USB_STATUS_SUCCESS_def)
    qed
    from one p assms(1,5,8) head uk body show ?thesis
      by (simp add: stream_read_def reset_if_def pack_head_size_def SE2_USB_STATUS_SUCCESS_def)
  qed
qed

end

section \<open>A device that cuts packets\<close>

text \<open>
  A device that accepts every command and hands out the bytes it holds, at most \<open>f i\<close> of them
  in its \<open>i\<close>-th transfer.
\<close>

definition packet_gemini :: "(nat \<Rightarrow> nat) \<Rightarrow> (nat \<times> u8 list) gemini" where
  "packet_gemini f =
     \<lparr>messenger =
        \<lparr>lu_control = (\<lambda>_ _ _ _ _ _ _ s. (0, [], s)),
         lu_bulk = (\<lambda>_ _ len _ (i, bs). let n = min (nat len) (min (f i) (length bs))
                     in (0, int n, take n bs, (i + 1, drop n bs))),
         lu_interrupt = (\<lambda>_ _ _ _ s. (0, 0, [], s)),
         lu_clear_halt = (\<lambda>_ s. (0, s))\<rparr>,
      endpoint_bulk_in = \<lparr>ep_address = 0x81, ep_attributes = 2, ep_interface = 0\<rparr>,
      endpoint_bulk_out = \<lparr>ep_address = 1, ep_attributes = 2, ep_interface = 0\<rparr>\<rparr>"

lemmas packet_simps = packet_gemini_def SE2_USB_ENDPOINT_BULK_def getDirection_def
  SE2_USB_ENDPOINT_DIRECTION_READ_def SE2_USB_ENDPOINT_DIRECTION_WRITE_def

lemma packet_delivers: "(\<And>i. 0 < f i) \<Longrightarrow> delivers (packet_gemini f) snd"
  unfolding delivers_def by (auto simp: packet_simps Let_def)

interpretation cut: usb_pipe "packet_gemini (\<lambda>i. Suc (f i))" snd
  by unfold_locales (simp add: packet_delivers)

lemma packet_control_out [simp]:
  "control_transfer_out (packet_gemini f) cmd idx [] len s = Inr (SE2_USB_STATUS_SUCCESS, s)"
  by (simp add: control_transfer_out_def control_transfer_def packet_gemini_def put_bytes_def
      write_at_def SE2_USB_STATUS_SUCCESS_def)

lemma packet_stream_read:
  assumes "length pkt < 2 ^ 31" "length pkt \<le> length mem" "20 \<le> length pkt"
    and "head_magic pkt = PACK_MAGIC" "head_pack_length pkt = of_nat (length pkt)" "19 \<le> f i"
  shows "\<exists>s'. stream_read (packet_gemini (\<lambda>i. Suc (f i))) junk mem (i, pkt)
      = Some (Inr (SE2_USB_STATUS_SUCCESS, pkt @ drop (length pkt) mem, s')) \<and> snd s' = []"
  by (rule cut.stream_read_ok [where k = "min 1024 (min (Suc (f i)) (length pkt))", OF packet_control_out])
    (use assms in \<open>auto simp: packet_gemini_def Let_def\<close>)

text \<open>
  A pipe that, once the head is in, answers every transfer with a successful empty one keeps
  the loop going for ever.
\<close>

definition stuck_pipe :: "'s gemini \<Rightarrow> ('s \<Rightarrow> bool) \<Rightarrow> bool" where
  "stuck_pipe g P \<longleftrightarrow> (\<forall>off mem len tr s. P s \<and> off \<le> length mem \<longrightarrow> (\<exists>s'. P s'
     \<and> bulk_transfer (messenger g) (endpoint_bulk_in g) off mem len tr kUsbTimeout s = Inr (0, mem, 0, s')))"

lemma read_rest_stuck:
  assumes "read_rest g off mem rs tr e s = Some y"
  shows "stuck_pipe g P \<and> P s \<and> off + unat tr \<le> length mem \<longrightarrow> \<not> tr < rs"
proof (rule read_rest.raw_induct [where P = "\<lambda>g off mem rs tr e s y.
    stuck_pipe g P \<and> P s \<and> off + unat tr \<le> length mem \<longrightarrow> \<not> tr < rs", OF _ assms], intro impI notI)
  fix rec g off mem rs tr e s y
  assume ih: "\<And>g off mem rs tr e s y. rec g off mem rs tr e s = Some y
      \<Longrightarrow> stuck_pipe g P \<and> P s \<and> off + unat tr \<le> length mem \<longrightarrow> \<not> tr < rs"
    and step: "(if tr < rs
      then case bulk_transfer (messenger g) (endpoint_bulk_in g) (off + unat tr) mem
                  (rs - tr) tr kUsbTimeout s of
             Inl err \<Rightarrow> Some (Inl err)
           | Inr r \<Rightarrow>
               (case r of (e', mem', tr', s') \<Rightarrow>
                  if e' < 0 then Some (bind_result (status_text e') (\<lambda>_. Inr (e', mem', s')))
                  else rec g (off + unat tr) mem' (rs - tr) tr' e' s')
      else Some (Inr (e, mem, s))) = Some y"
    and h: "stuck_pipe g P \<and> P s \<and> off + unat tr \<le> length mem" and lt: "tr < rs"
  from h obtain s' where s': "P s'"
    "bulk_transfer (messenger g) (endpoint_bulk_in g) (off + unat tr) mem (rs - tr) tr kUsbTimeout s = Inr (0, mem, 0, s')"
    unfolding stuck_pipe_def by blast
  have "rec g (off + unat tr) mem (rs - tr) 0 0 s' = Some y" using step lt s'(2) by simp
  from ih [OF this] s'(1) h have "\<not> 0 < rs - tr" by simp
  with lt show False by (simp add: word_less_nat_alt unat_sub word_le_nat_alt)
qed

lemma read_rest_none:
  "stuck_pipe g P \<Longrightarrow> P s \<Longrightarrow> off + unat tr \<le> length mem \<Longrightarrow> tr < rs \<Longrightarrow> read_rest g off mem rs tr e s = None"
  using read_rest_stuck [of g off mem rs tr e s _ P] by (cases "read_rest g off mem rs tr e s") auto

text \<open>The packet device that stops after its first transfer.\<close>

definition head_only :: "nat \<Rightarrow> nat \<Rightarrow> nat" where
  "head_only k i = (if i = 0 then k else 0)"

lemma head_only_stuck: "stuck_pipe (packet_gemini (head_only k)) (\<lambda>s. 0 < fst s \<and> snd s \<noteq> [])"
proof (unfold stuck_pipe_def, intro allI impI)
  fix off :: nat and mem :: "u8 list" and len tr and s :: "nat \<times> u8 list"
  obtain i bs where s: "s = (i, bs)" by fastforce
  assume h: "(0 < fst s \<and> snd s \<noteq> []) \<and> off \<le> length mem"
  from h have z: "head_only k i = 0" "bs \<noteq> []" by (simp_all add: head_only_def s)
  show "\<exists>s'. (0 < fst s' \<and> snd s' \<noteq> [])
     \<and> bulk_transfer (messenger (packet_gemini (head_only k))) (endpoint_bulk_in (packet_gemini (head_only k)))
         off mem len tr kUsbTimeout s = Inr (0, mem, 0, s')"
    by (rule exI [of _ "(Suc i, bs)"])
      (use z h in \<open>simp add: s bulk_transfer_def packet_simps put_bytes_def write_at_def\<close>)
qed

section \<open>Properties\<close>

text \<open>C9: A device that accepts the request has a packet with a valid head.  The first transfer brings at
  least its first twenty bytes, and every later transfer succeeds and brings at least one byte.  However
  the bus cuts the rest, \<open>stream_read\<close> returns: a packet that fits the buffer is at its start, whole,
  with the rest of the buffer untouched, and a longer packet is written past the end of the buffer,
  because its announced length is not compared with anything.\<close>

theorem stream_read_reassembles:
  assumes "delivers g rem" and "rem s1 = pkt"
    and "control_transfer_out g GET_FRAME 0 [] 0 s = Inr (SE2_USB_STATUS_SUCCESS, s1)"
    and "lu_bulk (messenger g) (ep_address (endpoint_bulk_in g)) mem 1024 80 s1 = (0, int k, take k pkt, s2)"
    and "20 \<le> k" "k \<le> 1024" "k \<le> length pkt" "rem s2 = drop k pkt"
    and "head_magic pkt = PACK_MAGIC" "head_pack_length pkt = of_nat (length pkt)"
    and "length pkt < 2 ^ 31"
  shows "if length pkt \<le> length mem
     then \<exists>s'. stream_read g junk mem s = Some (Inr (SE2_USB_STATUS_SUCCESS, pkt @ drop (length pkt) mem, s'))
       \<and> rem s' = []
     else stream_read g junk mem s = Some (Inl (Undefined ''write past the buffer''))"
proof -
  have p: "usb_pipe g rem" using assms(1) by unfold_locales
  from usb_pipe.stream_read_ok [OF p assms(3,2,11) _ assms(9,10,4,5,7,8,6)]
    usb_pipe.stream_read_overruns [OF p assms(3,2,11) _ assms(9,10,4,5,7,8,6)] show ?thesis by simp
qed

definition small_packet :: "u8 list" where
  "small_packet = [0x55, 0xAA, 0x55, 0xAA, 24, 0, 0, 0, 16, 0, 0, 0, 1, 2, 3, 4, 5, 6, 7, 8, 9, 10, 11, 12]"

lemma small_packet_ok:
  "head_magic small_packet = PACK_MAGIC" "head_pack_length small_packet = of_nat (length small_packet)"
  "length small_packet = 24"
  by (simp_all add: small_packet_def head_magic_def PACK_MAGIC_def head_pack_length_def u32_of_def)

theorem stream_read_reassembles_witness:
  "(\<exists>s'. stream_read (packet_gemini (\<lambda>i. if i = 0 then 20 else 1)) [] (replicate 32 0) (0, small_packet)
      = Some (Inr (SE2_USB_STATUS_SUCCESS, small_packet @ replicate 8 0, s')) \<and> snd s' = [])
   \<and> stream_read (packet_gemini (\<lambda>i. if i = 0 then 20 else 1)) [] (replicate 21 0) (0, small_packet)
      = Some (Inl (Undefined ''write past the buffer''))"
proof -
  have r: "if length small_packet \<le> length mem
     then \<exists>s'. stream_read (packet_gemini (\<lambda>i. if i = 0 then 20 else 1)) [] mem (0, small_packet)
       = Some (Inr (SE2_USB_STATUS_SUCCESS, small_packet @ drop (length small_packet) mem, s')) \<and> snd s' = []
     else stream_read (packet_gemini (\<lambda>i. if i = 0 then 20 else 1)) [] mem (0, small_packet)
       = Some (Inl (Undefined ''write past the buffer''))" for mem
    by (rule stream_read_reassembles [where k = 20 and ?s1.0 = "(0, small_packet)"
          and ?s2.0 = "(1, drop 20 small_packet)", OF packet_delivers])
      (simp_all add: small_packet_ok, simp add: packet_gemini_def small_packet_ok)
  from r [of "replicate 32 0"] r [of "replicate 21 0"] show ?thesis by (simp add: small_packet_ok)
qed

text \<open>C40: Once the head of a packet is in, a device that answers every further transfer with an
  empty success keeps \<open>stream_read\<close> in its loop for ever: the time limit is per transfer and
  nothing bounds their number.\<close>

theorem stream_read_can_hang:
  assumes "head_magic pkt = PACK_MAGIC" "head_pack_length pkt = of_nat (length pkt)"
    and "length pkt < 2 ^ 31" "length pkt \<le> length mem" "20 \<le> k" "k \<le> 1024" "k < length pkt"
  shows "stream_read (packet_gemini (head_only k)) junk mem (0, pkt) = None"
proof -
  let ?g = "packet_gemini (head_only k)" and ?m = "take k pkt @ drop k mem"
  have uk: "unat (of_nat k :: u32) = k" using assms(6) by (simp add: unat_of_nat)
  have ul: "unat (of_nat (length pkt) :: u32) = length pkt" using assms(3) by (simp add: unat_of_nat)
  have head: "head_magic ?m = PACK_MAGIC" "head_pack_length ?m = of_nat (length pkt)"
    using assms(1,2,5,7) by (simp_all add: head_magic_def head_pack_length_def drop_take min_absorb1)
  have one: "bulk_transfer (messenger ?g) (endpoint_bulk_in ?g) 0 mem 1024 0 80 (0, pkt)
      = Inr (0, ?m, of_nat k, (1, drop k pkt))"
    using assms(4,6,7) by (simp add: bulk_transfer_def packet_simps put_bytes_def write_at_def head_only_def min_def)
  have s: "0 < fst (1 :: nat, drop k pkt) \<and> snd (1 :: nat, drop k pkt) \<noteq> []" using assms(7) by simp
  have le: "k \<le> length ?m" using assms(4,7) by simp
  from head_only_stuck [of k] s le obtain s3 where s3: "0 < fst s3 \<and> snd s3 \<noteq> []"
    "bulk_transfer (messenger ?g) (endpoint_bulk_in ?g) k ?m (of_nat (length pkt) - of_nat k) (of_nat k) kUsbTimeout
       (1, drop k pkt) = Inr (0, ?m, 0, s3)"
    unfolding stuck_pipe_def by blast
  have "0 < (of_nat (length pkt) - of_nat k :: u32)"
    using ul uk assms(7) by (simp add: word_less_nat_alt unat_sub word_le_nat_alt)
  then have "read_rest ?g k ?m (of_nat (length pkt) - of_nat k) 0 0 s3 = None"
    using read_rest_none [OF head_only_stuck s3(1)] le by simp
  with one head s3(2) uk assms(5) show ?thesis
    by (simp add: stream_read_def reset_if_def read_body_def pack_head_size_def SE2_USB_STATUS_SUCCESS_def)
qed

theorem stream_read_can_hang_witness:
  "stream_read (packet_gemini (head_only 20)) [] (replicate 32 0) (0, small_packet) = None"
  by (rule stream_read_can_hang) (simp_all add: small_packet_ok)

text \<open>A libusb error that the status table does not name (\<open>LIBUSB_ERROR_OTHER\<close>, -99) is not
  returned as a status: writing the log message throws \<open>std::out_of_range\<close>.\<close>

theorem stream_read_unknown_status_throws:
  assumes "control_transfer_out g GET_FRAME 0 [] 0 s = Inr (LIBUSB_ERROR_OTHER, s1)"
  shows "stream_read g junk mem s = Some (Inl Out_of_range)"
  using assms status_text_unknown
  by (simp add: stream_read_def LIBUSB_ERROR_OTHER_def SE2_USB_STATUS_SUCCESS_def)

definition dead_gemini :: "unit gemini" where
  "dead_gemini =
     \<lparr>messenger = \<lparr>lu_control = (\<lambda>_ _ _ _ _ _ _ s. (-99, [], s)), lu_bulk = (\<lambda>_ _ _ _ s. (-4, 0, [], s)),
        lu_interrupt = (\<lambda>_ _ _ _ s. (-4, 0, [], s)), lu_clear_halt = (\<lambda>_ s. (-4, s))\<rparr>,
      endpoint_bulk_in = \<lparr>ep_address = 0x81, ep_attributes = 2, ep_interface = 0\<rparr>,
      endpoint_bulk_out = \<lparr>ep_address = 1, ep_attributes = 2, ep_interface = 0\<rparr>\<rparr>"

theorem stream_read_unknown_status_throws_witness:
  "stream_read dead_gemini [] (replicate 32 0) () = Some (Inl Out_of_range)"
  by (rule stream_read_unknown_status_throws)
    (simp add: control_transfer_out_def control_transfer_def dead_gemini_def put_bytes_def write_at_def
      LIBUSB_ERROR_OTHER_def)

text \<open>\<open>bulk_request_response\<close> reports success only for a complete exchange: the whole request
  was taken and as many bytes came back as the head of the response announces.  The state the
  device put into that head is not looked at, with or without \<open>assert_success\<close>.\<close>

theorem bulk_request_response_complete:
  assumes "bulk_request_response g request response n assert_success s = Inr (SE2_USB_STATUS_SUCCESS, response', s')"
  shows "\<exists>req' s1. bulk_transfer (messenger g) (endpoint_bulk_out g) 0 request (head_pack_length request) 0 kUsbTimeout s
        = Inr (SE2_USB_STATUS_SUCCESS, req', head_pack_length request, s1)
     \<and> bulk_transfer (messenger g) (endpoint_bulk_in g) 0 response
          (of_nat (if n = 0 then pack_head_size else n)) 0 kUsbTimeout s1
        = Inr (SE2_USB_STATUS_SUCCESS, response', head_pack_length response', s')
     \<and> bulk_request_response g request response n (\<not> assert_success) s
        = Inr (SE2_USB_STATUS_SUCCESS, response', s')"
  using assms
  by (auto simp: bulk_request_response_def bind_result_Inr SE2_USB_STATUS_OTHER_def
      SE2_USB_STATUS_SUCCESS_def split: if_splits)

definition echo_packet :: "u8 list" where
  "echo_packet = [0x55, 0xAA, 0x55, 0xAA, 12, 0, 0, 0, 16, 0, 3, 0]"

definition echo_gemini :: "unit gemini" where
  "echo_gemini = dead_gemini\<lparr>messenger := (messenger dead_gemini)
     \<lparr>lu_bulk := (\<lambda>addr buf len _ s. if addr = 0x81 then (0, 12, echo_packet, s) else (0, len, [], s))\<rparr>\<rparr>"

lemmas echo_simps = echo_gemini_def dead_gemini_def packet_simps
  echo_packet_def put_bytes_def write_at_def head_pack_length_def u32_of_def
  SE2_USB_STATUS_SUCCESS_def pack_head_size_def

theorem bulk_request_response_complete_witness:
  "\<exists>req' s1. bulk_transfer (messenger echo_gemini) (endpoint_bulk_out echo_gemini) 0 echo_packet
          (head_pack_length echo_packet) 0 kUsbTimeout () = Inr (SE2_USB_STATUS_SUCCESS, req', head_pack_length echo_packet, s1)
     \<and> bulk_transfer (messenger echo_gemini) (endpoint_bulk_in echo_gemini) 0 (replicate 12 0)
          (of_nat (if (0 :: nat) = 0 then pack_head_size else 0)) 0 kUsbTimeout s1
        = Inr (SE2_USB_STATUS_SUCCESS, echo_packet, head_pack_length echo_packet, ())
     \<and> bulk_request_response echo_gemini echo_packet (replicate 12 0) 0 (\<not> False) ()
        = Inr (SE2_USB_STATUS_SUCCESS, echo_packet, ())"
  by (rule bulk_request_response_complete)
    (simp add: bulk_request_response_def bulk_transfer_def echo_simps)

end
