(* ===== verification/Usb_Device.thy ===== *)
theory Usb_Device
  imports Usb_Transfer
begin

text \<open>
  USB devices as the library finds and opens them: the interfaces and endpoints of a device
  (\<open>src/usb/usb_device.cc\<close>, \<open>usb_interface.cc\<close>), the handle that claims them
  (\<open>usb_handle.cc\<close>), the enumeration (\<open>usb_enumerator.cc\<close>), the event thread of the
  context (\<open>usb_context.*\<close>), the endpoints the Gemini device picks
  (\<open>gemini/gemini_device.cc\<close>) and the command transfer (\<open>command_transfer.h\<close>).  What libusb
  reports (descriptors, statuses) is input.
\<close>

section \<open>Interfaces and endpoints\<close>

text \<open>What the code reads of a \<open>libusb_interface_descriptor\<close>; an interface lists its settings.\<close>

record altsetting =
  alt_length :: u8
  alt_type :: u8
  alt_number :: u8
  alt_class :: u8
  alt_subclass :: u8
  alt_endpoints :: "(u8 \<times> u8) list"
  alt_extra :: "u8 list"

definition SE2_USB_CLASS_VIDEO :: u8 where "SE2_USB_CLASS_VIDEO = 0x0E"
definition SE2_USB_CLASS_APPLICATION_SPECIFIC :: u8 where "SE2_USB_CLASS_APPLICATION_SPECIFIC = 0xFE"
definition SE2_USB_CLASS_VENDOR_SPECIFIC :: u8 where "SE2_USB_CLASS_VENDOR_SPECIFIC = 0xFF"
definition SE2_USB_SUBCLASS_VIDEO_CONTROL :: u8 where "SE2_USB_SUBCLASS_VIDEO_CONTROL = 1"
definition SE2_USB_SUBCLASS_VIDEO_STREAMING :: u8 where "SE2_USB_SUBCLASS_VIDEO_STREAMING = 2"

text \<open>Associated interfaces are shared pointers into the device's vector: indices here.\<close>

record usb_interface =
  if_desc :: altsetting
  if_endpoints :: "usb_endpoint list"
  if_associated :: "nat list"

definition new_interface :: "altsetting \<Rightarrow> usb_interface" where
  "new_interface d = \<lparr>if_desc = d,
     if_endpoints = map (\<lambda>(a, t). \<lparr>ep_address = a, ep_attributes = t, ep_interface = alt_number d\<rparr>) (alt_endpoints d),
     if_associated = []\<rparr>"

definition firstEndpoint :: "u8 \<Rightarrow> u8 \<Rightarrow> usb_interface \<Rightarrow> usb_endpoint option" where
  "firstEndpoint direction ty i =
     List.find (\<lambda>ep. ep_attributes ep = ty \<and> getDirection ep = direction) (if_endpoints i)"

definition getInterface :: "u8 \<Rightarrow> usb_interface list \<Rightarrow> usb_interface option" where
  "getInterface n is = List.find (\<lambda>i. n = alt_number (if_desc i)) is"

section \<open>The descriptors of a device\<close>

text \<open>
  The walk over the extra descriptors of a setting: each starts with its length and type.  The
  loop advances by that length; \<open>None\<close> is a loop that never ends.  The list is built in a copy
  of the device's vector, which the caller drops.
\<close>

partial_function (option) walk_extra ::
    "u8 list \<Rightarrow> nat \<Rightarrow> (u8 \<times> u8 \<times> u8 list) list \<Rightarrow> (se_error + (u8 \<times> u8 \<times> u8 list) list) option" where
  "walk_extra extra k ds =
     (if k < length extra
      then if Suc k < length extra \<and> k + unat (extra ! k) \<le> length extra
           then walk_extra extra (k + unat (extra ! k))
                  (ds @ [(extra ! k, extra ! Suc k, take (unat (extra ! k)) (drop k extra))])
           else Some (Inl (Undefined ''read past the descriptor''))
      else Some (Inr ds))"

text \<open>\<open>getDescFromInterface\<close> walks the settings of an interface; only its failures matter.\<close>

fun walk_settings :: "altsetting list \<Rightarrow> (se_error + unit) option" where
  "walk_settings [] = Some (Inr ())"
| "walk_settings (d # ds) =
     (case walk_extra (alt_extra d) 0 [] of
        None \<Rightarrow> None
      | Some (Inl e) \<Rightarrow> Some (Inl e)
      | Some (Inr _) \<Rightarrow> walk_settings ds)"

text \<open>
  The constructor's loop over the interfaces of one configuration, each the list of its
  settings.  \<open>cur\<close> is the control interface that the following streaming interfaces are
  associated with.
\<close>

fun add_interfaces ::
    "altsetting list list \<Rightarrow> nat option \<Rightarrow> usb_interface list \<Rightarrow> (se_error + usb_interface list) option" where
  "add_interfaces [] cur is = Some (Inr is)"
| "add_interfaces ([] # itfs) cur is = Some (Inl (Undefined ''interface without setting''))"
| "add_interfaces ((d # ds) # itfs) cur is =
     (let is1 = is @ [new_interface d];
          video = (alt_class d = SE2_USB_CLASS_VIDEO);
          cur1 = (if video \<and> alt_subclass d = SE2_USB_SUBCLASS_VIDEO_CONTROL then Some (length is) else cur);
          streaming = (video \<and> alt_subclass d = SE2_USB_SUBCLASS_VIDEO_STREAMING)
      in if streaming \<and> cur1 = None then Some (Inl (Undefined ''null control interface''))
         else let is2 = (if streaming
                         then is1[the cur1 := (is1 ! the cur1)
                                \<lparr>if_associated := if_associated (is1 ! the cur1) @ [length is]\<rparr>]
                         else is1)
              in case walk_settings (d # ds) of
                   None \<Rightarrow> None
                 | Some (Inl e) \<Rightarrow> Some (Inl e)
                 | Some (Inr _) \<Rightarrow> add_interfaces itfs cur1 is2)"

text \<open>The configurations; one whose descriptor cannot be read is skipped.\<close>

fun usb_device_interfaces ::
    "altsetting list list option list \<Rightarrow> usb_interface list \<Rightarrow> (se_error + usb_interface list) option" where
  "usb_device_interfaces [] is = Some (Inr is)"
| "usb_device_interfaces (None # cs) is = usb_device_interfaces cs is"
| "usb_device_interfaces (Some itfs # cs) is =
     (case add_interfaces itfs None is of
        Some (Inr is') \<Rightarrow> usb_device_interfaces cs is'
      | r \<Rightarrow> r)"

section \<open>Handles\<close>

text \<open>
  What the operating system holds for the process: open handles, claimed interfaces, and the
  requests for the event thread.  libusb's answers are \<open>open_sts\<close> and \<open>claim_sts\<close>.
\<close>

record usb_os =
  os_open :: nat
  os_claimed :: "u8 list"
  os_requests :: int

definition claim_interface :: "(u8 \<Rightarrow> int) \<Rightarrow> u8 \<Rightarrow> usb_os \<Rightarrow> int \<times> usb_os" where
  "claim_interface claim_sts i os =
     (if claim_sts i \<noteq> 0 then (claim_sts i, os) else (0, os\<lparr>os_claimed := os_claimed os @ [i]\<rparr>))"

fun claim_all :: "(u8 \<Rightarrow> int) \<Rightarrow> u8 list \<Rightarrow> usb_os \<Rightarrow> bool \<times> usb_os" where
  "claim_all claim_sts [] os = (True, os)"
| "claim_all claim_sts (i # is) os =
     (case claim_interface claim_sts i os of
        (sts, os') \<Rightarrow> if sts \<noteq> SE2_USB_STATUS_SUCCESS then (False, os') else claim_all claim_sts is os')"

text \<open>
  The constructor opens the device, claims the interface and its associated ones, and asks for
  the event thread.  A failed claim throws out of the constructor, so no destructor runs.
\<close>

definition handle_open :: "int \<Rightarrow> (u8 \<Rightarrow> int) \<Rightarrow> u8 \<Rightarrow> u8 list \<Rightarrow> usb_os \<Rightarrow> (se_error + unit) \<times> usb_os" where
  "handle_open open_sts claim_sts first assoc os =
     (if open_sts \<noteq> 0 then (Inl (Runtime_error ''failed to open usb interface''), os)
      else case claim_all claim_sts (first # assoc) (os\<lparr>os_open := os_open os + 1\<rparr>) of
             (False, os') \<Rightarrow> (Inl (Runtime_error ''Unable to claim interface''), os')
           | (True, os') \<Rightarrow> (Inr (), os'\<lparr>os_requests := os_requests os' + 1\<rparr>))"

text \<open>The destructor releases the associated interfaces, not the first one, and closes.\<close>

definition handle_close :: "u8 list \<Rightarrow> usb_os \<Rightarrow> usb_os" where
  "handle_close assoc os =
     os\<lparr>os_requests := os_requests os - 1, os_claimed := fold remove1 assoc (os_claimed os),
        os_open := os_open os - 1\<rparr>"

text \<open>\<open>get_handle\<close> of a device: a missing interface or a throwing constructor gives null.\<close>

definition get_handle ::
    "int \<Rightarrow> (u8 \<Rightarrow> int) \<Rightarrow> u8 \<Rightarrow> usb_interface list \<Rightarrow> usb_os \<Rightarrow> bool \<times> usb_os" where
  "get_handle open_sts claim_sts n is os =
     (case getInterface n is of
        None \<Rightarrow> (False, os)
      | Some i \<Rightarrow>
          (case handle_open open_sts claim_sts (alt_number (if_desc i))
                  (map (\<lambda>k. alt_number (if_desc (is ! k))) (if_associated i)) os of
             (Inl _, os') \<Rightarrow> (False, os')
           | (Inr _, os') \<Rightarrow> (True, os')))"

section \<open>Enumeration\<close>

text \<open>
  A device as libusb lists it: bus, ports, address, and its descriptor with the configurations
  (\<open>None\<close> where the descriptor cannot be read).
\<close>

record lu_device =
  lu_bus :: u8
  lu_ports :: "u8 list"
  lu_address :: u8
  lu_vid :: u16
  lu_pid :: u16
  lu_bcd :: u16
  lu_configs :: "altsetting list list option list"
  lu_readable :: bool

record usb_info =
  ui_id :: "u8 \<times> u8 list \<times> u8"
  ui_vid :: u16
  ui_pid :: u16
  ui_mi :: u16
  ui_unique_id :: "u8 \<times> u8 list \<times> u8"
  ui_serial :: string
  ui_spec :: u16
  ui_class :: u8

text \<open>The path text \<open>bus-ports-address\<close> is kept as its three parts.\<close>

definition getDevicePath :: "lu_device \<Rightarrow> u8 \<times> u8 list \<times> u8" where
  "getDevicePath d = (lu_bus d, lu_ports d, lu_address d)"

definition subdevice_listed :: "altsetting list \<Rightarrow> bool" where
  "subdevice_listed itf \<longleftrightarrow> alt_subclass (hd itf) \<noteq> 2 \<and> alt_class (hd itf) \<noteq> SE2_USB_CLASS_APPLICATION_SPECIFIC"

definition subdevice_info :: "lu_device \<Rightarrow> nat \<Rightarrow> altsetting list \<Rightarrow> usb_info" where
  "subdevice_info d i itf = \<lparr>ui_id = getDevicePath d, ui_vid = lu_vid d, ui_pid = lu_pid d, ui_mi = of_nat i,
     ui_unique_id = getDevicePath d, ui_serial = [], ui_spec = lu_bcd d, ui_class = alt_class (hd itf)\<rparr>"

definition getSubdevices :: "lu_device \<Rightarrow> usb_info list" where
  "getSubdevices d =
     concat (map (\<lambda>c. case c of None \<Rightarrow> []
         | Some itfs \<Rightarrow> map (\<lambda>(i, itf). subdevice_info d i itf)
                          (filter (\<lambda>(i, itf). subdevice_listed itf) (enumerate 0 itfs)))
       (lu_configs d))"

text \<open>\<open>queryDevicesInfo\<close> counts with a \<open>uint8_t\<close>; \<open>None\<close> is a loop that never ends.\<close>

partial_function (option) query_from :: "lu_device list \<Rightarrow> u8 \<Rightarrow> usb_info list \<Rightarrow> usb_info list option" where
  "query_from ds idx rv =
     (if unat idx < length ds
      then query_from ds (idx + 1)
             (if lu_readable (ds ! unat idx) then rv @ getSubdevices (ds ! unat idx) else rv)
      else Some rv)"

definition queryDevicesInfo :: "lu_device list \<Rightarrow> usb_info list option" where
  "queryDevicesInfo ds = query_from ds 0 []"

text \<open>
  \<open>createUsbDevcie\<close>: the first device with the path of the info whose descriptor can be read.
  The index is truncated to a byte when the device is fetched.
\<close>

definition createUsbDevice :: "lu_device list \<Rightarrow> usb_info \<Rightarrow> lu_device option" where
  "createUsbDevice ds info =
     (case List.find (\<lambda>i. let d = ds ! (i mod 256) in getDevicePath d = ui_id info \<and> lu_readable d)
             [0..<length ds] of
        None \<Rightarrow> None
      | Some i \<Rightarrow> Some (ds ! (i mod 256)))"

section \<open>The endpoints of the Gemini device\<close>

text \<open>Among the vendor interfaces the last bulk endpoint of each direction is taken.\<close>

fun pick_endpoints ::
    "usb_endpoint list \<Rightarrow> usb_endpoint option \<times> usb_endpoint option \<Rightarrow> usb_endpoint option \<times> usb_endpoint option" where
  "pick_endpoints [] acc = acc"
| "pick_endpoints (ep # eps) (ein, eout) =
     pick_endpoints eps
       (if ep_attributes ep AND 3 = SE2_USB_ENDPOINT_BULK
        then if ep_address ep AND 0x80 \<noteq> 0 then (Some ep, eout) else (ein, Some ep)
        else (ein, eout))"

definition gemini_endpoints :: "usb_interface list \<Rightarrow> se_error + usb_endpoint \<times> usb_endpoint" where
  "gemini_endpoints is =
     (case pick_endpoints (concat (map if_endpoints
             (filter (\<lambda>i. alt_class (if_desc i) = SE2_USB_CLASS_VENDOR_SPECIFIC) is))) (None, None) of
        (Some ein, Some eout) \<Rightarrow> Inr (ein, eout)
      | _ \<Rightarrow> Inl (Runtime_error ''Missing usb camera endpoint''))"

definition open_gemini ::
    "'s libusb \<Rightarrow> bool \<Rightarrow> usb_interface list option \<Rightarrow> se_error + 's gemini" where
  "open_gemini lu opened dev =
     (case dev of
        None \<Rightarrow> Inl (Undefined ''null USB device'')
      | Some is \<Rightarrow>
          if \<not> opened then Inl (Runtime_error ''Unable to open device interface'')
          else bind_result (gemini_endpoints is)
                 (\<lambda>(ein, eout). Inr \<lparr>messenger = lu, endpoint_bulk_in = ein, endpoint_bulk_out = eout\<rparr>))"

section \<open>UsbCommandTransfer\<close>

definition DEFAULT_BUFFER_SIZE :: nat where "DEFAULT_BUFFER_SIZE = 1024"

text \<open>\<open>sendReceive\<close>; the last argument of the code is not used.  \<open>opened\<close> says whether \<open>open\<close> gave a messenger.\<close>

definition sendReceive ::
    "'s libusb \<Rightarrow> bool \<Rightarrow> usb_interface list \<Rightarrow> u8 list \<Rightarrow> u32 \<Rightarrow> 's \<Rightarrow> se_error + u8 list \<times> 's" where
  "sendReceive lu opened is data timeout_ms s =
     (case List.find (\<lambda>i. alt_class (if_desc i) = SE2_USB_CLASS_VENDOR_SPECIFIC) is of
        None \<Rightarrow> Inl (Runtime_error ''can't find VENDOR_SPECIFIC interface of device'')
      | Some hwm \<Rightarrow>
          if \<not> opened then Inl (Runtime_error ''access failed'')
          else case (firstEndpoint SE2_USB_ENDPOINT_DIRECTION_WRITE SE2_USB_ENDPOINT_BULK hwm,
                     firstEndpoint SE2_USB_ENDPOINT_DIRECTION_READ SE2_USB_ENDPOINT_BULK hwm) of
            (Some eout, ein_opt) \<Rightarrow>
              bind_result (bulk_transfer lu eout 0 data (of_nat (length data)) 0 timeout_ms s)
                (\<lambda>(sts, _, n1, s1).
                  if sts \<noteq> 0 then Inl (Runtime_error ''command transfer failed'')
                  else case ein_opt of
                    None \<Rightarrow> Inl (Undefined ''null endpoint'')
                  | Some ein \<Rightarrow>
                      bind_result (bulk_transfer lu ein 0 (replicate DEFAULT_BUFFER_SIZE 0)
                                     (of_nat DEFAULT_BUFFER_SIZE) n1 timeout_ms s1)
                        (\<lambda>(sts, out, n, s2).
                          if sts \<noteq> 0 then Inl (Runtime_error ''command transfer failed'')
                          else Inr (take (unat n) (out @ replicate (unat n - length out) 0), s2)))
          | (None, _) \<Rightarrow> Inl (Undefined ''null endpoint''))"

section \<open>The event thread of the context\<close>

text \<open>
  \<open>UsbContext\<close> runs one event thread for all open handles.  The thread's lambda loops
  \<open>while (kill_hendler_thread_num_ != 0)\<close>; where it is: not started, about to test the
  condition, inside \<open>libusb_handle_events_completed\<close>, or ended.
\<close>

datatype event_pc = Ev_none | Ev_test | Ev_serve | Ev_done

record usb_ctx =
  handler_requests :: int
  kill_num :: int
  event_pc :: event_pc

definition new_ctx :: usb_ctx where
  "new_ctx = \<lparr>handler_requests = 0, kill_num = 0, event_pc = Ev_none\<rparr>"

text \<open>A start that has to join a thread that still runs blocks: \<open>None\<close>.\<close>

definition startEventHandler :: "usb_ctx \<Rightarrow> usb_ctx option" where
  "startEventHandler c =
     (if handler_requests c = 0
      then (case event_pc c of
              Ev_none \<Rightarrow> Some (c\<lparr>event_pc := Ev_test, handler_requests := 1\<rparr>)
            | Ev_done \<Rightarrow> Some (c\<lparr>kill_num := 0, event_pc := Ev_test, handler_requests := 1\<rparr>)
            | _ \<Rightarrow> None)
      else Some (c\<lparr>handler_requests := handler_requests c + 1\<rparr>))"

definition stopEventHandler :: "usb_ctx \<Rightarrow> usb_ctx" where
  "stopEventHandler c =
     (let c1 = c\<lparr>handler_requests := handler_requests c - 1\<rparr>
      in if handler_requests c1 = 0 then c1\<lparr>kill_num := 1\<rparr> else c1)"

fun event_thread_step :: "usb_ctx \<Rightarrow> usb_ctx" where
  "event_thread_step c =
     (case event_pc c of
        Ev_test \<Rightarrow> c\<lparr>event_pc := (if kill_num c \<noteq> 0 then Ev_serve else Ev_done)\<rparr>
      | Ev_serve \<Rightarrow> c\<lparr>event_pc := Ev_test\<rparr>
      | _ \<Rightarrow> c)"

text \<open>Handles start once when they are opened and stop once when they are closed.\<close>

inductive ctx_step :: "usb_ctx \<Rightarrow> usb_ctx \<Rightarrow> bool" where
  ctx_start: "startEventHandler c = Some c' \<Longrightarrow> ctx_step c c'"
| ctx_stop: "0 < handler_requests c \<Longrightarrow> ctx_step c (stopEventHandler c)"
| ctx_thread: "ctx_step c (event_thread_step c)"

inductive_cases ctx_stepE: "ctx_step c c'"

definition ctx_inv :: "usb_ctx \<Rightarrow> bool" where
  "ctx_inv c \<longleftrightarrow> 0 \<le> handler_requests c
     \<and> (0 < handler_requests c \<longrightarrow> kill_num c = 0 \<and> event_pc c \<noteq> Ev_serve \<and> event_pc c \<noteq> Ev_none)
     \<and> (kill_num c \<noteq> 0 \<longrightarrow> event_pc c \<noteq> Ev_none)"

lemma ctx_inv_new: "ctx_inv new_ctx"
  by (simp add: ctx_inv_def new_ctx_def)

lemma ctx_inv_step: "ctx_step c c' \<Longrightarrow> ctx_inv c \<Longrightarrow> ctx_inv c'"
  by (erule ctx_stepE)
    (auto simp: ctx_inv_def startEventHandler_def stopEventHandler_def Let_def
      split: if_splits event_pc.splits)

lemma ctx_inv_reach: "ctx_step\<^sup>*\<^sup>* c c' \<Longrightarrow> ctx_inv c \<Longrightarrow> ctx_inv c'"
  by (induction rule: rtranclp_induct) (auto intro: ctx_inv_step)

text \<open>A thread that finds the kill flag set before its first test never ends.\<close>

definition ctx_trapped :: "usb_ctx \<Rightarrow> bool" where
  "ctx_trapped c \<longleftrightarrow> handler_requests c = 0 \<and> kill_num c \<noteq> 0 \<and> (event_pc c = Ev_test \<or> event_pc c = Ev_serve)"

lemma ctx_trapped_step: "ctx_step c c' \<Longrightarrow> ctx_trapped c \<Longrightarrow> ctx_trapped c'"
  by (erule ctx_stepE)
    (auto simp: ctx_trapped_def startEventHandler_def split: if_splits event_pc.splits)

lemma ctx_trapped_reach: "ctx_step\<^sup>*\<^sup>* c c' \<Longrightarrow> ctx_trapped c \<Longrightarrow> ctx_trapped c'"
  by (induction rule: rtranclp_induct) (auto intro: ctx_trapped_step)

text \<open>The event thread does not serve: whenever a handle is open, the thread is not in the
  event loop and will not get there before the handle is closed, because the loop runs while
  the kill flag is set instead of while it is clear.\<close>

theorem event_thread_never_serves:
  assumes "ctx_step\<^sup>*\<^sup>* new_ctx c" and "0 < handler_requests c"
  shows "event_pc c \<noteq> Ev_serve \<and> event_pc (event_thread_step c) \<noteq> Ev_serve"
  using ctx_inv_reach [OF assms(1) ctx_inv_new] assms(2)
  by (cases "event_pc c") (auto simp: ctx_inv_def)

theorem event_thread_never_serves_witness:
  "event_pc \<lparr>handler_requests = 1, kill_num = 0, event_pc = Ev_test\<rparr> \<noteq> Ev_serve
   \<and> event_pc (event_thread_step \<lparr>handler_requests = 1, kill_num = 0, event_pc = Ev_test\<rparr>) \<noteq> Ev_serve"
proof (rule event_thread_never_serves)
  have "startEventHandler new_ctx = Some \<lparr>handler_requests = 1, kill_num = 0, event_pc = Ev_test\<rparr>"
    by (simp add: startEventHandler_def new_ctx_def)
  then show "ctx_step\<^sup>*\<^sup>* new_ctx \<lparr>handler_requests = 1, kill_num = 0, event_pc = Ev_test\<rparr>"
    by (blast intro: ctx_start r_into_rtranclp)
qed simp

text \<open>If the last handle is closed before the event thread has made its first test, the thread
  loops for ever, and no handle can be opened again: every later start blocks in the join.\<close>

theorem event_thread_trap:
  assumes "event_pc c = Ev_test" "handler_requests c = 1" and "ctx_step\<^sup>*\<^sup>* (stopEventHandler c) c'"
  shows "startEventHandler c' = None \<and> event_pc c' \<noteq> Ev_done"
proof -
  have "ctx_trapped (stopEventHandler c)"
    using assms(1,2) by (simp add: ctx_trapped_def stopEventHandler_def)
  from ctx_trapped_reach [OF assms(3) this] show ?thesis
    by (auto simp: ctx_trapped_def startEventHandler_def)
qed

theorem event_thread_trap_witness:
  "startEventHandler (stopEventHandler \<lparr>handler_requests = 1, kill_num = 0, event_pc = Ev_test\<rparr>) = None
   \<and> event_pc (stopEventHandler \<lparr>handler_requests = 1, kill_num = 0, event_pc = Ev_test\<rparr>) \<noteq> Ev_done"
  by (rule event_thread_trap [of "\<lparr>handler_requests = 1, kill_num = 0, event_pc = Ev_test\<rparr>"]) simp_all

section \<open>Properties of the enumeration and of handles\<close>

lemma query_from_ok:
  assumes "length ds < 256" "unat idx \<le> length ds"
  shows "query_from ds idx rv
    = Some (rv @ concat (map getSubdevices (filter lu_readable (drop (unat idx) ds))))"
  using assms(2)
proof (induction "length ds - unat idx" arbitrary: idx rv rule: less_induct)
  case less
  show ?case
  proof (cases "unat idx < length ds")
    case False
    with less.prems show ?thesis by (subst query_from.simps) simp
  next
    case True
    then have u: "unat (idx + 1) = Suc (unat idx)"
      using assms(1) by (simp add: unat_word_ariths)
    have d: "drop (unat idx) ds = ds ! unat idx # drop (Suc (unat idx)) ds"
      using True by (simp add: Cons_nth_drop_Suc)
    from True show ?thesis
      by (subst query_from.simps) (use u d in \<open>simp add: less.hyps\<close>)
  qed
qed

lemma u8_less_256: "unat (w :: u8) < 256"
  using unsigned_less [of w] by simp

lemma query_from_endless:
  assumes "256 \<le> length ds" and "query_from ds idx rv = Some y"
  shows False
proof -
  have "256 \<le> length ds \<longrightarrow> False"
    by (rule query_from.raw_induct [where P = "\<lambda>ds idx rv y. 256 \<le> length ds \<longrightarrow> False", OF _ assms(2)])
      (auto split: if_splits dest: less_le_trans [OF u8_less_256])
  with assms(1) show False by simp
qed

text \<open>\<open>queryDevicesInfo\<close> lists the sub-devices of all readable devices in order, when libusb
  knows fewer than 256 devices; with 256 or more its byte counter never reaches the count and
  the loop does not end.\<close>

theorem query_lists_all:
  "queryDevicesInfo ds =
     (if length ds < 256 then Some (concat (map getSubdevices (filter lu_readable ds))) else None)"
proof (cases "length ds < 256")
  case True
  then show ?thesis using query_from_ok [of ds 0 "[]"] by (simp add: queryDevicesInfo_def)
next
  case False
  then have "query_from ds 0 [] = None"
    using query_from_endless [of ds 0 "[]"] by (cases "query_from ds 0 []") auto
  with False show ?thesis by (simp add: queryDevicesInfo_def)
qed

lemma claim_all_claims:
  "claim_all cs is os = (ok, os') \<Longrightarrow>
     \<exists>ys zs. is = ys @ zs \<and> os' = os\<lparr>os_claimed := os_claimed os @ ys\<rparr>
       \<and> (\<forall>i\<in>set ys. cs i = 0) \<and> ok = (zs = []) \<and> (zs \<noteq> [] \<longrightarrow> cs (hd zs) \<noteq> 0)"
proof (induction "is" arbitrary: os)
  case Nil
  then show ?case by simp
next
  case (Cons i "is")
  show ?case
  proof (cases "cs i = 0")
    case False
    with Cons.prems show ?thesis
      by (intro exI [of _ "[]"] exI [of _ "i # is"])
        (simp add: claim_interface_def SE2_USB_STATUS_SUCCESS_def)
  next
    case True
    with Cons.prems have "claim_all cs is (os\<lparr>os_claimed := os_claimed os @ [i]\<rparr>) = (ok, os')"
      by (simp add: claim_interface_def SE2_USB_STATUS_SUCCESS_def)
    from Cons.IH [OF this] obtain ys zs where "is = ys @ zs"
      "os' = os\<lparr>os_claimed := os_claimed os @ [i]\<rparr>\<lparr>os_claimed := os_claimed (os\<lparr>os_claimed := os_claimed os @ [i]\<rparr>) @ ys\<rparr>"
      "\<forall>i\<in>set ys. cs i = 0" "ok = (zs = [])" "zs \<noteq> [] \<longrightarrow> cs (hd zs) \<noteq> 0" by blast
    with True show ?thesis by (intro exI [of _ "i # ys"] exI [of _ zs]) simp
  qed
qed

text \<open>A handle that fails to claim an interface is not cleaned up: the constructor throws, and
  the device stays open with the interfaces claimed before the failing one.\<close>

theorem handle_claim_failure_leaks:
  assumes "handle_open 0 cs first assoc os = (Inl e, os')"
  shows "os_open os' = os_open os + 1 \<and> os_requests os' = os_requests os
    \<and> (\<exists>ys z zs. first # assoc = ys @ z # zs \<and> cs z \<noteq> 0 \<and> (\<forall>i\<in>set ys. cs i = 0)
         \<and> os_claimed os' = os_claimed os @ ys)"
proof -
  let ?o = "os\<lparr>os_open := os_open os + 1\<rparr>"
  from assms have "claim_all cs (first # assoc) ?o = (False, os')"
    by (auto simp: handle_open_def split: prod.splits bool.splits)
  from claim_all_claims [OF this] obtain ys zs where y: "first # assoc = ys @ zs"
    "os' = ?o\<lparr>os_claimed := os_claimed ?o @ ys\<rparr>" "\<forall>i\<in>set ys. cs i = 0" "zs \<noteq> []" "cs (hd zs) \<noteq> 0" by auto
  then have "first # assoc = ys @ hd zs # tl zs" by simp
  with y(2-5) show ?thesis by fastforce
qed

definition idle_os :: usb_os where
  "idle_os = \<lparr>os_open = 0, os_claimed = [], os_requests = 0\<rparr>"

theorem handle_claim_failure_leaks_witness:
  "os_open (\<lparr>os_open = 1, os_claimed = [0], os_requests = 0\<rparr>) = os_open idle_os + 1
    \<and> os_requests (\<lparr>os_open = 1, os_claimed = [0], os_requests = 0\<rparr>) = os_requests idle_os
    \<and> (\<exists>ys z zs. [0, 1 :: u8] = ys @ z # zs \<and> (if z = 1 then (-6 :: int) else 0) \<noteq> 0
         \<and> (\<forall>i\<in>set ys. (if i = 1 then (-6 :: int) else 0) = 0)
         \<and> os_claimed (\<lparr>os_open = 1, os_claimed = [0], os_requests = 0\<rparr>) = os_claimed idle_os @ ys)"
  by (rule handle_claim_failure_leaks [where cs = "\<lambda>i. if i = 1 then -6 else 0" and e = "Runtime_error ''Unable to claim interface''"])
    (simp add: handle_open_def claim_interface_def SE2_USB_STATUS_SUCCESS_def idle_os_def)

lemma pick_endpoints_from:
  assumes "pick_endpoints eps (a, b) = (ein, eout)"
  shows "(ein = a \<or> (\<exists>ep\<in>set eps. ein = Some ep \<and> ep_attributes ep AND 3 = SE2_USB_ENDPOINT_BULK \<and> ep_address ep AND 0x80 \<noteq> 0))
    \<and> (eout = b \<or> (\<exists>ep\<in>set eps. eout = Some ep \<and> ep_attributes ep AND 3 = SE2_USB_ENDPOINT_BULK \<and> ep_address ep AND 0x80 = 0))"
  using assms
proof (induction eps arbitrary: a b)
  case Nil
  then show ?case by simp
next
  case (Cons ep eps)
  then show ?case by (auto split: if_splits dest: Cons.IH)
qed

text \<open>The Gemini device works on bulk endpoints of its vendor interfaces, one of each
  direction.\<close>

theorem gemini_endpoints_are_bulk:
  assumes "gemini_endpoints is = Inr (ein, eout)"
  shows "(\<exists>i\<in>set is. alt_class (if_desc i) = SE2_USB_CLASS_VENDOR_SPECIFIC \<and> ein \<in> set (if_endpoints i))
    \<and> (\<exists>i\<in>set is. alt_class (if_desc i) = SE2_USB_CLASS_VENDOR_SPECIFIC \<and> eout \<in> set (if_endpoints i))
    \<and> ep_attributes ein AND 3 = SE2_USB_ENDPOINT_BULK \<and> ep_attributes eout AND 3 = SE2_USB_ENDPOINT_BULK
    \<and> ep_address ein AND 0x80 \<noteq> 0 \<and> ep_address eout AND 0x80 = 0"
proof -
  let ?eps = "concat (map if_endpoints (filter (\<lambda>i. alt_class (if_desc i) = SE2_USB_CLASS_VENDOR_SPECIFIC) is))"
  from assms have "pick_endpoints ?eps (None, None) = (Some ein, Some eout)"
    by (auto simp: gemini_endpoints_def split: prod.splits option.splits)
  from pick_endpoints_from [OF this] show ?thesis by auto
qed

theorem gemini_endpoints_are_bulk_witness:
  "\<exists>is ein eout. gemini_endpoints is = Inr (ein, eout) \<and> ep_address ein AND 0x80 \<noteq> 0 \<and> ep_address eout AND 0x80 = 0"
proof -
  define d where "d = \<lparr>alt_length = 9, alt_type = 4, alt_number = 0, alt_class = 0xFF, alt_subclass = 0,
     alt_endpoints = [(0x81, 2), (1, 2)], alt_extra = []\<rparr>"
  have "gemini_endpoints [new_interface d] = Inr (\<lparr>ep_address = 0x81, ep_attributes = 2, ep_interface = 0\<rparr>,
      \<lparr>ep_address = 1, ep_attributes = 2, ep_interface = 0\<rparr>)"
    by (simp add: gemini_endpoints_def new_interface_def d_def SE2_USB_CLASS_VENDOR_SPECIFIC_def
        SE2_USB_ENDPOINT_BULK_def)
  with gemini_endpoints_are_bulk [OF this] show ?thesis by blast
qed

end
