(* ===== verification/Serial_Tlv.thy ===== *)
theory Serial_Tlv
  imports Prelude
begin

text \<open>
  The byte protocol of the Gemini serial port (\<open>src/gemini/tlv_data.h\<close>, the send buffer and
  the receive loop of \<open>gemini_serial_port.cc\<close>).  A message is a type, a length and that many
  bytes.  The receive loop reads heads and payloads from a serial port that may return fewer
  bytes than asked for; the port is a parameter \<open>rd\<close> of the loop: \<open>rd n s\<close> is one
  \<open>serial_->read(buf, n)\<close>, \<open>None\<close> when it throws.
\<close>

section \<open>Constants and messages\<close>

definition kSerialConnectionToken :: u32 where "kSerialConnectionToken = 0xAA5555AA"
definition kMinValidTypeValue :: u32 where "kMinValidTypeValue = 50000"
definition kMaxValidTypeValue :: u32 where "kMaxValidTypeValue = 60000"
definition kMaxTlvDataLength :: u32 where "kMaxTlvDataLength = 4096 * 1024"

definition SerialConnection_None :: u32 where "SerialConnection_None = 50000"
definition SerialConnection_Sync :: u32 where "SerialConnection_Sync = 50001"
definition SerialConnection_Heartbeat :: u32 where "SerialConnection_Heartbeat = 50002"
definition SerialConnection_Disconnect :: u32 where "SerialConnection_Disconnect = 50003"
definition SerialConnection_Ack :: u32 where "SerialConnection_Ack = 50004"

definition SerialCommand_None :: u32 where "SerialCommand_None = 50008"
definition SerialCommand_RequirePerception :: u32 where "SerialCommand_RequirePerception = 50009"
definition SerialCommand_RequireUserFiles :: u32 where "SerialCommand_RequireUserFiles = 50010"
definition SerialCommand_RequireIntrinsics :: u32 where "SerialCommand_RequireIntrinsics = 50011"
definition SerialCommand_RespondIntrinsics :: u32 where "SerialCommand_RespondIntrinsics = 50012"
definition SerialCommand_RequireExtrinsics :: u32 where "SerialCommand_RequireExtrinsics = 50013"
definition SerialCommand_RespondExtrinsics :: u32 where "SerialCommand_RespondExtrinsics = 50014"
definition SerialCommand_SyncTimestamp :: u32 where "SerialCommand_SyncTimestamp = 50015"

definition SerialDataUnit_None :: u32 where "SerialDataUnit_None = 50072"
definition SerialDataUnit_FileHeader :: u32 where "SerialDataUnit_FileHeader = 50073"
definition SerialDataUnit_FileTail :: u32 where "SerialDataUnit_FileTail = 50074"
definition SerialDataUnit_FileData :: u32 where "SerialDataUnit_FileData = 50075"
definition SerialDataUnit_FileResp :: u32 where "SerialDataUnit_FileResp = 50076"
definition SerialDataUnit_Speed :: u32 where "SerialDataUnit_Speed = 50077"
definition SerialDataUnit_J2Perception :: u32 where "SerialDataUnit_J2Perception = 50078"
definition SerialDataUnit_Obstacle :: u32 where "SerialDataUnit_Obstacle = 50079"
definition SerialDataUnit_Lane :: u32 where "SerialDataUnit_Lane = 50080"
definition SerialDataUnit_AlgorithmResult :: u32 where "SerialDataUnit_AlgorithmResult = 50081"
definition SerialDataUnit_FreeSpace :: u32 where "SerialDataUnit_FreeSpace = 50082"
definition SerialDataUnit_TrafficSign :: u32 where "SerialDataUnit_TrafficSign = 50083"
definition SerialDataUnit_TrafficLight :: u32 where "SerialDataUnit_TrafficLight = 50084"
definition SerialDataUnit_VehicleRealTimeInfo :: u32 where "SerialDataUnit_VehicleRealTimeInfo = 50085"
definition SerialDataUnit_Matrix :: u32 where "SerialDataUnit_Matrix = 50086"

lemmas serial_types =
  SerialConnection_None_def SerialConnection_Sync_def SerialConnection_Heartbeat_def
  SerialConnection_Disconnect_def SerialConnection_Ack_def SerialCommand_None_def
  SerialCommand_RequirePerception_def SerialCommand_RequireUserFiles_def
  SerialCommand_RequireIntrinsics_def SerialCommand_RespondIntrinsics_def
  SerialCommand_RequireExtrinsics_def SerialCommand_RespondExtrinsics_def
  SerialCommand_SyncTimestamp_def SerialDataUnit_None_def SerialDataUnit_FileHeader_def
  SerialDataUnit_FileTail_def SerialDataUnit_FileData_def SerialDataUnit_FileResp_def
  SerialDataUnit_Speed_def SerialDataUnit_J2Perception_def SerialDataUnit_Obstacle_def
  SerialDataUnit_Lane_def SerialDataUnit_AlgorithmResult_def SerialDataUnit_FreeSpace_def
  SerialDataUnit_TrafficSign_def SerialDataUnit_TrafficLight_def
  SerialDataUnit_VehicleRealTimeInfo_def SerialDataUnit_Matrix_def

type_synonym tlv = "u32 \<times> u8 list"

text \<open>The buffer \<open>send()\<close> writes: a packed \<open>TLVStruct\<close>, then the data.\<close>

definition tlv_encode :: "tlv \<Rightarrow> u8 list" where
  "tlv_encode m = u32_bytes (fst m) @ u32_bytes (of_nat (length (snd m))) @ snd m"

definition check_head_valid :: "u32 \<Rightarrow> u32 \<Rightarrow> bool" where
  "check_head_valid ty len =
     (\<not> (ty < kMinValidTypeValue \<or> kMaxValidTypeValue < ty \<or> kMaxTlvDataLength < len))"

definition tlv_ok :: "tlv \<Rightarrow> bool" where
  "tlv_ok m \<longleftrightarrow> check_head_valid (fst m) (of_nat (length (snd m)))
     \<and> length (snd m) \<le> unat kMaxTlvDataLength"

text \<open>What a message on the front of a byte stream means.\<close>

definition tlv_decode :: "u8 list \<Rightarrow> (tlv \<times> u8 list) option" where
  "tlv_decode bs =
     (let ty = u32_of (take 4 bs); len = u32_of (take 4 (drop 4 bs))
      in if length bs < 8 + unat len \<or> \<not> check_head_valid ty len then None
         else Some ((ty, take (unat len) (drop 8 bs)), drop (8 + unat len) bs))"

lemma tlv_len: "tlv_ok m \<Longrightarrow> unat (of_nat (length (snd m)) :: u32) = length (snd m)"
  by (simp add: tlv_ok_def kMaxTlvDataLength_def unat_of_nat take_bit_nat_eq_self)

lemma tlv_head:
  "take 4 (tlv_encode m @ rest) = u32_bytes (fst m)"
  "take 4 (drop 4 (tlv_encode m @ rest)) = u32_bytes (of_nat (length (snd m)))"
  "drop 8 (tlv_encode m @ rest) = snd m @ rest"
  "take 8 (tlv_encode m @ rest) = u32_bytes (fst m) @ u32_bytes (of_nat (length (snd m)))"
  "length (tlv_encode m) = 8 + length (snd m)"
  by (simp_all add: tlv_encode_def)

interpretation tlv: stream_codec tlv_encode tlv_decode tlv_ok
proof unfold_locales
  fix m :: tlv and rest
  assume m: "tlv_ok m"
  show "tlv_decode (tlv_encode m @ rest) = Some (m, rest)"
    using m tlv_len [OF m] unfolding tlv_decode_def Let_def tlv_head
    by (simp add: tlv_head tlv_ok_def tlv_encode_def)
  show "tlv_encode m \<noteq> []" using tlv_head(5) [of m] by (metis add_is_0 list.size(3) zero_neq_numeral)
qed

section \<open>The receive loop\<close>

record receiver =
  is_head_found :: bool
  rx_type :: u32
  rx_length :: u32
  recv_buffer :: "u8 list"
  pack_read :: nat
  pack_lack :: nat

definition new_receiver :: receiver where
  "new_receiver = \<lparr>is_head_found = False, rx_type = 0, rx_length = 0, recv_buffer = [],
     pack_read = 0, pack_lack = 0\<rparr>"

text \<open>What an iteration ends with: a throw, a short head, a bad head, an incomplete payload, or
  a packet, with the buffer the handlers get a pointer to.\<close>

datatype rx_event = Rx_exception | Rx_timeout | Rx_bad_head | Rx_partial | Rx_packet u32 "u8 list" u32

definition grow :: "nat \<Rightarrow> u8 list \<Rightarrow> u8 list" where
  "grow n buf = (if length buf < n then buf @ replicate (n - length buf) 0 else buf)"

definition rx_finish :: "receiver \<Rightarrow> receiver \<times> rx_event" where
  "rx_finish r =
     (if 0 < pack_lack r then (r, Rx_partial)
      else (r\<lparr>pack_read := 0, is_head_found := False\<rparr>,
            Rx_packet (rx_type r) (recv_buffer r) (rx_length r)))"

definition rx_payload ::
    "(nat \<Rightarrow> 's \<Rightarrow> u8 list option \<times> 's) \<Rightarrow> 's \<Rightarrow> receiver \<Rightarrow> receiver \<times> 's \<times> rx_event" where
  "rx_payload rd s r0 =
     (let r = r0\<lparr>recv_buffer := grow (unat (rx_length r0)) (recv_buffer r0)\<rparr>
      in if 0 < pack_lack r
         then (case rd (pack_lack r) s of
                 (None, s') \<Rightarrow> (r, s', Rx_exception)
               | (Some bs, s') \<Rightarrow>
                   (case rx_finish (r\<lparr>recv_buffer := write_at (pack_read r) bs (recv_buffer r),
                                      pack_read := pack_read r + length bs,
                                      pack_lack := pack_lack r - length bs\<rparr>) of
                      (r', ev) \<Rightarrow> (r', s', ev)))
         else (case rd (unat (rx_length r)) s of
                 (None, s') \<Rightarrow> (r, s', Rx_exception)
               | (Some bs, s') \<Rightarrow>
                   (let r1 = r\<lparr>recv_buffer := write_at 0 bs (recv_buffer r)\<rparr>
                    in case rx_finish (if length bs < unat (rx_length r)
                                       then r1\<lparr>pack_read := length bs, pack_lack := unat (rx_length r) - length bs\<rparr>
                                       else r1) of
                         (r', ev) \<Rightarrow> (r', s', ev))))"

definition rx_iter ::
    "(nat \<Rightarrow> 's \<Rightarrow> u8 list option \<times> 's) \<Rightarrow> 's \<Rightarrow> receiver \<Rightarrow> receiver \<times> 's \<times> rx_event" where
  "rx_iter rd s r =
     (if is_head_found r then rx_payload rd s r
      else case rd 8 s of
             (None, s') \<Rightarrow> (r, s', Rx_exception)
           | (Some bs, s') \<Rightarrow>
               if length bs \<noteq> 8 then (r, s', Rx_timeout)
               else (let r1 = r\<lparr>rx_type := u32_of (take 4 bs), rx_length := u32_of (drop 4 bs)\<rparr>
                     in if check_head_valid (rx_type r1) (rx_length r1)
                        then rx_payload rd s' (r1\<lparr>is_head_found := True\<rparr>)
                        else (r1, s', Rx_bad_head)))"

text \<open>The watchdog's operation resets the framing between two iterations.\<close>

definition rx_reset :: "receiver \<Rightarrow> receiver" where
  "rx_reset r = r\<lparr>is_head_found := False, pack_read := 0, pack_lack := 0\<rparr>"

fun packets_of :: "rx_event \<Rightarrow> tlv list" where
  "packets_of (Rx_packet ty buf len) = [(ty, take (unat len) buf)]"
| "packets_of _ = []"

fun rx_run ::
    "(nat \<Rightarrow> 's \<Rightarrow> u8 list option \<times> 's) \<Rightarrow> nat \<Rightarrow> 's \<Rightarrow> receiver \<Rightarrow> receiver \<times> 's \<times> tlv list" where
  "rx_run rd 0 s r = (r, s, [])"
| "rx_run rd (Suc n) s r =
     (case rx_iter rd s r of
        (r1, s1, ev) \<Rightarrow> (case rx_run rd n s1 r1 of (r2, s2, ps) \<Rightarrow> (r2, s2, packets_of ev @ ps)))"

lemma rx_run_add:
  "rx_run rd (m + n) s r =
     (case rx_run rd m s r of (r1, s1, ps1) \<Rightarrow>
        (case rx_run rd n s1 r1 of (r2, s2, ps2) \<Rightarrow> (r2, s2, ps1 @ ps2)))"
  by (induction m arbitrary: s r) (simp_all split: prod.splits)

section \<open>A port that delivers a byte stream in chunks\<close>

text \<open>The \<open>i\<close>-th read returns at most \<open>f i\<close> bytes of what is left of the stream.\<close>

definition chunk_read :: "(nat \<Rightarrow> nat) \<Rightarrow> nat \<Rightarrow> nat \<times> u8 list \<Rightarrow> u8 list option \<times> nat \<times> u8 list" where
  "chunk_read f n s =
     (let m = min n (f (fst s)) in (Some (take m (snd s)), Suc (fst s), drop m (snd s)))"

definition rx_idle :: "receiver \<Rightarrow> bool" where
  "rx_idle r \<longleftrightarrow> \<not> is_head_found r \<and> pack_read r = 0 \<and> pack_lack r = 0"

lemma rx_idle_new [simp]: "rx_idle new_receiver"
  by (simp add: rx_idle_def new_receiver_def)

lemma length_grow [simp]: "length (grow n buf) = max n (length buf)"
  by (simp add: grow_def)

text \<open>An idle receiver on an empty stream stays idle.\<close>

lemma rx_run_empty:
  "rx_idle r \<Longrightarrow> \<exists>r' j. rx_run (chunk_read f) n (i, []) r = (r', (j, []), []) \<and> rx_idle r'"
proof (induction n arbitrary: i r)
  case 0
  then show ?case by simp
next
  case (Suc n)
  have "rx_iter (chunk_read f) (i, []) r = (r, (Suc i, []), Rx_timeout)"
    using Suc.prems by (simp add: rx_iter_def rx_idle_def chunk_read_def Let_def)
  with Suc.IH [OF Suc.prems, of "Suc i"] show ?case by auto
qed

text \<open>
  While a payload is incomplete the buffer holds its first \<open>pack_read\<close> bytes and the stream
  starts with the others.
\<close>

definition rx_midway :: "tlv \<Rightarrow> receiver \<Rightarrow> bool" where
  "rx_midway m r \<longleftrightarrow> is_head_found r \<and> rx_type r = fst m \<and> unat (rx_length r) = length (snd m)
     \<and> 0 < pack_lack r \<and> pack_read r + pack_lack r = length (snd m)
     \<and> length (snd m) \<le> length (recv_buffer r)
     \<and> take (pack_read r) (recv_buffer r) = take (pack_read r) (snd m)"

lemma rx_midway_step:
  assumes mid: "rx_midway m r" and f: "0 < f i"
  shows "\<exists>r' ev n. rx_iter (chunk_read f) (i, drop (pack_read r) (snd m) @ rest) r
      = (r', (Suc i, drop n (snd m) @ rest), ev)
    \<and> (rx_midway m r' \<and> pack_read r' = n \<and> packets_of ev = [] \<and> pack_lack r' < pack_lack r
       \<or> rx_idle r' \<and> n = length (snd m) \<and> packets_of ev = [m])"
proof -
  let ?d = "snd m" and ?k = "min (pack_lack r) (f i)"
  let ?bs = "take ?k (drop (pack_read r) ?d)"
  let ?buf = "write_at (pack_read r) ?bs (recv_buffer r)"
  have k: "0 < ?k" "?k \<le> length ?d - pack_read r" "pack_read r + ?k \<le> length ?d"
    and pr: "pack_read r < length ?d"
    using mid f by (auto simp: rx_midway_def)
  have bs: "length ?bs = ?k" using k(2) by simp
  have g: "grow (unat (rx_length r)) (recv_buffer r) = recv_buffer r"
    using mid by (simp add: grow_def rx_midway_def)
  have rd: "chunk_read f (pack_lack r) (i, drop (pack_read r) ?d @ rest)
      = (Some ?bs, (Suc i, drop (pack_read r + ?k) ?d @ rest))"
    using k by (simp add: chunk_read_def Let_def add.commute)
  have "take (pack_read r + ?k) ?buf = take (pack_read r) (recv_buffer r) @ ?bs"
    using take_write_at [of "pack_read r" "recv_buffer r" ?bs] mid pr bs
    by (simp add: rx_midway_def)
  also have "\<dots> = take (pack_read r + ?k) ?d"
    using mid by (simp add: rx_midway_def take_add)
  finally have buf: "take (pack_read r + ?k) ?buf = take (pack_read r + ?k) ?d" .
  have lbuf: "length ?buf = length (recv_buffer r)"
    using mid k bs by (intro length_write_at) (simp add: rx_midway_def)
  let ?r = "r\<lparr>recv_buffer := ?buf, pack_read := pack_read r + ?k, pack_lack := pack_lack r - ?k\<rparr>"
  have it: "rx_iter (chunk_read f) (i, drop (pack_read r) ?d @ rest) r
      = (case rx_finish ?r of (r', ev) \<Rightarrow> (r', (Suc i, drop (pack_read r + ?k) ?d @ rest), ev))"
    using mid bs unfolding rx_iter_def rx_payload_def Let_def g
    by (simp add: rx_midway_def rd)
  show ?thesis
  proof (cases "pack_lack r - ?k = 0")
    case True
    then have n: "pack_read r + ?k = length ?d" using mid by (auto simp: rx_midway_def)
    have "take (length ?d) ?buf = ?d" using buf unfolding n by simp
    then show ?thesis
      using it True n mid
      by (intro exI [of _ "?r\<lparr>pack_read := 0, is_head_found := False\<rparr>"] exI [of _ "length ?d"])
        (auto simp: rx_finish_def rx_idle_def rx_midway_def)
  next
    case False
    then have "rx_midway m ?r"
      using mid buf lbuf k by (auto simp: rx_midway_def)
    then show ?thesis
      using it False k(1)
      by (intro exI [of _ ?r] exI [of _ "pack_read r + ?k"]) (auto simp: rx_finish_def)
  qed
qed

lemma rx_midway_run:
  assumes f: "\<And>i. 0 < f i"
  shows "rx_midway m r \<Longrightarrow>
    \<exists>k\<le>pack_lack r. \<exists>r' j. rx_run (chunk_read f) k (i, drop (pack_read r) (snd m) @ rest) r
      = (r', (j, rest), [m]) \<and> rx_idle r'"
proof (induction "pack_lack r" arbitrary: r i rule: less_induct)
  case less
  from rx_midway_step [where f = f and i = i and rest = rest, OF less.prems f] obtain r' ev n where
    it: "rx_iter (chunk_read f) (i, drop (pack_read r) (snd m) @ rest) r
      = (r', (Suc i, drop n (snd m) @ rest), ev)"
    and c: "rx_midway m r' \<and> pack_read r' = n \<and> packets_of ev = [] \<and> pack_lack r' < pack_lack r
       \<or> rx_idle r' \<and> n = length (snd m) \<and> packets_of ev = [m]" by blast
  from c show ?case
  proof
    assume a: "rx_midway m r' \<and> pack_read r' = n \<and> packets_of ev = [] \<and> pack_lack r' < pack_lack r"
    with less.hyps [of r' "Suc i"] obtain k r'' j where
      "k \<le> pack_lack r'" "rx_run (chunk_read f) k (Suc i, drop n (snd m) @ rest) r' = (r'', (j, rest), [m])"
      "rx_idle r''" by auto
    with a it show ?thesis by (intro exI [of _ "Suc k"]) auto
  next
    assume "rx_idle r' \<and> n = length (snd m) \<and> packets_of ev = [m]"
    moreover have "0 < pack_lack r" using less.prems by (simp add: rx_midway_def)
    ultimately show ?thesis using it by (intro exI [of _ "Suc 0"]) auto
  qed
qed

lemma rx_message:
  assumes f: "\<And>i. 8 \<le> f i" and m: "tlv_ok m" and r: "rx_idle r"
  shows "\<exists>k\<le>Suc (length (snd m)). \<exists>r' j. rx_run (chunk_read f) k (i, tlv_encode m @ rest) r
      = (r', (j, rest), [m]) \<and> rx_idle r'"
proof -
  let ?d = "snd m"
  have f0: "0 < f i" for i using f [of i] by simp
  let ?r = "r\<lparr>rx_type := fst m, rx_length := of_nat (length ?d), is_head_found := True,
    recv_buffer := grow (length ?d) (recv_buffer r)\<rparr>"
  let ?k = "min (length ?d) (f (Suc i))"
  let ?buf = "write_at 0 (take ?k ?d) (grow (length ?d) (recv_buffer r))"
  have rd8: "chunk_read f 8 (i, tlv_encode m @ rest)
      = (Some (u32_bytes (fst m) @ u32_bytes (of_nat (length ?d))), (Suc i, ?d @ rest))"
    using f [of i] tlv_head(3,4) [of m rest]
    by (simp add: chunk_read_def Let_def min_absorb1 del: take_append drop_append)
  have rd: "chunk_read f (length ?d) (Suc i, ?d @ rest) = (Some (take ?k ?d), (Suc (Suc i), drop ?k ?d @ rest))"
    by (simp add: chunk_read_def Let_def)
  have buf: "take ?k ?buf = take ?k ?d"
    using take_write_at [of 0 "grow (length ?d) (recv_buffer r)" "take ?k ?d"] by simp
  have lbuf: "length ?d \<le> length ?buf"
    by (subst length_write_at) (auto simp: max_def)
  have it: "rx_iter (chunk_read f) (i, tlv_encode m @ rest) r
      = (case rx_finish (if ?k < length ?d then ?r\<lparr>recv_buffer := ?buf, pack_read := ?k, pack_lack := length ?d - ?k\<rparr>
                         else ?r\<lparr>recv_buffer := ?buf\<rparr>) of (r', ev) \<Rightarrow> (r', (Suc (Suc i), drop ?k ?d @ rest), ev))"
    using r m tlv_len [OF m] rd8 rd
    by (simp add: rx_iter_def rx_idle_def rx_payload_def Let_def tlv_ok_def)
  show ?thesis
  proof (cases "?k < length ?d")
    case True
    let ?r2 = "?r\<lparr>recv_buffer := ?buf, pack_read := ?k, pack_lack := length ?d - ?k\<rparr>"
    have mid: "rx_midway m ?r2"
      using True buf lbuf tlv_len [OF m] by (simp add: rx_midway_def)
    from rx_midway_run [where f = f and i = "Suc (Suc i)" and rest = rest, OF f0 mid] obtain k r' j where
      "k \<le> length ?d - ?k" "rx_run (chunk_read f) k (Suc (Suc i), drop ?k ?d @ rest) ?r2 = (r', (j, rest), [m])"
      "rx_idle r'" by auto
    then show ?thesis using it True by (intro exI [of _ "Suc k"]) (auto simp: rx_finish_def)
  next
    case False
    then have k: "?k = length ?d" by simp
    have "take (length ?d) ?buf = ?d" using buf unfolding k by simp
    then show ?thesis
      using it False r tlv_len [OF m] k
      by (intro exI [of _ "Suc 0"]) (auto simp: rx_finish_def rx_idle_def)
  qed
qed

definition rx_iterations :: "tlv list \<Rightarrow> nat" where
  "rx_iterations ms = sum_list (map (\<lambda>m. Suc (length (snd m))) ms)"

lemma rx_messages:
  assumes f: "\<And>i. 8 \<le> f i"
  shows "list_all tlv_ok ms \<Longrightarrow> rx_idle r \<Longrightarrow>
    \<exists>k\<le>rx_iterations ms. \<exists>r' j. rx_run (chunk_read f) k (i, concat (map tlv_encode ms)) r
      = (r', (j, []), ms) \<and> rx_idle r'"
proof (induction ms arbitrary: i r)
  case Nil
  then show ?case by (auto simp: rx_iterations_def)
next
  case (Cons m ms)
  then obtain k r1 j where k: "k \<le> Suc (length (snd m))"
    "rx_run (chunk_read f) k (i, tlv_encode m @ concat (map tlv_encode ms)) r
      = (r1, (j, concat (map tlv_encode ms)), [m])" "rx_idle r1"
    using rx_message [where f = f and m = m and r = r and i = i and rest = "concat (map tlv_encode ms)"] f by auto
  from Cons.IH [OF _ k(3), of j] Cons.prems obtain k' r2 j' where
    k': "k' \<le> rx_iterations ms" "rx_run (chunk_read f) k' (j, concat (map tlv_encode ms)) r1 = (r2, (j', []), ms)"
      "rx_idle r2" by auto
  have "rx_run (chunk_read f) (k + k') (i, concat (map tlv_encode (m # ms))) r = (r2, (j', []), m # ms)"
    using k(2) k'(2) by (simp add: rx_run_add)
  then show ?case using k(1) k'(1,3) by (intro exI [of _ "k + k'"]) (auto simp: rx_iterations_def)
qed

section \<open>Properties\<close>

text \<open>C8: When no read throws and each gives at least eight bytes or all it asked for, so that the head of a
  message always comes whole, the receive loop delivers exactly the messages that were sent, in order, whole
  and once, however the port cuts the rest; the number of iterations needed is bounded by the bytes
  sent.\<close>

theorem tlv_chunking_invariant:
  assumes "list_all tlv_ok ms" and "\<forall>i. 8 \<le> f i" and "rx_iterations ms \<le> n" and "rx_idle r"
  shows "\<exists>r' j. rx_run (chunk_read f) n (i, concat (map tlv_encode ms)) r = (r', (j, []), ms) \<and> rx_idle r'"
proof -
  have f: "8 \<le> f i" for i using assms(2) by simp
  obtain k r1 j where k: "k \<le> rx_iterations ms"
    "rx_run (chunk_read f) k (i, concat (map tlv_encode ms)) r = (r1, (j, []), ms)" "rx_idle r1"
    using rx_messages [where f = f and ms = ms and r = r and i = i] f assms(1,4) by blast
  obtain r2 j2 where e: "rx_run (chunk_read f) (n - k) (j, []) r1 = (r2, (j2, []), [])" "rx_idle r2"
    using rx_run_empty [OF k(3)] by blast
  have n: "k + (n - k) = n" using k(1) assms(3) by simp
  have "rx_run (chunk_read f) (k + (n - k)) (i, concat (map tlv_encode ms)) r = (r2, (j2, []), ms)"
    using k(2) e(1) by (simp add: rx_run_add)
  with n e(2) show ?thesis by auto
qed

theorem tlv_chunking_invariant_witness:
  "\<exists>r' j. rx_run (chunk_read (\<lambda>i. 8 + i mod 3)) 40
      (0, concat (map tlv_encode [(SerialConnection_Sync, []), (SerialDataUnit_Speed, replicate 30 7)])) new_receiver
    = (r', (j, []), [(SerialConnection_Sync, []), (SerialDataUnit_Speed, replicate 30 7)]) \<and> rx_idle r'"
  by (rule tlv_chunking_invariant)
    (simp_all add: tlv_ok_def check_head_valid_def kMinValidTypeValue_def kMaxValidTypeValue_def
      kMaxTlvDataLength_def serial_types rx_iterations_def word_less_nat_alt)

text \<open>The encoding of the messages is a prefix code and the stream of several messages
  is read back by the decoder, message by message: what the receive loop delivers is what the
  stream means.\<close>

theorem tlv_stream_roundtrip:
  assumes "list_all tlv_ok ms"
  shows "decode_stream (length ms) tlv_decode (concat (map tlv_encode ms)) = Some ms"
  using tlv.decode_stream_enc [OF assms] by simp

theorem tlv_stream_roundtrip_witness:
  "decode_stream (length [(SerialConnection_Ack, [1, 2 :: u8])]) tlv_decode
     (concat (map tlv_encode [(SerialConnection_Ack, [1, 2])])) = Some [(SerialConnection_Ack, [1, 2])]"
  by (rule tlv_stream_roundtrip)
    (simp add: tlv_ok_def check_head_valid_def kMinValidTypeValue_def kMaxValidTypeValue_def
      kMaxTlvDataLength_def serial_types word_less_nat_alt)

text \<open>A head split by a read loses the framing: when the port returns the first four bytes
  of a head by the timeout, the loop throws them away and reads the next head from the middle
  of the message, so the message is never delivered.\<close>

theorem tlv_torn_head_loses_message:
  "\<exists>r' s'. rx_run (chunk_read (\<lambda>i. if i = 0 then 4 else 8)) n (0, tlv_encode (SerialConnection_Heartbeat, [])) new_receiver
     = (r', s', [])"
proof -
  let ?f = "\<lambda>i :: nat. if i = 0 then 4 else 8 :: nat"
  let ?bs = "tlv_encode (SerialConnection_Heartbeat, [])"
  have bs: "take 4 ?bs = u32_bytes SerialConnection_Heartbeat" "drop 4 ?bs = u32_bytes 0"
    by (simp_all add: tlv_encode_def)
  have 1: "rx_iter (chunk_read ?f) (0, ?bs) new_receiver = (new_receiver, (1, u32_bytes 0), Rx_timeout)"
    by (simp add: rx_iter_def chunk_read_def Let_def bs new_receiver_def)
  have 2: "rx_iter (chunk_read ?f) (1, u32_bytes 0) new_receiver = (new_receiver, (2, []), Rx_timeout)"
    by (simp add: rx_iter_def chunk_read_def Let_def new_receiver_def)
  show ?thesis
  proof (cases "n \<le> 1")
    case True
    then show ?thesis using 1 by (cases n) auto
  next
    case False
    then obtain k where n: "n = Suc (Suc k)" by (metis not_less_eq_eq One_nat_def old.nat.exhaust le0)
    obtain r' j where "rx_run (chunk_read ?f) k (2, []) new_receiver = (r', (j, []), [])"
      using rx_run_empty [OF rx_idle_new] by blast
    then show ?thesis unfolding n using 1 2 by simp
  qed
qed

end
