(* ===== verification/Serial_Port.thy ===== *)
theory Serial_Port
  imports Serial_Tlv Frame_Source
begin

text \<open>
  The handlers of \<open>GeminiSerialPort\<close> (\<open>src/gemini/gemini_serial_port.cc\<close>) and the
  \<open>loadData\<close> methods of the perception frames (\<open>src/core/frame_data.cc\<close>).  A handler
  takes the message type, the receive buffer and the message's length, and returns the port,
  the store of frames and the actions it performs on the outside world, in order.
\<close>

section \<open>Perception payloads\<close>

text \<open>A read of \<open>n\<close> bytes at \<open>off\<close> through the data pointer; past the buffer it is undefined.\<close>

definition read_at :: "nat \<Rightarrow> nat \<Rightarrow> u8 list \<Rightarrow> se_error + u8 list" where
  "read_at off n buf =
     (if off + n \<le> length buf then Inr (take n (drop off buf))
      else Inl (Undefined ''read past the buffer''))"

fun read_items :: "nat \<Rightarrow> nat \<Rightarrow> nat \<Rightarrow> u8 list \<Rightarrow> se_error + u8 list list" where
  "read_items off sz 0 buf = Inr []"
| "read_items off sz (Suc n) buf =
     bind_result (read_at off sz buf)
       (\<lambda>x. bind_result (read_items (off + sz) sz n buf) (\<lambda>xs. Inr (x # xs)))"

text \<open>
  The packed headers: where the element count is, where the elements start and their size
  (\<open>SEObstacles\<close>, \<open>SELane\<close>, \<open>SEFreeSpace\<close>, \<open>SETSR\<close>, \<open>SETFL\<close>, \<open>SEMatrix\<close> of
  \<open>include/smartereye2/alg/packed_types.h\<close>).  The time stamp is the first eight bytes.
\<close>

fun items_layout :: "se_extension \<Rightarrow> (nat \<times> nat \<times> nat) option" where
  "items_layout EXT_OBSTACLE_FRAME = Some (8, 12, 360)"
| "items_layout EXT_LANE_FRAME = Some (8, 12, 140)"
| "items_layout EXT_FREESPACE_FRAME = Some (8, 12, 20)"
| "items_layout EXT_TRAFFIC_SIGN_FRAME = Some (8, 12, 56)"
| "items_layout EXT_TRAFFIC_LIGHT_FRAME = Some (8, 12, 60)"
| "items_layout EXT_Matrix = Some (12, 16, 40)"
| "items_layout _ = None"

text \<open>\<open>FrameData::loadData\<close> and its overrides; \<open>num_\<close> is a signed int.\<close>

definition load_base :: "u8 list \<Rightarrow> nat \<Rightarrow> frame \<Rightarrow> se_error + frame" where
  "load_base buf sz f = bind_result (read_at 0 sz buf) (\<lambda>bs. Inr (frame_load_data bs f))"

definition load_items :: "nat \<times> nat \<times> nat \<Rightarrow> u8 list \<Rightarrow> nat \<Rightarrow> frame \<Rightarrow> se_error + frame" where
  "load_items lay buf sz f =
     (case lay of (cnt_off, hdr, isz) \<Rightarrow>
        bind_result (load_base buf sz f) (\<lambda>f1.
        bind_result (read_at 0 8 buf) (\<lambda>ts.
        bind_result (read_at cnt_off 4 buf) (\<lambda>cnt.
        bind_result (read_items hdr isz (nat (sint (u32_of cnt))) buf) (\<lambda>xs.
          Inr ((frame_set_timestamp (double_of (uint (u64_of ts))) f1)\<lparr>fr_items := fr_items f1 @ xs\<rparr>))))))"

definition load_journey :: "u8 list \<Rightarrow> nat \<Rightarrow> frame \<Rightarrow> se_error + frame" where
  "load_journey buf sz f =
     bind_result (load_base buf sz f) (\<lambda>f1.
     bind_result (read_at 0 8 buf) (\<lambda>ts.
     bind_result (read_at 8 4 buf) (\<lambda>n.
     bind_result (read_at 12 (unat (u32_of n)) buf) (\<lambda>meta.
       Inr ((frame_set_timestamp (double_of (uint (u64_of ts))) f1)\<lparr>fr_items := [meta]\<rparr>)))))"

definition load_vehicle :: "u8 list \<Rightarrow> nat \<Rightarrow> frame \<Rightarrow> se_error + frame" where
  "load_vehicle buf sz f =
     bind_result (load_base buf sz f) (\<lambda>f1.
     bind_result (read_at 0 36 buf) (\<lambda>v. Inr (f1\<lparr>fr_items := [v]\<rparr>)))"

definition load_perception :: "se_extension \<Rightarrow> u8 list \<Rightarrow> nat \<Rightarrow> frame \<Rightarrow> se_error + frame" where
  "load_perception ty buf sz f =
     (case items_layout ty of
        Some lay \<Rightarrow> load_items lay buf sz f
      | None \<Rightarrow>
          if ty = EXT_JOURNEY_FRAME then load_journey buf sz f
          else if ty = EXT_VEHICLE_INFO_FRAME then load_vehicle buf sz f
          else load_base buf sz f)"

section \<open>The port\<close>

datatype working_state = Disconnected | Syncing | Connected

text \<open>
  The actions on other objects.  \<open>Queue_send\<close> is a task for the write dispatcher: with no
  data, or with a pointer to the caller's local data, whose content at the call is given.
\<close>

datatype port_action =
    Write_now "u8 list"
  | Queue_send u32 "u8 list option"
  | Watchdog_start
  | Watchdog_kick
  | Serial_flush
  | Send_open_cam
  | Set_sensor_intrinsics "u8 list"
  | Set_sensor_extrinsics "u8 list"
  | Dispatch_frame addr
  | File_open string
  | File_write "u8 list"
  | File_close

record serial_port =
  working :: working_state
  receiving :: receiver
  port_speed :: int
  retry_times :: u32
  port_profiles :: "(se_extension \<times> stream_profile) list"
  port_sensor :: "nat option"
  file_name :: string
  received_size :: u32

text \<open>
  The profiles \<open>init()\<close> makes, one per perception type, with consecutive stream ids in the
  order of their creation.  The map is keyed by the frame type.
\<close>

definition perception_profile :: "frame_id \<Rightarrow> u32 \<Rightarrow> int \<Rightarrow> stream_profile" where
  "perception_profile fid fps uid = (new_profile Base_profile)\<lparr>sp_frame_id := fid,
     sp_format := fmt_Custom, sp_fps := fps, sp_uid := uid, sp_tag := PROFILE_TAG_SUPERSET\<rparr>"

definition port_init_profiles :: "int \<Rightarrow> (se_extension \<times> stream_profile) list" where
  "port_init_profiles uid0 =
     fold (\<lambda>(ty, p). omap_put ty p)
       [(EXT_OBSTACLE_FRAME, perception_profile fid_Obstacle 25 uid0),
        (EXT_LANE_FRAME, perception_profile fid_Lane 25 (uid0 + 1)),
        (EXT_FREESPACE_FRAME, perception_profile fid_FreeSpace 25 (uid0 + 2)),
        (EXT_SMALL_OBS_FRAME, perception_profile fid_SmallObstacle 25 (uid0 + 3)),
        (EXT_JOURNEY_FRAME, perception_profile fid_J2Perception 25 (uid0 + 4)),
        (EXT_TRAFFIC_SIGN_FRAME, perception_profile fid_TrafficSign 25 (uid0 + 5)),
        (EXT_TRAFFIC_LIGHT_FRAME, perception_profile fid_TrafficLight 25 (uid0 + 6)),
        (EXT_FLATNESS_FRAME, perception_profile fid_Flatness 25 (uid0 + 7)),
        (EXT_VEHICLE_INFO_FRAME, perception_profile fid_VehicleInfo 0 (uid0 + 8)),
        (EXT_Matrix, perception_profile fid_Matrix 0 (uid0 + 9))] []"

definition new_port :: "int \<Rightarrow> nat option \<Rightarrow> serial_port" where
  "new_port uid0 sn = \<lparr>working = Disconnected, receiving = new_receiver, port_speed = 0,
     retry_times = 0, port_profiles = port_init_profiles uid0, port_sensor = sn,
     file_name = [], received_size = 0\<rparr>"

text \<open>
  A queued send, when the write thread runs it: the task copied the pointer, not the data, so
  it is defined only while the caller's data is alive.
\<close>

definition run_send_task :: "bool \<Rightarrow> u32 \<Rightarrow> u8 list option \<Rightarrow> se_error + u8 list" where
  "run_send_task data_alive ty d =
     (case d of
        None \<Rightarrow> Inr (tlv_encode (ty, []))
      | Some bs \<Rightarrow>
          if bs \<noteq> [] \<and> \<not> data_alive then Inl (Undefined ''use of data of a call that returned'')
          else Inr (tlv_encode (ty, bs)))"

section \<open>The connection\<close>

definition hand_bytes :: "u8 list" where
  "hand_bytes = u32_bytes kSerialConnectionToken @ tlv_encode (SerialConnection_Sync, [])"

definition offerHand :: "serial_port \<Rightarrow> serial_port \<times> port_action list" where
  "offerHand p = (p\<lparr>working := Syncing\<rparr>, [Write_now hand_bytes])"

text \<open>\<open>connect()\<close> starts the receive thread and offers the hand.\<close>

definition connect :: "serial_port \<Rightarrow> serial_port \<times> port_action list" where
  "connect p = offerHand p"

definition disconnect :: "port_action list" where
  "disconnect = [Queue_send SerialConnection_Disconnect None]"

definition requirePerception :: "port_action list" where
  "requirePerception = [Queue_send SerialCommand_RequirePerception None]"

definition requireUserFiles :: "port_action list" where
  "requireUserFiles = [Queue_send SerialCommand_RequireUserFiles None]"

text \<open>The operation of the watchdog: reset the framing and offer the hand again.\<close>

definition watchdog_fire :: "serial_port \<Rightarrow> serial_port \<times> port_action list" where
  "watchdog_fire p =
     (case offerHand (p\<lparr>receiving := rx_reset (receiving p)\<rparr>) of
        (p', acts) \<Rightarrow> (p', [Serial_flush, Send_open_cam] @ acts))"

definition retry :: "serial_port \<Rightarrow> serial_port \<times> port_action list" where
  "retry p =
     (case working p of
        Disconnected \<Rightarrow> (p, [])
      | Syncing \<Rightarrow>
          (let p1 = p\<lparr>retry_times := retry_times p + 1\<rparr>
           in if 5 < retry_times p1 then offerHand (p1\<lparr>retry_times := 0\<rparr>) else (p1, []))
      | Connected \<Rightarrow> (p, [Queue_send SerialConnection_Heartbeat None]))"

text \<open>\<open>now\<close> is the system clock in milliseconds.\<close>

definition onConnected :: "u64 \<Rightarrow> serial_port \<Rightarrow> serial_port \<times> port_action list" where
  "onConnected now p =
     (if working p = Connected then (p, [])
      else (p\<lparr>working := Connected\<rparr>,
            [Queue_send SerialConnection_Ack None, Watchdog_start,
             Queue_send SerialCommand_SyncTimestamp (Some (u64_bytes now)),
             Queue_send SerialCommand_RequireIntrinsics None,
             Queue_send SerialCommand_RequireExtrinsics None] @ requireUserFiles))"

definition handleConnection :: "u64 \<Rightarrow> u32 \<Rightarrow> serial_port \<Rightarrow> serial_port \<times> port_action list" where
  "handleConnection now ty p =
     (if ty = SerialConnection_Sync then (p, [])
      else if ty = SerialConnection_Ack then onConnected now p
      else if ty = SerialConnection_Heartbeat
        then (p, [Queue_send SerialConnection_Heartbeat None, Watchdog_kick])
      else if ty = SerialConnection_Disconnect then (p\<lparr>working := Disconnected\<rparr>, [])
      else (p, []))"

section \<open>Commands\<close>

text \<open>\<open>sizeof(Intrinsics)\<close> is 48 and \<open>sizeof(Extrinsics)\<close> 28.\<close>

definition handleCommand ::
    "u32 \<Rightarrow> u8 list \<Rightarrow> nat \<Rightarrow> serial_port \<Rightarrow> se_error + serial_port \<times> port_action list" where
  "handleCommand ty buf sz p =
     (if ty = SerialCommand_RespondIntrinsics \<and> sz = 48
      then bind_result (read_at 0 48 buf) (\<lambda>bs.
             Inr (p\<lparr>port_profiles := map (\<lambda>(k, sp). (k, sp\<lparr>sp_intrinsics := Some bs\<rparr>)) (port_profiles p)\<rparr>,
                  [Set_sensor_intrinsics bs]))
      else if ty = SerialCommand_RespondExtrinsics \<and> sz = 28
      then bind_result (read_at 0 28 buf) (\<lambda>bs.
             Inr (p\<lparr>port_profiles := map (\<lambda>(k, sp). (k, sp\<lparr>sp_extrinsics := Some bs\<rparr>)) (port_profiles p)\<rparr>,
                  [Set_sensor_extrinsics bs]))
      else Inr (p, []))"

section \<open>Data units\<close>

text \<open>
  The frame of one perception message: allocate, set profile and sensor, let \<open>load\<close> fill it,
  and give it to the sensor's dispatcher.  A refused allocation drops the message.
\<close>

definition dispatch_perception ::
    "se_extension \<Rightarrow> nat \<Rightarrow> (frame \<Rightarrow> se_error + frame) \<Rightarrow> serial_port \<Rightarrow> frame_source \<Rightarrow> store
      \<Rightarrow> se_error + store \<times> port_action list" where
  "dispatch_perception ty sz load p src st =
     bind_result (alloc_filled ty sz (new_extension\<lparr>fe_speed := port_speed p\<rparr>)
                    (\<lambda>f. load (frame_set_sensor (port_sensor p) (frame_set_profile (map_of (port_profiles p) ty) f)))
                    src st)
       (\<lambda>(r, st1). Inr (st1, case r of None \<Rightarrow> [] | Some a \<Rightarrow> [Dispatch_frame a]))"

text \<open>The data unit types that carry one kind of perception frame.\<close>

definition perception_of :: "u32 \<Rightarrow> se_extension option" where
  "perception_of ty =
     (if ty = SerialDataUnit_J2Perception then Some EXT_JOURNEY_FRAME
      else if ty = SerialDataUnit_Obstacle then Some EXT_OBSTACLE_FRAME
      else if ty = SerialDataUnit_Lane then Some EXT_LANE_FRAME
      else if ty = SerialDataUnit_FreeSpace then Some EXT_FREESPACE_FRAME
      else if ty = SerialDataUnit_TrafficSign then Some EXT_TRAFFIC_SIGN_FRAME
      else if ty = SerialDataUnit_TrafficLight then Some EXT_TRAFFIC_LIGHT_FRAME
      else if ty = SerialDataUnit_VehicleRealTimeInfo then Some EXT_VEHICLE_INFO_FRAME
      else if ty = SerialDataUnit_Matrix then Some EXT_Matrix
      else None)"

text \<open>An algorithm result has its own header: type, data size and time stamp, then the data.\<close>

definition handle_algorithm_result ::
    "u8 list \<Rightarrow> nat \<Rightarrow> serial_port \<Rightarrow> frame_source \<Rightarrow> store \<Rightarrow> se_error + store \<times> port_action list" where
  "handle_algorithm_result buf sz p src st =
     bind_result (read_at 0 4 buf) (\<lambda>ty.
       let load = (\<lambda>f. bind_result (read_at 8 8 buf) (\<lambda>ts.
                        bind_result (read_at 4 4 buf) (\<lambda>n.
                        bind_result (read_at 16 (unat (u32_of n)) buf) (\<lambda>bs.
                          Inr (frame_load_data bs (frame_set_timestamp (double_of (uint (u64_of ts))) f))))))
       in if u32_of ty = 2 then dispatch_perception EXT_SMALL_OBS_FRAME sz load p src st
          else if u32_of ty = 1 then dispatch_perception EXT_FLATNESS_FRAME sz load p src st
          else Inr (st, []))"

text \<open>
  \<open>receiveFile\<close>: its static variables are fields of the port.  The response holds the bytes
  received so far, whether more are expected, and the file's name.
\<close>

definition file_resp :: "bool \<Rightarrow> serial_port \<Rightarrow> port_action" where
  "file_resp finished p = Queue_send SerialDataUnit_FileResp
     (Some (u32_bytes (received_size p) @ u16_bytes (if finished then 0 else 1)
            @ map (\<lambda>c. of_nat (of_char c)) (file_name p)))"

text \<open>A C string in the buffer, which as a \<open>std::string\<close> is followed by a zero byte.\<close>

fun c_string :: "u8 list \<Rightarrow> string" where
  "c_string [] = []"
| "c_string (b # bs) = (if b = 0 then [] else char_of (unat b) # c_string bs)"

definition receiveFile ::
    "u32 \<Rightarrow> u8 list \<Rightarrow> nat \<Rightarrow> serial_port \<Rightarrow> se_error + serial_port \<times> port_action list" where
  "receiveFile ty buf sz p =
     (if ty = SerialDataUnit_FileHeader
      then bind_result (read_at 0 4 buf) (\<lambda>_.
             let nm = c_string (drop 4 buf) in Inr (p\<lparr>file_name := nm\<rparr>, [File_open nm]))
      else if ty = SerialDataUnit_FileData
      then bind_result (read_at 0 sz buf) (\<lambda>bs.
             let p1 = p\<lparr>received_size := received_size p + of_nat sz\<rparr>
             in Inr (p1, [File_write bs, file_resp False p1]))
      else if ty = SerialDataUnit_FileTail
      then Inr (p\<lparr>received_size := 0, file_name := []\<rparr>, [file_resp True p, File_close])
      else Inr (p, []))"

definition handleDataUnit ::
    "u32 \<Rightarrow> u8 list \<Rightarrow> nat \<Rightarrow> serial_port \<Rightarrow> frame_source \<Rightarrow> store
      \<Rightarrow> se_error + serial_port \<times> store \<times> port_action list" where
  "handleDataUnit ty buf sz p src st =
     (if ty = SerialDataUnit_FileHeader \<or> ty = SerialDataUnit_FileData \<or> ty = SerialDataUnit_FileTail
      then bind_result (receiveFile ty buf sz p) (\<lambda>(p', acts). Inr (p', st, acts))
      else if ty = SerialDataUnit_Speed
      then bind_result (read_at 0 4 buf) (\<lambda>bs. Inr (p\<lparr>port_speed := sint (u32_of bs)\<rparr>, st, []))
      else if ty = SerialDataUnit_AlgorithmResult
      then bind_result (handle_algorithm_result buf sz p src st) (\<lambda>(st', acts). Inr (p, st', acts))
      else case perception_of ty of
             Some ext \<Rightarrow> bind_result (dispatch_perception ext sz (load_perception ext buf sz) p src st)
               (\<lambda>(st', acts). Inr (p, st', acts))
           | None \<Rightarrow> Inr (p, st, []))"

section \<open>handleTlvData\<close>

definition handleTlvData ::
    "u64 \<Rightarrow> u32 \<Rightarrow> u8 list \<Rightarrow> nat \<Rightarrow> serial_port \<Rightarrow> frame_source \<Rightarrow> store
      \<Rightarrow> se_error + serial_port \<times> store \<times> port_action list" where
  "handleTlvData now ty buf sz p src st =
     (let (p1, acts1) = (if working p = Syncing \<and> ty \<noteq> SerialConnection_Sync \<and> ty \<noteq> SerialConnection_Ack
                         then offerHand p else (p, []))
      in if SerialDataUnit_None \<le> ty
         then bind_result (handleDataUnit ty buf sz p1 src st)
                (\<lambda>(p2, st2, acts2). Inr (p2, st2, acts1 @ acts2))
         else if SerialCommand_None \<le> ty
         then bind_result (handleCommand ty buf sz p1) (\<lambda>(p2, acts2). Inr (p2, st, acts1 @ acts2))
         else (case handleConnection now ty p1 of (p2, acts2) \<Rightarrow> Inr (p2, st, acts1 @ acts2)))"

text \<open>One iteration of the receive thread on the port, with what it leads to.\<close>

definition port_iter ::
    "(nat \<Rightarrow> 's \<Rightarrow> u8 list option \<times> 's) \<Rightarrow> u64 \<Rightarrow> 's \<Rightarrow> serial_port \<Rightarrow> frame_source \<Rightarrow> store
      \<Rightarrow> se_error + 's \<times> serial_port \<times> store \<times> port_action list" where
  "port_iter rd now s p src st =
     (case rx_iter rd s (receiving p) of
        (r, s', ev) \<Rightarrow>
          (let p1 = p\<lparr>receiving := r\<rparr>
           in case ev of
                Rx_packet ty buf len \<Rightarrow>
                  bind_result (handleTlvData now ty buf (unat len) p1 src st)
                    (\<lambda>(p2, st2, acts). Inr (s', p2, st2, acts))
              | Rx_timeout \<Rightarrow> (case retry p1 of (p2, acts) \<Rightarrow> Inr (s', p2, st, acts))
              | _ \<Rightarrow> Inr (s', p1, st, [])))"

section \<open>Lemmas on payloads\<close>

lemma read_items_concat:
  "length pre = off \<Longrightarrow> \<forall>x\<in>set xs. length x = sz \<Longrightarrow>
   read_items off sz (length xs) (pre @ concat xs @ stale) = Inr xs"
proof (induction xs arbitrary: pre off)
  case Nil
  then show ?case by simp
next
  case (Cons x xs)
  have "read_at off sz (pre @ concat (x # xs) @ stale) = Inr x"
    using Cons.prems by (simp add: read_at_def)
  moreover have "read_items (off + sz) sz (length xs) ((pre @ x) @ concat xs @ stale) = Inr xs"
    using Cons.prems by (intro Cons.IH) auto
  ultimately show ?case by simp
qed

lemma read_items_short:
  "length buf < off + sz * n \<Longrightarrow> 0 < n \<Longrightarrow>
   read_items off sz n buf = Inl (Undefined ''read past the buffer'')"
proof (induction n arbitrary: off)
  case 0
  then show ?case by simp
next
  case (Suc n)
  show ?case
  proof (cases "off + sz \<le> length buf")
    case True
    with Suc.prems have "length buf < (off + sz) + sz * n" "0 < n"
      by (auto simp: algebra_simps intro: gr0I)
    from Suc.IH [OF this] True show ?thesis by (simp add: read_at_def)
  qed (simp add: read_at_def)
qed

lemma length_concat_const: "\<forall>x\<in>set xs. length x = sz \<Longrightarrow> length (concat xs) = sz * length xs"
  by (induction xs) auto

lemma items_layout_cases:
  assumes "items_layout ty = Some (co, hdr, isz)"
  shows "hdr = co + 4" "8 \<le> co" "0 < isz"
  using assms by (cases ty; auto)+

lemma sint_small_nat: "n < 2 ^ 31 \<Longrightarrow> nat (sint (of_nat n :: u32)) = n"
  by (simp add: sint_uint unsigned_of_nat signed_take_bit_int_eq_self take_bit_nat_eq_self)

text \<open>The frames an action list hands over.\<close>

fun dispatched :: "port_action list \<Rightarrow> addr list" where
  "dispatched [] = []"
| "dispatched (Dispatch_frame a # acts) = a # dispatched acts"
| "dispatched (_ # acts) = dispatched acts"

lemma dispatched_append [simp]: "dispatched (xs @ ys) = dispatched xs @ dispatched ys"
  by (induction xs rule: dispatched.induct) auto

lemma load_keeps:
  assumes "children f = []"
  shows "load_base buf sz f = Inr g \<Longrightarrow> children g = [] \<and> ref_count g = ref_count f
      \<and> fixed g = fixed f \<and> kept g = kept f \<and> fr_profile g = fr_profile f \<and> fr_sensor g = fr_sensor f"
    and "load_perception ty buf sz f = Inr g \<Longrightarrow> children g = [] \<and> ref_count g = ref_count f
      \<and> fixed g = fixed f \<and> kept g = kept f"
  by (auto simp: load_perception_def load_base_def load_items_def load_journey_def load_vehicle_def
      bind_result_Inr frame_load_data_def frame_set_timestamp_def children_def split: option.splits if_splits)

text \<open>
  Every frame a message allocates is handed over: the store stays consistent with the
  dispatched frame as a new holder.
\<close>

lemma dispatch_perception_ok:
  assumes st: "frames_ok st X" and src: "source_within src st"
    and load: "\<And>f g. children f = [] \<Longrightarrow> load f = Inr g \<Longrightarrow> children g = [] \<and> ref_count g = ref_count f
      \<and> fixed g = fixed f \<and> kept g = kept f"
    and r: "dispatch_perception ty sz load p src st = Inr (st', acts)"
  shows "frames_ok st' (X + mset (dispatched acts)) \<and> length st' = length st"
proof -
  let ?load = "\<lambda>f. load (frame_set_sensor (port_sensor p) (frame_set_profile (map_of (port_profiles p) ty) f))"
  obtain q where q: "alloc_filled ty sz (new_extension\<lparr>fe_speed := port_speed p\<rparr>) ?load src st = Inr (q, st')"
    "acts = (case q of None \<Rightarrow> [] | Some a \<Rightarrow> [Dispatch_frame a])"
    using r by (auto simp: dispatch_perception_def bind_result_Inr)
  have "children g = [] \<and> ref_count g = ref_count f \<and> fixed g = fixed f \<and> kept g = kept f"
    if "children f = []" "?load f = Inr g" for f g
    using load [OF _ that(2)] that(1)
    by (simp add: frame_set_sensor_def frame_set_profile_def)
  from alloc_filled_ok [OF st src this q(1)] show ?thesis by (cases q) (auto simp: q(2))
qed

lemma handleDataUnit_cases:
  assumes "handleDataUnit ty buf sz p src st = Inr (p', st', acts)"
  obtains (recv) "receiveFile ty buf sz p = Inr (p', acts)" "st' = st"
  | (speed) v where "p' = p\<lparr>port_speed := v\<rparr>" "st' = st" "acts = []"
  | (alg) "handle_algorithm_result buf sz p src st = Inr (st', acts)" "p' = p"
  | (perc) ext where "dispatch_perception ext sz (load_perception ext buf sz) p src st = Inr (st', acts)" "p' = p"
  | (none) "p' = p" "st' = st" "acts = []"
proof (cases "ty = SerialDataUnit_FileHeader \<or> ty = SerialDataUnit_FileData \<or> ty = SerialDataUnit_FileTail")
  case True
  have "receiveFile ty buf sz p = Inr (p', acts) \<and> st' = st"
    using assms unfolding handleDataUnit_def if_P [OF True] by (auto simp: bind_result_Inr)
  then show ?thesis using recv by blast
next
  case f: False
  show ?thesis
  proof (cases "ty = SerialDataUnit_Speed")
    case True
    have "\<exists>v. p' = p\<lparr>port_speed := v\<rparr> \<and> st' = st \<and> acts = []"
      using assms unfolding handleDataUnit_def if_not_P [OF f] if_P [OF True]
      by (auto simp: bind_result_Inr)
    then show ?thesis using speed by blast
  next
    case s: False
    show ?thesis
    proof (cases "ty = SerialDataUnit_AlgorithmResult")
      case True
      have "handle_algorithm_result buf sz p src st = Inr (st', acts) \<and> p' = p"
        using assms unfolding handleDataUnit_def if_not_P [OF f] if_not_P [OF s] if_P [OF True]
        by (auto simp: bind_result_Inr)
      then show ?thesis using alg by blast
    next
      case a: False
      have r: "(case perception_of ty of
             Some ext \<Rightarrow> bind_result (dispatch_perception ext sz (load_perception ext buf sz) p src st)
               (\<lambda>(st', acts). Inr (p, st', acts))
           | None \<Rightarrow> Inr (p, st, [])) = Inr (p', st', acts)"
        using assms unfolding handleDataUnit_def if_not_P [OF f] if_not_P [OF s] if_not_P [OF a] .
      show ?thesis
      proof (cases "perception_of ty")
        case None
        then show ?thesis using r none by simp
      next
        case (Some ext)
        have "dispatch_perception ext sz (load_perception ext buf sz) p src st = Inr (st', acts) \<and> p' = p"
          using r unfolding Some by (auto simp: bind_result_Inr)
        then show ?thesis using perc by blast
      qed
    qed
  qed
qed

lemma handleDataUnit_ok:
  assumes st: "frames_ok st X" and src: "source_within src st"
    and r: "handleDataUnit ty buf sz p src st = Inr (p', st', acts)"
  shows "frames_ok st' (X + mset (dispatched acts))"
proof -
  have alg: "frames_ok st1 (X + mset (dispatched acts1))"
    if h: "handle_algorithm_result buf sz p src st = Inr (st1, acts1)" for st1 acts1
  proof -
    let ?load = "\<lambda>f. bind_result (read_at 8 8 buf) (\<lambda>ts. bind_result (read_at 4 4 buf) (\<lambda>n.
        bind_result (read_at 16 (unat (u32_of n)) buf) (\<lambda>bs.
          Inr (frame_load_data bs (frame_set_timestamp (double_of (uint (u64_of ts))) f)))))"
    have load: "children g = [] \<and> ref_count g = ref_count f \<and> fixed g = fixed f \<and> kept g = kept f"
      if "children f = []" "?load f = Inr g" for f g
      using that by (auto simp: bind_result_Inr frame_load_data_def frame_set_timestamp_def children_def)
    obtain ty where "(if u32_of ty = 2 then dispatch_perception EXT_SMALL_OBS_FRAME sz ?load p src st
          else if u32_of ty = 1 then dispatch_perception EXT_FLATNESS_FRAME sz ?load p src st
          else Inr (st, [])) = Inr (st1, acts1)"
      using h unfolding handle_algorithm_result_def Let_def bind_result_Inr by blast
    then show ?thesis
      using dispatch_perception_ok [OF st src load] st by (auto split: if_splits)
  qed
  have recv: "dispatched acts1 = []" if "receiveFile ty buf sz p = Inr (p1, acts1)" for p1 acts1
    using that by (auto simp: receiveFile_def bind_result_Inr file_resp_def Let_def split: if_splits)
  have perc_ok: "frames_ok st1 (X + mset (dispatched acts1))"
    if "dispatch_perception ext sz (load_perception ext buf sz) p src st = Inr (st1, acts1)" for ext st1 acts1
    using dispatch_perception_ok [OF st src load_keeps(2) that] by auto
  show ?thesis
    using r
  proof (cases rule: handleDataUnit_cases)
    case rc: recv
    show ?thesis using recv [OF rc(1)] rc(2) st by simp
  next
    case (speed v)
    then show ?thesis using st by simp
  next
    case al: alg
    show ?thesis using alg [OF al(1)] .
  next
    case (perc ext)
    show ?thesis using perc_ok [OF perc(1)] .
  next
    case none
    then show ?thesis using st by simp
  qed
qed

section \<open>Properties\<close>

text \<open>C17: The handlers leak no frame and hand over none they do not own: whatever the
  message, after a handler has returned the reference counts are exact for the holders of
  before and one more holder for each frame it dispatched.\<close>

theorem serial_handler_keeps_counts:
  assumes "frames_ok st X" and "source_within src st"
    and "handleTlvData now ty buf sz p src st = Inr (p', st', acts)"
  shows "frames_ok st' (X + mset (dispatched acts))"
proof -
  obtain p1 acts1 where o: "(if working p = Syncing \<and> ty \<noteq> SerialConnection_Sync \<and> ty \<noteq> SerialConnection_Ack
      then offerHand p else (p, [])) = (p1, acts1)" by (metis surj_pair)
  have d1: "dispatched acts1 = []" using o by (auto simp: offerHand_def split: if_splits)
  have cmd: "dispatched acts2 = []" if "handleCommand ty buf sz p1 = Inr (p2, acts2)" for p2 acts2
    using that by (auto simp: handleCommand_def bind_result_Inr split: if_splits)
  have con: "dispatched acts2 = []" if "handleConnection now ty p1 = (p2, acts2)" for p2 acts2
    using that by (auto simp: handleConnection_def onConnected_def requireUserFiles_def split: if_splits)
  have du: "frames_ok st2 (X + mset (dispatched acts2))"
    if "handleDataUnit ty buf sz p1 src st = Inr (p2, st2, acts2)" for p2 st2 acts2
    using handleDataUnit_ok [OF assms(1,2) that] .
  show ?thesis
    using assms(1,3) d1 unfolding handleTlvData_def o Let_def
    by (auto simp: bind_result_Inr dest: cmd con du split: if_splits prod.splits)
qed

theorem serial_handler_keeps_counts_witness:
  "\<exists>p' st' acts. handleTlvData 0 SerialDataUnit_Speed [5, 0, 0, 0] 4 (new_port 1 None) (new_source 256) one_frame
       = Inr (p', st', acts)
     \<and> frames_ok st' ({#(0, Obj 0)#} + mset (dispatched acts))"
proof -
  have "\<exists>p'. handleTlvData 0 SerialDataUnit_Speed [5, 0, 0, 0] 4 (new_port 1 None) (new_source 256) one_frame
      = Inr (p', one_frame, [])"
    by (simp add: handleTlvData_def new_port_def handleDataUnit_def serial_types read_at_def)
  then obtain p' where h: "handleTlvData 0 SerialDataUnit_Speed [5, 0, 0, 0] 4 (new_port 1 None) (new_source 256) one_frame
      = Inr (p', one_frame, [])" by blast
  from serial_handler_keeps_counts [OF frame_reach_ok [OF one_frame_reach] _ h] h show ?thesis
    by (auto simp: source_within_def new_source_def)
qed

text \<open>A well-formed perception message is parsed to exactly the elements that were encoded:
  data, time stamp and every obstacle, lane line, free space point, sign, light or matrix, in
  order, whatever stale bytes follow the message in the receive buffer.\<close>

theorem perception_roundtrip:
  assumes "items_layout ty = Some (co, hdr, isz)" and "length pre = co - 8"
    and "\<forall>x\<in>set xs. length x = isz" and "length xs < 2 ^ 31"
    and "msg = u64_bytes ts @ pre @ u32_bytes (of_nat (length xs)) @ concat xs"
  shows "load_perception ty (msg @ stale) (length msg) f
    = Inr ((frame_set_timestamp (double_of (uint ts)) (frame_load_data msg f))\<lparr>fr_items := fr_items f @ xs\<rparr>)"
proof -
  note lay = items_layout_cases [OF assms(1)]
  let ?head = "u64_bytes ts @ pre @ u32_bytes (of_nat (length xs))"
  have lh: "length ?head = hdr" using lay(1,2) assms(2) by simp
  have m: "msg @ stale = ?head @ concat xs @ stale" by (simp add: assms(5))
  have base: "load_base (msg @ stale) (length msg) f = Inr (frame_load_data msg f)"
    by (simp add: load_base_def read_at_def)
  have ts: "read_at 0 8 (msg @ stale) = Inr (u64_bytes ts)"
    by (simp add: m read_at_def)
  have "take 4 (drop co (msg @ stale)) = u32_bytes (of_nat (length xs))"
  proof -
    have "msg @ stale = (u64_bytes ts @ pre) @ u32_bytes (of_nat (length xs)) @ concat xs @ stale"
      by (simp add: assms(5))
    moreover have "length (u64_bytes ts @ pre) = co" using lay(2) assms(2) by simp
    ultimately show ?thesis by simp
  qed
  moreover have "co + 4 \<le> length (msg @ stale)" using lh lay(1) by (simp add: m)
  ultimately have cnt: "read_at co 4 (msg @ stale) = Inr (u32_bytes (of_nat (length xs)))"
    by (simp add: read_at_def)
  have items: "read_items hdr isz (length xs) (msg @ stale) = Inr xs"
    unfolding m using lh assms(3) by (rule read_items_concat)
  show ?thesis
    using base ts cnt items sint_small_nat [OF assms(4)]
    by (simp add: load_perception_def assms(1) load_items_def frame_load_data_def frame_set_timestamp_def)
qed

definition free_space_msg :: "u8 list" where
  "free_space_msg = u64_bytes 9 @ [] @ u32_bytes (of_nat (length [replicate 20 (7 :: u8)]))
     @ concat [replicate 20 7]"

theorem perception_roundtrip_witness:
  "load_perception EXT_FREESPACE_FRAME (free_space_msg @ [1, 2]) (length free_space_msg) new_frame
   = Inr ((frame_set_timestamp (double_of (uint (9 :: u64))) (frame_load_data free_space_msg new_frame))
       \<lparr>fr_items := fr_items new_frame @ [replicate 20 7]\<rparr>)"
  by (rule perception_roundtrip [where co = 8 and hdr = 12 and isz = 20, OF _ _ _ _ free_space_msg_def])
    simp_all

text \<open>The element count of a perception message is not checked against its length: a
  message that announces more elements than the receive buffer holds makes the parser read
  past the buffer.\<close>

theorem perception_count_overread:
  assumes "items_layout ty = Some (co, hdr, isz)" and "hdr \<le> length buf" and "sz \<le> length buf"
    and "0 < sint (u32_of (take 4 (drop co buf)))"
    and "length buf < hdr + isz * nat (sint (u32_of (take 4 (drop co buf))))"
  shows "load_perception ty buf sz f = Inl (Undefined ''read past the buffer'')"
proof -
  note lay = items_layout_cases [OF assms(1)]
  have "read_items hdr isz (nat (sint (u32_of (take 4 (drop co buf))))) buf
      = Inl (Undefined ''read past the buffer'')"
    using assms(4,5) by (intro read_items_short) auto
  then show ?thesis
    using lay assms(1-3)
    by (simp add: load_perception_def load_items_def load_base_def read_at_def)
qed

theorem perception_count_overread_witness:
  "load_perception EXT_LANE_FRAME (u64_bytes 1 @ u32_bytes 1000) 12 new_frame
   = Inl (Undefined ''read past the buffer'')"
  by (rule perception_count_overread [where co = 8 and hdr = 12 and isz = 140]) simp_all

text \<open>C29: The port becomes connected by an Ack and by nothing else, and then, once, it answers
  with Ack, starts the watchdog and asks for time synchronisation, intrinsics, extrinsics and
  user files, in that order.\<close>

theorem serial_connects_by_ack:
  assumes "handleTlvData now ty buf sz p src st = Inr (p', st', acts)" and "working p \<noteq> Connected"
  shows "(working p' = Connected \<longleftrightarrow> ty = SerialConnection_Ack)
    \<and> (working p' = Connected \<longrightarrow> acts = [Queue_send SerialConnection_Ack None, Watchdog_start,
         Queue_send SerialCommand_SyncTimestamp (Some (u64_bytes now)),
         Queue_send SerialCommand_RequireIntrinsics None,
         Queue_send SerialCommand_RequireExtrinsics None, Queue_send SerialCommand_RequireUserFiles None])"
proof -
  obtain p1 acts1 where o: "(if working p = Syncing \<and> ty \<noteq> SerialConnection_Sync \<and> ty \<noteq> SerialConnection_Ack
      then offerHand p else (p, [])) = (p1, acts1)" by (metis surj_pair)
  have w1: "working p1 \<noteq> Connected" "ty = SerialConnection_Ack \<longrightarrow> acts1 = []"
    using o assms(2) by (auto simp: offerHand_def split: if_splits)
  have recv: "working p2 = working p1" if "receiveFile ty buf sz p1 = Inr (p2, acts2)" for p2 acts2
    using that by (auto simp: receiveFile_def bind_result_Inr Let_def split: if_splits)
  have du: "working p2 = working p1" if "handleDataUnit ty buf sz p1 src st = Inr (p2, st2, acts2)" for p2 st2 acts2
    using that by (cases rule: handleDataUnit_cases) (auto dest: recv)
  have cmd: "working p2 = working p1" if "handleCommand ty buf sz p1 = Inr (p2, acts2)" for p2 acts2
    using that by (auto simp: handleCommand_def bind_result_Inr split: if_splits)
  show ?thesis
  proof (cases "SerialCommand_None \<le> ty")
    case True
    then have "ty \<noteq> SerialConnection_Ack" by (auto simp: serial_types)
    moreover have "working p' = working p1"
      using assms(1) True unfolding handleTlvData_def o Let_def
      by (auto simp: bind_result_Inr dest: cmd du split: if_splits)
    ultimately show ?thesis using w1 by simp
  next
    case False
    then have "\<not> SerialDataUnit_None \<le> ty" by (auto simp: serial_types word_le_nat_alt)
    with False assms(1) have "(case handleConnection now ty p1 of (p2, acts2) \<Rightarrow> (p2, st, acts1 @ acts2)) = (p', st', acts)"
      unfolding handleTlvData_def o Let_def by (auto split: prod.splits)
    with w1 show ?thesis
      by (auto simp: handleConnection_def onConnected_def requireUserFiles_def serial_types split: if_splits)
  qed
qed

theorem serial_connects_by_ack_witness:
  "\<exists>p' st' acts. handleTlvData 0 SerialConnection_Ack [] 0 (fst (connect (new_port 1 None))) (new_source 256) []
       = Inr (p', st', acts)
     \<and> (working p' = Connected \<longleftrightarrow> SerialConnection_Ack = SerialConnection_Ack)"
proof -
  obtain p' st' acts where h: "handleTlvData 0 SerialConnection_Ack [] 0 (fst (connect (new_port 1 None)))
      (new_source 256) [] = Inr (p', st', acts)"
    by (simp add: handleTlvData_def serial_types handleConnection_def onConnected_def connect_def
        offerHand_def new_port_def)
  from serial_connects_by_ack [OF h] h show ?thesis
    by (auto simp: connect_def offerHand_def new_port_def)
qed

text \<open>Timeouts of the head read in a row, and how often they offer the hand.\<close>

fun retries :: "nat \<Rightarrow> serial_port \<Rightarrow> serial_port \<times> port_action list" where
  "retries 0 p = (p, [])"
| "retries (Suc n) p =
     (case retry p of (p1, acts1) \<Rightarrow> (case retries n p1 of (p2, acts2) \<Rightarrow> (p2, acts1 @ acts2)))"

lemma retries_syncing:
  "working p = Syncing \<Longrightarrow> unat (retry_times p) \<le> 5 \<Longrightarrow>
   snd (retries n p) = replicate ((unat (retry_times p) + n) div 6) (Write_now hand_bytes)"
proof (induction n arbitrary: p)
  case 0
  then show ?case by simp
next
  case (Suc n)
  have inc: "unat (retry_times p + 1) = Suc (unat (retry_times p))"
    using Suc.prems(2) by (simp add: unat_word_ariths)
  show ?case
  proof (cases "unat (retry_times p) = 5")
    case True
    then have "5 < retry_times p + 1" using inc by (simp add: word_less_nat_alt)
    then have "retry p = (p\<lparr>retry_times := 0, working := Syncing\<rparr>, [Write_now hand_bytes])"
      using Suc.prems(1) by (simp add: retry_def Let_def offerHand_def)
    moreover have "snd (retries n (p\<lparr>retry_times := 0, working := Syncing\<rparr>)) = replicate (n div 6) (Write_now hand_bytes)"
      using Suc.IH [of "p\<lparr>retry_times := 0, working := Syncing\<rparr>"] by simp
    moreover have "(6 + n) div 6 = Suc (n div 6)" by simp
    ultimately show ?thesis using True
      by (cases "retries n (p\<lparr>retry_times := 0, working := Syncing\<rparr>)") simp
  next
    case False
    then have "\<not> 5 < retry_times p + 1" using inc Suc.prems(2) by (simp add: word_less_nat_alt)
    then have "retry p = (p\<lparr>retry_times := retry_times p + 1\<rparr>, [])"
      using Suc.prems(1) by (simp add: retry_def Let_def)
    moreover have "snd (retries n (p\<lparr>retry_times := retry_times p + 1\<rparr>))
        = replicate ((unat (retry_times p) + Suc n) div 6) (Write_now hand_bytes)"
      using Suc.IH [of "p\<lparr>retry_times := retry_times p + 1\<rparr>"] Suc.prems inc False by simp
    ultimately show ?thesis by (simp split: prod.splits)
  qed
qed

text \<open>While the port waits for the handshake it offers the hand again at every sixth
  timeout, and does nothing at the others, so a lost handshake is retried for ever.\<close>

theorem serial_retry_period:
  assumes "working p = Syncing" and "retry_times p = 0"
  shows "snd (retries n p) = replicate (n div 6) (Write_now hand_bytes)"
  using retries_syncing [of p n] assms by simp

theorem serial_retry_period_witness:
  "snd (retries 13 (fst (connect (new_port 1 None)))) = replicate (13 div 6) (Write_now hand_bytes)"
  by (rule serial_retry_period) (simp_all add: connect_def offerHand_def new_port_def)

text \<open>The response to a file block is queued with a pointer into a local string: unless the
  write thread runs the task before \<open>receiveFile\<close> returns, it copies freed memory.\<close>

theorem file_response_dangles:
  assumes "sz \<le> length buf"
  shows "\<exists>p' d. receiveFile SerialDataUnit_FileData buf sz p
      = Inr (p', [File_write (take sz buf), Queue_send SerialDataUnit_FileResp d])
    \<and> run_send_task False SerialDataUnit_FileResp d = Inl (Undefined ''use of data of a call that returned'')"
proof -
  have "u32_bytes w \<noteq> []" for w :: u32 by (simp flip: length_greater_0_conv)
  then show ?thesis
    using assms by (auto simp: receiveFile_def serial_types read_at_def file_resp_def Let_def run_send_task_def)
qed

theorem file_response_dangles_witness:
  "\<exists>p' d. receiveFile SerialDataUnit_FileData [1, 2, 3] 3 (new_port 1 None)
      = Inr (p', [File_write (take 3 [1, 2, 3]), Queue_send SerialDataUnit_FileResp d])
    \<and> run_send_task False SerialDataUnit_FileResp d = Inl (Undefined ''use of data of a call that returned'')"
  by (rule file_response_dangles) simp

end
