(* ===== verification/Gemini_Sensor.thy ===== *)
theory Gemini_Sensor
  imports Usb_Transfer Serial_Port
begin

text \<open>
  \<open>GeminiSensor\<close> (\<open>src/gemini/gemini_sensor.*\<close>) with the parts of \<open>SensorBase\<close>
  (\<open>src/sensor/sensor.*\<close>) it uses: the frame capabilities read from the device, opening,
  starting and stopping, the loop of the stream thread, and the cutting of a received packet
  into one video frame per active stream.

  A packet is a twelve byte head, an eight byte time stamp, and the frames in the order of
  their frame index.  Pointers into the receive buffer are offsets.
\<close>

section \<open>Frame infos and the frame group\<close>

record frame_info =
  fi_frame_id :: u16
  fi_format :: u16
  fi_data_size :: u32
  fi_width :: u16
  fi_height :: u16
  fi_index :: u32

definition u16_of :: "u8 list \<Rightarrow> u16" where
  "u16_of bs = of_nat (le_val bs)"

definition frame_info_of :: "u8 list \<Rightarrow> frame_info" where
  "frame_info_of bs = \<lparr>fi_frame_id = u16_of (take 2 bs), fi_format = u16_of (take 2 (drop 2 bs)),
     fi_data_size = u32_of (take 4 (drop 4 bs)), fi_width = u16_of (take 2 (drop 8 bs)),
     fi_height = u16_of (take 2 (drop 10 bs)), fi_index = u32_of (take 4 (drop 12 bs))\<rparr>"

text \<open>
  \<open>UsbFrameGroup\<close>: two arrays of fifteen pointers indexed by frame index.  \<open>total_size\<close> is an
  \<open>int32_t\<close> that unsigned sizes are added to.
\<close>

definition kGroupSlots :: nat where "kGroupSlots = 15"

record frame_group =
  fg_count :: int
  fg_total :: u32
  fg_infos :: "frame_info option list"
  fg_datas :: "nat option list"
  fg_timestamp :: int

definition new_group :: frame_group where
  "new_group = \<lparr>fg_count = 0, fg_total = 0, fg_infos = replicate kGroupSlots None,
     fg_datas = replicate kGroupSlots None, fg_timestamp = 0\<rparr>"

definition kNecessaryFrameIds :: frame_id where
  "kNecessaryFrameIds = fid_or (fid_or (fid_or (fid_or fid_LeftCamera fid_RightCamera) fid_CalibLeftCamera)
     fid_CalibRightCamera) fid_Disparity"

definition BUFFER_SIZE :: nat where "BUFFER_SIZE = 1024"

section \<open>The sensor\<close>

text \<open>
  What the sensor does outside its own state: it starts, flushes and stops its dispatcher,
  opens and closes the serial port, joins the stream thread, marks the device valid or not,
  and gives frames to the dispatcher.
\<close>

datatype sensor_action =
    Dispatcher_start | Dispatcher_flush | Dispatcher_stop
  | Port_open | Port_close
  | Thread_start | Thread_join
  | Set_valid bool
  | Sensor_dispatch addr

record gemini_sensor =
  sn_id :: nat
  supported_infos :: "frame_info list"
  active_infos :: "(u32 \<times> frame_info) list"
  id_profiles :: "(int \<times> stream_profile option) list"
  usb_group :: frame_group
  sn_buffer :: "u8 list"
  sn_port :: serial_port
  sn_source :: frame_source
  is_streaming :: bool
  is_opened :: bool
  sn_profiles :: "stream_profile list"
  active_profiles :: "stream_profile list"
  missing_cnt :: nat

text \<open>A sensor before \<open>init\<close>; its frame source limits itself to 256 frames.\<close>

definition new_sensor :: "nat \<Rightarrow> serial_port \<Rightarrow> gemini_sensor" where
  "new_sensor n p = \<lparr>sn_id = n, supported_infos = [], active_infos = [], id_profiles = [],
     usb_group = new_group, sn_buffer = [], sn_port = p, sn_source = new_source 256,
     is_streaming = False, is_opened = False, sn_profiles = [], active_profiles = [], missing_cnt = 0\<rparr>"

section \<open>initStreamProfiles\<close>

text \<open>
  The two waiting loops repeat a control transfer, with a pause, until the device answers;
  \<open>None\<close> is a device that never does.
\<close>

partial_function (option) wait_open_cam ::
    "'s gemini \<Rightarrow> u8 list \<Rightarrow> 's \<Rightarrow> (se_error + u8 list \<times> 's) option" where
  "wait_open_cam g mem s =
     (case control_transfer_in g OPEN_CAM 0 (Some mem) (of_nat BUFFER_SIZE) s of
        Inl e \<Rightarrow> Some (Inl e)
      | Inr r \<Rightarrow>
          (case r of (ret, mem', s') \<Rightarrow>
             if ret \<noteq> SE2_USB_STATUS_SUCCESS \<or> head_state (the mem') \<noteq> 0
             then wait_open_cam g (the mem') s'
             else Some (Inr (the mem', s'))))"

partial_function (option) wait_frame_cap ::
    "'s gemini \<Rightarrow> u8 list \<Rightarrow> 's \<Rightarrow> (se_error + u8 list \<times> 's) option" where
  "wait_frame_cap g mem s =
     (case control_transfer_in g QUERY_FRAME_CAP 0 (Some mem) (of_nat BUFFER_SIZE) s of
        Inl e \<Rightarrow> Some (Inl e)
      | Inr r \<Rightarrow>
          (case r of (ret, mem', s') \<Rightarrow>
             if ret \<noteq> SE2_USB_STATUS_SUCCESS \<or> head_state (the mem') < 0
             then wait_frame_cap g (the mem') s'
             else Some (Inr (the mem', s'))))"

text \<open>The frame infos of the answer: their number is in the head, and is not checked.\<close>

definition parse_infos :: "u8 list \<Rightarrow> se_error + frame_info list" where
  "parse_infos mem =
     bind_result (read_items pack_head_size 16 (nat (head_state mem)) mem)
       (\<lambda>xs. Inr (map frame_info_of xs))"

definition info_profile :: "int \<Rightarrow> frame_info \<Rightarrow> stream_profile" where
  "info_profile uid fi =
     (new_profile (Video_profile (uint (fi_width fi)) (uint (fi_height fi))))
       \<lparr>sp_frame_id := ucast (fi_frame_id fi), sp_format := uint (fi_format fi),
        sp_index := sint (fi_index fi), sp_fps := 25, sp_uid := uid,
        sp_tag := PROFILE_TAG_DEFAULT OR PROFILE_TAG_SUPERSET\<rparr>"

text \<open>\<open>uid\<close> is the next stream id of the environment.\<close>

fun add_profiles :: "int \<Rightarrow> frame_info list \<Rightarrow> gemini_sensor \<Rightarrow> int \<times> gemini_sensor" where
  "add_profiles uid [] sn = (uid, sn)"
| "add_profiles uid (fi # fis) sn =
     add_profiles (uid + 1) fis
       (sn\<lparr>sn_profiles := sn_profiles sn @ [info_profile uid fi],
           id_profiles := omap_put (uint (fi_frame_id fi)) (Some (info_profile uid fi)) (id_profiles sn),
           supported_infos := supported_infos sn @ [fi]\<rparr>)"

definition initStreamProfiles ::
    "'s gemini \<Rightarrow> int \<Rightarrow> gemini_sensor \<Rightarrow> 's \<Rightarrow> (se_error + int \<times> gemini_sensor \<times> 's) option" where
  "initStreamProfiles g uid sn s =
     (case wait_open_cam g (replicate BUFFER_SIZE 0) s of
        None \<Rightarrow> None
      | Some (Inl e) \<Rightarrow> Some (Inl e)
      | Some (Inr (mem, s1)) \<Rightarrow>
          (case wait_frame_cap g mem s1 of
             None \<Rightarrow> None
           | Some (Inl e) \<Rightarrow> Some (Inl e)
           | Some (Inr (mem2, s2)) \<Rightarrow>
               Some (bind_result (parse_infos mem2) (\<lambda>fis.
                 case add_profiles uid fis (sn\<lparr>sn_profiles := [], supported_infos := []\<rparr>) of
                   (uid', sn') \<Rightarrow> Inr (uid', sn', s2)))))"

section \<open>open, close, start and stop\<close>

text \<open>
  The active infos are the supported ones whose id is requested, keyed by frame index: of two
  with the same index the last one stays.  The ids are compared in sixteen bits.
\<close>

definition requested_ids :: "stream_profile list \<Rightarrow> frame_id" where
  "requested_ids ps = foldl fid_or fid_NotUsed (filter (\<lambda>i. i \<noteq> fid_NotUsed) (map sp_frame_id ps))"

definition select_infos :: "frame_id \<Rightarrow> frame_info list \<Rightarrow> (u32 \<times> frame_info) list" where
  "select_infos ids fis =
     fold (\<lambda>fi. omap_put (fi_index fi) fi) (filter (\<lambda>fi. fi_frame_id fi AND ucast ids \<noteq> 0) fis) []"

fun fill_group :: "(u32 \<times> frame_info) list \<Rightarrow> frame_group \<Rightarrow> se_error + frame_group" where
  "fill_group [] fg = Inr fg"
| "fill_group ((i, fi) # as) fg =
     (if unat i < kGroupSlots
      then fill_group as (fg\<lparr>fg_count := fg_count fg + 1, fg_total := fg_total fg + fi_data_size fi,
                            fg_infos := (fg_infos fg)[unat i := Some fi]\<rparr>)
      else Inl (Undefined ''write past frame_infos''))"

definition sensor_open ::
    "'s gemini \<Rightarrow> stream_profile list \<Rightarrow> gemini_sensor \<Rightarrow> store \<Rightarrow> 's
      \<Rightarrow> se_error + gemini_sensor \<times> store \<times> 's \<times> sensor_action list" where
  "sensor_open g requests sn st s =
     (if is_streaming sn then Inl (Runtime_error ''open(...) failed. Gemini device is streaming!'')
      else if is_opened sn then Inl (Runtime_error ''open(...) failed. Gemini device already opened!'')
      else bind_result (source_init (sn_source sn) st) (\<lambda>(src, st1).
           bind_result (source_set_sensor (Some (sn_id sn)) src st1) (\<lambda>st2.
             let sn1 = sn\<lparr>sn_source := src\<rparr>;
                 necessary = filter (\<lambda>p. fid_and (sp_frame_id p) kNecessaryFrameIds \<noteq> 0) requests;
                 ids = requested_ids necessary
             in bind_result (control_transfer_in g SET_FRAME_IDS (sint ids) (Some (replicate BUFFER_SIZE 0))
                               (of_nat BUFFER_SIZE) s) (\<lambda>(ret, _, s1).
                  if ret < 0 then Inr (sn1, st2, s1, [])
                  else bind_result (fill_group (select_infos ids (supported_infos sn)) new_group) (\<lambda>fg.
                    Inr (sn1\<lparr>active_infos := select_infos ids (supported_infos sn), usb_group := fg,
                             is_opened := True, active_profiles := necessary\<rparr>, st2, s1, [Port_open]))))))"

definition sensor_close :: "gemini_sensor \<Rightarrow> se_error + gemini_sensor \<times> sensor_action list" where
  "sensor_close sn =
     (if is_streaming sn then Inl (Runtime_error ''close(...) failed. Gemini device is streaming!'')
      else if \<not> is_opened sn then Inl (Runtime_error ''close(...) failed. Gemini device was not opened!'')
      else Inr (sn\<lparr>active_infos := [], is_opened := False, active_profiles := []\<rparr>, [Port_close]))"

text \<open>
  \<open>startStream\<close> sizes the receive buffer, all zero.  The total is a signed int, widened to
  \<open>size_t\<close>; \<open>resize\<close> throws when that is too large for a vector, with \<open>is_streaming_\<close>
  already set.
\<close>

definition startStream :: "gemini_sensor \<Rightarrow> (se_error + unit) \<times> gemini_sensor" where
  "startStream sn =
     (let sn1 = sn\<lparr>is_streaming := True\<rparr>;
          n = sint (fg_total (usb_group sn)) + int pack_head_size
      in if n < 0 then (Inl (Runtime_error ''vector::resize''), sn1)
         else (Inr (), sn1\<lparr>missing_cnt := 0, sn_buffer := replicate (nat n) 0\<rparr>))"

text \<open>
  \<open>start\<close> and \<open>stop\<close> act on the dispatcher before they look at the state of the sensor, so
  their actions are reported with the error too.
\<close>

definition sensor_start ::
    "nat option \<Rightarrow> gemini_sensor \<Rightarrow> (se_error + unit) \<times> gemini_sensor \<times> sensor_action list" where
  "sensor_start callback sn =
     (if is_streaming sn
      then (Inl (Runtime_error ''start(...) failed. Gemini device is already streaming!''), sn, [Dispatcher_start])
      else if \<not> is_opened sn
      then (Inl (Runtime_error ''start(...) failed. Gemini device was not opened!''), sn, [Dispatcher_start])
      else case startStream (sn\<lparr>sn_source := source_set_callback callback (sn_source sn)\<rparr>) of
             (Inl e, sn') \<Rightarrow> (Inl e, sn', [Dispatcher_start])
           | (Inr _, sn') \<Rightarrow> (Inr (), sn', [Dispatcher_start, Thread_start]))"

definition sensor_stop :: "gemini_sensor \<Rightarrow> (se_error + unit) \<times> gemini_sensor \<times> sensor_action list" where
  "sensor_stop sn =
     (if \<not> is_streaming sn
      then (Inl (Runtime_error ''stop(...) failed. Gemini device is not streaming!''), sn,
            [Dispatcher_flush, Dispatcher_stop])
      else (Inr (), sn\<lparr>is_streaming := False\<rparr>, [Dispatcher_flush, Dispatcher_stop, Thread_join]))"

section \<open>The stream thread\<close>

definition kMissingFrameThreshold :: nat where "kMissingFrameThreshold = 25"

definition embedded_size :: nat where "embedded_size = 1280"

text \<open>The data pointers of the active frames, in index order, from \<open>ptr\<close> on.\<close>

fun set_datas :: "(u32 \<times> frame_info) list \<Rightarrow> nat \<Rightarrow> frame_group \<Rightarrow> frame_group" where
  "set_datas [] ptr fg = fg"
| "set_datas ((i, fi) # as) ptr fg =
     (case fg_infos fg ! unat i of
        None \<Rightarrow> fg
      | Some info \<Rightarrow> set_datas as (ptr + unat (fi_data_size info))
                       (fg\<lparr>fg_datas := (fg_datas fg)[unat i := Some ptr]\<rparr>))"

definition with_embeddedline :: "u16 \<Rightarrow> bool" where
  "with_embeddedline fid \<longleftrightarrow> (ucast fid :: frame_id) \<in> {fid_LeftCamera, fid_RightCamera,
     fid_CalibLeftCamera, fid_CalibRightCamera}"

text \<open>
  What is put into a video frame; \<open>buf\<close> and \<open>ptr\<close> give the raw frame.  With an embedded line
  the first 1280 bytes are metadata and the image is the rest, its size computed unsigned.
\<close>

definition load_video ::
    "nat \<Rightarrow> stream_profile option \<Rightarrow> int \<Rightarrow> u8 list \<Rightarrow> nat \<Rightarrow> frame_info \<Rightarrow> frame \<Rightarrow> se_error + frame" where
  "load_video sid profile ts buf ptr info f0 =
     (let f = frame_set_sensor (Some sid) (frame_set_profile profile
                (frame_set_domain SYSTEM_TIME (frame_set_timestamp (double_of ts)
                  (f0\<lparr>fr_dims := (uint (fi_width info), uint (fi_height info),
                                 getBppByFormat (uint (fi_format info)), 0)\<rparr>))))
      in if with_embeddedline (fi_frame_id info)
         then bind_result (read_at ptr embedded_size buf) (\<lambda>line.
              bind_result (read_at (ptr + embedded_size) (unat (fi_data_size info - of_nat embedded_size)) buf) (\<lambda>img.
                Inr (frame_load_data img (f\<lparr>fr_ext := (fr_ext f)
                       \<lparr>fe_metadata_value := MD_EmbeddedLine, fe_metadata_blob := line\<rparr>\<rparr>))))
         else bind_result (read_at ptr (unat (fi_data_size info)) buf) (\<lambda>img. Inr (frame_load_data img f)))"

text \<open>
  \<open>handle_received_frames\<close>: one frame per active info.  A frame id without profile inserts a
  null profile into the map; that frame, and one whose allocation is refused, is dropped.
\<close>

fun handle_received ::
    "(u32 \<times> frame_info) list \<Rightarrow> gemini_sensor \<Rightarrow> store \<Rightarrow> se_error + gemini_sensor \<times> store \<times> sensor_action list" where
  "handle_received [] sn st = Inr (sn, st, [])"
| "handle_received ((i, _) # as) sn st =
     (case (fg_infos (usb_group sn) ! unat i, fg_datas (usb_group sn) ! unat i) of
        (Some info, Some ptr) \<Rightarrow>
          (case map_of (id_profiles sn) (uint (fi_frame_id info)) of
             Some (Some p) \<Rightarrow>
               bind_result (alloc_filled EXT_VIDEO_FRAME (unat (fi_data_size info))
                   (new_extension\<lparr>fe_index := ucast (fi_index info), fe_speed := port_speed (sn_port sn)\<rparr>)
                   (load_video (sn_id sn) (Some p) (fg_timestamp (usb_group sn)) (sn_buffer sn) ptr info)
                   (sn_source sn) st)
                 (\<lambda>(r, st1).
                    bind_result (handle_received as sn st1) (\<lambda>(sn', st2, acts).
                      Inr (sn', st2, (case r of None \<Rightarrow> [] | Some a \<Rightarrow> [Sensor_dispatch a]) @ acts)))
           | Some None \<Rightarrow> handle_received as sn st
           | None \<Rightarrow> handle_received as
               (sn\<lparr>id_profiles := omap_put (uint (fi_frame_id info)) None (id_profiles sn)\<rparr>) st)
      | _ \<Rightarrow> Inl (Undefined ''null frame info or data''))"

definition handle_received_frames ::
    "gemini_sensor \<Rightarrow> store \<Rightarrow> se_error + gemini_sensor \<times> store \<times> sensor_action list" where
  "handle_received_frames sn st = handle_received (active_infos sn) sn st"

text \<open>A successful read: time stamp, data pointers, frames.\<close>

definition handle_packet ::
    "gemini_sensor \<Rightarrow> store \<Rightarrow> se_error + gemini_sensor \<times> store \<times> sensor_action list" where
  "handle_packet sn st =
     bind_result (read_at pack_head_size 8 (sn_buffer sn)) (\<lambda>ts.
       handle_received_frames
         (sn\<lparr>usb_group := set_datas (active_infos sn) (pack_head_size + 8)
               ((usb_group sn)\<lparr>fg_timestamp := sint (u64_of ts)\<rparr>)\<rparr>) st)"

text \<open>
  One iteration of the thread.  After more than 25 failed reads in a row each failure resets
  the hardware and marks the device invalid; the next success marks it valid again.
\<close>

definition stream_iter ::
    "'s gemini \<Rightarrow> u8 list \<Rightarrow> gemini_sensor \<Rightarrow> store \<Rightarrow> 's
      \<Rightarrow> (se_error + gemini_sensor \<times> store \<times> 's \<times> sensor_action list) option" where
  "stream_iter g junk sn st s =
     (case stream_read g junk (sn_buffer sn) s of
        None \<Rightarrow> None
      | Some (Inl e) \<Rightarrow> Some (Inl e)
      | Some (Inr (ret, buf, s1)) \<Rightarrow>
          Some (let sn1 = sn\<lparr>sn_buffer := buf\<rparr>
            in if ret \<noteq> 0
               then let sn2 = sn1\<lparr>missing_cnt := missing_cnt sn1 + 1\<rparr>
                    in if kMissingFrameThreshold < missing_cnt sn2
                       then bind_result (hardwareReset g s1) (\<lambda>s2. Inr (sn2, st, s2, [Set_valid False]))
                       else Inr (sn2, st, s1, [])
               else bind_result (handle_packet (sn1\<lparr>missing_cnt := 0\<rparr>) st) (\<lambda>(sn3, st3, acts).
                      Inr (sn3, st3, s1, (if 0 < missing_cnt sn1 then [Set_valid True] else []) @ acts))))"

text \<open>\<open>sendOpenCamCommand\<close> of the serial port's watchdog.\<close>

definition sendOpenCamCommand :: "'s gemini \<Rightarrow> 's \<Rightarrow> se_error + 's" where
  "sendOpenCamCommand g s =
     bind_result (control_transfer_in g OPEN_CAM 0 (Some (replicate pack_head_size 0)) (of_nat pack_head_size) s)
       (\<lambda>(_, _, s'). Inr s')"

section \<open>The frame group\<close>

definition infos_size :: "(u32 \<times> frame_info) list \<Rightarrow> nat" where
  "infos_size as = sum_list (map (\<lambda>(i, fi). unat (fi_data_size fi)) as)"

lemma infos_size_simps [simp]:
  "infos_size [] = 0" "infos_size ((i, fi) # as) = unat (fi_data_size fi) + infos_size as"
  by (simp_all add: infos_size_def)

text \<open>
  The group of an opened sensor: every active info is at its index and the total is the sum of
  the sizes, modulo the width.
\<close>

definition group_ok :: "(u32 \<times> frame_info) list \<Rightarrow> frame_group \<Rightarrow> bool" where
  "group_ok as fg \<longleftrightarrow> omap_ok as \<and> length (fg_infos fg) = kGroupSlots \<and> length (fg_datas fg) = kGroupSlots
     \<and> (\<forall>(i, fi)\<in>set as. unat i < kGroupSlots \<and> fi_index fi = i \<and> fg_infos fg ! unat i = Some fi)
     \<and> fg_count fg = int (length as) \<and> fg_total fg = of_nat (infos_size as)"

lemma fst_unat_notin:
  "distinct (map fst ((i :: u32, x) # as)) \<Longrightarrow> unat i \<notin> unat ` fst ` set as"
  by (auto simp: image_iff word_unat_eq_iff [symmetric])

lemma fill_group_ok:
  assumes "fill_group as fg = Inr fg'" and "distinct (map fst as)" and "length (fg_infos fg) = kGroupSlots"
  shows "length (fg_infos fg') = kGroupSlots \<and> fg_datas fg' = fg_datas fg
    \<and> (\<forall>(i, fi)\<in>set as. unat i < kGroupSlots \<and> fg_infos fg' ! unat i = Some fi)
    \<and> (\<forall>n. n \<notin> unat ` fst ` set as \<longrightarrow> fg_infos fg' ! n = fg_infos fg ! n)
    \<and> fg_count fg' = fg_count fg + int (length as) \<and> fg_total fg' = fg_total fg + of_nat (infos_size as)"
  using assms
proof (induction as arbitrary: fg)
  case Nil
  then show ?case by simp
next
  case (Cons a as)
  obtain i fi where a: "a = (i, fi)" by (cases a)
  have i: "unat i < kGroupSlots" using Cons.prems(1) a by (auto split: if_splits)
  let ?fg = "fg\<lparr>fg_count := fg_count fg + 1, fg_total := fg_total fg + fi_data_size fi,
    fg_infos := (fg_infos fg)[unat i := Some fi]\<rparr>"
  have f: "fill_group as ?fg = Inr fg'" using Cons.prems(1) a i by simp
  have ni: "unat i \<notin> unat ` fst ` set as"
    using Cons.prems(2) unfolding a by (rule fst_unat_notin)
  from Cons.IH [OF f] Cons.prems(2,3) a have ih:
    "length (fg_infos fg') = kGroupSlots" "fg_datas fg' = fg_datas fg"
    "\<forall>(i, fi)\<in>set as. unat i < kGroupSlots \<and> fg_infos fg' ! unat i = Some fi"
    "\<And>n. n \<notin> unat ` fst ` set as \<Longrightarrow> fg_infos fg' ! n = (fg_infos fg)[unat i := Some fi] ! n"
    "fg_count fg' = fg_count fg + 1 + int (length as)"
    "fg_total fg' = fg_total fg + fi_data_size fi + of_nat (infos_size as)" by simp_all
  from ih(4) [OF ni] i Cons.prems(3) have "fg_infos fg' ! unat i = Some fi" by simp
  with ih i a show ?case by (auto simp: nth_list_update add.assoc)
qed

lemma select_infos_ok:
  "omap_ok (select_infos ids fis) \<and> (\<forall>(i, fi)\<in>set (select_infos ids fis). fi_index fi = i)"
proof -
  have "omap_ok (fold (\<lambda>fi. omap_put (fi_index fi) fi) xs m)
      \<and> (\<forall>(i, fi)\<in>set (fold (\<lambda>fi. omap_put (fi_index fi) fi) xs m). fi_index fi = i)"
    if "omap_ok m" "\<forall>(i, fi)\<in>set m. fi_index fi = i" for xs m
    using that
  proof (induction xs arbitrary: m)
    case Nil
    then show ?case by simp
  next
    case (Cons x xs)
    have "\<forall>(i, fi)\<in>set (omap_put (fi_index x) x m). fi_index fi = i"
    proof clarify
      fix i fi assume "(i, fi) \<in> set (omap_put (fi_index x) x m)"
      then have "map_of (omap_put (fi_index x) x m) i = Some fi"
        using Cons.prems(1) distinct_omap [OF omap_put_ok [OF Cons.prems(1)]] by simp
      then have "((map_of m)(fi_index x \<mapsto> x)) i = Some fi"
        by (simp add: map_of_omap_put [OF Cons.prems(1)])
      then show "fi_index fi = i"
        using Cons.prems(2) by (auto split: if_splits dest: map_of_SomeD)
    qed
    then show ?case using Cons.IH [of "omap_put (fi_index x) x m"] Cons.prems(1) by simp
  qed
  from this [of "[]"] show ?thesis by (simp add: select_infos_def)
qed

lemma open_group_ok:
  assumes "fill_group (select_infos ids fis) new_group = Inr fg"
  shows "group_ok (select_infos ids fis) fg"
proof -
  have d: "distinct (map fst (select_infos ids fis))" using select_infos_ok distinct_omap by blast
  have l: "length (fg_infos new_group) = kGroupSlots" by (simp add: new_group_def)
  from fill_group_ok [OF assms d l] select_infos_ok [of ids fis] show ?thesis
    by (fastforce simp: group_ok_def new_group_def)
qed

text \<open>The pointers of the active frames, in order, from \<open>p\<close> on.\<close>

fun ptrs_ok :: "(u32 \<times> frame_info) list \<Rightarrow> nat \<Rightarrow> frame_group \<Rightarrow> bool" where
  "ptrs_ok [] p fg = True"
| "ptrs_ok ((i, fi) # as) p fg =
     (fg_infos fg ! unat i = Some fi \<and> fg_datas fg ! unat i = Some p
      \<and> ptrs_ok as (p + unat (fi_data_size fi)) fg)"

lemma ptrs_ok_upd:
  "n \<notin> unat ` fst ` set as \<Longrightarrow> ptrs_ok as p (fg\<lparr>fg_datas := (fg_datas fg)[n := x]\<rparr>) = ptrs_ok as p fg"
  by (induction as p fg rule: ptrs_ok.induct) auto

lemma set_datas_other:
  "n \<notin> unat ` fst ` set as \<Longrightarrow> fg_datas (set_datas as p fg) ! n = fg_datas fg ! n"
  by (induction as p fg rule: set_datas.induct) (auto split: option.splits)

lemma set_datas_keeps [simp]:
  "fg_infos (set_datas as p fg) = fg_infos fg" "fg_timestamp (set_datas as p fg) = fg_timestamp fg"
  "length (fg_datas (set_datas as p fg)) = length (fg_datas fg)"
  by (induction as p fg rule: set_datas.induct) (auto split: option.splits)

lemma set_datas_ptrs:
  assumes "distinct (map fst as)" "length (fg_datas fg) = kGroupSlots"
    and "\<forall>(i, fi)\<in>set as. unat i < kGroupSlots \<and> fg_infos fg ! unat i = Some fi"
  shows "ptrs_ok as p (set_datas as p fg)"
  using assms
proof (induction as arbitrary: p fg)
  case Nil
  then show ?case by simp
next
  case (Cons a as)
  obtain i fi where a: "a = (i, fi)" by (cases a)
  let ?fg = "fg\<lparr>fg_datas := (fg_datas fg)[unat i := Some p]\<rparr>"
  have ni: "unat i \<notin> unat ` fst ` set as"
    using Cons.prems(1) unfolding a by (rule fst_unat_notin)
  have i: "unat i < kGroupSlots" "fg_infos fg ! unat i = Some fi" using Cons.prems(3) a by auto
  have "ptrs_ok as (p + unat (fi_data_size fi)) (set_datas as (p + unat (fi_data_size fi)) ?fg)"
    using Cons.prems a by (intro Cons.IH) auto
  moreover have "fg_datas (set_datas as (p + unat (fi_data_size fi)) ?fg) ! unat i = Some p"
    using set_datas_other [OF ni, of "p + unat (fi_data_size fi)" ?fg] i(1) Cons.prems(2) by simp
  ultimately show ?case using a i by simp
qed

section \<open>Cutting a packet into frames\<close>

definition raw_image :: "frame_info \<Rightarrow> u8 list \<Rightarrow> u8 list" where
  "raw_image fi raw = (if with_embeddedline (fi_frame_id fi) then drop embedded_size raw else raw)"

definition raw_ok :: "u32 \<times> frame_info \<Rightarrow> u8 list \<Rightarrow> bool" where
  "raw_ok e raw \<longleftrightarrow> length raw = unat (fi_data_size (snd e))
     \<and> (with_embeddedline (fi_frame_id (snd e)) \<longrightarrow> embedded_size \<le> length raw)"

text \<open>What a delivered frame must hold.\<close>

definition video_of :: "nat \<Rightarrow> stream_profile \<Rightarrow> int \<Rightarrow> frame_info \<Rightarrow> u8 list \<Rightarrow> frame \<Rightarrow> bool" where
  "video_of sid p ts fi raw f \<longleftrightarrow> fr_payload f = Bytes (raw_image fi raw) \<and> fr_profile f = Some p
     \<and> fr_sensor f = Some sid \<and> fe_timestamp (fr_ext f) = double_of ts \<and> fe_index (fr_ext f) = ucast (fi_index fi)
     \<and> fr_dims f = (uint (fi_width fi), uint (fi_height fi), getBppByFormat (uint (fi_format fi)), 0)
     \<and> (with_embeddedline (fi_frame_id fi) \<longrightarrow> fe_metadata_blob (fr_ext f) = take embedded_size raw)"

lemma read_at_mid [simp]:
  "n \<le> length xs \<Longrightarrow> read_at (length pre) n (pre @ xs) = Inr (take n xs)"
  "m + n \<le> length xs \<Longrightarrow> read_at (length pre + m) n (pre @ xs) = Inr (take n (drop m xs))"
  by (simp_all add: read_at_def)

lemma embedded_diff:
  "embedded_size \<le> unat (w :: u32) \<Longrightarrow> unat (w - of_nat embedded_size) = unat w - embedded_size"
  by (simp add: embedded_size_def unat_sub word_le_nat_alt)

lemmas load_video_setters = frame_load_data_def frame_set_sensor_def frame_set_profile_def
  frame_set_domain_def frame_set_timestamp_def

lemma load_video_ok:
  assumes "raw_ok (i, fi) raw" "fe_index (fr_ext f) = ucast (fi_index fi)"
  shows "\<exists>g. load_video sid (Some p) ts (pre @ raw @ rest) (length pre) fi f = Inr g \<and> video_of sid p ts fi raw g"
proof (cases "with_embeddedline (fi_frame_id fi)")
  case True
  then have r: "unat (fi_data_size fi - of_nat embedded_size) = length raw - embedded_size" "embedded_size \<le> length raw"
    using assms(1) by (simp_all add: raw_ok_def embedded_diff)
  then have "read_at (length pre + embedded_size) (unat (fi_data_size fi - of_nat embedded_size)) (pre @ raw @ rest)
      = Inr (drop embedded_size raw)"
    by simp
  moreover have "read_at (length pre) embedded_size (pre @ raw @ rest) = Inr (take embedded_size raw)"
    using r(2) by simp
  ultimately show ?thesis
    using True assms(2) by (simp add: load_video_def video_of_def raw_image_def load_video_setters)
next
  case False
  moreover have "read_at (length pre) (unat (fi_data_size fi)) (pre @ raw @ rest) = Inr raw"
    using assms(1) by (simp add: raw_ok_def)
  ultimately show ?thesis
    using assms(2) by (simp add: load_video_def video_of_def raw_image_def load_video_setters)
qed

lemma load_video_keeps:
  "children f = [] \<Longrightarrow> load_video sid p ts buf ptr fi f = Inr g \<Longrightarrow>
     children g = [] \<and> ref_count g = ref_count f \<and> fixed g = fixed f \<and> kept g = kept f"
  by (auto simp: load_video_def Let_def bind_result_Inr load_video_setters children_def split: if_splits)

lemma load_video_within:
  "load_video sid p ts buf ptr fi f = Inr g \<Longrightarrow> ptr + unat (fi_data_size fi) \<le> length buf"
proof (cases "with_embeddedline (fi_frame_id fi) \<and> unat (fi_data_size fi) < embedded_size")
  case True
  have "unat (fi_data_size fi) \<le> embedded_size + unat (fi_data_size fi - of_nat embedded_size)"
    using True by simp
  then show "load_video sid p ts buf ptr fi f = Inr g \<Longrightarrow> ptr + unat (fi_data_size fi) \<le> length buf"
    by (auto simp: load_video_def Let_def bind_result_Inr read_at_def split: if_splits)
next
  case False
  then have "with_embeddedline (fi_frame_id fi) \<Longrightarrow>
      embedded_size + unat (fi_data_size fi - of_nat embedded_size) = unat (fi_data_size fi)"
    using embedded_diff [of "fi_data_size fi"] by simp
  then show "load_video sid p ts buf ptr fi f = Inr g \<Longrightarrow> ptr + unat (fi_data_size fi) \<le> length buf"
    by (auto simp: load_video_def Let_def bind_result_Inr read_at_def split: if_splits)
qed

text \<open>
  The whole list of active infos over a buffer that holds their raw frames from \<open>pre\<close> on: each
  frame is delivered with its own bytes unless its allocation is refused; what was in the store
  stays.
\<close>

lemma handle_received_ok:
  assumes "frames_ok st X" "source_within (sn_source sn) st"
    and "map_of (src_archives (sn_source sn)) EXT_VIDEO_FRAME = Some (Some k)"
    and "list_all2 raw_ok as raws" "ptrs_ok as (length pre) (usb_group sn)"
    and "sn_buffer sn = pre @ concat raws @ rest"
    and "\<forall>(i, fi)\<in>set as. map_of (id_profiles sn) (uint (fi_frame_id fi)) = Some (Some (prof fi))"
  shows "\<exists>st' rs. handle_received as sn st = Inr (sn, st', map Sensor_dispatch (somes rs))
    \<and> length rs = length as \<and> frames_ok st' (X + mset (somes rs))
    \<and> (\<forall>a f. look st a = Some f \<longrightarrow> look st' a = Some f)
    \<and> (\<forall>j<length as. \<forall>a. rs ! j = Some a \<longrightarrow>
         (\<exists>f. look st' a = Some f
            \<and> video_of (sn_id sn) (prof (snd (as ! j))) (fg_timestamp (usb_group sn)) (snd (as ! j)) (raws ! j) f))"
  using assms(1,2,4-7)
proof (induction as arbitrary: raws pre st X)
  case Nil
  then show ?case by (intro exI [of _ st] exI [of _ "[]"]) simp
next
  case (Cons e as)
  obtain i fi where e: "e = (i, fi)" by (cases e)
  obtain raw raws' where r: "raws = raw # raws'" "raw_ok (i, fi) raw" "list_all2 raw_ok as raws'"
    using Cons.prems(3) e by (cases raws) auto
  let ?ext = "new_extension\<lparr>fe_index := ucast (fi_index fi), fe_speed := port_speed (sn_port sn)\<rparr>"
  let ?load = "load_video (sn_id sn) (Some (prof fi)) (fg_timestamp (usb_group sn)) (sn_buffer sn) (length pre) fi"
  have buf: "sn_buffer sn = pre @ raw @ concat raws' @ rest" using Cons.prems(5) r(1) by simp
  have ld: "\<exists>g. ?load f = Inr g \<and> video_of (sn_id sn) (prof fi) (fg_timestamp (usb_group sn)) fi raw g"
    if "fr_ext f = ?ext" for f
    unfolding buf using r(2) that by (intro load_video_ok [of i]) auto
  have k: "\<exists>q st1. alloc_filled EXT_VIDEO_FRAME (unat (fi_data_size fi)) ?ext ?load (sn_source sn) st = Inr (q, st1)"
    using ld by (intro alloc_filled_succeeds [OF Cons.prems(1,2) assms(3)]) blast
  then obtain q st1 where
    al: "alloc_filled EXT_VIDEO_FRAME (unat (fi_data_size fi)) ?ext ?load (sn_source sn) st = Inr (q, st1)" by blast
  have keeps: "\<And>f g. children f = [] \<Longrightarrow> ?load f = Inr g \<Longrightarrow> children g = [] \<and> ref_count g = ref_count f
      \<and> fixed g = fixed f \<and> kept g = kept f"
    by (rule load_video_keeps)
  from alloc_filled_ok [OF Cons.prems(1,2) keeps al] have st1:
    "frames_ok st1 (X + opt_addr q)" "length st1 = length st"
    "case q of None \<Rightarrow> st1 = st
       | Some a \<Rightarrow> a \<notin># X \<and> (\<exists>f g. ?load f = Inr g \<and> look st1 = (look st)(a \<mapsto> g) \<and> look st a = None
           \<and> children f = [] \<and> fr_ext f = ?ext \<and> fr_items f = [])" by blast+
  have ext: "\<And>a f. look st a = Some f \<Longrightarrow> look st1 a = Some f"
    using st1(3) by (auto split: option.splits)
  have w: "source_within (sn_source sn) st1" using Cons.prems(2) st1(2) by (simp add: source_within_def)
  have p: "ptrs_ok as (length (pre @ raw)) (usb_group sn)" "fg_infos (usb_group sn) ! unat i = Some fi"
    "fg_datas (usb_group sn) ! unat i = Some (length pre)"
    using Cons.prems(4) e r(2) by (simp_all add: raw_ok_def)
  have "sn_buffer sn = (pre @ raw) @ concat raws' @ rest" using buf by simp
  from Cons.IH [OF st1(1) w r(3) p(1) this] Cons.prems(6) obtain st' rs where ih:
    "handle_received as sn st1 = Inr (sn, st', map Sensor_dispatch (somes rs))"
    "length rs = length as" "frames_ok st' (X + opt_addr q + mset (somes rs))"
    "\<And>a f. look st1 a = Some f \<Longrightarrow> look st' a = Some f"
    "\<And>j a. j < length as \<Longrightarrow> rs ! j = Some a \<Longrightarrow> (\<exists>f. look st' a = Some f
       \<and> video_of (sn_id sn) (prof (snd (as ! j))) (fg_timestamp (usb_group sn)) (snd (as ! j)) (raws' ! j) f)"
    by auto
  have hd: "\<exists>f. look st' a = Some f \<and> video_of (sn_id sn) (prof fi) (fg_timestamp (usb_group sn)) fi raw f"
    if qa: "q = Some a" for a
  proof -
    obtain f g where "?load f = Inr g" "look st1 = (look st)(a \<mapsto> g)" "fr_ext f = ?ext"
      using st1(3) qa by auto
    with ld ih(4) [of a g] show ?thesis by fastforce
  qed
  have "handle_received (e # as) sn st = Inr (sn, st', map Sensor_dispatch (somes (q # rs)))"
    using e p al ih(1) Cons.prems(6) by (cases q) auto
  moreover have "frames_ok st' (X + mset (somes (q # rs)))"
    using ih(3) by (cases q) (simp_all add: add.commute add.left_commute)
  moreover have "\<exists>f. look st' a = Some f \<and> video_of (sn_id sn) (prof (snd ((e # as) ! j)))
      (fg_timestamp (usb_group sn)) (snd ((e # as) ! j)) (raws ! j) f"
    if "j < length (e # as)" "(q # rs) ! j = Some a" for j a
    using that hd ih(5) e r(1) by (cases j) auto
  ultimately show ?case
    using ih(2,4) ext by (intro exI [of _ st'] exI [of _ "q # rs"]) auto
qed

section \<open>The states of the sensor\<close>

text \<open>The calls that can change the sensor; the stream thread runs while it streams.\<close>

inductive sensor_step :: "'s gemini \<Rightarrow> gemini_sensor \<Rightarrow> gemini_sensor \<Rightarrow> bool" for g where
  s_open: "sensor_open g rq sn st s = Inr (sn', st', s', acts) \<Longrightarrow> sensor_step g sn sn'"
| s_close: "sensor_close sn = Inr (sn', acts) \<Longrightarrow> sensor_step g sn sn'"
| s_start: "sensor_start cb sn = (r, sn', acts) \<Longrightarrow> sensor_step g sn sn'"
| s_stop: "sensor_stop sn = (r, sn', acts) \<Longrightarrow> sensor_step g sn sn'"
| s_iter: "is_streaming sn \<Longrightarrow> stream_iter g junk sn st s = Some (Inr (sn', st', s', acts)) \<Longrightarrow> sensor_step g sn sn'"

inductive_cases sensor_stepE: "sensor_step g sn sn'"

definition sensor_ok :: "gemini_sensor \<Rightarrow> bool" where
  "sensor_ok sn \<longleftrightarrow> (is_streaming sn \<longrightarrow> is_opened sn) \<and> (is_opened sn \<longrightarrow> group_ok (active_infos sn) (usb_group sn))"

lemma group_ok_datas [simp]:
  "group_ok as (set_datas bs p fg) = group_ok as fg" "group_ok as (fg\<lparr>fg_timestamp := t\<rparr>) = group_ok as fg"
proof -
  have "fg_count (set_datas bs p fg) = fg_count fg \<and> fg_total (set_datas bs p fg) = fg_total fg"
    by (induction bs p fg rule: set_datas.induct) (auto split: option.splits)
  then show "group_ok as (set_datas bs p fg) = group_ok as fg" by (simp add: group_ok_def)
qed (simp add: group_ok_def)

lemma handle_received_keeps:
  "handle_received as sn st = Inr (sn', st', acts) \<Longrightarrow>
     active_infos sn' = active_infos sn \<and> usb_group sn' = usb_group sn \<and> is_opened sn' = is_opened sn
     \<and> is_streaming sn' = is_streaming sn \<and> sn_buffer sn' = sn_buffer sn"
proof (induction as arbitrary: sn st acts)
  case Nil
  then show ?case by simp
next
  case (Cons e as)
  obtain i fi where e: "e = (i, fi)" by (cases e)
  obtain info ptr where ip: "fg_infos (usb_group sn) ! unat i = Some info" "fg_datas (usb_group sn) ! unat i = Some ptr"
    using Cons.prems e by (auto split: option.splits)
  consider "map_of (id_profiles sn) (uint (fi_frame_id info)) = None"
    | "map_of (id_profiles sn) (uint (fi_frame_id info)) = Some None"
    | p where "map_of (id_profiles sn) (uint (fi_frame_id info)) = Some (Some p)"
    by (metis not_None_eq)
  then show ?case
  proof cases
    case 1
    then show ?thesis using Cons.IH Cons.prems e ip by fastforce
  next
    case 2
    then show ?thesis using Cons.IH Cons.prems e ip by simp
  next
    case 3
    then show ?thesis using Cons.IH Cons.prems e ip by (auto simp: bind_result_Inr)
  qed
qed

lemma sensor_ok_step: "sensor_step g sn sn' \<Longrightarrow> sensor_ok sn \<Longrightarrow> sensor_ok sn'"
proof (erule sensor_stepE)
  fix rq st s st' s' acts
  assume "sensor_open g rq sn st s = Inr (sn', st', s', acts)" "sensor_ok sn"
  then show "sensor_ok sn'"
    by (auto simp: sensor_open_def Let_def bind_result_Inr sensor_ok_def open_group_ok split: if_splits)
next
  fix acts
  assume "sensor_close sn = Inr (sn', acts)" "sensor_ok sn"
  then show "sensor_ok sn'" by (auto simp: sensor_close_def sensor_ok_def split: if_splits)
next
  fix cb r acts
  assume "sensor_start cb sn = (r, sn', acts)" "sensor_ok sn"
  then show "sensor_ok sn'"
    by (auto simp: sensor_start_def startStream_def Let_def sensor_ok_def split: if_splits)
next
  fix r acts
  assume "sensor_stop sn = (r, sn', acts)" "sensor_ok sn"
  then show "sensor_ok sn'" by (auto simp: sensor_stop_def sensor_ok_def split: if_splits)
next
  fix junk st s st' s' acts
  assume st: "is_streaming sn" "sensor_ok sn"
    and it: "stream_iter g junk sn st s = Some (Inr (sn', st', s', acts))"
  have "active_infos sn' = active_infos sn \<and> is_opened sn' = is_opened sn \<and> is_streaming sn' = is_streaming sn
    \<and> group_ok (active_infos sn) (usb_group sn') = group_ok (active_infos sn) (usb_group sn)"
    using it by (auto simp: stream_iter_def Let_def bind_result_Inr handle_packet_def handle_received_frames_def
        dest!: handle_received_keeps split: option.splits sum.splits if_splits)
  with st show "sensor_ok sn'" by (simp add: sensor_ok_def)
qed

lemma sensor_ok_reach: "(sensor_step g)\<^sup>*\<^sup>* sn sn' \<Longrightarrow> sensor_ok sn \<Longrightarrow> sensor_ok sn'"
  by (induction rule: rtranclp_induct) (auto intro: sensor_ok_step)

text \<open>What can be delivered is what fits: the last frame ends inside the buffer.\<close>

lemma handle_received_fits:
  assumes "handle_received as sn st = Inr (sn', st', acts)" "ptrs_ok as p (usb_group sn)"
  shows "length acts \<le> length as \<and> (length acts = length as \<and> as \<noteq> [] \<longrightarrow> p + infos_size as \<le> length (sn_buffer sn))"
  using assms
proof (induction as arbitrary: p sn st acts)
  case Nil
  then show ?case by simp
next
  case (Cons e as)
  obtain i fi where e: "e = (i, fi)" by (cases e)
  have ip: "fg_infos (usb_group sn) ! unat i = Some fi" "fg_datas (usb_group sn) ! unat i = Some p"
    "ptrs_ok as (p + unat (fi_data_size fi)) (usb_group sn)" using Cons.prems(2) e by simp_all
  show ?case
  proof (cases "map_of (id_profiles sn) (uint (fi_frame_id fi))")
    case None
    let ?sn = "sn\<lparr>id_profiles := omap_put (uint (fi_frame_id fi)) None (id_profiles sn)\<rparr>"
    have "handle_received as ?sn st = Inr (sn', st', acts)" using Cons.prems(1) e ip None by simp
    from Cons.IH [OF this] ip(3) have "length acts \<le> length as" by simp
    then show ?thesis by simp
  next
    case (Some pf)
    show ?thesis
    proof (cases pf)
      case None
      then have "handle_received as sn st = Inr (sn', st', acts)" using Cons.prems(1) e ip Some by simp
      from Cons.IH [OF this ip(3)] show ?thesis by simp
    next
      case pr: (Some pr)
      let ?load = "load_video (sn_id sn) (Some pr) (fg_timestamp (usb_group sn)) (sn_buffer sn) p fi"
      obtain r st1 acts1 where r: "alloc_filled EXT_VIDEO_FRAME (unat (fi_data_size fi))
          (new_extension\<lparr>fe_index := ucast (fi_index fi), fe_speed := port_speed (sn_port sn)\<rparr>) ?load (sn_source sn) st
            = Inr (r, st1)"
        "handle_received as sn st1 = Inr (sn', st', acts1)"
        "acts = (case r of None \<Rightarrow> [] | Some a \<Rightarrow> [Sensor_dispatch a]) @ acts1"
        using Cons.prems(1) e ip Some pr by (auto simp: bind_result_Inr)
      from Cons.IH [OF r(2) ip(3)] have ih: "length acts1 \<le> length as"
        "length acts1 = length as \<Longrightarrow> as \<noteq> [] \<Longrightarrow> p + unat (fi_data_size fi) + infos_size as \<le> length (sn_buffer sn)"
        by auto
      have "\<exists>f g. ?load f = Inr g" if "r \<noteq> None"
        using r(1) that alloc_filled_loaded by (metis not_None_eq)
      then have "p + unat (fi_data_size fi) \<le> length (sn_buffer sn)" if "r \<noteq> None"
        using that load_video_within by blast
      then show ?thesis using ih r(3) e by (cases r; cases as) auto
    qed
  qed
qed

text \<open>A packet that holds the raw frames of the active infos is received with its pointers in place.\<close>

lemma packet_received:
  assumes "group_ok (active_infos sn) (usb_group sn)" "length head = pack_head_size"
    "sn_buffer sn = head @ u64_bytes ts @ concat raws @ rest"
  obtains sn' where "handle_packet sn st = handle_received (active_infos sn) sn' st"
    "sn' = sn\<lparr>usb_group := set_datas (active_infos sn) (pack_head_size + 8) ((usb_group sn)\<lparr>fg_timestamp := sint ts\<rparr>)\<rparr>"
    "ptrs_ok (active_infos sn) (length (head @ u64_bytes ts)) (usb_group sn')"
    "sn_buffer sn' = (head @ u64_bytes ts) @ concat raws @ rest" "fg_timestamp (usb_group sn') = sint ts"
proof -
  let ?g = "(usb_group sn)\<lparr>fg_timestamp := sint ts\<rparr>"
  let ?sn = "sn\<lparr>usb_group := set_datas (active_infos sn) (pack_head_size + 8) ?g\<rparr>"
  have "read_at pack_head_size 8 (sn_buffer sn) = Inr (u64_bytes ts)"
    using read_at_mid(1) [of 8 "u64_bytes ts @ concat raws @ rest" head] assms(2,3) by simp
  then have h: "handle_packet sn st = handle_received (active_infos sn) ?sn st"
    by (simp add: handle_packet_def handle_received_frames_def)
  have "ptrs_ok (active_infos sn) (pack_head_size + 8) (set_datas (active_infos sn) (pack_head_size + 8) ?g)"
    using assms(1) by (intro set_datas_ptrs) (auto simp: group_ok_def distinct_omap)
  then have "ptrs_ok (active_infos sn) (length (head @ u64_bytes ts)) (usb_group ?sn)"
    using assms(2) by simp
  then show thesis using h assms(3) by (intro that [of ?sn]) simp_all
qed

section \<open>Properties\<close>

text \<open>
  Over a buffer that holds a whole packet: one video frame for each active info whose allocation is not
  refused, and no earlier frame changes.
\<close>

lemma packet_cut:
  assumes "frames_ok st X" and "source_within (sn_source sn) st"
    and "map_of (src_archives (sn_source sn)) EXT_VIDEO_FRAME = Some (Some k)"
    and "group_ok (active_infos sn) (usb_group sn)" and "list_all2 raw_ok (active_infos sn) raws"
    and "length head = pack_head_size" and "sn_buffer sn = head @ u64_bytes ts @ concat raws @ rest"
    and "\<forall>(i, fi)\<in>set (active_infos sn). map_of (id_profiles sn) (uint (fi_frame_id fi)) = Some (Some (prof fi))"
  shows "\<exists>sn' st' rs. handle_packet sn st = Inr (sn', st', map Sensor_dispatch (somes rs))
    \<and> length rs = length (active_infos sn) \<and> frames_ok st' (X + mset (somes rs))
    \<and> (\<forall>a f. look st a = Some f \<longrightarrow> look st' a = Some f)
    \<and> (\<forall>j<length (active_infos sn). \<forall>a. rs ! j = Some a \<longrightarrow>
         (\<exists>f. look st' a = Some f
            \<and> video_of (sn_id sn) (prof (snd (active_infos sn ! j))) (sint ts) (snd (active_infos sn ! j)) (raws ! j) f))"
proof -
  obtain sn1 where h: "handle_packet sn st = handle_received (active_infos sn) sn1 st"
    and sn1: "sn1 = sn\<lparr>usb_group := set_datas (active_infos sn) (pack_head_size + 8) ((usb_group sn)\<lparr>fg_timestamp := sint ts\<rparr>)\<rparr>"
    and p: "ptrs_ok (active_infos sn) (length (head @ u64_bytes ts)) (usb_group sn1)"
    and b: "sn_buffer sn1 = (head @ u64_bytes ts) @ concat raws @ rest" and t: "fg_timestamp (usb_group sn1) = sint ts"
    using packet_received [OF assms(4,6,7)] .
  have "source_within (sn_source sn1) st" "map_of (src_archives (sn_source sn1)) EXT_VIDEO_FRAME = Some (Some k)"
    "\<forall>(i, fi)\<in>set (active_infos sn). map_of (id_profiles sn1) (uint (fi_frame_id fi)) = Some (Some (prof fi))"
    and id: "sn_id sn1 = sn_id sn"
    using assms(2,3,8) by (simp_all add: sn1)
  from handle_received_ok [OF assms(1) this(1,2) assms(5) p b this(3)] show ?thesis
    unfolding h t id by blast
qed

definition tiny_info :: frame_info where
  "tiny_info = \<lparr>fi_frame_id = 64, fi_format = 0, fi_data_size = 10, fi_width = 10, fi_height = 1, fi_index = 3\<rparr>"

definition tiny_sensor :: "u8 list \<Rightarrow> gemini_sensor" where
  "tiny_sensor buf = (new_sensor 7 (new_port 1 None))\<lparr>active_infos := [(3, tiny_info)],
     id_profiles := [(64, Some (info_profile 5 tiny_info))],
     usb_group := new_group\<lparr>fg_count := 1, fg_total := 10, fg_infos := (replicate 15 None)[3 := Some tiny_info]\<rparr>,
     sn_source := (new_source 256)\<lparr>src_archives := [(EXT_VIDEO_FRAME, Some 0)]\<rparr>, sn_buffer := buf,
     is_opened := True\<rparr>"

lemma tiny_group: "group_ok (active_infos (tiny_sensor buf)) (usb_group (tiny_sensor buf))"
  by (simp add: group_ok_def tiny_sensor_def tiny_info_def new_group_def kGroupSlots_def)


lemma tiny_group_simps:
  "fg_infos (usb_group (tiny_sensor buf)) ! 3 = Some tiny_info"
  "length (fg_datas (usb_group (tiny_sensor buf))) = 15"
  "uint (fi_frame_id tiny_info) = 64"
  "map_of (id_profiles (tiny_sensor buf)) 64 = Some (Some (info_profile 5 tiny_info))"
  by (simp_all add: tiny_sensor_def tiny_info_def new_group_def kGroupSlots_def)

definition full_store :: store where
  "full_store = [(new_archive 1)\<lparr>published_count := 1\<rparr>]"

lemma full_store_refuses:
  "source_alloc_frame EXT_VIDEO_FRAME n ext True (sn_source (tiny_sensor buf)) full_store = Inr (None, full_store)"
  by (simp add: source_alloc_frame_def tiny_sensor_def alloc_and_track_def full_store_def publish_frame_def new_archive_def)


text \<open>C22: Whatever calls are made in whatever order, a streaming sensor is opened, and an opened
  sensor's frame group is consistent: each active info stands at its own index and the total is
  the sum of the sizes.\<close>

theorem sensor_states_ok:
  assumes "(sensor_step g)\<^sup>*\<^sup>* sn0 sn" and "\<not> is_opened sn0" "\<not> is_streaming sn0"
  shows "(is_streaming sn \<longrightarrow> is_opened sn) \<and> (is_opened sn \<longrightarrow> group_ok (active_infos sn) (usb_group sn))"
  using sensor_ok_reach [OF assms(1)] assms(2,3) by (auto simp: sensor_ok_def)

theorem sensor_states_ok_witness:
  "\<not> (is_streaming (new_sensor 7 (new_port 1 None)) \<and> \<not> is_opened (new_sensor 7 (new_port 1 None)))"
proof -
  let ?sn = "new_sensor 7 (new_port 1 None)"
  have "sensor_stop ?sn = (Inl (Runtime_error ''stop(...) failed. Gemini device is not streaming!''),
      ?sn, [Dispatcher_flush, Dispatcher_stop])"
    by (simp add: sensor_stop_def new_sensor_def)
  then have "sensor_step dead_gemini ?sn ?sn"
    by (rule s_stop)
  then have "(sensor_step dead_gemini)\<^sup>*\<^sup>* ?sn ?sn" by (rule r_into_rtranclp)
  from sensor_states_ok [OF this] show ?thesis by (simp add: new_sensor_def)
qed

lemma archives_set_sensor_Inr:
  "None \<notin> snd ` set as \<Longrightarrow> \<exists>st'. archives_set_sensor sn as st = Inr st'"
  by (induction sn as st rule: archives_set_sensor.induct) auto

lemma source_add_archives:
  "source_add tys s st = Inr (s', st') \<Longrightarrow> None \<notin> snd ` set (src_archives s) \<Longrightarrow> omap_ok (src_archives s) \<Longrightarrow>
     None \<notin> snd ` set (src_archives s')"
proof (induction tys arbitrary: s st)
  case Nil
  then show ?case by simp
next
  case (Cons ty tys)
  let ?s = "s\<lparr>src_archives := omap_put ty (Some (length st)) (src_archives s)\<rparr>"
  obtain A where "source_add tys ?s (st @ [A]) = Inr (s', st')"
    using Cons.prems(1) by (auto simp: bind_result_Inr)
  moreover have "None \<notin> snd ` set (src_archives ?s)"
    using snd_omap_put [OF Cons.prems(3), of ty "Some (length st)"] Cons.prems(2) by auto
  ultimately show ?case using Cons.IH Cons.prems(3) by auto
qed

text \<open>When the device refuses the frame ids, \<open>open\<close> reports nothing: it returns normally, with
  the sensor not opened, and only the \<open>start\<close> that follows fails, after it has started the
  dispatcher.\<close>

theorem sensor_open_failure_silent:
  assumes "\<not> is_opened sn" "\<not> is_streaming sn" "src_archives (sn_source sn) = []"
    and "\<And>idx mem s. \<exists>e m s'. control_transfer_in g SET_FRAME_IDS idx (Some mem) (of_nat BUFFER_SIZE) s
           = Inr (e, m, s') \<and> e < 0"
  shows "\<exists>sn' st' s'. sensor_open g rq sn st s = Inr (sn', st', s', []) \<and> \<not> is_opened sn'
    \<and> sensor_start cb sn' = (Inl (Runtime_error ''start(...) failed. Gemini device was not opened!''), sn', [Dispatcher_start])"
proof -
  obtain src st1 where src: "source_init (sn_source sn) st = Inr (src, st1)"
    using source_init_Inr [of "sn_source sn" st] assms(3) by auto
  have "None \<notin> snd ` set (src_archives src)"
    using source_add_archives src [unfolded source_init_def] assms(3) by fastforce
  from archives_set_sensor_Inr [OF this] obtain st2 where
    st2: "source_set_sensor (Some (sn_id sn)) src st1 = Inr st2" by (auto simp: source_set_sensor_def)
  obtain e m s' where "control_transfer_in g SET_FRAME_IDS
      (sint (requested_ids (filter (\<lambda>p. fid_and (sp_frame_id p) kNecessaryFrameIds \<noteq> 0) rq)))
      (Some (replicate BUFFER_SIZE 0)) (of_nat BUFFER_SIZE) s = Inr (e, m, s')" "e < 0"
    using assms(4) by blast
  then show ?thesis
    using assms(1,2) src st2 by (simp add: sensor_open_def Let_def sensor_start_def)
qed

theorem sensor_open_failure_silent_witness:
  "\<exists>sn' st' s'. sensor_open dead_gemini [] (new_sensor 7 (new_port 1 None)) [] () = Inr (sn', st', s', [])
    \<and> \<not> is_opened sn'
    \<and> sensor_start None sn' = (Inl (Runtime_error ''start(...) failed. Gemini device was not opened!''), sn', [Dispatcher_start])"
  by (rule sensor_open_failure_silent)
    (simp_all add: new_sensor_def new_source_def control_transfer_in_def control_transfer_def dead_gemini_def
      put_bytes_def write_at_def)

section \<open>Reading the capabilities\<close>

definition info_bytes :: "frame_info \<Rightarrow> u8 list" where
  "info_bytes fi = u16_bytes (fi_frame_id fi) @ u16_bytes (fi_format fi) @ u32_bytes (fi_data_size fi)
     @ u16_bytes (fi_width fi) @ u16_bytes (fi_height fi) @ u32_bytes (fi_index fi)"

lemma u16_of_bytes [simp]: "u16_of (u16_bytes w) = w"
proof -
  have "unat w < 2 ^ 16" using unsigned_less [of w] by simp
  then show ?thesis by (simp add: u16_of_def u16_bytes_def le_val_bytes)
qed

lemma frame_info_of_bytes: "frame_info_of (info_bytes fi) = fi" "length (info_bytes fi) = 16"
  by (simp_all add: frame_info_of_def info_bytes_def)

text \<open>The capabilities the device reports are read back field by field: an answer whose head
  counts the infos that follow it gives exactly those infos, in order, whatever follows them in
  the buffer.\<close>

theorem frame_caps_roundtrip:
  assumes "length head = pack_head_size" "head_state head = int (length fis)"
  shows "parse_infos (head @ concat (map info_bytes fis) @ rest) = Inr fis"
proof -
  let ?m = "head @ concat (map info_bytes fis) @ rest"
  have t: "take 2 (drop 10 ?m) = take 2 (drop 10 head)"
    using assms(1) by (simp add: pack_head_size_def)
  have hs: "head_state ?m = int (length fis)"
    unfolding head_state_def t by (rule assms(2) [unfolded head_state_def])
  have "read_items (length head) 16 (length (map info_bytes fis)) ?m = Inr (map info_bytes fis)"
    by (rule read_items_concat) (auto simp: frame_info_of_bytes)
  with assms(1) hs show ?thesis
    by (simp add: parse_infos_def frame_info_of_bytes comp_def)
qed

theorem frame_caps_roundtrip_witness:
  "parse_infos (replicate 10 0 @ [1, 0] @ info_bytes tiny_info @ [9]) = Inr [tiny_info]"
  using frame_caps_roundtrip [of "replicate 10 0 @ [1, 0]" "[tiny_info]" "[9]"]
  by (simp add: pack_head_size_def head_state_def)

section \<open>The two waiting loops\<close>

text \<open>
  \<open>gives g cmd as mem s\<close>: asked again and again for \<open>cmd\<close> with the response buffer \<open>mem\<close>, the device
  answers \<open>as\<close>, each a status with the buffer and the device state after it.  An answer that the loops do
  not accept is a refusal.
\<close>

fun gives :: "'s gemini \<Rightarrow> int \<Rightarrow> (usb_status \<times> u8 list \<times> 's) list \<Rightarrow> u8 list \<Rightarrow> 's \<Rightarrow> bool" where
  "gives g cmd [] mem s = True"
| "gives g cmd ((ret, mem', s') # as) mem s =
     (control_transfer_in g cmd 0 (Some mem) (of_nat BUFFER_SIZE) s = Inr (ret, Some mem', s')
       \<and> gives g cmd as mem' s')"

definition open_refused :: "usb_status \<times> u8 list \<times> 's \<Rightarrow> bool" where
  "open_refused = (\<lambda>(ret, mem, _). ret \<noteq> SE2_USB_STATUS_SUCCESS \<or> head_state mem \<noteq> 0)"

definition cap_refused :: "usb_status \<times> u8 list \<times> 's \<Rightarrow> bool" where
  "cap_refused = (\<lambda>(ret, mem, _). ret \<noteq> SE2_USB_STATUS_SUCCESS \<or> head_state mem < 0)"

lemma wait_open_cam_accepted:
  "gives g OPEN_CAM (as @ [(SE2_USB_STATUS_SUCCESS, mem1, s1)]) mem s \<Longrightarrow> list_all open_refused as \<Longrightarrow>
   head_state mem1 = 0 \<Longrightarrow> wait_open_cam g mem s = Some (Inr (mem1, s1))"
proof (induction as arbitrary: mem s)
  case Nil
  then show ?case by (subst wait_open_cam.simps) simp
next
  case (Cons a as)
  obtain ret mem' s' where a: "a = (ret, mem', s')" by (cases a)
  from Cons.prems have "wait_open_cam g mem' s' = Some (Inr (mem1, s1))"
    unfolding a by (intro Cons.IH) simp_all
  then show ?case using Cons.prems unfolding a
    by (subst wait_open_cam.simps) (simp add: open_refused_def)
qed

lemma wait_frame_cap_accepted:
  "gives g QUERY_FRAME_CAP (as @ [(SE2_USB_STATUS_SUCCESS, mem1, s1)]) mem s \<Longrightarrow> list_all cap_refused as \<Longrightarrow>
   0 \<le> head_state mem1 \<Longrightarrow> wait_frame_cap g mem s = Some (Inr (mem1, s1))"
proof (induction as arbitrary: mem s)
  case Nil
  then show ?case by (subst wait_frame_cap.simps) simp
next
  case (Cons a as)
  obtain ret mem' s' where a: "a = (ret, mem', s')" by (cases a)
  from Cons.prems have "wait_frame_cap g mem' s' = Some (Inr (mem1, s1))"
    unfolding a by (intro Cons.IH) simp_all
  then show ?case using Cons.prems unfolding a
    by (subst wait_frame_cap.simps) (simp add: cap_refused_def)
qed

lemma wait_open_cam_returned:
  fixes g :: "'s gemini"
  assumes "wait_open_cam g mem s = Some y"
  shows "\<exists>n. \<forall>as. length as = n \<and> gives g OPEN_CAM as mem s \<longrightarrow> \<not> list_all open_refused as"
proof (rule wait_open_cam.raw_induct [where P = "\<lambda>g mem s y. \<exists>n. \<forall>as. length as = n
    \<and> gives g OPEN_CAM as mem s \<longrightarrow> \<not> list_all open_refused as", OF _ assms])
  fix rec and g :: "'s gemini" and mem s y
  assume ih: "\<And>g mem s y. rec g mem s = Some y \<Longrightarrow> \<exists>n. \<forall>as. length as = n
      \<and> gives (g :: 's gemini) OPEN_CAM as mem s \<longrightarrow> \<not> list_all open_refused as"
    and step: "(case control_transfer_in g OPEN_CAM 0 (Some mem) (of_nat BUFFER_SIZE) s of
        Inl e \<Rightarrow> Some (Inl e)
      | Inr r \<Rightarrow>
          (case r of (ret, mem', s') \<Rightarrow>
             if ret \<noteq> SE2_USB_STATUS_SUCCESS \<or> head_state (the mem') \<noteq> 0
             then rec g (the mem') s'
             else Some (Inr (the mem', s')))) = Some y"
  show "\<exists>n. \<forall>as. length as = n \<and> gives g OPEN_CAM as mem s \<longrightarrow> \<not> list_all open_refused as"
  proof (cases "\<exists>ret mem' s'. control_transfer_in g OPEN_CAM 0 (Some mem) (of_nat BUFFER_SIZE) s = Inr (ret, Some mem', s')
      \<and> (ret \<noteq> SE2_USB_STATUS_SUCCESS \<or> head_state mem' \<noteq> 0)")
    case True
    then obtain ret mem' s' where t:
      "control_transfer_in g OPEN_CAM 0 (Some mem) (of_nat BUFFER_SIZE) s = Inr (ret, Some mem', s')"
      "ret \<noteq> SE2_USB_STATUS_SUCCESS \<or> head_state mem' \<noteq> 0" by blast
    then have "rec g mem' s' = Some y" using step by auto
    from ih [OF this] obtain n where
      n: "\<forall>as. length as = n \<and> gives g OPEN_CAM as mem' s' \<longrightarrow> \<not> list_all open_refused as" by (rule exE)
    then show ?thesis using t(1) by (intro exI [of _ "Suc n"]) (auto simp: length_Suc_conv)
  next
    case False
    then show ?thesis by (intro exI [of _ 1]) (auto simp: length_Suc_conv open_refused_def)
  qed
qed

lemma wait_open_cam_never:
  assumes "\<And>n. \<exists>as. length as = n \<and> gives g OPEN_CAM as mem s \<and> list_all open_refused as"
  shows "wait_open_cam g mem s = None"
  using wait_open_cam_returned [of g mem s] assms by (cases "wait_open_cam g mem s") blast+

end
