(* ===== verification/Device_Registry.thy ===== *)
theory Device_Registry
  imports Usb_Device Small_Heap "HOL-Library.Char_ord" "HOL-Library.List_Lexorder"
begin

text \<open>
  Which devices the library sees: the polling watcher of \<open>src/device/backend.h\<close> and
  \<open>backend.cc\<close>, the context that turns USB descriptions into device infos and tells its
  clients about changes (\<open>context.cc\<close>, \<open>gemini/gemini_info.cc\<close>), and the
  hub that waits for a device and creates it (\<open>device_hub.cc\<close>).

  The list of USB devices at a poll is an input: it is what the enumeration of
  \<open>Usb_Device\<close> answers then.  A device info is an object with an address, since the code
  compares infos by pointer in one place and by content in another.
\<close>

section \<open>Comparing lists of devices\<close>

definition usb_info_eq :: "usb_info \<Rightarrow> usb_info \<Rightarrow> bool" where
  "usb_info_eq a b \<longleftrightarrow> ui_vid a = ui_vid b \<and> ui_pid a = ui_pid b"

definition listChanged :: "('a \<Rightarrow> 'a \<Rightarrow> bool) \<Rightarrow> 'a list \<Rightarrow> 'a list \<Rightarrow> bool" where
  "listChanged eq list1 list2 \<longleftrightarrow>
     length list1 \<noteq> length list2 \<or> \<not> list_all (\<lambda>dev1. list_ex (eq dev1) list2) list1"

record device_group =
  usb_devices :: "usb_info list"
  playback_devices :: "string list"

definition group_eq :: "device_group \<Rightarrow> device_group \<Rightarrow> bool" where
  "group_eq g g' \<longleftrightarrow> \<not> listChanged usb_info_eq (usb_devices g) (usb_devices g')
     \<and> \<not> listChanged (=) (playback_devices g) (playback_devices g')"

section \<open>Device infos\<close>

text \<open>
  An info for a camera, for a playback file, or for a device that exists already
  (\<open>ReadonlyDeviceInfo\<close>, with the group of the device); the first component is the address of the
  object.  The file name of every playback device is empty.
\<close>

datatype device_info =
    Gemini_info (info_addr: nat) usb_info
  | Playback_info (info_addr: nat)
  | Readonly_info (info_addr: nat) device_group

fun getDeviceData :: "device_info \<Rightarrow> device_group" where
  "getDeviceData (Gemini_info _ u) = \<lparr>usb_devices = [u], playback_devices = []\<rparr>"
| "getDeviceData (Playback_info _) = \<lparr>usb_devices = [], playback_devices = ['''']\<rparr>"
| "getDeviceData (Readonly_info _ g) = g"

definition device_info_eq :: "device_info \<Rightarrow> device_info \<Rightarrow> bool" where
  "device_info_eq a b = group_eq (getDeviceData a) (getDeviceData b)"

definition GEMINI_IDVENDOR :: u16 where "GEMINI_IDVENDOR = 0xF525"
definition GEMINI_IDPRODUCT :: u16 where "GEMINI_IDPRODUCT = 0xC4A0"

definition is_gemini :: "usb_info \<Rightarrow> bool" where
  "is_gemini u \<longleftrightarrow> ui_vid u = GEMINI_IDVENDOR \<and> ui_pid u = GEMINI_IDPRODUCT"

text \<open>\<open>pickup\<close> stops at the first match; the new info gets the address \<open>a\<close>.\<close>

definition pickup :: "nat \<Rightarrow> usb_info list \<Rightarrow> device_info list" where
  "pickup a usb_infos = (case List.find is_gemini usb_infos of None \<Rightarrow> [] | Some u \<Rightarrow> [Gemini_info a u])"

definition SE_PRODUCT_GEMINI :: "32 word" where "SE_PRODUCT_GEMINI = 0x01"
definition SE_PRODUCT_ANY :: "32 word" where "SE_PRODUCT_ANY = 0xFF"

text \<open>The playback map holds weak pointers: \<open>None\<close> is one that has expired.\<close>

definition live_playback :: "(string \<times> device_info option) list \<Rightarrow> device_info list" where
  "live_playback pb = List.map_filter snd pb"

definition createDevices ::
    "nat \<Rightarrow> usb_info list \<Rightarrow> (string \<times> device_info option) list \<Rightarrow> 32 word \<Rightarrow> device_info list" where
  "createDevices a usb_infos pb prod_mask =
     (if prod_mask AND SE_PRODUCT_GEMINI \<noteq> 0 then pickup a usb_infos else []) @ live_playback pb"

text \<open>\<open>subtractSets\<close> compares the pointers.\<close>

definition subtractSets :: "device_info list \<Rightarrow> device_info list \<Rightarrow> device_info list" where
  "subtractSets first second = filter (\<lambda>d. \<not> list_ex (\<lambda>n. info_addr d = info_addr n) second) first"

section \<open>The context\<close>

text \<open>
  Callbacks are kept in a map with descending ids, so that the newest is called first; a callback
  is the number of its function, \<open>None\<close> the null pointer.  Ids come from a 64 bit counter.
\<close>

record device_watcher =
  discovered :: "usb_info list"
  inflight :: callbacks_heap
  running :: bool

record se_context =
  watcher :: device_watcher
  playback_map :: "(string \<times> device_info option) list"
  change_callbacks :: "(nat \<times> nat) list"
  last_id :: nat
  next_addr :: nat

definition new_watcher :: device_watcher where
  "new_watcher = \<lparr>discovered = [], inflight = new_callbacks, running = False\<rparr>"

definition new_context :: se_context where
  "new_context = \<lparr>watcher = new_watcher, playback_map = [], change_callbacks = [], last_id = 0, next_addr = 0\<rparr>"

fun cb_insert :: "nat \<Rightarrow> nat \<Rightarrow> (nat \<times> nat) list \<Rightarrow> (nat \<times> nat) list" where
  "cb_insert i c [] = [(i, c)]"
| "cb_insert i c ((k, d) # xs) =
     (if i < k then (k, d) # cb_insert i c xs else if i = k then (k, d) # xs else (i, c) # (k, d) # xs)"

definition registerDevicesChangedCallback :: "nat option \<Rightarrow> se_context \<Rightarrow> int \<times> se_context" where
  "registerDevicesChangedCallback callback c =
     (case callback of
        None \<Rightarrow> (-1, c)
      | Some f \<Rightarrow> let i = last_id c + 1
                  in (int i, c\<lparr>last_id := i, change_callbacks := cb_insert i f (change_callbacks c)\<rparr>))"

definition unregisterDevicesChangedCallback :: "int \<Rightarrow> se_context \<Rightarrow> se_context" where
  "unregisterDevicesChangedCallback i c =
     c\<lparr>change_callbacks := filter (\<lambda>(k, _). int k \<noteq> i) (change_callbacks c)\<rparr>"

text \<open>
  A call of a user's callback: its function, the removed and the added infos.  What a callback
  throws is caught, so each is called.
\<close>

type_synonym change_event = "nat \<times> device_info list \<times> device_info list"

definition raiseDevicesChanged :: "device_info list \<Rightarrow> device_info list \<Rightarrow> se_context \<Rightarrow> change_event list" where
  "raiseDevicesChanged removed added c = map (\<lambda>(_, f). (f, removed, added)) (change_callbacks c)"

text \<open>The two lists of infos that \<open>onDeviceChanged\<close> builds have new addresses.\<close>

definition onDeviceChanged ::
    "usb_info list \<Rightarrow> usb_info list \<Rightarrow> (string \<times> device_info option) list \<Rightarrow> (string \<times> device_info option) list
      \<Rightarrow> se_context \<Rightarrow> change_event list \<times> se_context" where
  "onDeviceChanged old current old_pb new_pb c =
     (let old_list = createDevices (next_addr c) old old_pb SE_PRODUCT_ANY;
          new_list = createDevices (next_addr c + 1) current new_pb SE_PRODUCT_ANY;
          c' = c\<lparr>next_addr := next_addr c + 2\<rparr>
      in if listChanged device_info_eq old_list new_list
         then (raiseDevicesChanged (subtractSets old_list new_list) (subtractSets new_list old_list) c', c')
         else ([], c'))"

definition queryDevices :: "usb_info list \<Rightarrow> 32 word \<Rightarrow> se_context \<Rightarrow> device_info list \<times> se_context" where
  "queryDevices usb prod_mask c =
     (createDevices (next_addr c) usb (playback_map c) prod_mask, c\<lparr>next_addr := next_addr c + 1\<rparr>)"

definition addPlaybackDevice :: "string \<Rightarrow> se_context \<Rightarrow> device_info option \<times> change_event list \<times> se_context" where
  "addPlaybackDevice name c =
     (case map_of (playback_map c) name of
        Some (Some _) \<Rightarrow> (None, [], c)
      | _ \<Rightarrow>
          let info = Playback_info (next_addr c);
              pb = omap_put name (Some info) (playback_map c);
              (evs, c') = onDeviceChanged [] [] (playback_map c) pb
                            (c\<lparr>playback_map := pb, next_addr := next_addr c + 1\<rparr>)
          in (Some info, evs, c'))"

section \<open>The polling watcher\<close>

text \<open>
  One poll: \<open>slept\<close> is the answer of \<open>trySleep\<close>, \<open>now\<close> what the enumeration
  answers.  The callback runs between the two accesses to the callback counter.
\<close>

definition polling :: "bool \<Rightarrow> usb_info list \<Rightarrow> se_context \<Rightarrow> change_event list \<times> se_context" where
  "polling slept now c =
     (let w = watcher c
      in if slept \<and> listChanged usb_info_eq (discovered w) now
         then case begin_callback (inflight w) of
                (None, _) \<Rightarrow> ([], c)
              | (Some i, h) \<Rightarrow>
                  let (evs, c') = onDeviceChanged (discovered w) now (playback_map c) (playback_map c)
                                    (c\<lparr>watcher := w\<lparr>inflight := h\<rparr>\<rparr>);
                      h' = (case end_callback (Some i) h of Inr h' \<Rightarrow> h' | Inl _ \<Rightarrow> h)
                  in (evs, c'\<lparr>watcher := w\<lparr>discovered := now, inflight := h'\<rparr>\<rparr>)
         else ([], c))"

text \<open>\<open>stop\<close> stops the repeated poll and waits for a callback that is running.\<close>

definition watcher_stop :: "se_context \<Rightarrow> se_context" where
  "watcher_stop c = c\<lparr>watcher := (watcher c)\<lparr>running := False\<rparr>\<rparr>"

definition watcher_start :: "se_context \<Rightarrow> se_context" where
  "watcher_start c = (let c' = watcher_stop c in c'\<lparr>watcher := (watcher c')\<lparr>running := True\<rparr>\<rparr>)"

section \<open>The hub\<close>

text \<open>A device with a matching USB description is put in the list by each of two equal loops.\<close>

definition vid_matches :: "int \<Rightarrow> usb_info \<Rightarrow> bool" where
  "vid_matches vid u \<longleftrightarrow> uint (ui_vid u) = vid \<or> vid = 0"

definition filter_by_vid :: "device_info list \<Rightarrow> int \<Rightarrow> device_info list" where
  "filter_by_vid devices vid =
     concat (map (\<lambda>d. (if list_ex (vid_matches vid) (usb_devices (getDeviceData d)) then [d] else [])
                     @ (if list_ex (vid_matches vid) (usb_devices (getDeviceData d)) then [d] else [])) devices)"

text \<open>\<open>InfoContainer\<close> records nothing.\<close>

definition container_getInfo :: "nat \<Rightarrow> string" where "container_getInfo info = ''''"
definition container_supportsInfo :: "nat \<Rightarrow> bool" where "container_supportsInfo info = False"

definition CAMERA_INFO_SERIAL_NUMBER :: nat where "CAMERA_INFO_SERIAL_NUMBER = 1"

record device_hub =
  hub_list :: "device_info list"
  camera_index :: nat
  hub_vid :: int

text \<open>
  Creating a device is a virtual call with effects on the world \<open>'w\<close>, and so is the end
  of a device that nobody keeps.  What a constructor throws is caught; an \<open>Undefined\<close> is
  not an exception and ends the run.
\<close>

record ('d, 'w) device_factory =
  make_device :: "device_info \<Rightarrow> 'w \<Rightarrow> (se_error + 'd) \<times> 'w"
  drop_device :: "'d \<Rightarrow> 'w \<Rightarrow> 'w"

fun is_exception :: "se_error \<Rightarrow> bool" where
  "is_exception (Undefined _) = False"
| "is_exception _ = True"

fun hub_try ::
    "('d, 'w) device_factory \<Rightarrow> string \<Rightarrow> device_info list \<Rightarrow> 'w \<Rightarrow> (se_error + 'd option) \<times> 'w" where
  "hub_try fac serial [] w = (Inr None, w)"
| "hub_try fac serial (d # ds) w =
     (case make_device fac d w of
        (Inl e, w') \<Rightarrow> if is_exception e then hub_try fac serial ds w' else (Inl e, w')
      | (Inr dev, w') \<Rightarrow>
          if serial = [] \<or> serial = container_getInfo CAMERA_INFO_SERIAL_NUMBER
          then (Inr (Some dev), w')
          else hub_try fac serial ds (drop_device fac dev w'))"

definition hub_order :: "device_hub \<Rightarrow> device_info list" where
  "hub_order h = map (\<lambda>i. hub_list h ! ((camera_index h + i) mod length (hub_list h))) [0..<length (hub_list h)]"

definition hub_createDevice ::
    "('d, 'w) device_factory \<Rightarrow> string \<Rightarrow> bool \<Rightarrow> device_hub \<Rightarrow> 'w \<Rightarrow> (se_error + 'd option) \<times> device_hub \<times> 'w" where
  "hub_createDevice fac serial cycle_devices h w =
     (case hub_try fac serial (hub_order h) w of
        (Inr (Some dev), w') \<Rightarrow>
          (Inr (Some dev),
           if cycle_devices \<and> serial = [] then h\<lparr>camera_index := (camera_index h + 1) mod length (hub_list h)\<rparr> else h, w')
      | (r, w') \<Rightarrow> (r, h, w'))"

text \<open>
  The wait evaluates its predicate at once, whenever the condition variable wakes it, and at
  the end of the time.  Each evaluation is an element of the list: \<open>Some l\<close> when a change
  callback has put \<open>l\<close> in the hub's list before it (and reset the index), \<open>None\<close> otherwise.
\<close>

fun hub_wait ::
    "('d, 'w) device_factory \<Rightarrow> string \<Rightarrow> bool \<Rightarrow> device_info list option list \<Rightarrow> device_hub \<Rightarrow> 'w
      \<Rightarrow> (se_error + 'd) \<times> device_hub \<times> 'w" where
  "hub_wait fac serial cycle_devices [] h w = (Inl (Runtime_error ''No device connected''), h, w)"
| "hub_wait fac serial cycle_devices (ev # evs) h w =
     (let h1 = (case ev of None \<Rightarrow> h | Some l \<Rightarrow> h\<lparr>hub_list := l, camera_index := 0\<rparr>)
      in if hub_list h1 = [] then hub_wait fac serial cycle_devices evs h1 w
         else case hub_createDevice fac serial cycle_devices h1 w of
                (Inl e, h2, w2) \<Rightarrow> (Inl e, h2, w2)
              | (Inr (Some dev), h2, w2) \<Rightarrow> (Inr dev, h2, w2)
              | (Inr None, h2, w2) \<Rightarrow> hub_wait fac serial cycle_devices evs h2 w2)"

definition waitForDevice ::
    "('d, 'w) device_factory \<Rightarrow> device_info list \<Rightarrow> device_info list option list \<Rightarrow> bool \<Rightarrow> string \<Rightarrow> device_hub \<Rightarrow> 'w
      \<Rightarrow> (se_error + 'd) \<times> device_hub \<times> 'w" where
  "waitForDevice fac queried wakeups cycle_devices serial h w =
     hub_wait fac serial cycle_devices (None # None # wakeups @ [None])
       (h\<lparr>hub_list := filter_by_vid queried (hub_vid h)\<rparr>) w"

definition hub_on_changed :: "device_info list \<Rightarrow> device_hub \<Rightarrow> device_hub" where
  "hub_on_changed queried h = h\<lparr>hub_list := filter_by_vid queried (hub_vid h), camera_index := 0\<rparr>"

section \<open>Which devices are seen\<close>

lemma pickup_cases:
  "pickup a us = [] \<and> (\<forall>u\<in>set us. \<not> is_gemini u)
    \<or> (\<exists>u\<in>set us. is_gemini u \<and> pickup a us = [Gemini_info a u])"
proof (cases "List.find is_gemini us")
  case None
  then have "\<forall>u\<in>set us. \<not> is_gemini u" by (auto simp: find_None_iff)
  with None show ?thesis by (simp add: pickup_def)
next
  case (Some u)
  then have "u \<in> set us" "is_gemini u" by (auto simp: find_Some_iff)
  with Some show ?thesis by (auto simp: pickup_def)
qed

lemma any_selects_gemini [simp]: "SE_PRODUCT_ANY AND SE_PRODUCT_GEMINI \<noteq> 0"
  by (simp add: SE_PRODUCT_ANY_def SE_PRODUCT_GEMINI_def)

lemma createDevices_any: "createDevices a us pb SE_PRODUCT_ANY = pickup a us @ live_playback pb"
  by (simp add: createDevices_def)

lemma gemini_infos_eq:
  "is_gemini u \<Longrightarrow> is_gemini v \<Longrightarrow> device_info_eq (Gemini_info a u) (Gemini_info b v)"
  by (simp add: device_info_eq_def group_eq_def listChanged_def usb_info_eq_def is_gemini_def)

lemma device_info_eq_refl [simp]: "device_info_eq d d"
  by (cases d) (auto simp: device_info_eq_def group_eq_def listChanged_def usb_info_eq_def list_all_iff list_ex_iff)

lemma not_listChanged_self: "(\<And>d. eq d d) \<Longrightarrow> \<not> listChanged eq ds ds"
  by (auto simp: listChanged_def list_all_iff list_ex_iff)

lemma infos_changed_iff:
  "listChanged device_info_eq (createDevices a old pb SE_PRODUCT_ANY) (createDevices b now pb SE_PRODUCT_ANY)
    \<longleftrightarrow> (list_ex is_gemini old \<noteq> list_ex is_gemini now)"
proof -
  consider (nn) "\<forall>u\<in>set old. \<not> is_gemini u" "pickup a old = []" "\<forall>u\<in>set now. \<not> is_gemini u" "pickup b now = []"
    | (gn) u where "u \<in> set old" "is_gemini u" "pickup a old = [Gemini_info a u]" "\<forall>u\<in>set now. \<not> is_gemini u" "pickup b now = []"
    | (ng) u where "\<forall>u\<in>set old. \<not> is_gemini u" "pickup a old = []" "u \<in> set now" "is_gemini u" "pickup b now = [Gemini_info b u]"
    | (gg) u v where "u \<in> set old" "is_gemini u" "pickup a old = [Gemini_info a u]"
        "v \<in> set now" "is_gemini v" "pickup b now = [Gemini_info b v]"
    using pickup_cases [of a old] pickup_cases [of b now] by blast
  then show ?thesis
  proof cases
    case nn
    then show ?thesis
      using not_listChanged_self [of device_info_eq "live_playback pb"] by (auto simp: createDevices_any list_ex_iff)
  next
    case gn
    then show ?thesis by (auto simp: createDevices_any listChanged_def list_ex_iff)
  next
    case ng
    then show ?thesis by (auto simp: createDevices_any listChanged_def list_ex_iff)
  next
    case gg
    then have "device_info_eq (Gemini_info a u) (Gemini_info b v)" by (simp add: gemini_infos_eq)
    moreover have "list_ex (device_info_eq d) (live_playback pb)" if "d \<in> set (live_playback pb)" for d
      using that by (auto simp: list_ex_iff intro!: bexI [of _ d])
    ultimately show ?thesis
      using gg by (auto simp: createDevices_any listChanged_def list_ex_iff list_all_iff)
  qed
qed

text \<open>The infos of the playback map keep their addresses, so only the camera can be subtracted.\<close>

definition addrs_below :: "se_context \<Rightarrow> bool" where
  "addrs_below c \<longleftrightarrow> (\<forall>d\<in>set (live_playback (playback_map c)). info_addr d < next_addr c)"

lemma live_playback_subtract:
  "subtractSets (live_playback pb) (ds @ live_playback pb) = []"
  by (simp add: subtractSets_def list_ex_iff filter_empty_conv) blast

lemma subtract_append: "subtractSets (xs @ ys) zs = subtractSets xs zs @ subtractSets ys zs"
  by (simp add: subtractSets_def)

lemma subtract_gemini:
  "(\<forall>d\<in>set zs. info_addr d \<noteq> a) \<Longrightarrow> subtractSets [Gemini_info a u] zs = [Gemini_info a u]"
  by (auto simp: subtractSets_def list_ex_iff)



lemma changed_sets:
  assumes "addrs_below c" "a \<ge> next_addr c" "b \<ge> next_addr c" "a \<noteq> b"
  shows "subtractSets (createDevices a us (playback_map c) SE_PRODUCT_ANY)
           (createDevices b vs (playback_map c) SE_PRODUCT_ANY) = pickup a us"
proof -
  have "info_addr d \<noteq> a" if "d \<in> set (pickup b vs @ live_playback (playback_map c))" for d
    using that assms pickup_cases [of b vs] by (auto simp: addrs_below_def)
  then have ne: "\<forall>d\<in>set (pickup b vs @ live_playback (playback_map c)). info_addr d \<noteq> a" by blast
  have "subtractSets (pickup a us) (pickup b vs @ live_playback (playback_map c)) = pickup a us"
    using pickup_cases [of a us] subtract_gemini [OF ne] by (auto simp: subtractSets_def)
  then show ?thesis by (simp add: createDevices_any subtract_append live_playback_subtract)
qed

lemma onDeviceChanged_events:
  assumes "addrs_below c"
  shows "fst (onDeviceChanged old now (playback_map c) (playback_map c) c) =
     (if list_ex is_gemini old = list_ex is_gemini now then []
      else map (\<lambda>(_, f). (f, pickup (next_addr c) old, pickup (next_addr c + 1) now)) (change_callbacks c))"
proof -
  have s1: "subtractSets (createDevices (next_addr c) old (playback_map c) SE_PRODUCT_ANY)
      (createDevices (Suc (next_addr c)) now (playback_map c) SE_PRODUCT_ANY) = pickup (next_addr c) old"
    and s2: "subtractSets (createDevices (Suc (next_addr c)) now (playback_map c) SE_PRODUCT_ANY)
      (createDevices (next_addr c) old (playback_map c) SE_PRODUCT_ANY) = pickup (Suc (next_addr c)) now"
    using changed_sets [OF assms, of "next_addr c" "Suc (next_addr c)" old now]
      changed_sets [OF assms, of "Suc (next_addr c)" "next_addr c" now old] by simp_all
  show ?thesis by (simp add: onDeviceChanged_def Let_def infos_changed_iff s1 s2 raiseDevicesChanged_def)
qed

section \<open>Hot plugging\<close>

text \<open>The state the polls keep: the counter of running callbacks is free between two polls.\<close>

definition context_ok :: "se_context \<Rightarrow> bool" where
  "context_ok c \<longleftrightarrow> heap_inv (inflight (watcher c)) \<and> heap_used (inflight (watcher c)) = {}
     \<and> keep_allocating (inflight (watcher c)) \<and> length (is_free (inflight (watcher c))) = 1 \<and> addrs_below c"

lemma listChanged_left:
  "u \<in> set old \<Longrightarrow> is_gemini u \<Longrightarrow> \<not> list_ex is_gemini now \<Longrightarrow> listChanged usb_info_eq old now"
  by (auto simp: listChanged_def list_all_iff list_ex_iff usb_info_eq_def is_gemini_def intro!: bexI [of _ u])

lemma begin_callback_free:
  assumes "context_ok c"
  shows "\<exists>h. begin_callback (inflight (watcher c)) = (Some 0, h)"
proof -
  let ?h = "inflight (watcher c)"
  have "length (is_free ?h) = 1" "0 \<notin> heap_used ?h" using assms by (auto simp: context_ok_def)
  then have "is_free ?h = [True]"
    by (cases "is_free ?h") (auto simp: heap_used_def)
  then show ?thesis using assms by (simp add: begin_callback_def heap_allocate_def context_ok_def)
qed

lemma polling_events:
  assumes "context_ok c"
  shows "fst (polling slept now c) =
    (if slept \<and> listChanged usb_info_eq (discovered (watcher c)) now
        \<and> list_ex is_gemini (discovered (watcher c)) \<noteq> list_ex is_gemini now
     then map (\<lambda>(_, f). (f, pickup (next_addr c) (discovered (watcher c)), pickup (next_addr c + 1) now))
            (change_callbacks c)
     else [])"
proof (cases "slept \<and> listChanged usb_info_eq (discovered (watcher c)) now")
  case True
  from begin_callback_free [OF assms] obtain h where h: "begin_callback (inflight (watcher c)) = (Some 0, h)" by blast
  let ?c = "c\<lparr>watcher := (watcher c)\<lparr>inflight := h\<rparr>\<rparr>"
  have "addrs_below ?c" using assms by (simp add: context_ok_def addrs_below_def)
  from onDeviceChanged_events [OF this, of "discovered (watcher c)" now] True h show ?thesis
    by (auto simp: polling_def Let_def split: prod.splits sum.splits)
next
  case False
  then have "polling slept now c = ([], c)" unfolding polling_def Let_def by (rule if_not_P)
  with False show ?thesis by auto
qed

lemma polling_state:
  assumes "context_ok c"
  shows "context_ok (snd (polling slept now c))"
    "discovered (watcher (snd (polling slept now c))) =
       (if slept \<and> listChanged usb_info_eq (discovered (watcher c)) now then now else discovered (watcher c))"
    "change_callbacks (snd (polling slept now c)) = change_callbacks c"
proof -
  have "context_ok (snd (polling slept now c)) \<and> discovered (watcher (snd (polling slept now c))) =
       (if slept \<and> listChanged usb_info_eq (discovered (watcher c)) now then now else discovered (watcher c))
     \<and> change_callbacks (snd (polling slept now c)) = change_callbacks c"
  proof (cases "slept \<and> listChanged usb_info_eq (discovered (watcher c)) now")
    case True
    from begin_callback_free [OF assms] obtain h where h: "begin_callback (inflight (watcher c)) = (Some 0, h)" by blast
    have inv: "heap_inv (inflight (watcher c))" using assms by (simp add: context_ok_def)
    from begin_end_callback [OF inv h] obtain h' where
      h': "end_callback (Some 0) h = Inr h'" "heap_used h' = {}" "heap_inv h'"
      using assms by (auto simp: context_ok_def)
    have "keep_allocating h' \<and> length (is_free h') = 1"
      using h h'(1) assms
      by (auto simp: begin_callback_def heap_allocate_def end_callback_def heap_deallocate_def context_ok_def
          split: if_splits option.splits)
    with True h h' assms show ?thesis
      by (auto simp: polling_def Let_def onDeviceChanged_def context_ok_def addrs_below_def less_Suc_eq)
  next
    case False
    then have "polling slept now c = ([], c)" unfolding polling_def Let_def by (rule if_not_P)
    with False assms show ?thesis by auto
  qed
  then show "context_ok (snd (polling slept now c))"
    "discovered (watcher (snd (polling slept now c))) =
       (if slept \<and> listChanged usb_info_eq (discovered (watcher c)) now then now else discovered (watcher c))"
    "change_callbacks (snd (polling slept now c)) = change_callbacks c" by blast+
qed

text \<open>A camera that arrives is noticed when the known devices are of different models.\<close>

definition model_of :: "usb_info \<Rightarrow> u16 \<times> u16" where
  "model_of u = (ui_vid u, ui_pid u)"

lemma usb_info_eq_model: "usb_info_eq a b \<longleftrightarrow> model_of a = model_of b"
  by (auto simp: usb_info_eq_def model_of_def)

lemma listChanged_arrived:
  assumes "distinct (map model_of old)" "list_ex is_gemini now" "\<not> list_ex is_gemini old"
  shows "listChanged usb_info_eq old now"
proof (rule ccontr)
  assume n: "\<not> listChanged usb_info_eq old now"
  then have len: "length old = length now" by (simp add: listChanged_def)
  from n have sub: "model_of ` set old \<subseteq> model_of ` set now"
    by (auto simp: listChanged_def list_all_iff list_ex_iff usb_info_eq_model)
  have "card (model_of ` set now) \<le> length now"
    using card_length [of "map model_of now"] by simp
  moreover have "card (model_of ` set old) = length old"
    using distinct_card [OF assms(1)] by simp
  moreover have "card (model_of ` set old) \<le> card (model_of ` set now)"
    using sub by (intro card_mono) auto
  ultimately have "card (model_of ` set old) = card (model_of ` set now)" using len by linarith
  then have "model_of ` set old = model_of ` set now"
    using sub by (intro card_subset_eq) auto
  moreover obtain g where "g \<in> set now" "is_gemini g" using assms(2) by (auto simp: list_ex_iff)
  ultimately obtain u where "u \<in> set old" "model_of u = model_of g" by (metis imageE imageI)
  then have "is_gemini u" using \<open>is_gemini g\<close> by (simp add: is_gemini_def model_of_def)
  with \<open>u \<in> set old\<close> assms(3) show False by (auto simp: list_ex_iff)
qed

text \<open>C24: When a poll finds a camera and the poll before found none, or the other way round, every
  registered callback is called exactly once, in the order of the callback map, with the camera as
  added or as removed and nothing else, and the watcher then knows the new devices.  For an arrival the
  devices known before must be of pairwise different models; a camera that comes or goes while another
  one is present is not covered.\<close>

theorem hotplug_reported:
  assumes "context_ok c" "list_ex is_gemini (discovered (watcher c)) \<noteq> list_ex is_gemini now"
    and "list_ex is_gemini now \<longrightarrow> distinct (map model_of (discovered (watcher c)))"
  shows "map fst (fst (polling True now c)) = map snd (change_callbacks c)
    \<and> (\<forall>(f, removed, added)\<in>set (fst (polling True now c)).
         if list_ex is_gemini now then removed = [] \<and> (\<exists>u\<in>set now. \<exists>a. is_gemini u \<and> added = [Gemini_info a u])
         else added = [] \<and> (\<exists>u\<in>set (discovered (watcher c)). \<exists>a. is_gemini u \<and> removed = [Gemini_info a u]))
    \<and> discovered (watcher (snd (polling True now c))) = now"
proof -
  let ?old = "discovered (watcher c)"
  have ch: "listChanged usb_info_eq ?old now"
    using assms(2,3) listChanged_arrived [of ?old now] listChanged_left [of _ ?old now]
    by (cases "list_ex is_gemini now") (auto simp: list_ex_iff)
  have ev: "fst (polling True now c) =
      map (\<lambda>(_, f). (f, pickup (next_addr c) ?old, pickup (next_addr c + 1) now)) (change_callbacks c)"
    using polling_events [OF assms(1), of True now] ch assms(2) by simp
  have no: "\<not> list_ex is_gemini us \<Longrightarrow> pickup a us = []" for a us
    using pickup_cases [of a us] by (auto simp: list_ex_iff)
  have one: "list_ex is_gemini us \<Longrightarrow> \<exists>u\<in>set us. \<exists>b. is_gemini u \<and> pickup a us = [Gemini_info b u]" for a us
    using pickup_cases [of a us] by (auto simp: list_ex_iff)
  have d: "discovered (watcher (snd (polling True now c))) = now"
    using polling_state(2) [OF assms(1), of True now] ch by simp
  show ?thesis
  proof (cases "list_ex is_gemini now")
    case True
    then show ?thesis
      using assms(2) no [of ?old "next_addr c"] one [OF True, of "next_addr c + 1"]
      by (auto simp: ev d comp_def case_prod_beta)
  next
    case False
    then have "list_ex is_gemini ?old" using assms(2) by simp
    with False show ?thesis
      using no [OF False, of "next_addr c + 1"] one [of ?old "next_addr c"]
      by (auto simp: ev d comp_def case_prod_beta)
  qed
qed

definition camera :: usb_info where
  "camera = \<lparr>ui_id = (1, [2], 3), ui_vid = GEMINI_IDVENDOR, ui_pid = GEMINI_IDPRODUCT, ui_mi = 0,
     ui_unique_id = (1, [2], 3), ui_serial = '''', ui_spec = 0x300, ui_class = 0xFF\<rparr>"

definition mouse :: "u8 \<Rightarrow> usb_info" where
  "mouse port = \<lparr>ui_id = (1, [port], 4), ui_vid = 0x046D, ui_pid = 0xC077, ui_mi = 0,
     ui_unique_id = (1, [port], 4), ui_serial = '''', ui_spec = 0x200, ui_class = 3\<rparr>"

lemma camera_simps [simp]: "is_gemini camera" "\<not> is_gemini (mouse p)" "usb_info_eq (mouse p) (mouse q)"
  by (simp_all add: is_gemini_def camera_def mouse_def GEMINI_IDVENDOR_def GEMINI_IDPRODUCT_def usb_info_eq_def)

lemma new_context_ok [simp, intro]: "context_ok new_context"
  by (simp add: context_ok_def new_context_def new_watcher_def new_callbacks_def addrs_below_def live_playback_def
      new_heap_def heap_inv_def heap_used_def List.map_filter_def nth_Cons')

theorem hotplug_reported_witness:
  "map fst (fst (polling True [mouse 1, camera] (snd (registerDevicesChangedCallback (Some 7) new_context)))) = [7]"
proof -
  let ?c = "snd (registerDevicesChangedCallback (Some 7) new_context)"
  have ok: "context_ok ?c"
    using new_context_ok by (simp add: registerDevicesChangedCallback_def context_ok_def addrs_below_def)
  have d: "discovered (watcher ?c) = []" "change_callbacks ?c = [(1, 7)]"
    by (simp_all add: registerDevicesChangedCallback_def new_context_def new_watcher_def)
  show ?thesis using hotplug_reported [OF ok, of "[mouse 1, camera]"] d by simp
qed

text \<open>The comparison of device lists is not symmetric, so an arrival can be missed for good: when
  one of two devices of the same model is exchanged for a camera between two polls, no callback
  runs, and none runs at any later poll while the camera stays.\<close>

theorem hotplug_arrival_missed:
  assumes "discovered (watcher c) = [m, m']" "usb_info_eq m m'" "is_gemini g"
  shows "((\<lambda>c. snd (polling True [m, g] c)) ^^ n) c = c \<and> fst (polling True [m, g] c) = []"
proof -
  have "\<not> listChanged usb_info_eq (discovered (watcher c)) [m, g]"
    using assms(1,2) by (auto simp: listChanged_def usb_info_eq_def)
  then have "polling True [m, g] c = ([], c)" by (simp add: polling_def Let_def)
  then show ?thesis by (induction n) simp_all
qed

theorem hotplug_arrival_missed_witness:
  "fst (polling True [mouse 1, camera] (new_context\<lparr>watcher := new_watcher\<lparr>discovered := [mouse 1, mouse 2]\<rparr>\<rparr>)) = []"
  by (rule conjunct2 [OF hotplug_arrival_missed [where m' = "mouse 2" and n = 0]]) simp_all

section \<open>The hub's devices\<close>

lemma hub_try_serial:
  "serial \<noteq> [] \<Longrightarrow> \<forall>dev w'. hub_try fac serial ds w \<noteq> (Inr (Some dev), w')"
  by (induction fac serial ds w rule: hub_try.induct)
    (auto simp: container_getInfo_def split: sum.splits prod.splits)

lemma hub_create_serial:
  assumes "serial \<noteq> []"
  shows "hub_createDevice fac serial cyc h w \<noteq> (Inr (Some dev), h', w')"
  using hub_try_serial [OF assms, of fac "hub_order h" w]
  by (auto simp: hub_createDevice_def split: sum.splits prod.splits option.splits)

lemma hub_wait_serial:
  "serial \<noteq> [] \<Longrightarrow> is_error (fst (hub_wait fac serial cyc evs h w))"
proof (induction evs arbitrary: h w)
  case Nil
  then show ?case by simp
next
  case (Cons ev evs)
  let ?h = "case ev of None \<Rightarrow> h | Some l \<Rightarrow> h\<lparr>hub_list := l, camera_index := 0\<rparr>"
  obtain r h2 w2 where r: "hub_createDevice fac serial cyc ?h w = (r, h2, w2)" by (metis prod_cases3)
  with hub_create_serial [OF Cons.prems, of fac cyc ?h w] have "\<forall>dev. r \<noteq> Inr (Some dev)" by auto
  with Cons r show ?case by (cases r) (auto simp: Let_def split: option.splits)
qed

text \<open>Waiting for a device by its serial number never finds one, whatever is connected and however
  long it waits, since no device ever records its serial number.\<close>

theorem device_by_serial_never_found:
  assumes "serial \<noteq> []"
  shows "is_error (fst (waitForDevice fac queried wakeups cyc serial h w))"
  using hub_wait_serial [OF assms] by (simp only: waitForDevice_def)

definition one_device :: "(device_info, nat) device_factory" where
  "one_device = \<lparr>make_device = \<lambda>d n. (Inr d, n + 1), drop_device = \<lambda>d n. n\<rparr>"

theorem device_by_serial_never_found_witness:
  "is_error (fst (waitForDevice one_device [Gemini_info 0 camera] [] False ''12345''
     \<lparr>hub_list = [], camera_index = 0, hub_vid = 0\<rparr> 0))"
  by (rule device_by_serial_never_found) simp

text \<open>The hub drops playback devices and lists the camera twice.\<close>

lemma filter_by_vid_append: "filter_by_vid (xs @ ys) v = filter_by_vid xs v @ filter_by_vid ys v"
  by (simp add: filter_by_vid_def)

lemma filter_playback:
  "\<forall>d\<in>set ds. \<exists>n. d = Playback_info n \<Longrightarrow> filter_by_vid ds v = []"
  by (auto simp: filter_by_vid_def)

lemma filter_pickup: "filter_by_vid (pickup a us) 0 = concat (map (\<lambda>d. [d, d]) (pickup a us))"
  using pickup_cases [of a us] by (auto simp: filter_by_vid_def vid_matches_def)

lemma hub_list_twice:
  assumes "\<forall>d\<in>set (live_playback pb). \<exists>n. d = Playback_info n"
  shows "filter_by_vid (createDevices a us pb SE_PRODUCT_ANY) 0 = concat (map (\<lambda>d. [d, d]) (pickup a us))"
  using filter_playback [OF assms] by (simp add: createDevices_any filter_by_vid_append filter_pickup)

lemma hub_order_pair: "hub_list h = [d, d] \<Longrightarrow> hub_order h = [d, d]"
  by (simp add: hub_order_def numeral_2_eq_2 nth_Cons')

lemma hub_wait_found:
  assumes "hub_list h = [d, d]" "make_device fac d w = (Inr dev, w')"
  shows "\<exists>h'. hub_wait fac [] cyc (None # evs) h w = (Inr dev, h', w') \<and> hub_list h' = [d, d]"
  using assms by (simp add: hub_createDevice_def hub_order_pair)

lemma hub_wait_undefined:
  assumes "hub_list h = [d, d]" "make_device fac d w = (Inl (Undefined e), w')"
  shows "hub_wait fac [] cyc (None # evs) h w = (Inl (Undefined e), h, w')"
  using assms by (simp add: hub_createDevice_def hub_order_pair)

text \<open>A camera that is connected is found at the first attempt: waiting without a serial number
  creates the device of the first description with the camera's ids, exactly once, whatever other
  devices and playback files there are.\<close>

theorem hub_finds_camera:
  assumes "list_ex is_gemini us" "\<forall>d\<in>set (live_playback pb). \<exists>n. d = Playback_info n" "hub_vid h = 0"
    and "make_device fac (hd (pickup a us)) w = (Inr dev, w')"
  shows "\<exists>h'. waitForDevice fac (createDevices a us pb SE_PRODUCT_ANY) wakeups cyc '''' h w = (Inr dev, h', w')"
proof -
  obtain u where u: "pickup a us = [Gemini_info a u]"
    using assms(1) pickup_cases [of a us] by (auto simp: list_ex_iff)
  then have "filter_by_vid (createDevices a us pb SE_PRODUCT_ANY) 0 = [Gemini_info a u, Gemini_info a u]"
    using hub_list_twice [OF assms(2)] by simp
  then show ?thesis
    using hub_wait_found [of "h\<lparr>hub_list := [Gemini_info a u, Gemini_info a u]\<rparr>" "Gemini_info a u" fac w dev w'
        cyc "None # wakeups @ [None]"] assms(3,4) u
    by (auto simp: waitForDevice_def)
qed

theorem hub_finds_camera_witness:
  "\<exists>h'. waitForDevice one_device (createDevices 5 [mouse 1, camera] [] SE_PRODUCT_ANY) [] False ''''
      \<lparr>hub_list = [], camera_index = 0, hub_vid = 0\<rparr> 0 = (Inr (Gemini_info 5 camera), h', 1)"
  by (rule hub_finds_camera) (simp_all add: live_playback_def List.map_filter_def one_device_def pickup_def)

end
