(* ===== verification/Pipeline_Config.thy ===== *)
theory Pipeline_Config
  imports Device_Registry Stream_Types "HOL-Library.Product_Lexorder"
begin

text \<open>
  What a pipeline is asked to stream and from which device: \<open>PipelineConfigPrivate\<close> and the
  public \<open>PipelineConfig\<close> (\<open>src/pipeline/pipeline_config.*\<close>), and the profile that a
  resolved configuration gives (\<open>pipeline_profile.*\<close>).

  Sensors are reached through the virtual interface \<open>SensorInterface\<close>, modelled as the
  record \<open>sensor_ops\<close> of its operations on a world \<open>'w\<close>; a sensor is named by its
  address.
\<close>

section \<open>Sensors and devices\<close>

record 'w sensor_ops =
  op_profiles :: "nat \<Rightarrow> int \<Rightarrow> 'w \<Rightarrow> stream_profile list"
  op_active :: "nat \<Rightarrow> 'w \<Rightarrow> stream_profile list"
  op_open :: "nat \<Rightarrow> stream_profile list \<Rightarrow> 'w \<Rightarrow> (se_error + unit) \<times> 'w"
  op_close :: "nat \<Rightarrow> 'w \<Rightarrow> (se_error + unit) \<times> 'w"
  op_start :: "nat \<Rightarrow> nat option \<Rightarrow> 'w \<Rightarrow> (se_error + unit) \<times> 'w"
  op_stop :: "nat \<Rightarrow> 'w \<Rightarrow> (se_error + unit) \<times> 'w"
  op_streaming :: "nat \<Rightarrow> 'w \<Rightarrow> bool"

text \<open>\<open>DevicePrivate\<close>: the address of the device, its description and its sensors.\<close>

record se_device =
  dev_addr :: nat
  dev_group :: device_group
  dev_sensors :: "nat list"

definition getSensor :: "nat \<Rightarrow> se_device \<Rightarrow> se_error + nat" where
  "getSensor i d = (if i < length (dev_sensors d) then Inr (dev_sensors d ! i) else Inl (Runtime_error ''std::exception''))"

definition getSensorCount :: "se_device \<Rightarrow> nat" where
  "getSensorCount d = length (dev_sensors d)"

definition addSensor :: "nat \<Rightarrow> se_device \<Rightarrow> int \<times> se_device" where
  "addSensor s d = (int (length (dev_sensors d)), d\<lparr>dev_sensors := dev_sensors d @ [s]\<rparr>)"

section \<open>MultiStream and profiles\<close>

record multi_stream =
  ms_sensors :: "nat list"
  ms_sensor_profiles :: "(nat \<times> stream_profile list) list"
  ms_all_profiles :: "stream_profile list"

definition new_multi_stream :: "'w sensor_ops \<Rightarrow> se_device \<Rightarrow> 'w \<Rightarrow> multi_stream" where
  "new_multi_stream ops d w =
     \<lparr>ms_sensors = dev_sensors d,
      ms_sensor_profiles = fold (\<lambda>s. omap_put s (op_profiles ops s PROFILE_TAG_ANY w)) (dev_sensors d) [],
      ms_all_profiles = concat (map (\<lambda>s. op_profiles ops s PROFILE_TAG_ANY w) (dev_sensors d))\<rparr>"

text \<open>The loops over the sensors stop at the first operation that throws.\<close>

fun each_do :: "('x \<Rightarrow> 'w \<Rightarrow> (se_error + unit) \<times> 'w) \<Rightarrow> 'x list \<Rightarrow> 'w \<Rightarrow> (se_error + unit) \<times> 'w" where
  "each_do f [] w = (Inr (), w)"
| "each_do f (x # xs) w = (case f x w of (Inl e, w') \<Rightarrow> (Inl e, w') | (Inr _, w') \<Rightarrow> each_do f xs w')"

definition ms_open :: "'w sensor_ops \<Rightarrow> multi_stream \<Rightarrow> 'w \<Rightarrow> (se_error + unit) \<times> 'w" where
  "ms_open ops ms = each_do (\<lambda>(s, ps). op_open ops s ps) (ms_sensor_profiles ms)"

definition ms_close :: "'w sensor_ops \<Rightarrow> multi_stream \<Rightarrow> 'w \<Rightarrow> (se_error + unit) \<times> 'w" where
  "ms_close ops ms = each_do (op_close ops) (ms_sensors ms)"

definition ms_start :: "'w sensor_ops \<Rightarrow> nat option \<Rightarrow> multi_stream \<Rightarrow> 'w \<Rightarrow> (se_error + unit) \<times> 'w" where
  "ms_start ops cb ms = each_do (\<lambda>s. op_start ops s cb) (ms_sensors ms)"

definition ms_stop :: "'w sensor_ops \<Rightarrow> multi_stream \<Rightarrow> 'w \<Rightarrow> (se_error + unit) \<times> 'w" where
  "ms_stop ops ms = each_do (op_stop ops) (ms_sensors ms)"

definition ms_isStreaming :: "'w sensor_ops \<Rightarrow> multi_stream \<Rightarrow> 'w \<Rightarrow> bool" where
  "ms_isStreaming ops ms w = list_ex (\<lambda>s. op_streaming ops s w) (ms_sensors ms)"

record pipeline_profile =
  pp_multi_stream :: multi_stream
  pp_device :: se_device
  pp_to_file :: string

definition new_pipeline_profile :: "'w sensor_ops \<Rightarrow> se_device \<Rightarrow> string \<Rightarrow> 'w \<Rightarrow> pipeline_profile" where
  "new_pipeline_profile ops d to_file w =
     \<lparr>pp_multi_stream = new_multi_stream ops d w, pp_device = d, pp_to_file = to_file\<rparr>"

definition profile_active_streams :: "'w sensor_ops \<Rightarrow> pipeline_profile \<Rightarrow> 'w \<Rightarrow> stream_profile list" where
  "profile_active_streams ops p w = concat (map (\<lambda>s. op_active ops s w) (ms_sensors (pp_multi_stream p)))"

text \<open>\<open>PipelineProfile::getStream\<close> of the public interface.\<close>

definition profile_get_stream ::
    "'w sensor_ops \<Rightarrow> pipeline_profile \<Rightarrow> frame_id \<Rightarrow> int \<Rightarrow> 'w \<Rightarrow> se_error + stream_profile" where
  "profile_get_stream ops p fid index w =
     (case List.find (\<lambda>s. sp_frame_id s = fid \<and> (index = -1 \<or> sp_index s = index)) (profile_active_streams ops p w) of
        None \<Rightarrow> Inl (Runtime_error ''Profile does not contain the requested stream'')
      | Some s \<Rightarrow> Inr s)"

section \<open>The configuration\<close>

record stream_config =
  sc_format :: frame_format
  sc_frame_id :: frame_id
  sc_index :: int
  sc_width :: u32
  sc_height :: u32
  sc_fps :: u32

record pipeline_config =
  req_serial :: string
  req_filename :: string
  req_record_output :: string
  stream_requests :: "((frame_id \<times> int) \<times> stream_config) list"
  all_streams :: bool
  resolved_profile :: "pipeline_profile option"
  playback_loop :: bool

definition new_config :: pipeline_config where
  "new_config = \<lparr>req_serial = '''', req_filename = '''', req_record_output = '''', stream_requests = [],
     all_streams = False, resolved_profile = None, playback_loop = False\<rparr>"

text \<open>The copy constructor keeps everything but the resolved profile.\<close>

definition copy_config :: "pipeline_config \<Rightarrow> pipeline_config" where
  "copy_config conf = conf\<lparr>resolved_profile := None\<rparr>"

definition enableStream ::
    "frame_id \<Rightarrow> int \<Rightarrow> u32 \<Rightarrow> u32 \<Rightarrow> frame_format \<Rightarrow> u32 \<Rightarrow> pipeline_config \<Rightarrow> pipeline_config" where
  "enableStream fid index width height fmt framerate conf =
     conf\<lparr>resolved_profile := None,
       stream_requests := omap_put (fid, index)
         \<lparr>sc_format = fmt, sc_frame_id = fid, sc_index = index, sc_width = width, sc_height = height, sc_fps = framerate\<rparr>
         (stream_requests conf)\<rparr>"

text \<open>The other overloads of the public interface.\<close>

definition enableStream_dims :: "frame_id \<Rightarrow> int \<Rightarrow> int \<Rightarrow> frame_format \<Rightarrow> int \<Rightarrow> pipeline_config \<Rightarrow> pipeline_config" where
  "enableStream_dims fid width height fmt framerate =
     enableStream fid (-1) (of_int width) (of_int height) fmt (of_int framerate)"

definition enableStream_index :: "frame_id \<Rightarrow> int \<Rightarrow> pipeline_config \<Rightarrow> pipeline_config" where
  "enableStream_index fid index = enableStream fid index 0 0 fmt_Any 0"

definition enableStream_format :: "frame_id \<Rightarrow> frame_format \<Rightarrow> int \<Rightarrow> pipeline_config \<Rightarrow> pipeline_config" where
  "enableStream_format fid fmt framerate = enableStream fid (-1) 0 0 fmt (of_int framerate)"

definition enableStream_index_format :: "frame_id \<Rightarrow> int \<Rightarrow> frame_format \<Rightarrow> int \<Rightarrow> pipeline_config \<Rightarrow> pipeline_config" where
  "enableStream_index_format fid index fmt framerate = enableStream fid index 0 0 fmt (of_int framerate)"

definition enableAllStreams :: "pipeline_config \<Rightarrow> pipeline_config" where
  "enableAllStreams conf = conf\<lparr>resolved_profile := None, stream_requests := [], all_streams := True\<rparr>"

definition enableDevice :: "string \<Rightarrow> pipeline_config \<Rightarrow> pipeline_config" where
  "enableDevice serial conf = conf\<lparr>resolved_profile := None, req_serial := serial\<rparr>"

definition enableDeviceFromFile :: "string \<Rightarrow> bool \<Rightarrow> pipeline_config \<Rightarrow> se_error + pipeline_config" where
  "enableDeviceFromFile name repeat_playback conf =
     (if req_record_output conf = ''''
      then Inl (Runtime_error ''Configuring both device from file, and record to file is unsupported'')
      else Inr (conf\<lparr>resolved_profile := None, req_filename := name, playback_loop := repeat_playback\<rparr>))"

definition enableRecordToFile :: "string \<Rightarrow> pipeline_config \<Rightarrow> se_error + pipeline_config" where
  "enableRecordToFile name conf =
     (if req_record_output conf = ''''
      then Inl (Runtime_error ''Configuring both device from file, and record to file is unsupported'')
      else Inr (conf\<lparr>resolved_profile := None, req_filename := name\<rparr>))"

definition disableStream :: "frame_id \<Rightarrow> int \<Rightarrow> pipeline_config \<Rightarrow> pipeline_config" where
  "disableStream fid index conf =
     conf\<lparr>stream_requests := filter (\<lambda>((f, i), _). \<not> (f = fid \<and> (index = -1 \<or> i = index))) (stream_requests conf),
          resolved_profile := None\<rparr>"

definition disableAllStreams :: "pipeline_config \<Rightarrow> pipeline_config" where
  "disableAllStreams conf = conf\<lparr>stream_requests := [], all_streams := False, resolved_profile := None\<rparr>"

definition getCachedResolvedProfile :: "pipeline_config \<Rightarrow> pipeline_profile option" where
  "getCachedResolvedProfile conf = resolved_profile conf"

section \<open>Resolving\<close>

text \<open>A playback device is never made: the function returns null.\<close>

definition getOrAddPlaybackDevice :: "string \<Rightarrow> se_device option" where
  "getOrAddPlaybackDevice name = None"

type_synonym 'w wait_device = "string \<Rightarrow> 'w \<Rightarrow> (se_error + se_device) \<times> 'w"

text \<open>\<open>wait\<close> is the pipeline's \<open>waitForDevice\<close> with the given time.\<close>

definition resolveDeviceRequests ::
    "'w wait_device \<Rightarrow> pipeline_config \<Rightarrow> 'w \<Rightarrow> (se_error + se_device option) \<times> 'w" where
  "resolveDeviceRequests wait conf w =
     (if req_filename conf \<noteq> ''''
      then (case getOrAddPlaybackDevice (req_filename conf) of
              None \<Rightarrow> if req_serial conf \<noteq> '''' then (Inl (Undefined ''null device''), w) else (Inr None, w)
            | Some d \<Rightarrow>
                if req_serial conf = '''' then (Inr (Some d), w)
                else if \<not> container_supportsInfo CAMERA_INFO_SERIAL_NUMBER
                then (Inl (Runtime_error ''File does not contain a device with such serial''), w)
                else if container_getInfo CAMERA_INFO_SERIAL_NUMBER \<noteq> req_serial conf
                then (Inl (Runtime_error ''File contains device with different serial number''), w)
                else (Inr (Some d), w))
      else if req_serial conf \<noteq> ''''
      then (case wait (req_serial conf) w of (Inl e, w') \<Rightarrow> (Inl e, w') | (Inr d, w') \<Rightarrow> (Inr (Some d), w'))
      else (Inr None, w))"

definition getDefaultConfiguration :: "'w sensor_ops \<Rightarrow> se_device \<Rightarrow> 'w \<Rightarrow> stream_profile list" where
  "getDefaultConfiguration ops d w = concat (map (\<lambda>s. op_profiles ops s PROFILE_TAG_DEFAULT w) (dev_sensors d))"

text \<open>
  The profile for a device: the code looks at the requests but builds the same profile in every
  case.
\<close>

definition resolve_device ::
    "'w sensor_ops \<Rightarrow> pipeline_config \<Rightarrow> se_device \<Rightarrow> 'w \<Rightarrow> pipeline_profile" where
  "resolve_device ops conf d w =
     (if all_streams conf then new_pipeline_profile ops d (req_record_output conf) w
      else if stream_requests conf = []
      then (let default_profiles = getDefaultConfiguration ops d w
            in new_pipeline_profile ops d (req_record_output conf) w)
      else new_pipeline_profile ops d (req_record_output conf) w)"

definition resolve_config ::
    "'w sensor_ops \<Rightarrow> 'w wait_device \<Rightarrow> pipeline_config \<Rightarrow> 'w
      \<Rightarrow> (se_error + pipeline_profile) \<times> pipeline_config \<times> 'w" where
  "resolve_config ops wait conf w =
     (let conf0 = conf\<lparr>resolved_profile := None\<rparr>;
          resolved = (\<lambda>d w'. let p = resolve_device ops conf0 d w'
                             in (Inr p, conf0\<lparr>resolved_profile := Some p\<rparr>, w'))
      in case resolveDeviceRequests wait conf0 w of
           (Inl e, w1) \<Rightarrow> (Inl e, conf0, w1)
         | (Inr (Some d), w1) \<Rightarrow> resolved d w1
         | (Inr None, w1) \<Rightarrow>
             (case wait '''' w1 of
                (Inl e, w2) \<Rightarrow> (Inl e, conf0, w2)
              | (Inr d, w2) \<Rightarrow> resolved d w2))"

definition canResolve ::
    "'w sensor_ops \<Rightarrow> 'w wait_device \<Rightarrow> pipeline_config \<Rightarrow> 'w \<Rightarrow> (se_error + bool) \<times> pipeline_config \<times> 'w" where
  "canResolve ops wait conf w =
     (case resolve_config ops wait conf w of
        (Inr _, conf', w') \<Rightarrow> (Inr True, conf'\<lparr>resolved_profile := None\<rparr>, w')
      | (Inl e, conf', w') \<Rightarrow> if is_exception e then (Inr False, conf', w') else (Inl e, conf', w'))"

text \<open>
  \<open>PipelinePrivate::waitForDevice\<close> asks the pipeline's hub, without cycling through the
  devices.  \<open>query\<close> is what the context lists at that moment and \<open>wakes\<close> what the
  wait observes.
\<close>

definition pipeline_waitForDevice ::
    "(se_device, 'w) device_factory \<Rightarrow> ('w \<Rightarrow> device_info list) \<Rightarrow> ('w \<Rightarrow> device_info list option list)
      \<Rightarrow> (device_hub \<times> 'w) wait_device" where
  "pipeline_waitForDevice fac query wakes serial hw =
     (case hw of (h, w) \<Rightarrow>
        (case waitForDevice fac (query w) (wakes w) False serial h w of (r, h', w') \<Rightarrow> (r, (h', w'))))"

section \<open>What a client can configure\<close>

inductive conf_call ::
    "'w sensor_ops \<Rightarrow> 'w wait_device \<Rightarrow> pipeline_config \<Rightarrow> pipeline_config \<Rightarrow> bool"
  for ops wait where
  "conf_call ops wait c (enableStream f i w h fmt r c)"
| "conf_call ops wait c (enableAllStreams c)"
| "conf_call ops wait c (enableDevice s c)"
| "enableDeviceFromFile n rp c = Inr c' \<Longrightarrow> conf_call ops wait c c'"
| "enableRecordToFile n c = Inr c' \<Longrightarrow> conf_call ops wait c c'"
| "conf_call ops wait c (disableStream f i c)"
| "conf_call ops wait c (disableAllStreams c)"
| "conf_call ops wait c (copy_config c)"
| "resolve_config ops wait c w = (r, c', w') \<Longrightarrow> conf_call ops wait c c'"
| "canResolve ops wait c w = (b, c', w') \<Longrightarrow> conf_call ops wait c c'"

inductive_cases conf_callE: "conf_call ops wait c c'"

text \<open>What every call keeps: no file is ever asked for, and the requests are a map.\<close>

definition conf_ok :: "pipeline_config \<Rightarrow> bool" where
  "conf_ok c \<longleftrightarrow> req_filename c = '''' \<and> req_record_output c = '''' \<and> omap_ok (stream_requests c)"

lemma conf_ok_resolved [simp]: "conf_ok (c\<lparr>resolved_profile := p\<rparr>) = conf_ok c"
  by (simp add: conf_ok_def)

lemma omap_ok_filter [simp, intro]: "omap_ok xs \<Longrightarrow> omap_ok (filter P xs)"
  by (auto simp: omap_ok_def sorted_wrt_filter sorted_wrt_map intro: sorted_wrt_filter)

lemma resolve_config_conf:
  "resolve_config ops wait c w = (r, c', w') \<Longrightarrow> \<exists>p. c' = c\<lparr>resolved_profile := p\<rparr>"
  by (auto simp: resolve_config_def Let_def split: prod.splits sum.splits option.splits)

lemma canResolve_conf:
  "canResolve ops wait c w = (b, c', w') \<Longrightarrow> \<exists>p. c' = c\<lparr>resolved_profile := p\<rparr>"
  using resolve_config_conf [of ops wait c w]
  by (auto simp: canResolve_def split: prod.splits sum.splits if_splits)

lemma conf_call_ok: "conf_call ops wait c c' \<Longrightarrow> conf_ok c \<Longrightarrow> conf_ok c'"
proof (erule conf_callE, goal_cases)
  case (9 w r w')
  then show ?case using resolve_config_conf by fastforce
next
  case (10 w b w')
  then show ?case using canResolve_conf by fastforce
qed (auto simp: conf_ok_def enableStream_def enableAllStreams_def enableDevice_def enableDeviceFromFile_def
    enableRecordToFile_def disableStream_def disableAllStreams_def copy_config_def)

lemma conf_reach_ok: "(conf_call ops wait)\<^sup>*\<^sup>* new_config c \<Longrightarrow> conf_ok c"
  by (induction rule: rtranclp_induct) (auto simp: conf_ok_def new_config_def dest: conf_call_ok)

lemma resolve_same_device:
  assumes "conf_ok c" "conf_ok c'" "req_serial c = req_serial c'"
  shows "fst (resolve_config ops wait c w) = fst (resolve_config ops wait c' w)
    \<and> snd (snd (resolve_config ops wait c w)) = snd (snd (resolve_config ops wait c' w))"
  using assms
  by (auto simp: resolve_config_def resolve_device_def resolveDeviceRequests_def Let_def conf_ok_def
      split: prod.splits sum.splits)

text \<open>C38: The streams a configuration asks for make no difference: two configurations that a client
  can build and that name the same device serial resolve to the same profile, with the same
  effects, whatever streams they enable.\<close>

theorem resolve_ignores_stream_requests:
  assumes "(conf_call ops wait)\<^sup>*\<^sup>* new_config c" "(conf_call ops wait)\<^sup>*\<^sup>* new_config c'" "req_serial c = req_serial c'"
  shows "fst (resolve_config ops wait c w) = fst (resolve_config ops wait c' w)
    \<and> snd (snd (resolve_config ops wait c w)) = snd (snd (resolve_config ops wait c' w))"
  using resolve_same_device [OF conf_reach_ok [OF assms(1)] conf_reach_ok [OF assms(2)] assms(3)] .

definition idle_ops :: "'w sensor_ops" where
  "idle_ops = \<lparr>op_profiles = \<lambda>s tag w. [], op_active = \<lambda>s w. [], op_open = \<lambda>s ps w. (Inr (), w),
     op_close = \<lambda>s w. (Inr (), w), op_start = \<lambda>s cb w. (Inr (), w), op_stop = \<lambda>s w. (Inr (), w),
     op_streaming = \<lambda>s w. False\<rparr>"

definition one_camera :: "'w wait_device" where
  "one_camera serial w = (Inr \<lparr>dev_addr = 1, dev_group = \<lparr>usb_devices = [camera], playback_devices = []\<rparr>,
     dev_sensors = [4]\<rparr>, w)"

theorem resolve_ignores_stream_requests_witness:
  "fst (resolve_config idle_ops one_camera (enableStream fid_Disparity 0 640 480 fmt_Any 25 new_config) ())
    = fst (resolve_config idle_ops one_camera new_config ())"
  by (rule conjunct1 [OF resolve_ignores_stream_requests],
      rule r_into_rtranclp, rule conf_call.intros(1), rule rtranclp.rtrancl_refl, simp add: enableStream_def)

text \<open>A configuration that asks for a device by serial number cannot be resolved by a pipeline: the
  wait ends in an error whatever cameras are connected, and \<open>canResolve\<close> never says yes.\<close>

theorem serial_config_never_resolves:
  assumes "(conf_call ops (pipeline_waitForDevice fac query wakes))\<^sup>*\<^sup>* new_config c" "req_serial c \<noteq> ''''"
  shows "is_error (fst (resolve_config ops (pipeline_waitForDevice fac query wakes) c hw))
    \<and> fst (canResolve ops (pipeline_waitForDevice fac query wakes) c hw) \<noteq> Inr True"
proof -
  obtain h w where hw: "hw = (h, w)" by (cases hw)
  obtain r h' w' where r: "waitForDevice fac (query w) (wakes w) False (req_serial c) h w = (r, h', w')"
    by (metis prod_cases3)
  have "is_error r"
    using hub_wait_serial [OF assms(2)] r by (metis fst_conv waitForDevice_def)
  then obtain e where e: "r = Inl e" by (cases r) auto
  have "req_filename c = ''''" using conf_reach_ok [OF assms(1)] by (simp add: conf_ok_def)
  with e r hw assms(2) show ?thesis
    by (simp add: canResolve_def resolve_config_def Let_def resolveDeviceRequests_def pipeline_waitForDevice_def)
qed

definition any_factory :: "(se_device, unit) device_factory" where
  "any_factory = \<lparr>make_device = \<lambda>d w. (Inr \<lparr>dev_addr = info_addr d, dev_group = getDeviceData d, dev_sensors = [1]\<rparr>, w),
     drop_device = \<lambda>d w. w\<rparr>"

theorem serial_config_never_resolves_witness:
  "fst (canResolve idle_ops
      (pipeline_waitForDevice any_factory (\<lambda>w. [Gemini_info 0 camera]) (\<lambda>w. []))
      (enableDevice ''0042'' new_config) (\<lparr>hub_list = [], camera_index = 0, hub_vid = 0\<rparr>, ())) \<noteq> Inr True"
  by (rule conjunct2 [OF serial_config_never_resolves],
      rule r_into_rtranclp, rule conf_call.intros(3), simp add: enableDevice_def)

text \<open>The requests behave as a map from stream and index: disabling removes exactly the entries of
  the stream (of the index, unless that is -1), and every other entry is as it was before,
  with the one just enabled in place.\<close>

theorem stream_requests_map:
  assumes "(conf_call ops wait)\<^sup>*\<^sup>* new_config c"
  shows "map_of (stream_requests (disableStream g j (enableStream f i w h fmt r c))) (f', i') =
     (if f' = g \<and> (j = -1 \<or> i' = j) then None
      else if f' = f \<and> i' = i
      then Some \<lparr>sc_format = fmt, sc_frame_id = f, sc_index = i, sc_width = w, sc_height = h, sc_fps = r\<rparr>
      else map_of (stream_requests c) (f', i'))"
proof -
  have ok: "omap_ok (stream_requests c)" using conf_reach_ok [OF assms] by (simp add: conf_ok_def)
  have "map_of (filter (\<lambda>(k, _). P k) xs) k = (if P k then map_of xs k else None)" for P k
    and xs :: "((frame_id \<times> int) \<times> stream_config) list"
    by (induction xs) auto
  from this [of "\<lambda>(f, i). \<not> (f = g \<and> (j = -1 \<or> i = j))"] show ?thesis
    by (auto simp: disableStream_def enableStream_def map_of_omap_put [OF ok] case_prod_beta')
qed

theorem stream_requests_map_witness:
  "map_of (stream_requests (disableStream fid_Disparity (-1) (enableStream fid_Lane 2 0 0 fmt_Any 0 new_config))) (fid_Lane, 2)
    = Some \<lparr>sc_format = fmt_Any, sc_frame_id = fid_Lane, sc_index = 2, sc_width = 0, sc_height = 0, sc_fps = 0\<rparr>"
  by (subst stream_requests_map [OF rtranclp.rtrancl_refl]) (simp add: fid_defs)

end
