(* ===== verification/Pipeline.thy ===== *)
theory Pipeline
  imports Pipeline_Config Frame_Aggregator Gemini_Sensor
begin

text \<open>
  The pipeline (\<open>src/pipeline/pipeline.*\<close>): it resolves a configuration to the sensors of a
  device, opens and starts them with the frame aggregator as their callback, waits for frames,
  and starts again when the device has gone.

  The world has the frame store as its first part; the rest belongs to the sensors and the hub.
\<close>

section \<open>State\<close>

type_synonym 'x world = "store \<times> 'x"

text \<open>
  What the pipeline calls: the sensors' operations, \<open>waitForDevice\<close> with the five seconds of
  \<open>unsafeStart\<close>, and whether a device is valid.  \<open>pe_output\<close> is the callback
  \<open>getCallback\<close> makes for the sensors, \<open>pe_restart\<close> the function registered for
  device changes.
\<close>

record 'x pipe_env =
  pe_ops :: "'x world sensor_ops"
  pe_wait :: "'x world wait_device"
  pe_valid :: "nat \<Rightarrow> 'x world \<Rightarrow> bool"
  pe_output :: nat
  pe_restart :: nat

record pipeline =
  active_profile :: "pipeline_profile option"
  prev_conf :: "pipeline_config option"
  pl_aggregator :: "aggregator option"
  pl_output :: "nat option"
  streams_callback :: "nat option"
  is_stopping :: bool
  pl_context :: se_context

definition new_pipeline :: "se_context \<Rightarrow> pipeline" where
  "new_pipeline c = \<lparr>active_profile = None, prev_conf = None, pl_aggregator = None, pl_output = None,
     streams_callback = None, is_stopping = False, pl_context = c\<rparr>"

section \<open>Starting\<close>

text \<open>
  One attempt to resolve, and the loop over the attempts; \<open>forced\<close> says before which
  attempts (counted by those that remain) another thread has called \<open>stop(true)\<close> or
  \<open>restart(true)\<close>.  The last attempt throws again what it caught.
\<close>

datatype start_outcome = Resolved pipeline_profile | Forced_stop | Failed se_error

definition start_try ::
    "bool \<Rightarrow> 'x pipe_env \<Rightarrow> pipeline_config \<Rightarrow> bool \<Rightarrow> 'x world \<Rightarrow> start_outcome \<times> pipeline_config \<times> bool \<times> 'x world" where
  "start_try forced env conf stopping w =
     (if stopping \<or> forced then (Forced_stop, conf, False, w)
      else case resolve_config (pe_ops env) (pe_wait env) conf w of
             (Inr p, conf', w') \<Rightarrow> (Resolved p, conf', False, w')
           | (Inl e, conf', w') \<Rightarrow> (Failed e, conf', False, w'))"

fun start_retry ::
    "nat \<Rightarrow> (nat \<Rightarrow> bool) \<Rightarrow> 'x pipe_env \<Rightarrow> pipeline_config \<Rightarrow> bool \<Rightarrow> 'x world
      \<Rightarrow> start_outcome \<times> pipeline_config \<times> bool \<times> 'x world" where
  "start_retry 0 forced env conf stopping w = start_try (forced 0) env conf stopping w"
| "start_retry (Suc k) forced env conf stopping w =
     (case start_try (forced (Suc k)) env conf stopping w of
        (Failed e, conf', stopping', w') \<Rightarrow>
          if is_exception e then start_retry k forced env conf' stopping' w' else (Failed e, conf', stopping', w')
      | r \<Rightarrow> r)"

definition kNumTimesToRetry :: nat where "kNumTimesToRetry = 3000"

definition start_resolve ::
    "(nat \<Rightarrow> bool) \<Rightarrow> 'x pipe_env \<Rightarrow> pipeline_config \<Rightarrow> bool \<Rightarrow> 'x world
      \<Rightarrow> start_outcome \<times> pipeline_config \<times> bool \<times> 'x world" where
  "start_resolve forced env conf stopping w =
     (case getCachedResolvedProfile conf of
        Some p \<Rightarrow> (Resolved p, conf, stopping, w)
      | None \<Rightarrow> start_retry (kNumTimesToRetry - 1) forced env conf stopping w)"

text \<open>An aggregator that is replaced releases its holders.\<close>

definition agg_destroy :: "aggregator option \<Rightarrow> store \<Rightarrow> se_error + store" where
  "agg_destroy ag st =
     (case ag of None \<Rightarrow> Inr st
      | Some a \<Rightarrow> run_release (map Rel (items (agg_queue a) @ somes (map snd (last_set a)))) st)"

definition onStart ::
    "'x pipe_env \<Rightarrow> pipeline_profile \<Rightarrow> pipeline \<Rightarrow> 'x world \<Rightarrow> se_error + pipeline \<times> 'x world" where
  "onStart env prof p w =
     (let ids = map sp_uid (profile_active_streams (pe_ops env) prof w)
      in bind_result (agg_destroy (pl_aggregator p) (fst w)) (\<lambda>st'.
           Inr (p\<lparr>pl_aggregator := Some (agg_start (new_aggregator ids)), pl_output := streams_callback p\<rparr>,
                (st', snd w))))"

definition unsafeStart ::
    "(nat \<Rightarrow> bool) \<Rightarrow> 'x pipe_env \<Rightarrow> pipeline_config \<Rightarrow> pipeline \<Rightarrow> 'x world
      \<Rightarrow> (se_error + bool) \<times> pipeline_config \<times> pipeline \<times> 'x world" where
  "unsafeStart forced env conf p w =
     (case start_resolve forced env conf (is_stopping p) w of
        (Failed e, conf', s, w1) \<Rightarrow> (Inl e, conf', p\<lparr>is_stopping := s\<rparr>, w1)
      | (Forced_stop, conf', s, w1) \<Rightarrow> (Inr False, conf', p\<lparr>is_stopping := s\<rparr>, w1)
      | (Resolved prof, conf', s, w1) \<Rightarrow>
          let p1 = p\<lparr>is_stopping := s\<rparr>; ms = pp_multi_stream prof
          in if ms_all_profiles ms = [] then (Inl (Undefined ''assertion failed''), conf', p1, w1)
             else case ms_open (pe_ops env) ms w1 of
               (Inl e, w2) \<Rightarrow> (Inl e, conf', p1, w2)
             | (Inr _, w2) \<Rightarrow>
                 (case onStart env prof p1 w2 of
                    Inl e \<Rightarrow> (Inl e, conf', p1, w2)
                  | Inr (p3, w3) \<Rightarrow>
                      (case ms_start (pe_ops env) (Some (pe_output env)) ms w3 of
                         (Inl e, w4) \<Rightarrow> (Inl e, conf', p3, w4)
                       | (Inr _, w4) \<Rightarrow>
                           (Inr True, conf', p3\<lparr>active_profile := Some prof, prev_conf := Some (copy_config conf')\<rparr>, w4))))"

text \<open>\<open>restart\<close> and the reconnection pass the pointer \<open>prev_conf_\<close>, which can be null.\<close>

definition unsafeStart_prev ::
    "(nat \<Rightarrow> bool) \<Rightarrow> 'x pipe_env \<Rightarrow> pipeline_config option \<Rightarrow> pipeline \<Rightarrow> 'x world
      \<Rightarrow> (se_error + bool) \<times> pipeline \<times> 'x world" where
  "unsafeStart_prev forced env conf p w =
     (case conf of
        None \<Rightarrow> (Inl (Undefined ''null configuration''), p, w)
      | Some c \<Rightarrow> (case unsafeStart forced env c p w of (r, _, p', w') \<Rightarrow> (r, p', w')))"

section \<open>Stopping\<close>

text \<open>Exceptions of the three calls are swallowed; the first ends the sequence.\<close>

definition stop_streams :: "'x pipe_env \<Rightarrow> pipeline_profile \<Rightarrow> 'x world \<Rightarrow> (se_error + unit) \<times> 'x world" where
  "stop_streams env prof w =
     (case ms_stop (pe_ops env) (pp_multi_stream prof) w of
        (Inl e, w1) \<Rightarrow> (Inl e, w1)
      | (Inr _, w1) \<Rightarrow> ms_close (pe_ops env) (pp_multi_stream prof) w1)"

definition reset_pipeline :: "pipeline \<Rightarrow> pipeline" where
  "reset_pipeline p = p\<lparr>active_profile := None, prev_conf := None, is_stopping := False\<rparr>"

definition unsafeStop :: "'x pipe_env \<Rightarrow> pipeline \<Rightarrow> 'x world \<Rightarrow> (se_error + unit) \<times> pipeline \<times> 'x world" where
  "unsafeStop env p w =
     (case active_profile p of
        None \<Rightarrow> (Inr (), reset_pipeline p, w)
      | Some prof \<Rightarrow>
          (case pl_aggregator p of
             None \<Rightarrow> (Inl (Undefined ''null aggregator''), p, w)
           | Some ag \<Rightarrow>
               (case agg_stop ag (fst w) of
                  Inl e \<Rightarrow> (Inl e, p, w)
                | Inr (ag', st') \<Rightarrow>
                    (let p1 = p\<lparr>pl_aggregator := Some ag'\<rparr>
                     in case stop_streams env prof (st', snd w) of
                          (Inl e, w1) \<Rightarrow> if is_exception e then (Inr (), reset_pipeline p1, w1) else (Inl e, p1, w1)
                        | (Inr _, w1) \<Rightarrow> (Inr (), reset_pipeline p1, w1)))))"

section \<open>The operations\<close>

definition pipeline_start ::
    "(nat \<Rightarrow> bool) \<Rightarrow> 'x pipe_env \<Rightarrow> pipeline_config \<Rightarrow> nat option \<Rightarrow> pipeline \<Rightarrow> 'x world
      \<Rightarrow> (se_error + pipeline_profile option) \<times> pipeline_config \<times> pipeline \<times> 'x world" where
  "pipeline_start forced env conf callback p w =
     (if active_profile p \<noteq> None then (Inr None, conf, p, w)
      else
        let p1 = p\<lparr>streams_callback := callback,
              pl_context := (if callback = None then pl_context p
                             else snd (registerDevicesChangedCallback (Some (pe_restart env)) (pl_context p)))\<rparr>
        in case unsafeStart forced env conf p1 w of
             (Inl e, conf', p2, w2) \<Rightarrow> (Inl e, conf', p2, w2)
           | (Inr False, conf', p2, w2) \<Rightarrow> (Inr None, conf', p2, w2)
           | (Inr True, conf', p2, w2) \<Rightarrow>
               (Inr (active_profile p2), conf', p2\<lparr>pl_context := watcher_start (pl_context p2)\<rparr>, w2))"

definition pipeline_stop :: "bool \<Rightarrow> 'x pipe_env \<Rightarrow> pipeline \<Rightarrow> 'x world \<Rightarrow> (se_error + unit) \<times> pipeline \<times> 'x world" where
  "pipeline_stop force env p w =
     (let p1 = (if force then p\<lparr>is_stopping := True\<rparr> else p)
      in if active_profile p1 = None then (Inr (), p1, w) else unsafeStop env p1 w)"

definition pipeline_restart ::
    "bool \<Rightarrow> (nat \<Rightarrow> bool) \<Rightarrow> 'x pipe_env \<Rightarrow> pipeline \<Rightarrow> 'x world \<Rightarrow> (se_error + bool) \<times> pipeline \<times> 'x world" where
  "pipeline_restart force forced env p w =
     (let p1 = (if force then p\<lparr>is_stopping := True\<rparr> else p)
      in case unsafeStop env p1 w of
           (Inl e, p2, w2) \<Rightarrow> (Inl e, p2, w2)
         | (Inr _, p2, w2) \<Rightarrow> unsafeStart_prev forced env (prev_conf p1) p2 w2)"

definition pipeline_isConnected :: "'x pipe_env \<Rightarrow> pipeline \<Rightarrow> 'x world \<Rightarrow> bool" where
  "pipeline_isConnected env p w =
     (case active_profile p of None \<Rightarrow> False | Some prof \<Rightarrow> pe_valid env (dev_addr (pp_device prof)) w)"

text \<open>\<open>wasRemoved\<close>, \<open>wasAdded\<close> and \<open>contains\<close> compare descriptions.\<close>

definition list_contains :: "device_group \<Rightarrow> device_info list \<Rightarrow> bool" where
  "list_contains g infos = list_ex (\<lambda>i. group_eq g (getDeviceData i)) infos"

definition on_devices_changed ::
    "(nat \<Rightarrow> bool) \<Rightarrow> 'x pipe_env \<Rightarrow> device_info list \<Rightarrow> pipeline \<Rightarrow> 'x world \<Rightarrow> (se_error + bool) \<times> pipeline \<times> 'x world" where
  "on_devices_changed forced env removed p w =
     (case active_profile p of
        None \<Rightarrow> (Inl (Undefined ''null profile''), p, w)
      | Some prof \<Rightarrow>
          if list_contains (dev_group (pp_device prof)) removed then pipeline_restart True forced env p w
          else (Inr False, p, w))"

text \<open>
  The queue of the aggregator is used by the sensors' threads too: \<open>ops\<close> is what they do
  to it during a wait.
\<close>

definition take_frame :: "addr cq_op list \<Rightarrow> pipeline \<Rightarrow> se_error + addr option \<times> pipeline" where
  "take_frame ops p =
     (case pl_aggregator p of
        None \<Rightarrow> Inl (Undefined ''null aggregator'')
      | Some ag \<Rightarrow> (case agg_dequeue ops ag of (r, ag') \<Rightarrow> Inr (r, p\<lparr>pl_aggregator := Some ag'\<rparr>)))"

text \<open>
  The reconnection of \<open>waitForFrames\<close> and \<open>tryWaitForFrames\<close>: stop, start with the
  previous configuration, and wait for a frame again.  \<open>None\<close> is a start that was stopped.
\<close>

definition reconnect ::
    "(nat \<Rightarrow> bool) \<Rightarrow> addr cq_op list \<Rightarrow> 'x pipe_env \<Rightarrow> pipeline \<Rightarrow> 'x world
      \<Rightarrow> (se_error + addr option option) \<times> pipeline \<times> 'x world" where
  "reconnect forced ops env p w =
     (case unsafeStop env p w of
        (Inl e, p1, w1) \<Rightarrow> (Inl e, p1, w1)
      | (Inr _, p1, w1) \<Rightarrow>
          (case unsafeStart_prev forced env (prev_conf p) p1 w1 of
             (Inl e, p2, w2) \<Rightarrow> (Inl e, p2, w2)
           | (Inr False, p2, w2) \<Rightarrow> (Inr None, p2, w2)
           | (Inr True, p2, w2) \<Rightarrow>
               (case take_frame ops p2 of
                  Inl e \<Rightarrow> (Inl e, p2, w2)
                | Inr (r, p3) \<Rightarrow> (Inr (Some r), p3, w2))))"

definition waitForFrames ::
    "(nat \<Rightarrow> bool) \<Rightarrow> addr cq_op list \<Rightarrow> addr cq_op list \<Rightarrow> 'x pipe_env \<Rightarrow> pipeline \<Rightarrow> 'x world
      \<Rightarrow> (se_error + addr option) \<times> pipeline \<times> 'x world" where
  "waitForFrames forced ops ops' env p w =
     (if active_profile p = None \<or> streams_callback p \<noteq> None then (Inr None, p, w)
      else case take_frame ops p of
        Inl e \<Rightarrow> (Inl e, p, w)
      | Inr (Some a, p1) \<Rightarrow> (Inr (Some a), p1, w)
      | Inr (None, p1) \<Rightarrow>
          if pipeline_isConnected env p1 w then (Inr None, p1, w)
          else case reconnect forced ops' env p1 w of
            (Inl e, p2, w2) \<Rightarrow>
              (Inl (if is_exception e then Runtime_error ''Device disconnected. Failed to recconect'' else e), p2, w2)
          | (Inr None, p2, w2) \<Rightarrow> (Inr None, p2, w2)
          | (Inr (Some (Some a)), p2, w2) \<Rightarrow> (Inr (Some a), p2, w2)
          | (Inr (Some None), p2, w2) \<Rightarrow> (Inl (Runtime_error ''Frame didn't arrive''), p2, w2))"

definition tryWaitForFrames ::
    "(nat \<Rightarrow> bool) \<Rightarrow> addr cq_op list \<Rightarrow> addr cq_op list \<Rightarrow> 'x pipe_env \<Rightarrow> pipeline \<Rightarrow> 'x world
      \<Rightarrow> (se_error + addr option) \<times> pipeline \<times> 'x world" where
  "tryWaitForFrames forced ops ops' env p w =
     (if active_profile p = None \<or> streams_callback p \<noteq> None then (Inr None, p, w)
      else case take_frame ops p of
        Inl e \<Rightarrow> (Inl e, p, w)
      | Inr (Some a, p1) \<Rightarrow> (Inr (Some a), p1, w)
      | Inr (None, p1) \<Rightarrow>
          if pipeline_isConnected env p1 w then (Inr None, p1, w)
          else case reconnect forced ops' env p1 w of
            (Inl e, p2, w2) \<Rightarrow> (if is_exception e then Inr None else Inl e, p2, w2)
          | (Inr None, p2, w2) \<Rightarrow> (Inr None, p2, w2)
          | (Inr (Some r), p2, w2) \<Rightarrow> (Inr r, p2, w2))"

definition pollForFrames :: "pipeline \<Rightarrow> (se_error + addr option) \<times> pipeline" where
  "pollForFrames p =
     (if active_profile p = None \<or> streams_callback p \<noteq> None then (Inr None, p)
      else case pl_aggregator p of
        None \<Rightarrow> (Inl (Undefined ''null aggregator''), p)
      | Some ag \<Rightarrow> (case agg_try_dequeue ag of (r, ag') \<Rightarrow> (Inr r, p\<lparr>pl_aggregator := Some ag'\<rparr>)))"

text \<open>A frame that a sensor gives to the pipeline's callback goes to the aggregator.\<close>

definition pipeline_on_frame ::
    "nat list \<Rightarrow> nat \<Rightarrow> frame_source \<Rightarrow> addr \<Rightarrow> pipeline \<Rightarrow> store \<Rightarrow> se_error + addr option \<times> pipeline \<times> store" where
  "pipeline_on_frame comps k src a p st =
     (case pl_aggregator p of
        None \<Rightarrow> Inl (Undefined ''null aggregator'')
      | Some ag \<Rightarrow>
          bind_result (block_invoke comps k (src\<lparr>src_callback := pl_output p\<rparr>) a ag st)
            (\<lambda>(r, ag', st'). Inr (r, p\<lparr>pl_aggregator := Some ag'\<rparr>, st')))"

section \<open>The states of a pipeline\<close>

definition pl_ok :: "pipeline \<Rightarrow> bool" where
  "pl_ok p \<longleftrightarrow> (active_profile p \<noteq> None \<longrightarrow> pl_aggregator p \<noteq> None)
     \<and> (active_profile p = None \<longleftrightarrow> prev_conf p = None)
     \<and> (\<forall>c. prev_conf p = Some c \<longrightarrow> resolved_profile c = None)"

lemma pl_ok_simps [simp]:
  "pl_ok (p\<lparr>is_stopping := s\<rparr>) = pl_ok p"
  "pl_ok (p\<lparr>streams_callback := cb\<rparr>) = pl_ok p"
  "pl_ok (p\<lparr>pl_context := c\<rparr>) = pl_ok p"
  "pl_ok (p\<lparr>pl_output := out\<rparr>) = pl_ok p"
  "pl_ok p \<Longrightarrow> pl_ok (p\<lparr>pl_aggregator := Some ag\<rparr>)"
  "pl_ok (reset_pipeline p)" "active_profile (reset_pipeline p) = None"
  by (auto simp: pl_ok_def reset_pipeline_def)

lemma pl_ok_aggregator: "pl_ok p \<Longrightarrow> active_profile p \<noteq> None \<Longrightarrow> \<exists>ag. pl_aggregator p = Some ag"
  by (auto simp: pl_ok_def)

lemma pl_ok_idle: "pl_ok p \<Longrightarrow> active_profile p = None \<longleftrightarrow> prev_conf p = None"
  by (auto simp: pl_ok_def split: option.splits)

lemma onStart_Inr:
  "onStart env prof p w = Inr (p', w') \<Longrightarrow>
     \<exists>ids. p' = p\<lparr>pl_aggregator := Some (agg_start (new_aggregator ids)), pl_output := streams_callback p\<rparr>
       \<and> snd w' = snd w"
  by (auto simp: onStart_def Let_def bind_result_Inr)

lemma unsafeStart_ok:
  assumes "unsafeStart forced env conf p w = (r, conf', p', w')" "pl_ok p" "active_profile p = None"
  shows "pl_ok p' \<and> (r = Inr True \<longleftrightarrow> active_profile p' \<noteq> None)"
proof -
  have pc: "prev_conf p = None" using assms(2,3) pl_ok_idle by blast
  show ?thesis
    using assms pc
    by (auto simp: unsafeStart_def Let_def pl_ok_def copy_config_def dest!: onStart_Inr
        split: prod.splits start_outcome.splits sum.splits if_splits)
qed

lemma unsafeStart_prev_ok:
  assumes "unsafeStart_prev forced env conf p w = (r, p', w')" "pl_ok p" "active_profile p = None"
  shows "pl_ok p' \<and> (r = Inr True \<longleftrightarrow> active_profile p' \<noteq> None)"
  using assms unsafeStart_ok [of forced env "the conf" p w]
  by (auto simp: unsafeStart_prev_def split: option.splits prod.splits)

lemma unsafeStop_ok:
  assumes "unsafeStop env p w = (r, p', w')" "pl_ok p"
  shows "pl_ok p' \<and> (r = Inr () \<longrightarrow> active_profile p' = None \<and> prev_conf p' = None \<and> \<not> is_stopping p')"
  using assms
  by (auto simp: unsafeStop_def Let_def reset_pipeline_def pl_ok_def
      split: option.splits sum.splits prod.splits if_splits)

lemma take_frame_ok:
  "take_frame ops p = Inr (r, p') \<Longrightarrow> pl_ok p \<Longrightarrow> pl_ok p' \<and> active_profile p' = active_profile p \<and> prev_conf p' = prev_conf p"
  by (auto simp: take_frame_def split: option.splits prod.splits)

lemma reconnect_ok:
  assumes "reconnect forced ops env p w = (r, p', w')" "pl_ok p"
  shows "pl_ok p'"
proof -
  obtain r1 p1 w1 where s: "unsafeStop env p w = (r1, p1, w1)" by (metis prod_cases3)
  note ok1 = unsafeStop_ok [OF s assms(2)]
  show ?thesis
  proof (cases r1)
    case (Inl e)
    then show ?thesis using assms s ok1 by (simp add: reconnect_def)
  next
    case (Inr u)
    obtain r2 p2 w2 where t: "unsafeStart_prev forced env (prev_conf p) p1 w1 = (r2, p2, w2)" by (metis prod_cases3)
    have "active_profile p1 = None" using ok1 Inr by simp
    from unsafeStart_prev_ok [OF t _ this] ok1 have "pl_ok p2" by blast
    then show ?thesis using assms s t Inr
      by (auto simp: reconnect_def dest: take_frame_ok split: sum.splits bool.splits prod.splits)
  qed
qed

text \<open>Every call a client, a sensor thread or the context makes, and anything else the world does.\<close>

inductive pipeline_call :: "'x pipe_env \<Rightarrow> pipeline \<times> 'x world \<Rightarrow> pipeline \<times> 'x world \<Rightarrow> bool" for env where
  p_start: "pipeline_start forced env conf cb p w = (r, conf', p', w') \<Longrightarrow> pipeline_call env (p, w) (p', w')"
| p_stop: "pipeline_stop force env p w = (r, p', w') \<Longrightarrow> pipeline_call env (p, w) (p', w')"
| p_restart: "pipeline_restart force forced env p w = (r, p', w') \<Longrightarrow> pipeline_call env (p, w) (p', w')"
| p_changed: "on_devices_changed forced env removed p w = (r, p', w') \<Longrightarrow> pipeline_call env (p, w) (p', w')"
| p_wait: "waitForFrames forced ops ops' env p w = (r, p', w') \<Longrightarrow> pipeline_call env (p, w) (p', w')"
| p_try_wait: "tryWaitForFrames forced ops ops' env p w = (r, p', w') \<Longrightarrow> pipeline_call env (p, w) (p', w')"
| p_poll: "pollForFrames p = (r, p') \<Longrightarrow> pipeline_call env (p, w) (p', w)"
| p_frame: "pipeline_on_frame comps k src a p st = Inr (r, p', st') \<Longrightarrow> pipeline_call env (p, (st, x)) (p', (st', x))"
| p_world: "pipeline_call env (p, w) (p, w')"

inductive_cases pipeline_callE: "pipeline_call env pw pw'"

lemma restart_ok:
  assumes "pipeline_restart force forced env p w = (r, p', w')" "pl_ok p"
  shows "pl_ok p'"
proof -
  let ?p = "if force then p\<lparr>is_stopping := True\<rparr> else p"
  have ok: "pl_ok ?p" using assms(2) by simp
  obtain r1 p1 w1 where s: "unsafeStop env ?p w = (r1, p1, w1)" by (metis prod_cases3)
  note ok1 = unsafeStop_ok [OF s ok]
  show ?thesis
  proof (cases r1)
    case (Inl e)
    then show ?thesis using assms s ok1 by (simp add: pipeline_restart_def Let_def)
  next
    case (Inr u)
    have t: "unsafeStart_prev forced env (prev_conf ?p) p1 w1 = (r, p', w')"
      using assms(1) s Inr by (simp add: pipeline_restart_def Let_def)
    have "active_profile p1 = None" using ok1 Inr by simp
    from unsafeStart_prev_ok [OF t _ this] ok1 show ?thesis by blast
  qed
qed

lemma start_ok:
  assumes "pipeline_start forced env conf cb p w = (r, conf', p', w')" "pl_ok p"
  shows "pl_ok p'"
proof (cases "active_profile p = None")
  case True
  let ?p = "p\<lparr>streams_callback := cb,
      pl_context := (if cb = None then pl_context p
                     else snd (registerDevicesChangedCallback (Some (pe_restart env)) (pl_context p)))\<rparr>"
  obtain r1 c1 p1 w1 where s: "unsafeStart forced env conf ?p w = (r1, c1, p1, w1)" by (metis prod_cases4)
  have "pl_ok ?p" "active_profile ?p = None" using assms(2) True by simp_all
  from unsafeStart_ok [OF s this] have "pl_ok p1" by blast
  then show ?thesis using assms(1) s True
    by (auto simp: pipeline_start_def Let_def split: sum.splits bool.splits)
next
  case False
  then show ?thesis using assms by (simp add: pipeline_start_def)
qed

lemma wait_ok:
  assumes "waitForFrames forced ops ops' env p w = (r, p', w') \<or> tryWaitForFrames forced ops ops' env p w = (r, p', w')"
    and "pl_ok p"
  shows "pl_ok p'"
proof (cases "active_profile p = None \<or> streams_callback p \<noteq> None")
  case True
  then show ?thesis using assms by (auto simp: waitForFrames_def tryWaitForFrames_def)
next
  case False
  show ?thesis
  proof (cases "take_frame ops p")
    case (Inl e)
    then show ?thesis using assms False by (auto simp: waitForFrames_def tryWaitForFrames_def)
  next
    case (Inr rp)
    obtain r1 p1 where rp: "rp = (r1, p1)" by (cases rp)
    have ok1: "pl_ok p1" using take_frame_ok Inr rp assms(2) by blast
    obtain r2 p2 w2 where rc: "reconnect forced ops' env p1 w = (r2, p2, w2)" by (metis prod_cases3)
    have "pl_ok p2" by (rule reconnect_ok [OF rc ok1])
    then show ?thesis using assms(1) False Inr rp ok1 rc
      by (auto simp: waitForFrames_def tryWaitForFrames_def split: option.splits sum.splits if_splits)
  qed
qed

lemma pipeline_call_ok: "pipeline_call env pw pw' \<Longrightarrow> pl_ok (fst pw) \<Longrightarrow> pl_ok (fst pw')"
proof (induction rule: pipeline_call.induct)
  case (p_stop force p w r p' w')
  then show ?case
    using unsafeStop_ok [of env "if force then p\<lparr>is_stopping := True\<rparr> else p" w r p' w']
    by (auto simp: pipeline_stop_def Let_def split: if_splits)
next
  case (p_changed forced removed p w r p' w')
  then show ?case
    using restart_ok [of True forced env p w r p' w']
    by (auto simp: on_devices_changed_def split: option.splits if_splits)
next
  case (p_poll p r p' w)
  then show ?case by (auto simp: pollForFrames_def split: if_splits option.splits prod.splits)
next
  case (p_frame comps k src a p st r p' st' x)
  then show ?case by (auto simp: pipeline_on_frame_def bind_result_Inr split: option.splits)
qed (auto dest: start_ok restart_ok wait_ok [OF disjI1] wait_ok [OF disjI2])

lemma pipeline_reach_ok:
  "(pipeline_call env)\<^sup>*\<^sup>* pw pw' \<Longrightarrow> pl_ok (fst pw) \<Longrightarrow> pl_ok (fst pw')"
  by (induction rule: rtranclp_induct) (auto dest: pipeline_call_ok)

lemma new_pipeline_ok [simp, intro]: "pl_ok (new_pipeline c)"
  by (simp add: new_pipeline_def pl_ok_def)

text \<open>C20: In every state that any sequence of calls can bring a pipeline to, it has an active profile
  exactly when it remembers a configuration, an active pipeline has an aggregator, and the
  remembered configuration has no cached profile, so that a reconnection looks for the device
  anew.\<close>

theorem pipeline_states_ok:
  assumes "(pipeline_call env)\<^sup>*\<^sup>* (new_pipeline c, w) (p, w')"
  shows "(active_profile p \<noteq> None \<longleftrightarrow> prev_conf p \<noteq> None)
    \<and> (active_profile p \<noteq> None \<longrightarrow> pl_aggregator p \<noteq> None)
    \<and> (\<forall>conf. prev_conf p = Some conf \<longrightarrow> getCachedResolvedProfile conf = None)"
proof -
  have "pl_ok p" using pipeline_reach_ok [OF assms] by simp
  moreover from this have "active_profile p = None \<longleftrightarrow> prev_conf p = None" by (rule pl_ok_idle)
  ultimately show ?thesis unfolding getCachedResolvedProfile_def by (simp add: pl_ok_def)
qed

theorem pipeline_states_ok_witness:
  "active_profile (new_pipeline new_context) \<noteq> None \<longleftrightarrow> prev_conf (new_pipeline new_context) \<noteq> None"
  by (rule conjunct1 [OF pipeline_states_ok]) (rule rtranclp.rtrancl_refl)

text \<open>\<open>stop(true)\<close> on an idle pipeline leaves the flag of a forced stop set: the next \<open>start\<close> gives
  up at once, without looking for a device, and only clears the flag.\<close>

theorem forced_stop_cancels_next_start:
  assumes "active_profile p = None" "getCachedResolvedProfile conf = None"
    and "pipeline_stop True env p w = (r, p1, w1)"
  shows "\<exists>p2. pipeline_start forced env conf cb p1 w1 = (Inr None, conf, p2, w) \<and> \<not> is_stopping p2
    \<and> active_profile p2 = None"
proof -
  have "p1 = p\<lparr>is_stopping := True\<rparr>" "w1 = w" using assms(1,3) by (simp_all add: pipeline_stop_def)
  moreover have "start_retry k forced env conf True v = (Forced_stop, conf, False, v)" for k v
    by (cases k) (simp_all add: start_try_def)
  ultimately show ?thesis
    using assms(1,2) by (simp add: pipeline_start_def unsafeStart_def start_resolve_def Let_def)
qed

definition still_env :: "unit pipe_env" where
  "still_env = \<lparr>pe_ops = idle_ops, pe_wait = one_camera, pe_valid = \<lambda>d w. True, pe_output = 0, pe_restart = 1\<rparr>"

theorem forced_stop_cancels_next_start_witness:
  "\<exists>p2. pipeline_start (\<lambda>k. False) still_env new_config None
      ((new_pipeline new_context)\<lparr>is_stopping := True\<rparr>) ([], ()) = (Inr None, new_config, p2, ([], ()))
    \<and> \<not> is_stopping p2 \<and> active_profile p2 = None"
  by (rule forced_stop_cancels_next_start [where p = "new_pipeline new_context" and env = still_env and r = "Inr ()"])
    (simp_all add: new_pipeline_def getCachedResolvedProfile_def new_config_def pipeline_stop_def)

lemma stop_idle:
  assumes "pipeline_stop force env p w = (Inr (), p1, w1)" "pl_ok p"
  shows "active_profile p1 = None \<and> prev_conf p1 = None"
proof (cases "active_profile p = None")
  case True
  then show ?thesis
    using assms pl_ok_idle [OF assms(2)] by (cases force) (auto simp: pipeline_stop_def Let_def)
next
  case False
  then have "\<exists>s. unsafeStop env (p\<lparr>is_stopping := s\<rparr>) w = (Inr (), p1, w1)"
    using assms(1) by (cases force) (auto simp: pipeline_stop_def Let_def intro: exI [of _ "is_stopping p"])
  then show ?thesis using unsafeStop_ok [of env "p\<lparr>is_stopping := s\<rparr>" w "Inr ()" p1 w1 for s] assms(2) by auto
qed

text \<open>After \<open>stop\<close> the callback for device changes is still registered and expects a profile: when a
  device is then plugged in or out, the pipeline uses a null pointer; so does \<open>restart\<close> on an
  idle pipeline.\<close>

theorem idle_pipeline_null_uses:
  assumes "pl_ok p" "pipeline_stop force env p w = (Inr (), p1, w1)"
  shows "on_devices_changed forced env removed p1 w1 = (Inl (Undefined ''null profile''), p1, w1)
    \<and> (\<exists>p2. pipeline_restart force' forced env p1 w1 = (Inl (Undefined ''null configuration''), p2, w1))"
  using stop_idle [OF assms(2,1)]
  by (auto simp: on_devices_changed_def pipeline_restart_def unsafeStop_def unsafeStart_prev_def Let_def)

theorem idle_pipeline_null_uses_witness:
  "fst (on_devices_changed (\<lambda>k. False) still_env [] (new_pipeline new_context) ([], ())) = Inl (Undefined ''null profile'')"
  by (rule arg_cong [where f = fst, OF conjunct1 [OF idle_pipeline_null_uses
        [where p = "new_pipeline new_context" and env = still_env and force = False and w = "([], ())"]],
        simplified fst_conv])
    (simp_all add: pipeline_stop_def new_pipeline_def pl_ok_def)

section \<open>Cached profiles and giving up\<close>

lemma start_try_Resolved:
  "start_try forced env conf s w = (Resolved prof, conf', s', w') \<Longrightarrow> resolved_profile conf' = Some prof"
  by (auto simp: start_try_def resolve_config_def Let_def split: if_splits prod.splits sum.splits option.splits)

lemma start_retry_Resolved:
  "start_retry k forced env conf s w = (Resolved prof, conf', s', w') \<Longrightarrow> resolved_profile conf' = Some prof"
proof (induction k arbitrary: conf s w)
  case 0
  then show ?case using start_try_Resolved by fastforce
next
  case (Suc k)
  obtain r1 c1 s1 w1 where t: "start_try (forced (Suc k)) env conf s w = (r1, c1, s1, w1)" by (metis prod_cases4)
  then show ?case
    using Suc start_try_Resolved [of "forced (Suc k)" env conf s w prof conf' s' w']
    by (cases r1) (auto split: if_splits)
qed

lemma start_resolve_Resolved:
  "start_resolve forced env conf s w = (Resolved prof, conf', s', w') \<Longrightarrow> resolved_profile conf' = Some prof"
  using start_retry_Resolved
  by (fastforce simp: start_resolve_def getCachedResolvedProfile_def split: option.splits)

lemma unsafeStart_True:
  assumes "unsafeStart forced env conf p w = (Inr True, conf', p', w')"
  shows "\<exists>prof s w1 w2 p3 w3. start_resolve forced env conf (is_stopping p) w = (Resolved prof, conf', s, w1)
    \<and> ms_open (pe_ops env) (pp_multi_stream prof) w1 = (Inr (), w2)
    \<and> onStart env prof (p\<lparr>is_stopping := s\<rparr>) w2 = Inr (p3, w3)
    \<and> ms_start (pe_ops env) (Some (pe_output env)) (pp_multi_stream prof) w3 = (Inr (), w')
    \<and> p' = p3\<lparr>active_profile := Some prof, prev_conf := Some (copy_config conf')\<rparr>"
  using assms
  by (auto simp: unsafeStart_def Let_def split: prod.splits start_outcome.splits sum.splits if_splits)

lemma pipeline_start_Some:
  assumes "pipeline_start forced env conf cb p w = (Inr (Some prof), conf', p', w')"
  shows "\<exists>p1 p2 . active_profile p = None \<and> active_profile p1 = None \<and> is_stopping p1 = is_stopping p
    \<and> unsafeStart forced env conf p1 w = (Inr True, conf', p2, w')
    \<and> active_profile p2 = Some prof \<and> pl_aggregator p2 = pl_aggregator p' \<and> active_profile p' = Some prof"
proof -
  let ?p = "p\<lparr>streams_callback := cb,
      pl_context := (if cb = None then pl_context p
                     else snd (registerDevicesChangedCallback (Some (pe_restart env)) (pl_context p)))\<rparr>"
  obtain r1 c1 p1 w1 where s: "unsafeStart forced env conf ?p w = (r1, c1, p1, w1)" by (metis prod_cases4)
  have a: "active_profile p = None" using assms by (auto simp: pipeline_start_def split: if_splits)
  have "r1 = Inr True \<and> conf' = c1 \<and> w' = w1 \<and> active_profile p1 = Some prof
     \<and> p' = p1\<lparr>pl_context := watcher_start (pl_context p1)\<rparr>"
    using assms s a by (auto simp: pipeline_start_def Let_def split: sum.splits bool.splits)
  then show ?thesis using s a by (intro exI [of _ ?p] exI [of _ p1]) simp
qed

text \<open>A configuration that has once been started keeps its profile: whenever it is started again, with
  whatever devices connected by then, the pipeline takes the same device object without looking
  for one.\<close>

theorem restarted_config_keeps_device:
  assumes "pipeline_start forced env conf cb p w = (Inr (Some prof), conf', p', w')"
    and "pipeline_start forced2 env2 conf' cb2 p2 w2 = (Inr (Some prof2), conf2, p2', w2')"
  shows "prof2 = prof \<and> conf2 = conf'"
proof -
  from pipeline_start_Some [OF assms(1)] obtain q q' where
    "unsafeStart forced env conf q w = (Inr True, conf', q', w')" "active_profile q' = Some prof" by blast
  from unsafeStart_True [OF this(1)] this(2) start_resolve_Resolved have rp: "resolved_profile conf' = Some prof"
    by fastforce
  from pipeline_start_Some [OF assms(2)] obtain q q' where
    "unsafeStart forced2 env2 conf' q w2 = (Inr True, conf2, q', w2')" "active_profile q' = Some prof2" by blast
  from unsafeStart_True [OF this(1)] this(2) rp show ?thesis
    by (auto simp: start_resolve_def getCachedResolvedProfile_def)
qed

definition still_profile :: pipeline_profile where
  "still_profile = \<lparr>pp_multi_stream = \<lparr>ms_sensors = [4], ms_sensor_profiles = [(4, [uid_profile 1])],
       ms_all_profiles = [uid_profile 1]\<rparr>,
     pp_device = \<lparr>dev_addr = 1, dev_group = \<lparr>usb_devices = [camera], playback_devices = []\<rparr>, dev_sensors = [4]\<rparr>,
     pp_to_file = ''''\<rparr>"

definition still_config :: pipeline_config where
  "still_config = new_config\<lparr>resolved_profile := Some still_profile\<rparr>"

lemma still_start:
  "\<exists>p' w'. pipeline_start (\<lambda>k. False) still_env still_config None (new_pipeline new_context) ([], ())
     = (Inr (Some still_profile), still_config, p', w')"
  by (simp add: pipeline_start_def new_pipeline_def unsafeStart_def start_resolve_def getCachedResolvedProfile_def
      still_profile_def still_config_def ms_open_def ms_start_def still_env_def idle_ops_def onStart_def agg_destroy_def Let_def)

theorem restarted_config_keeps_device_witness:
  "\<exists>prof p' w'. pipeline_start (\<lambda>k. False) still_env still_config None (new_pipeline new_context) ([], ())
     = (Inr (Some prof), still_config, p', w') \<and> prof = still_profile"
proof -
  obtain p' w' where s: "pipeline_start (\<lambda>k. False) still_env still_config None (new_pipeline new_context) ([], ())
     = (Inr (Some still_profile), still_config, p', w')" using still_start by blast
  from restarted_config_keeps_device [OF s s] s show ?thesis by blast
qed

lemma resolve_fails:
  assumes "req_filename conf = ''''" "\<And>s. wait s w = (Inl e, tick w)"
  shows "resolve_config ops wait conf w = (Inl e, conf\<lparr>resolved_profile := None\<rparr>, tick w)"
  using assms by (simp add: resolve_config_def resolveDeviceRequests_def Let_def)

lemma start_retry_fails:
  assumes "\<And>s w. pe_wait env s w = (Inl e, tick w)" "is_exception e"
  shows "req_filename conf = '''' \<Longrightarrow>
    start_retry k (\<lambda>i. False) env conf False w = (Failed e, conf\<lparr>resolved_profile := None\<rparr>, False, (tick ^^ Suc k) w)"
proof (induction k arbitrary: conf w)
  case 0
  then show ?case using resolve_fails [of conf "pe_wait env" w e tick] assms(1) by (simp add: start_try_def)
next
  case (Suc k)
  have "start_try False env conf False w = (Failed e, conf\<lparr>resolved_profile := None\<rparr>, False, tick w)"
    using resolve_fails [of conf "pe_wait env" w e tick] assms(1) Suc.prems by (simp add: start_try_def)
  then show ?case
    using Suc.IH [of "conf\<lparr>resolved_profile := None\<rparr>" "tick w"] Suc.prems assms(2)
    by (simp add: funpow_swap1)
qed

text \<open>C26: Starting ends even when no device ever appears: the wait for a device is made exactly 3000
  times, and then its exception is thrown to the caller, with the pipeline idle.\<close>

theorem start_gives_up:
  assumes "\<And>s w. pe_wait env s w = (Inl e, tick w)" "is_exception e"
    and "active_profile p = None" "\<not> is_stopping p" "(conf_call (pe_ops env) (pe_wait env))\<^sup>*\<^sup>* new_config conf"
    and "getCachedResolvedProfile conf = None"
  shows "\<exists>p'. pipeline_start (\<lambda>i. False) env conf cb p w
    = (Inl e, conf, p', (tick ^^ kNumTimesToRetry) w) \<and> active_profile p' = None"
proof -
  have f: "req_filename conf = ''''" using conf_reach_ok [OF assms(5)] by (simp add: conf_ok_def)
  have "resolved_profile conf = None" using assms(6) by (simp add: getCachedResolvedProfile_def)
  then have "conf\<lparr>resolved_profile := None\<rparr> = conf" by simp
  then have "start_resolve (\<lambda>i. False) env conf False w = (Failed e, conf, False, (tick ^^ kNumTimesToRetry) w)"
    using start_retry_fails [OF assms(1,2) f, of "kNumTimesToRetry - 1" w] assms(6)
    by (simp add: start_resolve_def kNumTimesToRetry_def del: funpow.simps)
  then show ?thesis using assms(3,4) by (simp add: pipeline_start_def unsafeStart_def Let_def)
qed

definition lonely_env :: "nat pipe_env" where
  "lonely_env = \<lparr>pe_ops = idle_ops, pe_wait = \<lambda>s (st, n). (Inl (Runtime_error ''No device connected''), (st, n + 1)),
     pe_valid = \<lambda>d w. False, pe_output = 0, pe_restart = 1\<rparr>"

theorem start_gives_up_witness:
  "\<exists>p'. pipeline_start (\<lambda>i. False) lonely_env new_config None (new_pipeline new_context) ([], 0)
      = (Inl (Runtime_error ''No device connected''), new_config, p', ((\<lambda>(st, n). (st, n + 1)) ^^ kNumTimesToRetry) ([], 0))
    \<and> active_profile p' = None"
  by (rule start_gives_up)
    (simp_all add: lonely_env_def new_pipeline_def getCachedResolvedProfile_def new_config_def split: prod.splits)

end
