(* ===== verification/Gemini_Pipeline.thy ===== *)
theory Gemini_Pipeline
  imports Pipeline
begin

text \<open>
  The pipeline on the Gemini sensor: \<open>GeminiSensor\<close> as the provider of
  \<open>SensorInterface\<close>.  The contract between the two is the locale \<open>sensor_lifecycle\<close>;
  the pipeline's lemmas are proved from it and used for the sensor's own operations.
\<close>

section \<open>The contract\<close>

locale sensor_lifecycle =
  fixes ops :: "'w sensor_ops" and opened :: "nat \<Rightarrow> 'w \<Rightarrow> bool"
  assumes open_others: "op_open ops s ps w = (r, w') \<Longrightarrow> t \<noteq> s \<Longrightarrow>
      opened t w' = opened t w \<and> op_streaming ops t w' = op_streaming ops t w"
    and start_others: "op_start ops s cb w = (r, w') \<Longrightarrow> t \<noteq> s \<Longrightarrow>
      opened t w' = opened t w \<and> op_streaming ops t w' = op_streaming ops t w"
    and stop_others: "op_stop ops s w = (r, w') \<Longrightarrow> t \<noteq> s \<Longrightarrow>
      opened t w' = opened t w \<and> op_streaming ops t w' = op_streaming ops t w"
    and close_others: "op_close ops s w = (r, w') \<Longrightarrow> t \<noteq> s \<Longrightarrow>
      opened t w' = opened t w \<and> op_streaming ops t w' = op_streaming ops t w"
    and start_done: "op_start ops s cb w = (Inr (), w') \<Longrightarrow> opened s w' \<and> op_streaming ops s w'"
    and stop_done: "op_streaming ops s w \<Longrightarrow>
      \<exists>w'. op_stop ops s w = (Inr (), w') \<and> \<not> op_streaming ops s w' \<and> opened s w' = opened s w"
    and close_done: "opened s w \<Longrightarrow> \<not> op_streaming ops s w \<Longrightarrow>
      \<exists>w'. op_close ops s w = (Inr (), w') \<and> \<not> opened s w' \<and> \<not> op_streaming ops s w'"
begin

lemma start_each:
  assumes "each_do (\<lambda>s. op_start ops s cb) ss w = (Inr (), w')" "distinct ss"
  shows "(\<forall>s\<in>set ss. opened s w' \<and> op_streaming ops s w')
    \<and> (\<forall>t. t \<notin> set ss \<longrightarrow> opened t w' = opened t w \<and> op_streaming ops t w' = op_streaming ops t w)"
  using assms
proof (induction ss arbitrary: w)
  case Nil
  then show ?case by simp
next
  case (Cons s ss)
  obtain w1 where s: "op_start ops s cb w = (Inr (), w1)" and r: "each_do (\<lambda>s. op_start ops s cb) ss w1 = (Inr (), w')"
    using Cons.prems(1) by (auto split: prod.splits sum.splits)
  have d: "distinct ss" "s \<notin> set ss" using Cons.prems(2) by auto
  from Cons.IH [OF r d(1)] start_done [OF s] start_others [OF s] d(2) show ?case by (auto simp: ball_conj_distrib)
qed

lemma stop_each:
  assumes "\<forall>s\<in>set ss. opened s w \<and> op_streaming ops s w" "distinct ss"
  shows "\<exists>w'. each_do (op_stop ops) ss w = (Inr (), w') \<and> (\<forall>s\<in>set ss. opened s w' \<and> \<not> op_streaming ops s w')
    \<and> (\<forall>t. t \<notin> set ss \<longrightarrow> opened t w' = opened t w \<and> op_streaming ops t w' = op_streaming ops t w)"
  using assms
proof (induction ss arbitrary: w)
  case Nil
  then show ?case by simp
next
  case (Cons s ss)
  then obtain w1 where s: "op_stop ops s w = (Inr (), w1)" "\<not> op_streaming ops s w1" "opened s w1"
    using stop_done [of s w] by auto
  have d: "distinct ss" "s \<notin> set ss" using Cons.prems(2) by auto
  have "\<forall>t\<in>set ss. opened t w1 \<and> op_streaming ops t w1"
    using Cons.prems(1) stop_others [OF s(1)] d(2) by (metis list.set_intros(2))
  from Cons.IH [OF this d(1)] obtain w' where w': "each_do (op_stop ops) ss w1 = (Inr (), w')"
    "\<forall>s\<in>set ss. opened s w' \<and> \<not> op_streaming ops s w'"
    "\<And>t. t \<notin> set ss \<Longrightarrow> opened t w' = opened t w1 \<and> op_streaming ops t w' = op_streaming ops t w1" by blast
  have "opened s w' \<and> \<not> op_streaming ops s w'" using w'(3) [OF d(2)] s by simp
  moreover have "opened t w' = opened t w \<and> op_streaming ops t w' = op_streaming ops t w" if "t \<notin> set (s # ss)" for t
    using that w'(3) [of t] stop_others [OF s(1), of t] by simp
  ultimately show ?case using s(1) w'(1,2) by simp
qed

lemma close_each:
  assumes "\<forall>s\<in>set ss. opened s w \<and> \<not> op_streaming ops s w" "distinct ss"
  shows "\<exists>w'. each_do (op_close ops) ss w = (Inr (), w') \<and> (\<forall>s\<in>set ss. \<not> opened s w' \<and> \<not> op_streaming ops s w')
    \<and> (\<forall>t. t \<notin> set ss \<longrightarrow> opened t w' = opened t w \<and> op_streaming ops t w' = op_streaming ops t w)"
  using assms
proof (induction ss arbitrary: w)
  case Nil
  then show ?case by simp
next
  case (Cons s ss)
  then obtain w1 where s: "op_close ops s w = (Inr (), w1)" "\<not> op_streaming ops s w1" "\<not> opened s w1"
    using close_done [of s w] by auto
  have d: "distinct ss" "s \<notin> set ss" using Cons.prems(2) by auto
  have "\<forall>t\<in>set ss. opened t w1 \<and> \<not> op_streaming ops t w1"
    using Cons.prems(1) close_others [OF s(1)] d(2) by (metis list.set_intros(2))
  from Cons.IH [OF this d(1)] obtain w' where w': "each_do (op_close ops) ss w1 = (Inr (), w')"
    "\<forall>s\<in>set ss. \<not> opened s w' \<and> \<not> op_streaming ops s w'"
    "\<And>t. t \<notin> set ss \<Longrightarrow> opened t w' = opened t w1 \<and> op_streaming ops t w' = op_streaming ops t w1" by blast
  have "\<not> opened s w' \<and> \<not> op_streaming ops s w'" using w'(3) [OF d(2)] s by simp
  moreover have "opened t w' = opened t w \<and> op_streaming ops t w' = op_streaming ops t w" if "t \<notin> set (s # ss)" for t
    using that w'(3) [of t] close_others [OF s(1), of t] by simp
  ultimately show ?case using s(1) w'(1,2) by simp
qed

lemma ms_start_done:
  assumes "ms_start ops cb ms w = (Inr (), w')" "distinct (ms_sensors ms)"
  shows "\<forall>s\<in>set (ms_sensors ms). opened s w' \<and> op_streaming ops s w'"
  using start_each [OF assms(1) [unfolded ms_start_def] assms(2)] by blast

lemma ms_stop_close_done:
  assumes "\<forall>s\<in>set (ms_sensors ms). opened s w \<and> op_streaming ops s w" "distinct (ms_sensors ms)"
  shows "\<exists>w1 w2. ms_stop ops ms w = (Inr (), w1) \<and> ms_close ops ms w1 = (Inr (), w2)
    \<and> (\<forall>s\<in>set (ms_sensors ms). \<not> opened s w2 \<and> \<not> op_streaming ops s w2)"
proof -
  from stop_each [OF assms] obtain w1 where w1: "each_do (op_stop ops) (ms_sensors ms) w = (Inr (), w1)"
    "\<forall>s\<in>set (ms_sensors ms). opened s w1 \<and> \<not> op_streaming ops s w1" by blast
  from close_each [OF w1(2) assms(2)] w1(1) show ?thesis by (auto simp: ms_stop_def ms_close_def)
qed

end

section \<open>The Gemini sensors as a world\<close>

text \<open>
  Besides the frame store, the world has the sensors by address, the state of the device they
  talk to, and the log of what they do to their dispatcher, port and thread.
\<close>

record 's gemini_world =
  gw_sensors :: "gemini_sensor list"
  gw_device :: 's
  gw_log :: "(nat \<times> sensor_action) list"

definition gw_put :: "nat \<Rightarrow> gemini_sensor \<Rightarrow> sensor_action list \<Rightarrow> 's gemini_world \<Rightarrow> 's gemini_world" where
  "gw_put s sn acts x = x\<lparr>gw_sensors := (gw_sensors x)[s := sn], gw_log := gw_log x @ map (Pair s) acts\<rparr>"

definition gemini_open ::
    "'s gemini \<Rightarrow> nat \<Rightarrow> stream_profile list \<Rightarrow> 's gemini_world world \<Rightarrow> (se_error + unit) \<times> 's gemini_world world" where
  "gemini_open g s ps w =
     (if length (gw_sensors (snd w)) \<le> s then (Inl (Undefined ''no such sensor''), w)
      else case sensor_open g ps (gw_sensors (snd w) ! s) (fst w) (gw_device (snd w)) of
             Inl e \<Rightarrow> (Inl e, w)
           | Inr (sn, st, d, acts) \<Rightarrow> (Inr (), (st, (gw_put s sn acts (snd w))\<lparr>gw_device := d\<rparr>)))"

definition gemini_close :: "nat \<Rightarrow> 's gemini_world world \<Rightarrow> (se_error + unit) \<times> 's gemini_world world" where
  "gemini_close s w =
     (if length (gw_sensors (snd w)) \<le> s then (Inl (Undefined ''no such sensor''), w)
      else case sensor_close (gw_sensors (snd w) ! s) of
             Inl e \<Rightarrow> (Inl e, w)
           | Inr (sn, acts) \<Rightarrow> (Inr (), (fst w, gw_put s sn acts (snd w))))"

definition gemini_start ::
    "nat \<Rightarrow> nat option \<Rightarrow> 's gemini_world world \<Rightarrow> (se_error + unit) \<times> 's gemini_world world" where
  "gemini_start s cb w =
     (if length (gw_sensors (snd w)) \<le> s then (Inl (Undefined ''no such sensor''), w)
      else case sensor_start cb (gw_sensors (snd w) ! s) of
             (r, sn, acts) \<Rightarrow> (r, (fst w, gw_put s sn acts (snd w))))"

definition gemini_stop :: "nat \<Rightarrow> 's gemini_world world \<Rightarrow> (se_error + unit) \<times> 's gemini_world world" where
  "gemini_stop s w =
     (if length (gw_sensors (snd w)) \<le> s then (Inl (Undefined ''no such sensor''), w)
      else case sensor_stop (gw_sensors (snd w) ! s) of
             (r, sn, acts) \<Rightarrow> (r, (fst w, gw_put s sn acts (snd w))))"

definition gemini_streaming :: "nat \<Rightarrow> 's gemini_world world \<Rightarrow> bool" where
  "gemini_streaming s w \<longleftrightarrow> s < length (gw_sensors (snd w)) \<and> is_streaming (gw_sensors (snd w) ! s)"

definition gemini_opened :: "nat \<Rightarrow> 's gemini_world world \<Rightarrow> bool" where
  "gemini_opened s w \<longleftrightarrow> s < length (gw_sensors (snd w)) \<and> is_opened (gw_sensors (snd w) ! s)"

definition gemini_ops :: "'s gemini \<Rightarrow> 's gemini_world world sensor_ops" where
  "gemini_ops g =
     \<lparr>op_profiles = \<lambda>s tag w. if s < length (gw_sensors (snd w))
          then getStreamProfiles tag (sn_profiles (gw_sensors (snd w) ! s)) else [],
      op_active = \<lambda>s w. if s < length (gw_sensors (snd w)) then active_profiles (gw_sensors (snd w) ! s) else [],
      op_open = gemini_open g, op_close = gemini_close, op_start = gemini_start, op_stop = gemini_stop,
      op_streaming = gemini_streaming\<rparr>"

lemma gw_put_simps [simp]:
  "length (gw_sensors (gw_put s sn acts x)) = length (gw_sensors x)"
  "t \<noteq> s \<Longrightarrow> gw_sensors (gw_put s sn acts x) ! t = gw_sensors x ! t"
  "s < length (gw_sensors x) \<Longrightarrow> gw_sensors (gw_put s sn acts x) ! s = sn"
  by (simp_all add: gw_put_def)

lemma sensor_start_state:
  "sensor_start cb sn = (Inr (), sn', acts) \<Longrightarrow> is_opened sn' \<and> is_streaming sn'"
  by (auto simp: sensor_start_def startStream_def Let_def split: if_splits prod.splits sum.splits)

interpretation gs: sensor_lifecycle "gemini_ops g" gemini_opened
proof (unfold_locales, goal_cases)
  case (1 s ps w r w' t)
  then show ?case
    by (auto simp: gemini_ops_def gemini_open_def gemini_opened_def gemini_streaming_def
        split: if_splits sum.splits prod.splits)
next
  case (2 s cb w r w' t)
  then show ?case
    by (auto simp: gemini_ops_def gemini_start_def gemini_opened_def gemini_streaming_def
        split: if_splits prod.splits)
next
  case (3 s w r w' t)
  then show ?case
    by (auto simp: gemini_ops_def gemini_stop_def gemini_opened_def gemini_streaming_def
        split: if_splits prod.splits)
next
  case (4 s w r w' t)
  then show ?case
    by (auto simp: gemini_ops_def gemini_close_def gemini_opened_def gemini_streaming_def
        split: if_splits sum.splits prod.splits)
next
  case (5 s cb w w')
  then show ?case
    by (auto simp: gemini_ops_def gemini_start_def gemini_opened_def gemini_streaming_def
        split: if_splits prod.splits dest: sensor_start_state)
next
  case (6 s w)
  then show ?case
    by (auto simp: gemini_ops_def gemini_stop_def gemini_opened_def gemini_streaming_def sensor_stop_def)
next
  case (7 s w)
  then show ?case
    by (auto simp: gemini_ops_def gemini_close_def gemini_opened_def gemini_streaming_def sensor_close_def)
qed

lemma gemini_stop_store: "op_stop (gemini_ops g) s w = (r, w') \<Longrightarrow> fst w' = fst w"
  by (auto simp: gemini_ops_def gemini_stop_def split: if_splits prod.splits)

lemma gemini_close_store: "op_close (gemini_ops g) s w = (r, w') \<Longrightarrow> fst w' = fst w"
  by (auto simp: gemini_ops_def gemini_close_def split: if_splits sum.splits prod.splits)

lemma each_do_store:
  "each_do f xs w = (r, w') \<Longrightarrow> (\<And>x w r w'. f x w = (r, w') \<Longrightarrow> fst w' = fst w) \<Longrightarrow> fst w' = fst w"
proof (induction xs arbitrary: w)
  case Nil
  then show ?case by simp
next
  case (Cons x xs)
  obtain r1 w1 where x: "f x w = (r1, w1)" by (cases "f x w")
  with Cons.prems(2) [OF x] Cons.prems(1) Cons.IH [of w1] Cons.prems(2) show ?case
    by (cases r1) auto
qed

section \<open>Starting and stopping a pipeline\<close>

definition gemini_env :: "'s gemini \<Rightarrow> 's gemini_world pipe_env \<Rightarrow> bool" where
  "gemini_env g env \<longleftrightarrow> pe_ops env = gemini_ops g"

definition all_streaming :: "pipeline_profile \<Rightarrow> 's gemini_world world \<Rightarrow> bool" where
  "all_streaming prof w \<longleftrightarrow> (\<forall>s\<in>set (ms_sensors (pp_multi_stream prof)). gemini_opened s w \<and> gemini_streaming s w)"

definition all_closed :: "pipeline_profile \<Rightarrow> 's gemini_world world \<Rightarrow> bool" where
  "all_closed prof w \<longleftrightarrow> (\<forall>s\<in>set (ms_sensors (pp_multi_stream prof)). \<not> gemini_opened s w \<and> \<not> gemini_streaming s w)"

lemma start_all_streaming:
  assumes "gemini_env g env" "pipeline_start forced env conf cb p w = (Inr (Some prof), conf', p', w')"
    and "distinct (ms_sensors (pp_multi_stream prof))"
  shows "all_streaming prof w' \<and> active_profile p' = Some prof
    \<and> (\<exists>ids. pl_aggregator p' = Some (agg_start (new_aggregator ids)))"
proof -
  from pipeline_start_Some [OF assms(2)] obtain p1 p2 where
    u: "unsafeStart forced env conf p1 w = (Inr True, conf', p2, w')" "active_profile p2 = Some prof"
    and a: "pl_aggregator p2 = pl_aggregator p'" "active_profile p' = Some prof" by blast
  from unsafeStart_True [OF u(1)] obtain prof' s w2 p3 w3 where
    os: "onStart env prof' (p1\<lparr>is_stopping := s\<rparr>) w2 = Inr (p3, w3)"
    and ms: "ms_start (pe_ops env) (Some (pe_output env)) (pp_multi_stream prof') w3 = (Inr (), w')"
    and p2: "p2 = p3\<lparr>active_profile := Some prof', prev_conf := Some (copy_config conf')\<rparr>" by blast
  have "prof' = prof" using p2 u(2) by simp
  moreover from this have "all_streaming prof w'"
    using gs.ms_start_done [of g "Some (pe_output env)" "pp_multi_stream prof" w3 w'] ms assms(1,3)
    by (simp add: all_streaming_def gemini_env_def gemini_ops_def)
  moreover from onStart_Inr [OF os] have "\<exists>ids. pl_aggregator p2 = Some (agg_start (new_aggregator ids))"
    unfolding p2 by auto
  ultimately show ?thesis using a by simp
qed

lemma stop_streams_closed:
  assumes "gemini_env g env" "all_streaming prof w" "distinct (ms_sensors (pp_multi_stream prof))"
  shows "\<exists>w'. stop_streams env prof w = (Inr (), w') \<and> all_closed prof w' \<and> fst w' = fst w"
proof -
  have op: "pe_ops env = gemini_ops g" using assms(1) by (simp add: gemini_env_def)
  have "\<forall>s\<in>set (ms_sensors (pp_multi_stream prof)). gemini_opened s w \<and> op_streaming (gemini_ops g) s w"
    using assms(2) by (simp add: all_streaming_def gemini_ops_def)
  from gs.ms_stop_close_done [OF this assms(3)] obtain w1 w2 where
    w1: "ms_stop (gemini_ops g) (pp_multi_stream prof) w = (Inr (), w1)"
    and w2: "ms_close (gemini_ops g) (pp_multi_stream prof) w1 = (Inr (), w2)"
    and c: "\<forall>s\<in>set (ms_sensors (pp_multi_stream prof)). \<not> gemini_opened s w2 \<and> \<not> op_streaming (gemini_ops g) s w2"
    by blast
  have "fst w1 = fst w"
    using w1 unfolding ms_stop_def by (rule each_do_store) (rule gemini_stop_store)
  moreover have "fst w2 = fst w1"
    using w2 unfolding ms_close_def by (rule each_do_store) (rule gemini_close_store)
  moreover have "all_closed prof w2" using c by (simp add: all_closed_def gemini_ops_def)
  ultimately show ?thesis using w1 w2 op by (simp add: stop_streams_def)
qed

section \<open>A concrete pipeline\<close>

definition ready_gemini :: "unit gemini" where
  "ready_gemini = dead_gemini\<lparr>messenger := (messenger dead_gemini)\<lparr>lu_control := (\<lambda>_ _ _ _ _ _ _ s. (0, [], s))\<rparr>\<rparr>"

definition cam_sensor :: gemini_sensor where
  "cam_sensor = new_sensor 7 (new_port 1 None)"

definition cam_world :: "gemini_sensor \<Rightarrow> unit gemini_world" where
  "cam_world sn = \<lparr>gw_sensors = [sn], gw_device = (), gw_log = []\<rparr>"

definition cam_profile :: pipeline_profile where
  "cam_profile = \<lparr>pp_multi_stream = \<lparr>ms_sensors = [0], ms_sensor_profiles = [(0, [uid_profile 1])],
       ms_all_profiles = [uid_profile 1]\<rparr>,
     pp_device = \<lparr>dev_addr = 1, dev_group = \<lparr>usb_devices = [camera], playback_devices = []\<rparr>, dev_sensors = [0]\<rparr>,
     pp_to_file = ''''\<rparr>"

definition cam_env :: "unit gemini_world pipe_env" where
  "cam_env = \<lparr>pe_ops = gemini_ops ready_gemini, pe_wait = one_camera, pe_valid = \<lambda>d w. True, pe_output = 0, pe_restart = 1\<rparr>"

lemma cam_env [simp]: "gemini_env ready_gemini cam_env"
  by (simp add: gemini_env_def cam_env_def)

lemma cam_open:
  "\<exists>sn' st'. sensor_open ready_gemini ps cam_sensor st () = Inr (sn', st', (), [Port_open])
     \<and> is_opened sn' \<and> \<not> is_streaming sn' \<and> fg_total (usb_group sn') = 0"
proof -
  obtain src st1 where src: "source_init (sn_source cam_sensor) st = Inr (src, st1)"
    using source_init_Inr [of "sn_source cam_sensor" st] by (auto simp: cam_sensor_def new_sensor_def new_source_def)
  have "None \<notin> snd ` set (src_archives src)"
    using source_add_archives src [unfolded source_init_def]
    by (fastforce simp: cam_sensor_def new_sensor_def new_source_def)
  from archives_set_sensor_Inr [OF this] obtain st2 where
    st2: "source_set_sensor (Some (sn_id cam_sensor)) src st1 = Inr st2" by (auto simp: source_set_sensor_def)
  have c: "control_transfer_in ready_gemini SET_FRAME_IDS i (Some (replicate BUFFER_SIZE 0)) (of_nat BUFFER_SIZE) ()
      = Inr (0, Some (replicate BUFFER_SIZE 0), ())" for i
    by (simp add: control_transfer_in_def control_transfer_def ready_gemini_def dead_gemini_def put_bytes_def write_at_def
        SE2_USB_STATUS_SUCCESS_def)
  have "select_infos i (supported_infos cam_sensor) = []" for i
    by (simp add: select_infos_def cam_sensor_def new_sensor_def)
  then show ?thesis
    using src st2 c by (simp add: sensor_open_def Let_def) (simp add: cam_sensor_def new_sensor_def new_group_def)
qed

lemma cam_start:
  "\<exists>p' w' conf'. pipeline_start (\<lambda>k. False) cam_env (new_config\<lparr>resolved_profile := Some cam_profile\<rparr>) None
      (new_pipeline new_context) ([], cam_world cam_sensor) = (Inr (Some cam_profile), conf', p', w')"
proof -
  obtain sn1 st1 where o1: "sensor_open ready_gemini [uid_profile 1] cam_sensor [] () = Inr (sn1, st1, (), [Port_open])"
    "is_opened sn1" "\<not> is_streaming sn1" "fg_total (usb_group sn1) = 0" using cam_open by blast
  have "\<exists>sn2 acts. sensor_start cb sn1 = (Inr (), sn2, acts)" for cb
    using o1(2,3,4) by (auto simp: sensor_start_def startStream_def Let_def split: prod.splits)
  then obtain sn2 acts where s: "sensor_start (Some 0) sn1 = (Inr (), sn2, acts)" by blast
  show ?thesis
    using o1(1) s
    by (simp add: pipeline_start_def new_pipeline_def unsafeStart_def start_resolve_def getCachedResolvedProfile_def
        cam_profile_def ms_open_def ms_start_def cam_env_def gemini_ops_def gemini_open_def gemini_start_def
        cam_world_def gw_put_def onStart_def agg_destroy_def Let_def)
qed

text \<open>C12: Stopping a pipeline whose sensors stream always succeeds and leaves nothing behind: every
  sensor is stopped and closed, the frames that wait in the queue are released with the counts
  exact, and the pipeline is idle, ready to be started again.\<close>

theorem pipeline_stop_closes:
  assumes "gemini_env g env" "active_profile p = Some prof" "pl_aggregator p = Some ag"
    and "all_streaming prof (st, x)" "distinct (ms_sensors (pp_multi_stream prof))"
    and "frames_ok st (X + agg_held ag)"
  shows "\<exists>p' ag' st' x'. pipeline_stop force env p (st, x) = (Inr (), p', (st', x'))
    \<and> all_closed prof (st', x') \<and> active_profile p' = None \<and> \<not> is_stopping p'
    \<and> pl_aggregator p' = Some ag' \<and> items (agg_queue ag') = [] \<and> frames_ok st' (X + agg_held ag')"
proof -
  from agg_stop_ok [OF assms(6)] obtain ag' st' where ag': "agg_stop ag st = Inr (ag', st')"
    "frames_ok st' (X + agg_held ag')" "items (agg_queue ag') = []" by blast
  have "all_streaming prof (st', x)"
    using assms(4) by (simp add: all_streaming_def gemini_opened_def gemini_streaming_def)
  from stop_streams_closed [OF assms(1) this assms(5)] obtain w' where
    w': "stop_streams env prof (st', x) = (Inr (), w')" "all_closed prof w'" "fst w' = st'" by auto
  obtain x' where "w' = (st', x')" using w'(3) by (cases w') simp
  with w' ag' assms(2,3) show ?thesis
    by (cases force) (simp_all add: pipeline_stop_def unsafeStop_def Let_def reset_pipeline_def)
qed

theorem pipeline_stop_closes_witness:
  "\<exists>p' ag' st' x'. pipeline_stop False cam_env
      ((new_pipeline new_context)\<lparr>active_profile := Some cam_profile, pl_aggregator := Some (new_aggregator [1])\<rparr>)
      (video_store, cam_world (cam_sensor\<lparr>is_opened := True, is_streaming := True\<rparr>)) = (Inr (), p', (st', x'))
    \<and> all_closed cam_profile (st', x') \<and> active_profile p' = None \<and> \<not> is_stopping p'
    \<and> pl_aggregator p' = Some ag' \<and> items (agg_queue ag') = [] \<and> frames_ok st' ({#(0, Obj 0)#} + agg_held ag')"
  by (rule pipeline_stop_closes [OF cam_env _ _ _ _ video_store_ok])
    (simp_all add: all_streaming_def cam_profile_def cam_world_def gemini_opened_def gemini_streaming_def)

lemma stop_started:
  assumes "gemini_env g env" "active_profile p = Some prof" "pl_aggregator p = Some (agg_start (new_aggregator ids))"
    and "all_streaming prof w" "distinct (ms_sensors (pp_multi_stream prof))"
  shows "\<exists>p2 w2. pipeline_stop force env p w = (Inr (), p2, w2)
    \<and> all_closed prof w2 \<and> active_profile p2 = None \<and> fst w2 = fst w"
proof -
  have ag: "agg_stop (agg_start (new_aggregator ids)) (fst w) = Inr
     ((agg_start (new_aggregator ids))\<lparr>agg_accepting := False,
        agg_queue := cq_clear (agg_queue (agg_start (new_aggregator ids))), has_processing := False\<rparr>, fst w)"
    by (simp add: agg_stop_def agg_start_def new_aggregator_def new_cq_def)
  from stop_streams_closed [OF assms(1,4,5)] obtain w2 where
    w2: "stop_streams env prof w = (Inr (), w2)" "all_closed prof w2" "fst w2 = fst w" by blast
  then show ?thesis using assms(2,3) ag by (cases force) (simp_all add: pipeline_stop_def unsafeStop_def Let_def reset_pipeline_def)
qed

text \<open>When a pipeline has been started on sensors of a device, every sensor of the profile is open
  and streaming, and stopping it at once closes them all again.\<close>

theorem pipeline_start_stop:
  assumes "gemini_env g env" "pipeline_start forced env conf cb p w = (Inr (Some prof), conf', p', w')"
    and "distinct (ms_sensors (pp_multi_stream prof))"
  shows "all_streaming prof w' \<and> (\<exists>p2 w2. pipeline_stop force env p' w' = (Inr (), p2, w2)
    \<and> all_closed prof w2 \<and> active_profile p2 = None \<and> fst w2 = fst w')"
proof -
  from start_all_streaming [OF assms] obtain ids where s: "all_streaming prof w'" "active_profile p' = Some prof"
    "pl_aggregator p' = Some (agg_start (new_aggregator ids))" by blast
  from stop_started [OF assms(1) s(2,3,1) assms(3)] show ?thesis using s(1) by blast
qed

theorem pipeline_start_stop_witness:
  "\<exists>conf' p' w'. pipeline_start (\<lambda>k. False) cam_env (new_config\<lparr>resolved_profile := Some cam_profile\<rparr>) None
      (new_pipeline new_context) ([], cam_world cam_sensor) = (Inr (Some cam_profile), conf', p', w')
    \<and> all_streaming cam_profile w' \<and> (\<exists>p2 w2. pipeline_stop True cam_env p' w' = (Inr (), p2, w2)
      \<and> all_closed cam_profile w2 \<and> active_profile p2 = None \<and> fst w2 = fst w')"
proof -
  from cam_start obtain p' w' conf' where s: "pipeline_start (\<lambda>k. False) cam_env
      (new_config\<lparr>resolved_profile := Some cam_profile\<rparr>) None (new_pipeline new_context) ([], cam_world cam_sensor)
    = (Inr (Some cam_profile), conf', p', w')" by blast
  from pipeline_start_stop [OF cam_env s] s show ?thesis by (simp add: cam_profile_def)
qed

end
