(* ===== verification/Frame_Api.thy ===== *)
theory Frame_Api
  imports Frame_Aggregator Complex_Main "HOL-Library.Signed_Division"
begin

text \<open>
  The frames an application handles: \<open>Frame\<close> and its subclasses
  (\<open>include/smartereye2/core/frame.hpp\<close>), \<open>FrameSet\<close> (\<open>frame_set.hpp\<close>), their
  implementation (\<open>src/core/frame.cc\<close>), and the \<open>FrameHolder\<close> of \<open>src/core/frame.h\<close>.

  A \<open>Frame\<close> owns one reference to its frame.  The operations run on the store of archives and
  return it with their error or value, because a C++ exception keeps what was done before it.
  A profile is a pointer to an object nobody changes meanwhile; here it is its value.
\<close>

section \<open>Operations that may throw\<close>

definition bind_st :: "(se_error + 'a) \<times> 'w \<Rightarrow> ('a \<Rightarrow> 'w \<Rightarrow> (se_error + 'b) \<times> 'w) \<Rightarrow> (se_error + 'b) \<times> 'w" where
  "bind_st r f = (case r of (Inl e, w) \<Rightarrow> (Inl e, w) | (Inr x, w) \<Rightarrow> f x w)"

lemma bind_st_simps [simp]: "bind_st (Inl e, w) f = (Inl e, w)" "bind_st (Inr x, w) f = f x w"
  by (simp_all add: bind_st_def)

definition lift_st :: "('w \<Rightarrow> se_error + 'w) \<Rightarrow> 'w \<Rightarrow> (se_error + unit) \<times> 'w" where
  "lift_st act w = (case act w of Inl e \<Rightarrow> (Inl e, w) | Inr w' \<Rightarrow> (Inr (), w'))"

lemma lift_st_simps [simp]:
  "act w = Inr w' \<Longrightarrow> lift_st act w = (Inr (), w')" "act w = Inl e \<Longrightarrow> lift_st act w = (Inl e, w)"
  by (simp_all add: lift_st_def)

section \<open>Holders\<close>

text \<open>\<open>FrameHolder\<close>: destructor, move assignment and \<open>clone\<close>; a move leaves null behind.\<close>

definition holder_destroy :: "addr option \<Rightarrow> store \<Rightarrow> (se_error + unit) \<times> store" where
  "holder_destroy r st = (case r of None \<Rightarrow> (Inr (), st) | Some a \<Rightarrow> lift_st (release a) st)"

definition holder_move :: "addr option \<Rightarrow> addr option \<times> addr option" where
  "holder_move r = (r, None)"

definition holder_assign :: "addr option \<Rightarrow> addr option \<Rightarrow> store \<Rightarrow> (se_error + addr option \<times> addr option) \<times> store" where
  "holder_assign target other st =
     bind_st (holder_destroy target st) (\<lambda>_ st'. (Inr (holder_move other), st'))"

definition holder_clone :: "addr option \<Rightarrow> store \<Rightarrow> (se_error + addr option) \<times> store" where
  "holder_clone r st =
     (case r of None \<Rightarrow> (Inr None, st)
      | Some a \<Rightarrow> bind_st (lift_st (acquire a) st) (\<lambda>_ st'. (Inr (Some a), st')))"

section \<open>Frame\<close>

record frame_handle =
  frame_ref :: "addr option"
  handle_profile :: "stream_profile option"
  handle_index :: u64

definition no_frame :: frame_handle where
  "no_frame = \<lparr>frame_ref = None, handle_profile = None, handle_index = 0\<rparr>"

text \<open>\<open>dynamic_cast<CompositeFrameData *>\<close>: only a composite frame holds children.\<close>

definition is_composite :: "frame \<Rightarrow> bool" where
  "is_composite f = (case fr_payload f of Bytes _ \<Rightarrow> False | Children _ \<Rightarrow> True)"

definition deref_frame :: "addr option \<Rightarrow> store \<Rightarrow> se_error + frame" where
  "deref_frame r st =
     (case r of None \<Rightarrow> Inl (Undefined ''null frame'')
      | Some a \<Rightarrow> (case look st a of None \<Rightarrow> Inl (Undefined ''use of a freed frame'') | Some f \<Rightarrow> Inr f))"

text \<open>
  \<open>Frame(SeFrame *ref)\<close> takes over a reference; \<open>StreamProfile\<close> throws for a null profile.
\<close>

definition handle_of :: "addr option \<Rightarrow> store \<Rightarrow> (se_error + frame_handle) \<times> store" where
  "handle_of r st =
     (case r of
        None \<Rightarrow> (Inr no_frame, st)
      | Some a \<Rightarrow>
          (case deref_frame r st of
             Inl e \<Rightarrow> (Inl e, st)
           | Inr f \<Rightarrow>
               (if is_composite f
                then (Inr \<lparr>frame_ref = r, handle_profile = None, handle_index = fe_index (fr_ext f)\<rparr>, st)
                else case fr_profile f of
                  None \<Rightarrow> (Inl (Runtime_error ''null pointer passed for argument profile->profile''), st)
                | Some p \<Rightarrow>
                    (Inr \<lparr>frame_ref = r, handle_profile = Some p, handle_index = fe_index (fr_ext f)\<rparr>, st))))"

text \<open>
  The copy constructor, the move constructor (what is built and what is left), the assignment,
  which takes its argument by value, swaps and destroys, and the destructor.  \<open>reset\<close> keeps the
  pointer.
\<close>

definition handle_copy :: "frame_handle \<Rightarrow> store \<Rightarrow> (se_error + frame_handle) \<times> store" where
  "handle_copy h st =
     (case frame_ref h of
        None \<Rightarrow> (Inr no_frame, st)
      | Some a \<Rightarrow> bind_st (lift_st (acquire a) st) (\<lambda>_ st'. (Inr h, st')))"

definition handle_move :: "frame_handle \<Rightarrow> frame_handle \<times> frame_handle" where
  "handle_move h = (h, h\<lparr>frame_ref := None\<rparr>)"

definition handle_destroy :: "frame_handle \<Rightarrow> store \<Rightarrow> (se_error + unit) \<times> store" where
  "handle_destroy h st = holder_destroy (frame_ref h) st"

definition handle_swap :: "frame_handle \<Rightarrow> frame_handle \<Rightarrow> frame_handle \<times> frame_handle" where
  "handle_swap g h = (h, g)"

definition handle_assign :: "frame_handle \<Rightarrow> frame_handle \<Rightarrow> store \<Rightarrow> (se_error + frame_handle) \<times> store" where
  "handle_assign target other st =
     (case handle_swap target other of
        (target', other') \<Rightarrow> bind_st (handle_destroy other' st) (\<lambda>_ st'. (Inr target', st')))"

definition handle_assign_copy :: "frame_handle \<Rightarrow> frame_handle \<Rightarrow> store \<Rightarrow> (se_error + frame_handle) \<times> store" where
  "handle_assign_copy target other st = bind_st (handle_copy other st) (\<lambda>h st'. handle_assign target h st')"

definition handle_reset :: "frame_handle \<Rightarrow> store \<Rightarrow> (se_error + unit) \<times> store" where
  "handle_reset h st = holder_destroy (frame_ref h) st"

definition handle_keep :: "frame_handle \<Rightarrow> store \<Rightarrow> (se_error + unit) \<times> store" where
  "handle_keep h st =
     (case frame_ref h of
        None \<Rightarrow> (Inl (Undefined ''null frame''), st)
      | Some a \<Rightarrow> lift_st (keep a) st)"

text \<open>The accessors; \<open>getSensor\<close> reaches for the sensor's device and returns null.\<close>

definition handle_get :: "(frame \<Rightarrow> 'a) \<Rightarrow> frame_handle \<Rightarrow> store \<Rightarrow> se_error + 'a" where
  "handle_get g h st = bind_result (deref_frame (frame_ref h) st) (\<lambda>f. Inr (g f))"

definition handle_timestamp :: "frame_handle \<Rightarrow> store \<Rightarrow> se_error + int" where
  "handle_timestamp = handle_get (\<lambda>f. fe_timestamp (fr_ext f))"

definition handle_metadata :: "frame_handle \<Rightarrow> store \<Rightarrow> se_error + u8 list" where
  "handle_metadata = handle_get (\<lambda>f. fe_metadata_blob (fr_ext f))"

definition handle_metadata_size :: "frame_handle \<Rightarrow> store \<Rightarrow> se_error + nat" where
  "handle_metadata_size = handle_get (\<lambda>f. length (fe_metadata_blob (fr_ext f)))"

definition handle_supports_metadata :: "frame_metadata_value \<Rightarrow> frame_handle \<Rightarrow> store \<Rightarrow> se_error + bool" where
  "handle_supports_metadata v = handle_get (\<lambda>f. fe_metadata_value (fr_ext f) = v)"

definition handle_frame_index :: "frame_handle \<Rightarrow> store \<Rightarrow> se_error + int" where
  "handle_frame_index = handle_get (\<lambda>f. sint (fe_index (fr_ext f)))"

definition handle_speed :: "frame_handle \<Rightarrow> store \<Rightarrow> se_error + int" where
  "handle_speed = handle_get (\<lambda>f. fe_speed (fr_ext f))"

definition payload_size :: "payload \<Rightarrow> nat" where
  "payload_size p = (case p of Bytes bs \<Rightarrow> length bs | Children cs \<Rightarrow> 8 * length cs)"

definition handle_data_size :: "frame_handle \<Rightarrow> store \<Rightarrow> se_error + nat" where
  "handle_data_size = handle_get (\<lambda>f. payload_size (fr_payload f))"

definition handle_data :: "frame_handle \<Rightarrow> store \<Rightarrow> se_error + payload" where
  "handle_data = handle_get fr_payload"

definition handle_sensor :: "frame_handle \<Rightarrow> store \<Rightarrow> se_error + nat option" where
  "handle_sensor h st =
     bind_result (deref_frame (frame_ref h) st)
       (\<lambda>f. case frame_sensor_of (the (frame_ref h)) f st of
              None \<Rightarrow> Inl (Undefined ''null sensor'') | Some _ \<Rightarrow> Inr None)"

text \<open>\<open>VideoFrame(const Frame &)\<close>, to which \<open>as<VideoFrame>()\<close> and \<open>as<DepthFrame>()\<close> come down.\<close>

definition video_frame_of :: "frame_handle \<Rightarrow> store \<Rightarrow> (se_error + frame_handle) \<times> store" where
  "video_frame_of h st =
     bind_st (handle_copy h st) (\<lambda>h' st'.
       if frame_ref h = None then bind_st (handle_reset h' st') (\<lambda>_ st''. (Inr h', st''))
       else (Inr h', st'))"

section \<open>FrameSet\<close>

record frame_set =
  set_handle :: frame_handle
  set_size :: nat

definition no_frame_set :: frame_set where
  "no_frame_set = \<lparr>set_handle = no_frame, set_size = 0\<rparr>"

definition frame_set_of :: "frame_handle \<Rightarrow> store \<Rightarrow> (se_error + frame_set) \<times> store" where
  "frame_set_of h st =
     bind_st (handle_copy h st) (\<lambda>h' st'.
       case frame_ref h' of
         None \<Rightarrow> (Inr \<lparr>set_handle = h', set_size = 0\<rparr>, st')
       | Some a \<Rightarrow>
           (case deref_frame (Some a) st' of
              Inl e \<Rightarrow> (Inl e, st')
            | Inr f \<Rightarrow> (Inr \<lparr>set_handle = h', set_size = (if is_composite f then frame_count f else 0)\<rparr>, st')))"

definition set_destroy :: "frame_set \<Rightarrow> store \<Rightarrow> (se_error + unit) \<times> store" where
  "set_destroy fs st = handle_destroy (set_handle fs) st"

text \<open>\<open>CompositeFrameData::getFrame\<close> behind the cast.\<close>

definition composite_child :: "addr option \<Rightarrow> nat \<Rightarrow> store \<Rightarrow> se_error + addr option" where
  "composite_child r i st =
     bind_result (deref_frame r st)
       (\<lambda>f. case fr_payload f of
              Bytes _ \<Rightarrow> Inl (Undefined ''not a composite frame'')
            | Children cs \<Rightarrow> if i < length cs then Inr (cs ! i) else Inl (Undefined ''read past the frames''))"

text \<open>\<open>operator[](size_t)\<close> gives a \<open>Frame\<close> on the child without a reference of its own.\<close>

definition set_at :: "nat \<Rightarrow> frame_set \<Rightarrow> store \<Rightarrow> (se_error + frame_handle) \<times> store" where
  "set_at i fs st =
     (if i < set_size fs
      then case composite_child (frame_ref (set_handle fs)) i st of
             Inl e \<Rightarrow> (Inl e, st)
           | Inr r \<Rightarrow> handle_of r st
      else (Inl (Runtime_error ''Requested index is out of range!''), st))"

text \<open>
  \<open>firstOrDefault\<close>: every child is acquired before it is looked at, and released by the
  destructor of its \<open>Frame\<close> when it does not match.  When the constructor throws, that destructor
  does not run.
\<close>

definition profile_wanted :: "frame_id \<Rightarrow> frame_format \<Rightarrow> stream_profile \<Rightarrow> bool" where
  "profile_wanted fid fmt p \<longleftrightarrow> fid = sp_frame_id p \<and> (fmt = fmt_Any \<or> fmt = sp_format p)"

fun first_match ::
    "addr option \<Rightarrow> frame_id \<Rightarrow> frame_format \<Rightarrow> nat list \<Rightarrow> store \<Rightarrow> (se_error + frame_handle) \<times> store" where
  "first_match r fid fmt [] st = (Inr no_frame, st)"
| "first_match r fid fmt (i # is) st =
     (case composite_child r i st of
        Inl e \<Rightarrow> (Inl e, st)
      | Inr None \<Rightarrow> (Inl (Undefined ''null child frame''), st)
      | Inr (Some c) \<Rightarrow>
          bind_st (lift_st (acquire c) st) (\<lambda>_ st1.
          bind_st (handle_of (Some c) st1) (\<lambda>h st2.
            case handle_profile h of
              None \<Rightarrow> (Inl (Undefined ''null profile''), st2)
            | Some p \<Rightarrow>
                if profile_wanted fid fmt p then (Inr h, st2)
                else bind_st (handle_destroy h st2) (\<lambda>_ st3. first_match r fid fmt is st3))))"

definition firstOrDefault :: "frame_id \<Rightarrow> frame_format \<Rightarrow> frame_set \<Rightarrow> store \<Rightarrow> (se_error + frame_handle) \<times> store" where
  "firstOrDefault fid fmt fs st = first_match (frame_ref (set_handle fs)) fid fmt [0..<set_size fs] st"

definition set_first :: "frame_id \<Rightarrow> frame_format \<Rightarrow> frame_set \<Rightarrow> store \<Rightarrow> (se_error + frame_handle) \<times> store" where
  "set_first fid fmt fs st =
     bind_st (firstOrDefault fid fmt fs st) (\<lambda>h st'.
       if frame_ref h = None then (Inl (Runtime_error ''Frame of requested stream type was not found!''), st')
       else (Inr h, st'))"

definition handle_as_video :: "frame_handle \<Rightarrow> store \<Rightarrow> (se_error + frame_handle) \<times> store" where
  "handle_as_video h st =
     bind_st (video_frame_of h st) (\<lambda>v st'. bind_st (handle_destroy h st') (\<lambda>_ st''. (Inr v, st'')))"

definition getVideoFrame :: "frame_id \<Rightarrow> frame_set \<Rightarrow> store \<Rightarrow> (se_error + frame_handle) \<times> store" where
  "getVideoFrame fid fs st =
     bind_st (firstOrDefault fid fmt_Any fs st) (\<lambda>h st'.
       if frame_ref h = None then (Inl (Runtime_error ''Frame of requested stream type was not found!''), st')
       else handle_as_video h st')"

definition getVideoFrame_int :: "int \<Rightarrow> frame_set \<Rightarrow> store \<Rightarrow> (se_error + frame_handle) \<times> store" where
  "getVideoFrame_int n fs st = getVideoFrame (word_of_int n) fs st"

definition set_at_id :: "frame_id \<Rightarrow> frame_set \<Rightarrow> store \<Rightarrow> (se_error + frame_handle) \<times> store" where
  "set_at_id fid fs st =
     bind_st (firstOrDefault fid fmt_Any fs st) (\<lambda>h st'.
       if frame_ref h = None then (Inl (Runtime_error ''Frame of requested stream type was not found!''), st')
       else handle_as_video h st')"

definition getDepthFrame :: "frame_set \<Rightarrow> store \<Rightarrow> (se_error + frame_handle) \<times> store" where
  "getDepthFrame fs st =
     bind_st (firstOrDefault fid_Disparity fmt_Disparity16 fs st) (\<lambda>h st'. handle_as_video h st')"

text \<open>A loop over \<open>begin()\<close> to \<open>end()\<close>: each step makes a \<open>Frame\<close> of the child and destroys it.\<close>

fun set_iterate :: "nat list \<Rightarrow> frame_set \<Rightarrow> store \<Rightarrow> (se_error + unit) \<times> store" where
  "set_iterate [] fs st = (Inr (), st)"
| "set_iterate (i # is) fs st =
     bind_st (set_at i fs st) (\<lambda>h st1. bind_st (handle_destroy h st1) (\<lambda>_ st2. set_iterate is fs st2))"

section \<open>Typed frames\<close>

text \<open>
  The class of a frame is that of its archive; \<open>ty\<close> gives the type each archive was made for.
  A \<open>dynamic_cast\<close> to another class is null.
\<close>

definition cast_frame :: "(nat \<Rightarrow> se_extension) \<Rightarrow> se_extension list \<Rightarrow> frame_handle \<Rightarrow> store \<Rightarrow> se_error + frame" where
  "cast_frame ty classes h st =
     bind_result (deref_frame (frame_ref h) st)
       (\<lambda>f. if ty (fst (the (frame_ref h))) \<in> set classes then Inr f else Inl (Undefined ''null frame''))"

definition video_classes :: "se_extension list" where
  "video_classes = [EXT_VIDEO_FRAME, EXT_DEPTH_FRAME, EXT_DISPARITY_FRAME]"

definition depth_classes :: "se_extension list" where
  "depth_classes = [EXT_DEPTH_FRAME, EXT_DISPARITY_FRAME]"

definition video_width :: "(nat \<Rightarrow> se_extension) \<Rightarrow> frame_handle \<Rightarrow> store \<Rightarrow> se_error + int" where
  "video_width ty h st = bind_result (cast_frame ty video_classes h st) (\<lambda>f. case fr_dims f of (w, _, _, _) \<Rightarrow> Inr w)"

definition video_height :: "(nat \<Rightarrow> se_extension) \<Rightarrow> frame_handle \<Rightarrow> store \<Rightarrow> se_error + int" where
  "video_height ty h st = bind_result (cast_frame ty video_classes h st) (\<lambda>f. case fr_dims f of (_, hh, _, _) \<Rightarrow> Inr hh)"

definition video_bpp :: "(nat \<Rightarrow> se_extension) \<Rightarrow> frame_handle \<Rightarrow> store \<Rightarrow> se_error + int" where
  "video_bpp ty h st = bind_result (cast_frame ty video_classes h st) (\<lambda>f. case fr_dims f of (_, _, b, _) \<Rightarrow> Inr b)"

definition video_stride :: "(nat \<Rightarrow> se_extension) \<Rightarrow> frame_handle \<Rightarrow> store \<Rightarrow> se_error + int" where
  "video_stride ty h st = bind_result (cast_frame ty video_classes h st) (\<lambda>f. case fr_dims f of (_, _, _, s) \<Rightarrow> Inr s)"

definition video_bytes_per_pixel :: "(nat \<Rightarrow> se_extension) \<Rightarrow> frame_handle \<Rightarrow> store \<Rightarrow> se_error + int" where
  "video_bytes_per_pixel ty h st = bind_result (video_bpp ty h st) (\<lambda>b. Inr (b sdiv 8))"

text \<open>
  \<open>DepthFrameData::distance\<close>: the pixel, widened to 64 bits (one byte is a signed \<open>char\<close>), times
  the depth units, which are zero.  No code sets \<open>original_\<close>, so its branch is never taken.
\<close>

definition depth_units :: rat where
  "depth_units = 0"

definition pixel_at :: "int \<Rightarrow> nat \<Rightarrow> u8 list \<Rightarrow> se_error + u8 list" where
  "pixel_at i n bs =
     (if 0 \<le> i \<and> (nat i + 1) * n \<le> length bs then Inr (take n (drop (nat i * n) bs))
      else Inl (Undefined ''read past the data''))"

definition pixel_value :: "u8 list \<Rightarrow> u64" where
  "pixel_value bs = (case bs of [b] \<Rightarrow> scast b | _ \<Rightarrow> of_nat (le_val bs))"

definition depth_distance :: "int \<Rightarrow> int \<Rightarrow> frame \<Rightarrow> se_error + rat" where
  "depth_distance x y f =
     (case (fr_dims f, fr_payload f) of
        ((w, _, b, _), Bytes bs) \<Rightarrow>
          let n = b sdiv 8
          in if n \<in> {1, 2, 4, 8}
             then bind_result (pixel_at (y * w + x) (nat n) bs)
                    (\<lambda>px. Inr (of_nat (unat (pixel_value px)) * depth_units))
             else Inl (Runtime_error ''Unrecognized depth format'')
      | (_, Children _) \<Rightarrow> Inl (Undefined ''pointers read as pixels''))"

definition depth_frame_distance ::
    "(nat \<Rightarrow> se_extension) \<Rightarrow> int \<Rightarrow> int \<Rightarrow> frame_handle \<Rightarrow> store \<Rightarrow> se_error + rat" where
  "depth_frame_distance ty x y h st = bind_result (cast_frame ty depth_classes h st) (depth_distance x y)"

definition depth_frame_units :: "(nat \<Rightarrow> se_extension) \<Rightarrow> frame_handle \<Rightarrow> store \<Rightarrow> se_error + rat" where
  "depth_frame_units ty h st = bind_result (cast_frame ty depth_classes h st) (\<lambda>_. Inr depth_units)"

text \<open>
  \<open>Points\<close>: vertices of twelve bytes, then as many texture coordinates of eight.
  \<open>exportToPly\<close> destroys the texture it is given, and writes nothing.
\<close>

definition vertexCount :: "frame \<Rightarrow> nat" where
  "vertexCount f = payload_size (fr_payload f) div (12 + 8)"

definition textureCoordinate_offset :: "frame \<Rightarrow> nat" where
  "textureCoordinate_offset f = 12 * vertexCount f"

definition points_of :: "(nat \<Rightarrow> se_extension) \<Rightarrow> frame_handle \<Rightarrow> store \<Rightarrow> (se_error + frame_handle \<times> nat) \<times> store" where
  "points_of ty h st =
     bind_st (handle_copy h st) (\<lambda>h' st'.
       if frame_ref h' = None then (Inr (h', 0), st')
       else case cast_frame ty [EXT_POINTS] h' st' of
         Inl e \<Rightarrow> (Inl e, st') | Inr f \<Rightarrow> (Inr (h', vertexCount f), st'))"

definition exportToPly :: "(nat \<Rightarrow> se_extension) \<Rightarrow> frame_handle \<Rightarrow> frame_handle \<Rightarrow> store \<Rightarrow> (se_error + unit) \<times> store" where
  "exportToPly ty texture h st =
     (case cast_frame ty [EXT_POINTS] h st of
        Inl e \<Rightarrow> (Inl e, st) | Inr _ \<Rightarrow> holder_destroy (frame_ref texture) st)"

text \<open>The parsed content of the perception frames.\<close>

definition perception_items :: "(nat \<Rightarrow> se_extension) \<Rightarrow> se_extension \<Rightarrow> frame_handle \<Rightarrow> store \<Rightarrow> se_error + u8 list list" where
  "perception_items ty cls h st = bind_result (cast_frame ty [cls] h st) (\<lambda>f. Inr (fr_items f))"

section \<open>Taking and dropping a reference to a live frame\<close>

lemma rc_inv_acquire_live:
  assumes inv: "rc_inv m X {}" and a: "m a = Some f"
  shows "rc_inv (m(a \<mapsto> f\<lparr>ref_count := ref_count f + 1\<rparr>)) (add_mset a X) {}"
    (is "rc_inv (m(a \<mapsto> ?g)) _ _")
proof -
  have fin: "finite (dom m)" using inv by (simp add: rc_inv_def)
  have at: "ref_count f = int (owned m {} X a)" "1 \<le> owned m {} X a"
    using rc_inv_at [OF inv, of a] a by (auto simp: rc_at_def)
  have "refs_from (m(a \<mapsto> ?g)) {} = refs_from m {}"
    using fin a by (intro refs_from_same) auto
  then have ow: "owned (m(a \<mapsto> ?g)) {} (add_mset a X) x = owned m {} X x + (if x = a then 1 else 0)" for x
    by (simp add: owned_def)
  have "rc_at (m(a \<mapsto> ?g)) (add_mset a X) {} a" using at ow [of a] by (simp add: rc_at_def)
  then show ?thesis using fin ow by (intro rc_inv_intro [OF inv]) auto
qed

lemma live_count: "frames_ok st X \<Longrightarrow> look st a = Some f \<Longrightarrow> 1 \<le> ref_count f"
  using rc_inv_at [of "look st" X "{}" a] by (auto simp: frames_ok_def rc_at_def)

lemma acquire_live:
  assumes ok: "frames_ok st X" and f: "look st a = Some f"
  obtains st' where "acquire a st = Inr st'" "frames_ok st' (add_mset a X)"
    "look st' = (look st)(a \<mapsto> f\<lparr>ref_count := ref_count f + 1\<rparr>)"
proof -
  obtain r where r: "ranked (look st) r" using ok by (auto simp: frames_ok_def)
  let ?g = "f\<lparr>ref_count := ref_count f + 1\<rparr>"
  have "rc_inv (look (put a ?g st)) (add_mset a X) {}"
    using ok f unfolding look_put [OF f] by (intro rc_inv_acquire_live) (auto simp: frames_ok_def)
  moreover have "store_ok (put a ?g st)"
    using ok f by (intro store_ok_put) (auto simp: frames_ok_def)
  moreover have "ranked (look (put a ?g st)) r"
    unfolding look_put [OF f] by (rule ranked_set [OF r f]) simp
  ultimately show thesis
    using that [of "put a ?g st"] by (auto simp: acquire_def f frames_ok_def look_put)
qed

lemma release_shared:
  assumes ok: "frames_ok st X" and a: "a \<in># X" and f: "look st a = Some f" "2 \<le> ref_count f"
  obtains st' where "release a st = Inr st'" "frames_ok st' (X - {#a#})"
    "look st' = (look st)(a \<mapsto> f\<lparr>ref_count := ref_count f - 1\<rparr>)"
proof -
  have "release a st = Inr (put a (f\<lparr>ref_count := ref_count f - 1\<rparr>) st)"
    using f by (simp add: release_def)
  with release_ok [OF ok a] that look_put [OF f(1)] show thesis by auto
qed

text \<open>A reference that is taken and dropped again leaves no trace.\<close>

lemma release_after_acquire:
  assumes ok: "frames_ok st X" and f: "look st a = Some f" and acq: "acquire a st = Inr st1"
  obtains st2 where "release a st1 = Inr st2" "frames_ok st2 X" "look st2 = look st"
proof -
  obtain st1' where st1: "acquire a st = Inr st1'" "frames_ok st1' (add_mset a X)"
    "look st1' = (look st)(a \<mapsto> f\<lparr>ref_count := ref_count f + 1\<rparr>)"
    using acquire_live [OF ok f] .
  have eq: "st1' = st1" using acq st1(1) by simp
  let ?g = "f\<lparr>ref_count := ref_count f + 1\<rparr>"
  have l: "look st1 a = Some ?g" and r: "2 \<le> ref_count ?g" and m: "a \<in># add_mset a X"
    and ok1: "frames_ok st1 (add_mset a X)"
    using st1(2,3) live_count [OF ok f] by (simp_all add: eq)
  from release_shared [OF ok1 m l r] obtain st2 where st2: "release a st1 = Inr st2"
    "frames_ok st2 X" "look st2 = (look st1)(a \<mapsto> f)" by auto
  have "look st2 = look st" using st2(3) st1(3) f eq by (auto simp: fun_eq_iff)
  with st2(1,2) show thesis by (rule that)
qed

section \<open>Looking for a frame in a set\<close>

text \<open>
  A set that \<open>waitForFrames\<close> gives: its frame is composite and every child is a live single
  frame with a profile.
\<close>

definition child_ok :: "store \<Rightarrow> addr \<Rightarrow> bool" where
  "child_ok st c = (case look st c of None \<Rightarrow> False | Some g \<Rightarrow> \<not> is_composite g \<and> fr_profile g \<noteq> None)"

definition set_of_children :: "addr \<Rightarrow> addr list \<Rightarrow> frame_set \<Rightarrow> store \<Rightarrow> bool" where
  "set_of_children a cs fs st \<longleftrightarrow>
     frame_ref (set_handle fs) = Some a \<and> set_size fs = length cs \<and> list_all (child_ok st) cs
     \<and> (case look st a of None \<Rightarrow> False
        | Some f \<Rightarrow> fr_payload f = Children (map Some cs) \<and> frame_count f = length cs)"

definition child_wanted :: "store \<Rightarrow> frame_id \<Rightarrow> frame_format \<Rightarrow> addr \<Rightarrow> bool" where
  "child_wanted st fid fmt c =
     (case look st c of None \<Rightarrow> False
      | Some g \<Rightarrow> (case fr_profile g of None \<Rightarrow> False | Some p \<Rightarrow> profile_wanted fid fmt p))"

lemma child_okE:
  assumes "child_ok st c"
  obtains g p where "look st c = Some g" "\<not> is_composite g" "fr_profile g = Some p"
  using assms by (auto simp: child_ok_def split: option.splits)

lemma composite_child_ok:
  assumes "look st a = Some f" "fr_payload f = Children (map Some cs)" "i < length cs"
  shows "composite_child (Some a) i st = Inr (Some (cs ! i))"
  using assms by (simp add: composite_child_def deref_frame_def)

lemma first_match_ok:
  assumes ok: "frames_ok st X" and f: "look st a = Some f" "fr_payload f = Children (map Some cs)"
    and cs: "list_all (child_ok st) cs" and "is": "set is \<subseteq> {..<length cs}"
  shows "case find (\<lambda>i. child_wanted st fid fmt (cs ! i)) is of
      None \<Rightarrow> \<exists>st'. first_match (Some a) fid fmt is st = (Inr no_frame, st') \<and> frames_ok st' X \<and> look st' = look st
    | Some i \<Rightarrow> \<exists>h st' g. first_match (Some a) fid fmt is st = (Inr h, st') \<and> frame_ref h = Some (cs ! i)
        \<and> handle_profile h = fr_profile g
        \<and> frames_ok st' (add_mset (cs ! i) X) \<and> look st (cs ! i) = Some g
        \<and> look st' = (look st)(cs ! i \<mapsto> g\<lparr>ref_count := ref_count g + 1\<rparr>)"
  using ok f(1) cs "is"
proof (induction "is" arbitrary: st)
  case Nil
  then show ?case by auto
next
  case (Cons i "is")
  let ?c = "cs ! i"
  have i: "i < length cs" using Cons.prems(4) by simp
  obtain g p where g: "look st ?c = Some g" "\<not> is_composite g" "fr_profile g = Some p"
    using Cons.prems(3) i by (metis child_okE list_all_length)
  obtain st1 where st1: "acquire ?c st = Inr st1" "frames_ok st1 (add_mset ?c X)"
    "look st1 = (look st)(?c \<mapsto> g\<lparr>ref_count := ref_count g + 1\<rparr>)"
    using acquire_live [OF Cons.prems(1) g(1)] .
  let ?h = "\<lparr>frame_ref = Some ?c, handle_profile = Some p, handle_index = fe_index (fr_ext g)\<rparr>"
  have h: "handle_of (Some ?c) st1 = (Inr ?h, st1)"
    using g st1(3) by (simp add: handle_of_def deref_frame_def is_composite_def)
  have w: "child_wanted st fid fmt ?c = profile_wanted fid fmt p"
    using g by (simp add: child_wanted_def)
  note step = composite_child_ok [OF Cons.prems(2) f(2) i] st1(1) h
  show ?case
  proof (cases "profile_wanted fid fmt p")
    case True
    then have "first_match (Some a) fid fmt (i # is) st = (Inr ?h, st1)" by (simp add: step)
    with True w st1 g show ?thesis by simp
  next
    case False
    obtain st2 where st2: "release ?c st1 = Inr st2" "frames_ok st2 X" "look st2 = look st"
      using release_after_acquire [OF Cons.prems(1) g(1) st1(1)] .
    have E: "first_match (Some a) fid fmt (i # is) st = first_match (Some a) fid fmt is st2"
      using False st2(1) by (simp add: step handle_destroy_def holder_destroy_def)
    have same: "child_ok st2 = child_ok st" "child_wanted st2 = child_wanted st"
      by (simp_all add: fun_eq_iff child_ok_def child_wanted_def st2(3))
    note IH = Cons.IH [OF st2(2), unfolded st2(3) same, OF Cons.prems(2,3)]
    show ?thesis
      unfolding E using IH Cons.prems(4) False w by (simp del: first_match.simps)
  qed
qed

lemma find_nth: "find P xs = map_option ((!) xs) (find (\<lambda>i. P (xs ! i)) [0..<length xs])"
proof -
  have map: "find P (map g ys) = map_option g (find (\<lambda>i. P (g i)) ys)" for g :: "nat \<Rightarrow> 'a" and ys
    by (induction ys) auto
  show ?thesis using map [of "(!) xs" "[0..<length xs]"] by (simp add: map_nth)
qed

lemma firstOrDefault_ok:
  assumes ok: "frames_ok st X" and fs: "set_of_children a cs fs st"
  shows "case find (child_wanted st fid fmt) cs of
      None \<Rightarrow> \<exists>st'. firstOrDefault fid fmt fs st = (Inr no_frame, st') \<and> frames_ok st' X \<and> look st' = look st
    | Some c \<Rightarrow> \<exists>h st' g. firstOrDefault fid fmt fs st = (Inr h, st') \<and> frame_ref h = Some c
        \<and> handle_profile h = fr_profile g \<and> frames_ok st' (add_mset c X) \<and> look st c = Some g
        \<and> look st' = (look st)(c \<mapsto> g\<lparr>ref_count := ref_count g + 1\<rparr>)"
proof -
  obtain f where f: "look st a = Some f" "fr_payload f = Children (map Some cs)"
    and s: "frame_ref (set_handle fs) = Some a" "set_size fs = length cs" "list_all (child_ok st) cs"
    using fs by (auto simp: set_of_children_def split: option.splits)
  have "set [0..<length cs] \<subseteq> {..<length cs}" by auto
  from first_match_ok [OF ok f s(3) this, of fid fmt] show ?thesis
    unfolding firstOrDefault_def s(1,2) find_nth [of "child_wanted st fid fmt" cs]
    by (cases "find (\<lambda>i. child_wanted st fid fmt (cs ! i)) [0..<length cs]") simp_all
qed

text \<open>\<open>as<VideoFrame>()\<close> of a temporary hands its reference on.\<close>

lemma handle_as_video_ok:
  assumes ok: "frames_ok st X" and a: "frame_ref h = Some a" "a \<in># X"
  obtains st' where "handle_as_video h st = (Inr h, st')" "frames_ok st' X" "look st' = look st"
proof -
  obtain f where f: "look st a = Some f" using held_frame [OF ok a(2)] .
  obtain st1 where st1: "acquire a st = Inr st1" using acquire_live [OF ok f] by blast
  obtain st2 where "release a st1 = Inr st2" "frames_ok st2 X" "look st2 = look st"
    using release_after_acquire [OF ok f st1] .
  with st1 a that show thesis
    by (simp add: handle_as_video_def video_frame_of_def handle_copy_def handle_destroy_def holder_destroy_def)
qed

lemma handle_as_video_null: "handle_as_video no_frame st = (Inr no_frame, st)"
  by (simp add: handle_as_video_def video_frame_of_def handle_copy_def handle_destroy_def
      holder_destroy_def handle_reset_def no_frame_def)

lemma run_release_dead:
  "look st c = None \<Longrightarrow> Rel c \<in> set ws \<Longrightarrow> \<exists>e. run_release ws st = Inl e"
proof (induction ws st rule: run_release.induct)
  case (2 a ws st)
  show ?case
  proof (cases "look st a")
    case (Some f)
    let ?st = "put a (f\<lparr>ref_count := ref_count f - 1\<rparr>) st"
    have d: "look ?st c = None" "Rel c \<in> set ws" using 2(3,4) Some by (auto simp: look_put)
    then show ?thesis
      using 2(1,2) [OF Some refl] Some by (cases "ref_count f = 1") (auto simp: Let_def)
  qed simp
next
  case (3 a ws st)
  then show ?case
    by (cases "unpublish a st") (auto simp: look_unpublish)
qed simp

text \<open>The only reference to a frame that is not composite is dropped: the frame is freed.\<close>

lemma release_last_single:
  assumes "store_ok st" "look st c = Some g" "ref_count g = 1" "\<not> is_composite g"
  obtains st' where "release c st = Inr st'" "look st' = (look st)(c := None)"
proof -
  let ?st = "put c (g\<lparr>ref_count := 0\<rparr>) st"
  have ch: "children g = []" using assms(4) by (simp add: is_composite_def children_def split: payload.splits)
  have l: "look ?st = (look st)(c \<mapsto> g\<lparr>ref_count := 0\<rparr>)" using assms(2) by (rule look_put)
  have "store_ok ?st" using assms(1,2) by (intro store_ok_put) auto
  then obtain st' where st': "unpublish c ?st = Inr st'" using unpublish_Inr l by fastforce
  have "release c st = Inr st'" using assms(2,3) ch st' by (simp add: release_def)
  moreover have "look st' = (look st)(c := None)" using look_unpublish [OF st'] l by simp
  ultimately show thesis by (rule that)
qed

text \<open>Every distance a depth frame reports is zero.\<close>

lemma depth_distance_zero: "depth_distance x y f = Inr d \<Longrightarrow> d = 0"
  by (auto simp: depth_distance_def depth_units_def bind_result_Inr Let_def
      split: prod.splits payload.splits if_splits)

section \<open>Properties\<close>

text \<open>The set in \<open>mixed_store\<close> for the concrete instances.\<close>

definition mixed_set :: frame_set where
  "mixed_set = \<lparr>set_handle = \<lparr>frame_ref = Some (1, Obj 0), handle_profile = None, handle_index = 0\<rparr>, set_size = 1\<rparr>"

lemma mixed_set_ok: "set_of_children (1, Obj 0) [(0, Obj 0)] mixed_set mixed_store"
  by (simp add: set_of_children_def mixed_set_def child_ok_def mixed_store_def look_def arc_look_def
      obj_frame_def new_frame_def is_composite_def)

text \<open>C21: Looking for a frame of a set by its id finds the first frame, in the order of
  the set, whose stream has that id, and throws exactly when there is none.  The frame comes with
  one new reference; every other frame of the store is as it was, those that were looked at and
  did not match included.\<close>

theorem video_frame_of_set:
  assumes "frames_ok st X" and "set_of_children a cs fs st"
  shows "case find (child_wanted st fid fmt_Any) cs of
      None \<Rightarrow> \<exists>st'. getVideoFrame fid fs st
                = (Inl (Runtime_error ''Frame of requested stream type was not found!''), st')
              \<and> frames_ok st' X \<and> look st' = look st
    | Some c \<Rightarrow> \<exists>h st' g. getVideoFrame fid fs st = (Inr h, st') \<and> frame_ref h = Some c
              \<and> frames_ok st' (add_mset c X) \<and> look st c = Some g
              \<and> look st' = (look st)(c \<mapsto> g\<lparr>ref_count := ref_count g + 1\<rparr>)"
proof (cases "find (child_wanted st fid fmt_Any) cs")
  case None
  then show ?thesis using firstOrDefault_ok [OF assms, of fid fmt_Any]
    by (auto simp: getVideoFrame_def no_frame_def)
next
  case (Some c)
  with firstOrDefault_ok [OF assms, of fid fmt_Any] obtain h st1 g where
    h: "firstOrDefault fid fmt_Any fs st = (Inr h, st1)" "frame_ref h = Some c" "frames_ok st1 (add_mset c X)"
    and g: "look st c = Some g" "look st1 = (look st)(c \<mapsto> g\<lparr>ref_count := ref_count g + 1\<rparr>)" by auto
  obtain st2 where "handle_as_video h st1 = (Inr h, st2)" "frames_ok st2 (add_mset c X)" "look st2 = look st1"
    using handle_as_video_ok [OF h(3,2)] by auto
  with h g Some show ?thesis by (simp add: getVideoFrame_def)
qed

theorem video_frame_of_set_witness:
  "(\<exists>st'. getVideoFrame fid_Lane mixed_set mixed_store
       = (Inl (Runtime_error ''Frame of requested stream type was not found!''), st')
     \<and> frames_ok st' {#(1, Obj 0), (0, Obj 1)#} \<and> look st' = look mixed_store)
   \<and> (\<exists>h st' g. getVideoFrame fid_NotUsed mixed_set mixed_store = (Inr h, st') \<and> frame_ref h = Some (0, Obj 0)
     \<and> frames_ok st' {#(0, Obj 0), (1, Obj 0), (0, Obj 1)#} \<and> look mixed_store (0, Obj 0) = Some g
     \<and> look st' = (look mixed_store)((0, Obj 0) \<mapsto> g\<lparr>ref_count := ref_count g + 1\<rparr>))"
proof -
  note w = video_frame_of_set [OF frame_reach_ok [OF mixed_store_reach] mixed_set_ok]
  have "child_wanted mixed_store fid fmt_Any (0, Obj 0) = (fid = fid_NotUsed)" for fid
    by (simp add: child_wanted_def mixed_store_def look_def arc_look_def obj_frame_def uid_profile_def
        new_profile_def profile_wanted_def)
  moreover have "fid_Lane \<noteq> fid_NotUsed" by (simp add: fid_Lane_def fid_NotUsed_def)
  ultimately show ?thesis using w [of fid_Lane] w [of fid_NotUsed] by simp
qed

text \<open>C36: Reading a set by index frees frames that the set still uses: when
  the set alone holds a frame, the \<open>Frame\<close> that \<open>operator[]\<close> gives takes no reference but drops one
  when it is destroyed; the frame is gone, and destroying the set uses it after it was freed.\<close>

theorem set_index_overreleases:
  assumes "frames_ok st X" and "set_of_children a cs fs st" and "i < length cs"
    and "look st (cs ! i) = Some g" and "ref_count g = 1"
    and "look st a = Some f" and "ref_count f = 1"
  shows "\<exists>h st' e. set_at i fs st = (Inr h, st) \<and> handle_destroy h st = (Inr (), st')
    \<and> look st' (cs ! i) = None \<and> set_destroy fs st' = (Inl e, st')"
proof -
  let ?c = "cs ! i"
  have s: "frame_ref (set_handle fs) = Some a" "set_size fs = length cs" "list_all (child_ok st) cs"
    and f: "fr_payload f = Children (map Some cs)" "frame_count f = length cs"
    using assms(2,6) by (auto simp: set_of_children_def)
  obtain p where g: "\<not> is_composite g" "fr_profile g = Some p"
    using s(3) assms(3,4) by (fastforce simp: list_all_length elim: child_okE)
  let ?h = "\<lparr>frame_ref = Some ?c, handle_profile = Some p, handle_index = fe_index (fr_ext g)\<rparr>"
  have at: "set_at i fs st = (Inr ?h, st)"
    using s assms(3,4) composite_child_ok [OF assms(6) f(1) assms(3)] g
    by (simp add: set_at_def handle_of_def deref_frame_def)
  obtain st' where st': "release ?c st = Inr st'" "look st' = (look st)(?c := None)"
    using release_last_single [OF _ assms(4,5) g(1)] assms(1) by (auto simp: frames_ok_def)
  have ne: "a \<noteq> ?c" using assms(4,6) f(1) g(1) by (auto simp: is_composite_def)
  let ?st = "put a (f\<lparr>ref_count := 0\<rparr>) st'"
  have l: "look st' a = Some f" using ne st'(2) assms(6) by simp
  have "look ?st ?c = None" using look_put [OF l] st'(2) ne by simp
  moreover have "Rel ?c \<in> set (map Rel (children f) @ [Unpub a])"
    using assms(3) f by (auto simp: children_def)
  ultimately obtain e where "run_release (map Rel (children f) @ [Unpub a]) ?st = Inl e"
    using run_release_dead by blast
  then have "release a st' = Inl e" using l assms(7) by (simp add: release_def)
  then have "set_destroy fs st' = (Inl e, st')"
    using s(1) by (simp add: set_destroy_def handle_destroy_def holder_destroy_def)
  then show ?thesis using at st' by (simp add: handle_destroy_def holder_destroy_def)
qed

theorem set_index_overreleases_witness:
  "\<exists>h st' e. set_at 0 mixed_set mixed_store = (Inr h, mixed_store) \<and> handle_destroy h mixed_store = (Inr (), st')
    \<and> look st' (0, Obj 0) = None \<and> set_destroy mixed_set st' = (Inl e, st')"
proof -
  have "look mixed_store (0, Obj 0) = Some (obj_frame 1 1)"
    "look mixed_store (1, Obj 0)
      = Some (new_frame\<lparr>fr_payload := Children [Some (0, Obj 0)], ref_count := 1, frame_count := 1\<rparr>)"
    by (simp_all add: mixed_store_def look_def arc_look_def)
  with set_index_overreleases [OF frame_reach_ok [OF mixed_store_reach] mixed_set_ok, of 0]
  show ?thesis by (simp add: obj_frame_def)
qed

end
