(* ===== verification/Pipeline_Api.thy ===== *)
theory Pipeline_Api
  imports Frame_Api Pipeline
begin

text \<open>
  The public \<open>Pipeline\<close> (second half of \<open>src/pipeline/pipeline.cc\<close>): it hands the application
  the frames the private pipeline waits for, as \<open>FrameSet\<close>s.  Its other operations only forward.
\<close>

section \<open>Operations\<close>

text \<open>The \<open>start\<close> overloads without a configuration make a new one.\<close>

definition Pipeline_start_default ::
    "(nat \<Rightarrow> bool) \<Rightarrow> 'x pipe_env \<Rightarrow> nat option \<Rightarrow> pipeline \<Rightarrow> 'x world
      \<Rightarrow> (se_error + pipeline_profile option) \<times> pipeline \<times> 'x world" where
  "Pipeline_start_default forced env cb p w =
     (case pipeline_start forced env new_config cb p w of (r, _, p', w') \<Rightarrow> (r, p', w'))"

text \<open>
  \<open>FrameSet(Frame(frame))\<close>: the temporary \<open>Frame\<close> takes the reference over, the set copies it,
  and the temporary is destroyed.
\<close>

definition set_of_ref :: "addr option \<Rightarrow> store \<Rightarrow> (se_error + frame_set) \<times> store" where
  "set_of_ref r st =
     bind_st (handle_of r st) (\<lambda>h st1.
     bind_st (frame_set_of h st1) (\<lambda>fs st2.
     bind_st (handle_destroy h st2) (\<lambda>_ st3. (Inr fs, st3))))"

text \<open>\<open>*frame_set = FrameSet(Frame(result))\<close>: the old frame of the target is released.\<close>

definition assign_set :: "addr option \<Rightarrow> frame_set \<Rightarrow> store \<Rightarrow> (se_error + frame_set) \<times> store" where
  "assign_set r target st =
     bind_st (set_of_ref r st) (\<lambda>fs st1.
     bind_st (handle_assign (set_handle target) (fst (handle_move (set_handle fs))) st1) (\<lambda>h st2.
       (Inr \<lparr>set_handle = h, set_size = set_size fs\<rparr>, st2)))"

definition Pipeline_waitForFrames ::
    "(nat \<Rightarrow> bool) \<Rightarrow> addr cq_op list \<Rightarrow> addr cq_op list \<Rightarrow> 'x pipe_env \<Rightarrow> pipeline \<Rightarrow> 'x world
      \<Rightarrow> (se_error + frame_set) \<times> pipeline \<times> 'x world" where
  "Pipeline_waitForFrames forced ops ops' env p w =
     (case waitForFrames forced ops ops' env p w of
        (Inl e, p', w') \<Rightarrow> (Inl e, p', w')
      | (Inr r, p', (st, x)) \<Rightarrow> (case set_of_ref r st of (res, st') \<Rightarrow> (res, p', (st', x))))"

text \<open>
  The two operations that fill the caller's set give whether they did, and the set; \<open>None\<close> is a
  null pointer.
\<close>

definition give_set ::
    "addr option \<Rightarrow> frame_set \<Rightarrow> pipeline \<Rightarrow> 'x world \<Rightarrow> (se_error + bool \<times> frame_set) \<times> pipeline \<times> 'x world" where
  "give_set r target p w =
     (case r of
        None \<Rightarrow> (Inr (False, target), p, w)
      | Some _ \<Rightarrow> (case assign_set r target (fst w) of
                   (Inl e, st') \<Rightarrow> (Inl e, p, (st', snd w))
                 | (Inr fs, st') \<Rightarrow> (Inr (True, fs), p, (st', snd w))))"

definition Pipeline_pollForFrames ::
    "frame_set option \<Rightarrow> pipeline \<Rightarrow> 'x world \<Rightarrow> (se_error + bool \<times> frame_set) \<times> pipeline \<times> 'x world" where
  "Pipeline_pollForFrames target p w =
     (case target of
        None \<Rightarrow> (Inl (Invalid_argument ''null frameset''), p, w)
      | Some fs \<Rightarrow>
          (case pollForFrames p of
             (Inl e, p') \<Rightarrow> (Inl e, p', w)
           | (Inr r, p') \<Rightarrow> give_set r fs p' w))"

definition Pipeline_tryWaitForFrames ::
    "(nat \<Rightarrow> bool) \<Rightarrow> addr cq_op list \<Rightarrow> addr cq_op list \<Rightarrow> 'x pipe_env \<Rightarrow> frame_set option \<Rightarrow> pipeline \<Rightarrow> 'x world
      \<Rightarrow> (se_error + bool \<times> frame_set) \<times> pipeline \<times> 'x world" where
  "Pipeline_tryWaitForFrames forced ops ops' env target p w =
     (case target of
        None \<Rightarrow> (Inl (Invalid_argument ''null frameset''), p, w)
      | Some fs \<Rightarrow>
          (case tryWaitForFrames forced ops ops' env p w of
             (Inl e, p', w') \<Rightarrow> (Inl e, p', w')
           | (Inr r, p', w') \<Rightarrow> give_set r fs p' w'))"

text \<open>The operations that only forward; \<open>None\<close> is a callback that is null.\<close>

definition Pipeline_start_callback ::
    "(nat \<Rightarrow> bool) \<Rightarrow> 'x pipe_env \<Rightarrow> nat \<Rightarrow> pipeline \<Rightarrow> 'x world
      \<Rightarrow> (se_error + pipeline_profile option) \<times> pipeline \<times> 'x world" where
  "Pipeline_start_callback forced env cb = Pipeline_start_default forced env (Some cb)"

definition Pipeline_stop :: "bool \<Rightarrow> 'x pipe_env \<Rightarrow> pipeline \<Rightarrow> 'x world \<Rightarrow> (se_error + unit) \<times> pipeline \<times> 'x world" where
  "Pipeline_stop = pipeline_stop"

definition Pipeline_registerInternalDeviceCallback :: "nat option \<Rightarrow> pipeline \<Rightarrow> int \<times> pipeline" where
  "Pipeline_registerInternalDeviceCallback cb p =
     (case registerDevicesChangedCallback cb (pl_context p) of (i, c) \<Rightarrow> (i, p\<lparr>pl_context := c\<rparr>))"

definition Pipeline_unregisterDevicesChangedCallback :: "int \<Rightarrow> pipeline \<Rightarrow> pipeline" where
  "Pipeline_unregisterDevicesChangedCallback i p = p\<lparr>pl_context := unregisterDevicesChangedCallback i (pl_context p)\<rparr>"

text \<open>The destructor of the private pipeline stops it; what the sensors throw is caught.\<close>

definition pipeline_destroy :: "'x pipe_env \<Rightarrow> pipeline \<Rightarrow> 'x world \<Rightarrow> se_error + 'x world" where
  "pipeline_destroy env p w =
     (case unsafeStop env p w of
        (Inl e, _, w') \<Rightarrow> if is_exception e then Inr w' else Inl e
      | (Inr _, _, w') \<Rightarrow> Inr w')"

text \<open>\<open>getActiveProfile().getDevice()\<close>: the profile is null when nothing streams, and it is not checked.\<close>

definition active_device :: "pipeline \<Rightarrow> se_error + se_device" where
  "active_device p =
     (case active_profile p of None \<Rightarrow> Inl (Undefined ''null profile'') | Some prof \<Rightarrow> Inr (pp_device prof))"

section \<open>References\<close>

text \<open>A set made of a composite frame has its only new reference.\<close>

lemma set_of_ref_ok:
  assumes ok: "frames_ok st X" and a: "a \<in># X" and f: "look st a = Some f" "is_composite f"
  obtains fs st' where "set_of_ref (Some a) st = (Inr fs, st')" "frame_ref (set_handle fs) = Some a"
    "set_size fs = frame_count f" "frames_ok st' X" "look st' = look st"
proof -
  let ?h = "\<lparr>frame_ref = Some a, handle_profile = None, handle_index = fe_index (fr_ext f)\<rparr>"
  let ?fs = "\<lparr>set_handle = ?h, set_size = frame_count f\<rparr>"
  have h: "handle_of (Some a) st = (Inr ?h, st)" using f by (simp add: handle_of_def deref_frame_def)
  obtain st1 where st1: "acquire a st = Inr st1" "frames_ok st1 (add_mset a X)"
    "look st1 = (look st)(a \<mapsto> f\<lparr>ref_count := ref_count f + 1\<rparr>)"
    using acquire_live [OF ok f(1)] .
  have fs: "frame_set_of ?h st = (Inr ?fs, st1)"
    using st1(1,3) f(2) by (simp add: frame_set_of_def handle_copy_def deref_frame_def is_composite_def)
  obtain st2 where "release a st1 = Inr st2" "frames_ok st2 X" "look st2 = look st"
    using release_after_acquire [OF ok f(1) st1(1)] .
  with h fs show thesis
    by (intro that [of ?fs st2]) (simp_all add: set_of_ref_def handle_destroy_def holder_destroy_def)
qed

text \<open>The reference a set owns; assigning to a set drops the one it had.\<close>

definition set_refs :: "frame_set \<Rightarrow> addr multiset" where
  "set_refs fs = (case frame_ref (set_handle fs) of None \<Rightarrow> {#} | Some a \<Rightarrow> {#a#})"

lemma assign_set_ok:
  assumes ok: "frames_ok st (add_mset a X)" and f: "look st a = Some f" "is_composite f"
    and old: "set_refs target \<subseteq># X"
  obtains fs st' where "assign_set (Some a) target st = (Inr fs, st')" "frame_ref (set_handle fs) = Some a"
    "set_size fs = frame_count f" "frames_ok st' (add_mset a X - set_refs target)"
    "set_refs target = {#} \<longrightarrow> look st' = look st"
proof -
  have aX: "a \<in># add_mset a X" by simp
  obtain fs st1 where s: "set_of_ref (Some a) st = (Inr fs, st1)" "frame_ref (set_handle fs) = Some a"
    "set_size fs = frame_count f" "look st1 = look st" and ok1: "frames_ok st1 (add_mset a X)"
    using set_of_ref_ok [OF ok aX f] by metis
  let ?r = "\<lparr>set_handle = set_handle fs, set_size = set_size fs\<rparr>"
  show thesis
  proof (cases "frame_ref (set_handle target)")
    case None
    with s ok1 show thesis
      by (intro that [of ?r st1])
        (simp_all add: set_refs_def assign_set_def handle_assign_def handle_swap_def handle_move_def handle_destroy_def holder_destroy_def)
  next
    case (Some b)
    with old have b: "b \<in># add_mset a X" by (simp add: set_refs_def)
    obtain st2 where "release b st1 = Inr st2" "frames_ok st2 (add_mset a X - {#b#})"
      using release_ok [OF ok1 b] by blast
    with Some s show thesis
      by (intro that [of ?r st2])
        (simp_all add: set_refs_def assign_set_def handle_assign_def handle_swap_def handle_move_def handle_destroy_def holder_destroy_def)
  qed
qed

definition holds_composite :: "store \<Rightarrow> addr \<Rightarrow> bool" where
  "holds_composite st a = (case look st a of None \<Rightarrow> False | Some f \<Rightarrow> is_composite f)"

lemma pollForFrames_ok:
  assumes "pl_aggregator p = Some ag" and "active_profile p \<noteq> None" and "streams_callback p = None"
    and "frames_ok st (X + agg_held ag)" and "list_all (holds_composite st) (items (agg_queue ag))"
    and "set_refs target \<subseteq># X"
  shows "\<exists>got fs p' ag' st'. Pipeline_pollForFrames (Some target) p (st, x) = (Inr (got, fs), p', (st', x))
    \<and> pl_aggregator p' = Some ag' \<and> items (agg_queue ag') = tl (items (agg_queue ag))
    \<and> frames_ok st' (X - set_refs target + set_refs fs + agg_held ag')
    \<and> (case items (agg_queue ag) of
         [] \<Rightarrow> \<not> got \<and> fs = target \<and> st' = st
       | a # _ \<Rightarrow> got \<and> frame_ref (set_handle fs) = Some a \<and> set_size fs = frame_count (the (look st a))
           \<and> (set_refs target = {#} \<longrightarrow> look st' = look st))"
proof (cases "items (agg_queue ag)")
  case Nil
  let ?ag = "ag\<lparr>agg_queue := (agg_queue ag)\<lparr>accepting := True\<rparr>\<rparr>"
  have "agg_try_dequeue ag = (None, ?ag)"
    using Nil by (simp add: agg_try_dequeue_def cq_try_dequeue_def cq_take_def)
  then have "Pipeline_pollForFrames (Some target) p (st, x)
      = (Inr (False, target), p\<lparr>pl_aggregator := Some ?ag\<rparr>, (st, x))"
    using assms(1-3) by (auto simp: Pipeline_pollForFrames_def pollForFrames_def give_set_def)
  moreover have "X - set_refs target + set_refs target + agg_held ?ag = X + agg_held ag"
    using assms(6) by (simp add: agg_held_def)
  ultimately show ?thesis using assms(4) Nil by auto
next
  case (Cons a rest)
  let ?ag = "ag\<lparr>agg_queue := (agg_queue ag)\<lparr>accepting := True, items := rest\<rparr>\<rparr>"
  have deq: "agg_try_dequeue ag = (Some a, ?ag)"
    using Cons by (simp add: agg_try_dequeue_def cq_try_dequeue_def cq_take_def)
  have held: "X + agg_held ag = add_mset a (X + agg_held ?ag)" by (simp add: agg_held_def Cons)
  obtain f where f: "look st a = Some f" "is_composite f"
    using assms(5) Cons by (auto simp: holds_composite_def split: option.splits)
  have ok: "frames_ok st (add_mset a (X + agg_held ?ag))" using assms(4) held by simp
  have old: "set_refs target \<subseteq># X + agg_held ?ag"
    using assms(6) by (rule subset_mset.order_trans) simp
  obtain fs st' where s: "assign_set (Some a) target st = (Inr fs, st')" "frame_ref (set_handle fs) = Some a"
    "set_size fs = frame_count f" "frames_ok st' (add_mset a (X + agg_held ?ag) - set_refs target)"
    "set_refs target = {#} \<longrightarrow> look st' = look st"
    using assign_set_ok [OF ok f old] .
  have eq: "add_mset a (X + agg_held ?ag) - set_refs target = X - set_refs target + set_refs fs + agg_held ?ag"
  proof -
    have e: "add_mset a (X + agg_held ?ag) = X + (set_refs fs + agg_held ?ag)"
      using s(2) by (simp add: set_refs_def)
    show ?thesis
      unfolding e using subset_mset.diff_add_assoc2 [OF assms(6), of "set_refs fs + agg_held ?ag"] by (simp add: ac_simps)
  qed
  obtain prof where "active_profile p = Some prof" using assms(2) by auto
  then have "Pipeline_pollForFrames (Some target) p (st, x) = (Inr (True, fs), p\<lparr>pl_aggregator := Some ?ag\<rparr>, (st', x))"
    using s(1) deq assms(1,3) by (simp add: Pipeline_pollForFrames_def pollForFrames_def give_set_def)
  moreover have "frames_ok st' (X - set_refs target + set_refs fs + agg_held ?ag)" using s(4) unfolding eq .
  ultimately show ?thesis using s(2,3,5) f Cons
    by (intro exI [of _ True] exI [of _ fs] exI [of _ "p\<lparr>pl_aggregator := Some ?ag\<rparr>"] exI [of _ ?ag] exI [of _ st']) simp
qed

section \<open>Properties\<close>

text \<open>C16: Polling a streaming pipeline hands the oldest queued set to the application: it never
  fails, tells whether there was one, gives exactly that frame with all its children counted, and keeps
  the reference counts exact: the frame the caller's set held before is released once, the new one
  is held once, and the queue holds the others.\<close>

theorem poll_hands_over:
  assumes "pl_aggregator p = Some ag" and "active_profile p \<noteq> None" and "streams_callback p = None"
    and "frames_ok st (X + agg_held ag)" and "list_all (holds_composite st) (items (agg_queue ag))"
    and "set_refs target \<subseteq># X"
  shows "\<exists>got fs p' ag' st'. Pipeline_pollForFrames (Some target) p (st, x) = (Inr (got, fs), p', (st', x))
    \<and> pl_aggregator p' = Some ag' \<and> items (agg_queue ag') = tl (items (agg_queue ag))
    \<and> frames_ok st' (X - set_refs target + set_refs fs + agg_held ag')
    \<and> (case items (agg_queue ag) of
         [] \<Rightarrow> \<not> got \<and> fs = target \<and> st' = st
       | a # _ \<Rightarrow> got \<and> frame_ref (set_handle fs) = Some a \<and> set_size fs = frame_count (the (look st a)))"
  using pollForFrames_ok [OF assms, of x] by (cases "items (agg_queue ag)") (simp_all, blast+)

definition polled_aggregator :: aggregator where
  "polled_aggregator = (new_aggregator [1])\<lparr>agg_queue := (new_cq 1)\<lparr>items := [(1, Obj 0)]\<rparr>\<rparr>"

definition polled_pipeline :: pipeline where
  "polled_pipeline = (new_pipeline new_context)\<lparr>active_profile := Some still_profile, pl_aggregator := Some polled_aggregator\<rparr>"

theorem poll_hands_over_witness:
  "\<exists>fs p' ag' st'. Pipeline_pollForFrames (Some no_frame_set) polled_pipeline (mixed_store, ()) = (Inr (True, fs), p', (st', ()))
    \<and> pl_aggregator p' = Some ag' \<and> items (agg_queue ag') = []
    \<and> frames_ok st' ({#(0, Obj 1)#} + set_refs fs + agg_held ag')
    \<and> frame_ref (set_handle fs) = Some (1, Obj 0) \<and> set_size fs = 1"
proof -
  have l: "look mixed_store (1, Obj 0)
      = Some (new_frame\<lparr>fr_payload := Children [Some (0, Obj 0)], ref_count := 1, frame_count := 1\<rparr>)"
    by (simp add: mixed_store_def look_def arc_look_def)
  have i: "items (agg_queue polled_aggregator) = [(1, Obj 0)]" "agg_held polled_aggregator = {#(1, Obj 0)#}"
    by (simp_all add: polled_aggregator_def agg_held_def new_aggregator_def)
  have p: "pl_aggregator polled_pipeline = Some polled_aggregator" "active_profile polled_pipeline \<noteq> None"
    "streams_callback polled_pipeline = None"
    by (simp_all add: polled_pipeline_def new_pipeline_def)
  have ok: "frames_ok mixed_store ({#(0, Obj 1)#} + agg_held polled_aggregator)"
    using frame_reach_ok [OF mixed_store_reach] by (simp add: i)
  have c: "list_all (holds_composite mixed_store) (items (agg_queue polled_aggregator))"
    by (simp add: i holds_composite_def l is_composite_def del: One_nat_def)
  have t: "set_refs no_frame_set = {#}" by (simp add: set_refs_def no_frame_set_def no_frame_def)
  have sub: "set_refs no_frame_set \<subseteq># {#(0, Obj 1)#}" by (simp add: t)
  from poll_hands_over [OF p ok c sub, of "()"] show ?thesis by (auto simp: i t l simp del: One_nat_def)
qed

end
