(* ===== verification/Syncer.thy ===== *)
theory Syncer
  imports Frame_Api
begin

text \<open>
  The synchronizer of \<open>src/proc/syncer_process.*\<close>: matchers by stream, and the function the
  processing unit applies to a frame.  The matchers are \<open>IdentityMatcher\<close>s: no device makes another
  (\<open>createMatcher\<close> gives null).  A matcher is named by its place in \<open>sy_objs\<close>; a
  \<open>Matcher *\<close> used as a key is such a place or null.  Times are in milliseconds, as rationals; the
  time service of the environment is its answer, or \<open>None\<close> when the pointer is empty.

  The callback counters are taken and given back within one call and are left out, as are the
  log texts; what building a log text dereferences is kept.  The comparisons of time stamps in
  floating point (\<open>equal\<close>, \<open>lessThan\<close>, \<open>skipMissingStream\<close>) are not called by any code.
\<close>

section \<open>State\<close>

record matcher =
  mt_streams :: "int list"
  mt_types :: "frame_id list"
  mt_active :: bool

definition identity_matcher :: "int \<Rightarrow> frame_id \<Rightarrow> matcher" where
  "identity_matcher uid fid = \<lparr>mt_streams = [uid], mt_types = [fid], mt_active = True\<rparr>"

record syncer =
  sy_objs :: "matcher list"
  sy_matchers :: "(int \<times> nat option) list"
  sy_streams :: "int list"
  sy_types :: "frame_id list"
  sy_queues :: "(nat \<times> addr cq) list"
  sy_last :: "nat option \<Rightarrow> rat"
  sy_fps :: "nat option \<Rightarrow> u32"

text \<open>\<open>CompositeMatcher(matchers, name)\<close>.\<close>

definition add_matcher :: "matcher \<Rightarrow> syncer \<Rightarrow> syncer" where
  "add_matcher m s =
     (let k = length (sy_objs s)
      in s\<lparr>sy_objs := sy_objs s @ [m],
           sy_matchers := fold (\<lambda>i. omap_put i (Some k)) (mt_streams m) (sy_matchers s),
           sy_streams := sy_streams s @ mt_streams m, sy_types := sy_types s @ mt_types m\<rparr>)"

definition new_syncer :: "matcher list \<Rightarrow> syncer" where
  "new_syncer ms = fold add_matcher ms
     \<lparr>sy_objs = [], sy_matchers = [], sy_streams = [], sy_types = [], sy_queues = [],
      sy_last = (\<lambda>_. 0), sy_fps = (\<lambda>_. 0)\<rparr>"

text \<open>\<open>matchers_[id]\<close> inserts a null pointer for a new key, \<open>frames_queue_[m]\<close> an empty queue.\<close>

definition matcher_at :: "int \<Rightarrow> syncer \<Rightarrow> nat option \<times> syncer" where
  "matcher_at i s =
     (case map_of (sy_matchers s) i of
        Some m \<Rightarrow> (m, s)
      | None \<Rightarrow> (None, s\<lparr>sy_matchers := omap_put i None (sy_matchers s)\<rparr>))"

definition queue_at :: "nat \<Rightarrow> syncer \<Rightarrow> addr cq" where
  "queue_at k s = (case map_of (sy_queues s) k of Some q \<Rightarrow> q | None \<Rightarrow> new_cq kQueueMaxSize)"

definition put_queue :: "nat \<Rightarrow> addr cq \<Rightarrow> syncer \<Rightarrow> syncer" where
  "put_queue k q s = s\<lparr>sy_queues := omap_put k q (sy_queues s)\<rparr>"

definition erase_queue :: "nat \<Rightarrow> syncer \<Rightarrow> syncer" where
  "erase_queue k s = s\<lparr>sy_queues := filter (\<lambda>(j, _). j \<noteq> k) (sy_queues s)\<rparr>"

definition set_active :: "nat \<Rightarrow> bool \<Rightarrow> syncer \<Rightarrow> syncer" where
  "set_active k b s = s\<lparr>sy_objs := (sy_objs s)[k := (sy_objs s ! k)\<lparr>mt_active := b\<rparr>]\<rparr>"

section \<open>Finding the matcher\<close>

text \<open>
  \<open>findMatcher\<close>.  \<open>alive\<close> says whether the device of a sensor can be reached; the frame's
  profile is dereferenced.  A frame of a device gets a new matcher from the device, which is null.
\<close>

definition make_matcher :: "int \<Rightarrow> frame_id \<Rightarrow> syncer \<Rightarrow> nat \<times> syncer" where
  "make_matcher uid fid s =
     (length (sy_objs s),
      s\<lparr>sy_objs := sy_objs s @ [identity_matcher uid fid],
        sy_matchers := omap_put uid (Some (length (sy_objs s))) (sy_matchers s),
        sy_streams := sy_streams s @ [uid], sy_types := sy_types s @ [fid]\<rparr>)"

definition device_exists :: "(nat \<Rightarrow> bool) \<Rightarrow> addr \<Rightarrow> frame \<Rightarrow> store \<Rightarrow> bool" where
  "device_exists alive a f st = (case frame_sensor_of a f st of None \<Rightarrow> False | Some sn \<Rightarrow> alive sn)"

definition findMatcher :: "(nat \<Rightarrow> bool) \<Rightarrow> addr \<Rightarrow> syncer \<Rightarrow> store \<Rightarrow> se_error + nat \<times> syncer" where
  "findMatcher alive a s st =
     bind_result (deref_frame (Some a) st) (\<lambda>f.
       case fr_profile f of
         None \<Rightarrow> Inl (Undefined ''null profile'')
       | Some p \<Rightarrow>
           (case matcher_at (sp_uid p) s of
              (r, s1) \<Rightarrow>
                if device_exists alive a f st
                then (case r of
                        None \<Rightarrow> Inl (Undefined ''null matcher'')
                      | Some k \<Rightarrow>
                          if mt_active (sy_objs s1 ! k) then Inr (k, s1)
                          else Inr (k, put_queue k (cq_start (queue_at k s1)) (set_active k True s1)))
                else (case r of
                        None \<Rightarrow> Inr (make_matcher (sp_uid p) (sp_frame_id p) s1)
                      | Some k \<Rightarrow> Inr (k, s1))))"

section \<open>Streams that have stopped\<close>

definition arrival_threshold :: "u32 \<Rightarrow> rat" where
  "arrival_threshold fps = (if fps \<noteq> 0 then of_nat (unat (1000 div fps * 5)) else 500)"

fun mark_inactive :: "rat \<Rightarrow> (int \<times> nat option) list \<Rightarrow> syncer \<Rightarrow> se_error + int list \<times> syncer" where
  "mark_inactive now [] s = Inr ([], s)"
| "mark_inactive now ((i, m) # ms) s =
     (if sy_last s m \<noteq> 0 \<and> arrival_threshold (sy_fps s m) < now - sy_last s m
      then case m of
             None \<Rightarrow> Inl (Undefined ''null matcher'')
           | Some k \<Rightarrow> bind_result (mark_inactive now ms (set_active k False s)) (\<lambda>(ids, s'). Inr (i # ids, s'))
      else mark_inactive now ms s)"

text \<open>Clearing a queue destroys the holders in it.\<close>

fun drop_queues :: "int list \<Rightarrow> syncer \<Rightarrow> store \<Rightarrow> se_error + syncer \<times> store" where
  "drop_queues [] s st = Inr (s, st)"
| "drop_queues (i # is) s st =
     (case matcher_at i s of
        (None, s1) \<Rightarrow> drop_queues is s1 st
      | (Some k, s1) \<Rightarrow>
          bind_result (run_release (map Rel (items (queue_at k s1))) st)
            (\<lambda>st1. drop_queues is (erase_queue k s1) st1))"

text \<open>
  \<open>Environment::instance().getTimeService()->getTime()\<close>.  The context sets what its backend creates, and
  that is an empty pointer.
\<close>

definition createTimeService :: "rat option" where "createTimeService = None"

definition time_of :: "rat option \<Rightarrow> se_error + rat" where
  "time_of ts = (case ts of None \<Rightarrow> Inl (Undefined ''null time service'') | Some now \<Rightarrow> Inr now)"

definition cleanInactiveStreams :: "rat option \<Rightarrow> addr \<Rightarrow> syncer \<Rightarrow> store \<Rightarrow> se_error + syncer \<times> store" where
  "cleanInactiveStreams ts a s st =
     bind_result (deref_frame (Some a) st) (\<lambda>f.
       if fe_blocking (fr_ext f) then Inr (s, st)
       else bind_result (time_of ts) (\<lambda>now.
            bind_result (mark_inactive now (sy_matchers s) s) (\<lambda>(ids, s1). drop_queues ids s1 st)))"

definition updateLastArrived :: "rat option \<Rightarrow> addr \<Rightarrow> nat \<Rightarrow> syncer \<Rightarrow> store \<Rightarrow> se_error + syncer" where
  "updateLastArrived ts a k s st =
     bind_result (deref_frame (Some a) st) (\<lambda>f.
       case fr_profile f of
         None \<Rightarrow> Inl (Undefined ''null profile'')
       | Some p \<Rightarrow> bind_result (time_of ts) (\<lambda>now.
                      Inr (s\<lparr>sy_fps := (sy_fps s)(Some k := sp_fps p), sy_last := (sy_last s)(Some k := now)\<rparr>)))"

section \<open>Dispatching a frame\<close>

text \<open>What the log texts dereference: the profiles of the children, or that of a single frame.\<close>

definition has_profile :: "store \<Rightarrow> addr option \<Rightarrow> bool" where
  "has_profile st r =
     (case r of None \<Rightarrow> False
      | Some c \<Rightarrow> (case look st c of None \<Rightarrow> False | Some g \<Rightarrow> fr_profile g \<noteq> None))"

definition frame_to_string :: "addr \<Rightarrow> store \<Rightarrow> se_error + unit" where
  "frame_to_string a st =
     bind_result (deref_frame (Some a) st) (\<lambda>f.
       if (case fr_payload f of
             Bytes _ \<Rightarrow> fr_profile f \<noteq> None
           | Children cs \<Rightarrow> list_all (has_profile st) (take (frame_count f) cs))
       then Inr () else Inl (Undefined ''null profile''))"

text \<open>
  The callback of the processing unit, \<open>matches\<close> the queue of the environment: it casts the frame
  to a composite frame and logs the children.  \<open>ops\<close> is what others do to the queue while a
  blocking frame waits for room.
\<close>

definition syncer_callback :: "addr \<Rightarrow> addr cq \<Rightarrow> store \<Rightarrow> se_error + addr cq" where
  "syncer_callback a matches st =
     bind_result (deref_frame (Some a) st) (\<lambda>f.
       if \<not> is_composite f then Inl (Undefined ''null composite frame'')
       else bind_result (frame_to_string a st) (\<lambda>_.
         case cfq_enqueue (fe_blocking (fr_ext f)) a [] matches of
           None \<Rightarrow> Inl (Runtime_error ''blocked'') | Some q \<Rightarrow> Inr q))"

text \<open>
  \<open>dispatch\<close> down to the callback: the found matcher hands the frame to \<open>CompositeMatcher::sync\<close>,
  which gives the callback a clone and destroys its own holder.
\<close>

definition syncer_dispatch ::
    "rat option \<Rightarrow> (nat \<Rightarrow> bool) \<Rightarrow> addr \<Rightarrow> addr cq \<Rightarrow> syncer \<Rightarrow> store \<Rightarrow> se_error + addr cq \<times> syncer \<times> store" where
  "syncer_dispatch ts alive a matches s st =
     bind_result (frame_to_string a st) (\<lambda>_.
     bind_result (cleanInactiveStreams ts a s st) (\<lambda>(s1, st1).
     bind_result (findMatcher alive a s1 st1) (\<lambda>(k, s2).
     bind_result (updateLastArrived ts a k s2 st1) (\<lambda>s3.
     bind_result (acquire a st1) (\<lambda>st2.
     bind_result (syncer_callback a matches st2) (\<lambda>matches'.
     bind_result (release a st2) (\<lambda>st3. Inr (matches', s3, st3))))))))"

text \<open>
  The processing function: pass the frame on when no option is set, else dispatch it and pass on
  what the callback queued.
\<close>

fun frames_ready :: "frame_source \<Rightarrow> addr list \<Rightarrow> store \<Rightarrow> se_error + addr list \<times> store" where
  "frames_ready src [] st = Inr ([], st)"
| "frames_ready src (a # as) st =
     bind_result (source_invoke_callback (Some a) src st) (\<lambda>(r, st1).
     bind_result (frames_ready src as st1) (\<lambda>(rs, st2). Inr ((case r of None \<Rightarrow> rs | Some b \<Rightarrow> b # rs), st2)))"

definition syncer_process ::
    "bool list \<Rightarrow> rat option \<Rightarrow> (nat \<Rightarrow> bool) \<Rightarrow> frame_source \<Rightarrow> addr \<Rightarrow> syncer \<Rightarrow> store
      \<Rightarrow> se_error + addr list \<times> syncer \<times> store" where
  "syncer_process enable_opts ts alive src a s st =
     (if \<not> list_ex id enable_opts
      then bind_result (frames_ready src [a] st) (\<lambda>(rs, st'). Inr (rs, s, st'))
      else bind_result (syncer_dispatch ts alive a (new_cq kQueueMaxSize) s st) (\<lambda>(q, s', st1).
           bind_result (frames_ready src (items q) st1) (\<lambda>(rs, st2). Inr (rs, s', st2))))"

section \<open>The states of a syncer\<close>

definition sy_ok :: "syncer \<Rightarrow> bool" where
  "sy_ok s \<longleftrightarrow> omap_ok (sy_matchers s)
     \<and> (\<forall>k. Some k \<in> snd ` set (sy_matchers s) \<longrightarrow> k < length (sy_objs s))
     \<and> (\<forall>(k, q)\<in>set (sy_queues s). items q = []) \<and> sy_last s None = 0"

lemma sy_ok_matchers:
  assumes "sy_ok s" "\<And>k. r = Some k \<Longrightarrow> k < length ob" "length (sy_objs s) \<le> length ob"
  shows "sy_ok (s\<lparr>sy_objs := ob, sy_matchers := omap_put i r (sy_matchers s)\<rparr>)"
proof -
  have o: "omap_ok (sy_matchers s)" and b: "\<And>k. Some k \<in> snd ` set (sy_matchers s) \<Longrightarrow> k < length (sy_objs s)"
    using assms(1) by (auto simp: sy_ok_def)
  have "k < length ob" if "Some k \<in> snd ` set (omap_put i r (sy_matchers s))" for k
  proof -
    have "Some k \<in> insert r (snd ` set (sy_matchers s))" using snd_omap_put [OF o] that by blast
    then consider "r = Some k" | "Some k \<in> snd ` set (sy_matchers s)" by blast
    then show ?thesis
    proof cases
      case 1
      then show ?thesis by (rule assms(2))
    next
      case 2
      then show ?thesis using b [OF 2] assms(3) by simp
    qed
  qed
  then show ?thesis using assms(1) o by (simp add: sy_ok_def)
qed

lemma sy_ok_simps [simp]:
  "sy_ok (s\<lparr>sy_streams := x\<rparr>) = sy_ok s" "sy_ok (s\<lparr>sy_types := y\<rparr>) = sy_ok s"
  "sy_ok (s\<lparr>sy_fps := z\<rparr>) = sy_ok s" "sy_ok (s\<lparr>sy_last := (sy_last s)(Some k := t)\<rparr>) = sy_ok s"
  "sy_ok (set_active k b s) = sy_ok s"
  by (simp_all add: sy_ok_def set_active_def)

lemma sy_ok_new: "sy_ok (new_syncer ms)"
proof -
  have step: "sy_ok (add_matcher m s)" if s: "sy_ok s" for m s
  proof -
    let ?k = "length (sy_objs s)"
    have "sy_ok (s\<lparr>sy_objs := sy_objs s @ [m], sy_matchers := fold (\<lambda>i. omap_put i (Some ?k)) is (sy_matchers s)\<rparr>)"
      for "is"
    proof (induction "is" rule: rev_induct)
      case Nil
      then show ?case using s by (auto simp: sy_ok_def)
    next
      case (snoc i "is")
      from sy_ok_matchers [OF snoc, of "Some ?k" "sy_objs s @ [m]" i] show ?case by simp
    qed
    then show ?thesis by (simp add: add_matcher_def Let_def)
  qed
  have "sy_ok s \<Longrightarrow> sy_ok (fold add_matcher ms s)" for s
    by (induction ms arbitrary: s) (auto intro: step)
  moreover have "sy_ok \<lparr>sy_objs = [], sy_matchers = [], sy_streams = [], sy_types = [], sy_queues = [],
      sy_last = (\<lambda>_. 0), sy_fps = (\<lambda>_. 0)\<rparr>"
    by (simp add: sy_ok_def)
  ultimately show ?thesis unfolding new_syncer_def by blast
qed

lemma queue_at_empty: "sy_ok s \<Longrightarrow> items (queue_at k s) = []"
  by (auto simp: queue_at_def sy_ok_def new_cq_def split: option.splits dest!: map_of_SomeD)

lemma put_queue_ok:
  assumes "sy_ok s" "items q = []"
  shows "sy_ok (put_queue k q s)"
proof -
  have "set (omap_put k q qs) \<subseteq> insert (k, q) (set qs)" for qs
    by (induction k q qs rule: omap_put.induct) auto
  from this [of "sy_queues s"] show ?thesis using assms by (fastforce simp: put_queue_def sy_ok_def)
qed

lemma matcher_at_ok:
  assumes "sy_ok s" "matcher_at i s = (r, s')"
  shows "sy_ok s'" "r = (case map_of (sy_matchers s) i of None \<Rightarrow> None | Some m \<Rightarrow> m)"
  using assms sy_ok_matchers [OF assms(1), of None "sy_objs s" i]
  by (auto simp: matcher_at_def split: option.splits)

lemma mark_inactive_ok:
  "sy_ok s \<Longrightarrow> \<exists>ids s'. mark_inactive now ms s = Inr (ids, s') \<and> sy_ok s' \<and> sy_matchers s' = sy_matchers s
     \<and> set ids \<subseteq> fst ` set ms"
proof (induction now ms s rule: mark_inactive.induct)
  case (1 now s)
  then show ?case by simp
next
  case (2 now i m ms s)
  show ?case
  proof (cases "sy_last s m \<noteq> 0 \<and> arrival_threshold (sy_fps s m) < now - sy_last s m")
    case True
    then obtain k where m: "m = Some k" using 2(3) by (cases m) (auto simp: sy_ok_def)
    have "sy_ok (set_active k False s)" using 2(3) by simp
    from 2(1) [OF True m this] obtain ids s' where "mark_inactive now ms (set_active k False s) = Inr (ids, s')"
      "sy_ok s'" "sy_matchers s' = sy_matchers s" "set ids \<subseteq> fst ` set ms" by (auto simp: set_active_def)
    with True m show ?thesis by auto
  next
    case False
    from 2(2) [OF False 2(3)] False show ?thesis by auto
  qed
qed

lemma drop_queues_ok:
  "sy_ok s \<Longrightarrow> set is \<subseteq> fst ` set (sy_matchers s) \<Longrightarrow>
   \<exists>s'. drop_queues is s st = Inr (s', st) \<and> sy_ok s' \<and> sy_matchers s' = sy_matchers s"
proof (induction "is" arbitrary: s)
  case Nil
  then show ?case by simp
next
  case (Cons i "is")
  have "map_of (sy_matchers s) i \<noteq> None" using Cons.prems(2) by (simp add: map_of_eq_None_iff)
  then obtain m where m: "matcher_at i s = (m, s)" by (auto simp: matcher_at_def)
  show ?case
  proof (cases m)
    case None
    with m Cons show ?thesis by simp
  next
    case (Some k)
    have e: "items (queue_at k s) = []" using Cons.prems(1) by (rule queue_at_empty)
    have "sy_ok (erase_queue k s)" using Cons.prems(1) by (auto simp: sy_ok_def erase_queue_def)
    moreover have "set is \<subseteq> fst ` set (sy_matchers (erase_queue k s))" using Cons.prems(2) by (simp add: erase_queue_def)
    ultimately obtain s' where "drop_queues is (erase_queue k s) st = Inr (s', st)" "sy_ok s'"
      "sy_matchers s' = sy_matchers (erase_queue k s)" using Cons.IH by blast
    with m Some e show ?thesis by (simp add: erase_queue_def)
  qed
qed

lemma clean_ok:
  assumes "sy_ok s" "look st a = Some f"
  obtains s' where "cleanInactiveStreams (Some now) a s st = Inr (s', st)" "sy_ok s'" "sy_matchers s' = sy_matchers s"
proof (cases "fe_blocking (fr_ext f)")
  case True
  with assms show thesis by (intro that) (auto simp: cleanInactiveStreams_def deref_frame_def time_of_def)
next
  case False
  obtain ids s1 where m: "mark_inactive now (sy_matchers s) s = Inr (ids, s1)" "sy_ok s1"
    "sy_matchers s1 = sy_matchers s" "set ids \<subseteq> fst ` set (sy_matchers s)"
    using mark_inactive_ok [OF assms(1)] by blast
  from drop_queues_ok [OF m(2), of ids st] m obtain s2 where "drop_queues ids s1 st = Inr (s2, st)" "sy_ok s2"
    "sy_matchers s2 = sy_matchers s1" by auto
  with m False assms(2) show thesis
    by (intro that [of s2]) (simp_all add: cleanInactiveStreams_def deref_frame_def time_of_def)
qed

lemma make_matcher_ok: "sy_ok s \<Longrightarrow> make_matcher uid fid s = (k, s') \<Longrightarrow> sy_ok s'"
  using sy_ok_matchers [of s "Some (length (sy_objs s))" "sy_objs s @ [identity_matcher uid fid]" uid]
  by (auto simp: make_matcher_def)

text \<open>A matcher is found or made, unless a device would have to make it.\<close>

lemma find_ok:
  assumes "sy_ok s" "look st a = Some f" "fr_profile f = Some p"
    and "device_exists alive a f st \<Longrightarrow> \<exists>k. map_of (sy_matchers s) (sp_uid p) = Some (Some k)"
  obtains k s' where "findMatcher alive a s st = Inr (k, s')" "sy_ok s'"
proof -
  obtain r s1 where r: "matcher_at (sp_uid p) s = (r, s1)" by fastforce
  note ok = matcher_at_ok [OF assms(1) r]
  show thesis
  proof (cases r)
    case (Some k)
    show thesis
    proof (cases "device_exists alive a f st \<and> \<not> mt_active (sy_objs s1 ! k)")
      case True
      have "items (cq_start (queue_at k s1)) = []"
        using queue_at_empty [OF ok(1), of k] by (simp add: cq_start_def)
      with True Some r assms(2,3) ok(1) put_queue_ok [of "set_active k True s1"] show thesis
        by (intro that [of k "put_queue k (cq_start (queue_at k s1)) (set_active k True s1)"])
          (simp_all add: findMatcher_def deref_frame_def)
    next
      case False
      with Some r assms(2,3) ok(1) show thesis
        by (intro that [of k s1]) (auto simp: findMatcher_def deref_frame_def)
    qed
  next
    case None
    with assms(4) ok(2) have "\<not> device_exists alive a f st" by auto
    moreover obtain k s2 where m: "make_matcher (sp_uid p) (sp_frame_id p) s1 = (k, s2)" by fastforce
    ultimately show thesis
      using None r assms(2,3) make_matcher_ok [OF ok(1) m]
      by (intro that [of k s2]) (simp_all add: findMatcher_def deref_frame_def)
  qed
qed

section \<open>Properties\<close>

text \<open>A composite frame with a profile, as the aggregator makes them.\<close>

definition synced_store :: store where
  "synced_store =
     [(new_archive 0)\<lparr>published_count := 2, objs := [Some (obj_frame 1 1), Some (obj_frame 1 3)]\<rparr>,
      (new_archive 0)\<lparr>published_count := 1,
        objs := [Some (new_frame\<lparr>fr_payload := Children [Some (0, Obj 0)], ref_count := 1, frame_count := 1,
          fr_profile := Some (uid_profile 1)\<rparr>)]\<rparr>]"

lemma synced_store_reach: "frame_reach [0, 0] synced_store {#(1, Obj 0), (0, Obj 1)#}"
proof -
  have "frame_exec (F_tag (1, Obj 0) (Some (uid_profile 1)) None) mixed_store {#(1, Obj 0), (0, Obj 1)#}
      = Inr (synced_store, {#(1, Obj 0), (0, Obj 1)#})"
    by (simp add: obj_exec_simps mixed_store_def synced_store_def)
  then show ?thesis by (rule frame_reach.step [OF mixed_store_reach, rotated]) simp
qed

lemma dispatch_without_time:
  assumes "look st a = Some f" "fr_profile f = Some p" "frame_to_string a st = Inr ()" "sy_ok s"
    and "device_exists alive a f st \<Longrightarrow> \<exists>k. map_of (sy_matchers s) (sp_uid p) = Some (Some k)"
  shows "syncer_dispatch None alive a matches s st = Inl (Undefined ''null time service'')"
proof (cases "fe_blocking (fr_ext f)")
  case True
  obtain k s' where "findMatcher alive a s st = Inr (k, s')" using find_ok [OF assms(4,1,2,5)] by blast
  with True assms(1-3) show ?thesis
    by (simp add: syncer_dispatch_def cleanInactiveStreams_def updateLastArrived_def deref_frame_def time_of_def)
next
  case False
  with assms(1,3) show ?thesis by (simp add: syncer_dispatch_def cleanInactiveStreams_def deref_frame_def time_of_def)
qed

lemma dispatch_with_time:
  assumes "frames_ok st X" and "a \<in># X" and "look st a = Some f" and "sy_ok s"
    and "fr_payload f = Children cs" and "fr_profile f = Some p"
    and "list_all (has_profile st) (take (frame_count f) cs)"
    and "device_exists alive a f st \<Longrightarrow> \<exists>k. map_of (sy_matchers s) (sp_uid p) = Some (Some k)"
  shows "\<exists>q s' st'. syncer_dispatch (Some now) alive a (new_cq kQueueMaxSize) s st = Inr (q, s', st')
    \<and> items q = [a] \<and> frames_ok st' X \<and> look st' = look st \<and> sy_ok s'"
proof -
  obtain s1 where s1: "cleanInactiveStreams (Some now) a s st = Inr (s1, st)" "sy_ok s1" "sy_matchers s1 = sy_matchers s"
    using clean_ok [OF assms(4,3)] .
  obtain k s2 where s2: "findMatcher alive a s1 st = Inr (k, s2)" "sy_ok s2"
    using find_ok [OF s1(2) assms(3,6)] assms(8) s1(3) by metis
  let ?s3 = "s2\<lparr>sy_fps := (sy_fps s2)(Some k := sp_fps p), sy_last := (sy_last s2)(Some k := now)\<rparr>"
  have up: "updateLastArrived (Some now) a k s2 st = Inr ?s3"
    using assms(3,6) by (simp add: updateLastArrived_def deref_frame_def time_of_def)
  have log: "frame_to_string a st = Inr ()"
    using assms(3,5,7) by (simp add: frame_to_string_def deref_frame_def)
  obtain st2 where st2: "acquire a st = Inr st2" "frames_ok st2 (add_mset a X)"
    "look st2 = (look st)(a \<mapsto> f\<lparr>ref_count := ref_count f + 1\<rparr>)"
    using acquire_live [OF assms(1,3)] .
  have hp: "has_profile st2 = has_profile st"
    using st2(3) assms(3) by (auto simp: fun_eq_iff has_profile_def split: option.splits)
  obtain q where q: "cfq_enqueue (fe_blocking (fr_ext f)) a [] (new_cq kQueueMaxSize) = Some q" "items q = [a]"
    by (auto simp: cfq_enqueue_def cq_blocking_enqueue_def cq_can_push_def cq_push_def cq_enqueue_def
        new_cq_def kQueueMaxSize_def Let_def)
  have "syncer_callback a (new_cq kQueueMaxSize) st2 = Inr q"
    using st2(3) assms(5,7) q(1)
    by (simp add: syncer_callback_def deref_frame_def is_composite_def frame_to_string_def hp)
  moreover obtain st3 where "release a st2 = Inr st3" "frames_ok st3 X" "look st3 = look st"
    using release_after_acquire [OF assms(1,3) st2(1)] .
  moreover have "sy_ok ?s3" using s2(2) sy_ok_simps(4) [of "s2\<lparr>sy_fps := (sy_fps s2)(Some k := sp_fps p)\<rparr>" k now] by simp
  ultimately show ?thesis
    using log s1(1) s2(1) up st2(1) q(2) by (simp add: syncer_dispatch_def)
qed



text \<open>A single frame crashes the synchronizer: the callback of the processing unit
  takes every frame for a composite one.  No frame of a single stream is ever passed on.\<close>

theorem syncer_single_frame_crash:
  assumes "frames_ok st X" and "a \<in># X" and "look st a = Some f" and "\<not> is_composite f" and "sy_ok s"
  shows "\<exists>e. syncer_dispatch ts alive a matches s st = Inl (Undefined e)"
proof -
  have d: "deref_frame (Some a) st = Inr f" using assms(3) by (simp add: deref_frame_def)
  show ?thesis
  proof (cases "fr_profile f")
    case None
    then show ?thesis
      using d assms(4) by (auto simp: syncer_dispatch_def frame_to_string_def is_composite_def split: payload.splits)
  next
    case (Some p)
    have log: "frame_to_string a st = Inr ()"
      using d assms(4) Some by (auto simp: frame_to_string_def is_composite_def split: payload.splits)
    have found: "\<exists>m. e = Undefined m" if "findMatcher alive a t st = Inl e" for t e
      using that d Some by (auto simp: findMatcher_def Let_def split: prod.splits option.splits if_splits)
    obtain st2 where st2: "acquire a st = Inr st2" "look st2 = (look st)(a \<mapsto> f\<lparr>ref_count := ref_count f + 1\<rparr>)"
      using acquire_live [OF assms(1,3)] by blast
    have cb: "syncer_callback a matches st2 = Inl (Undefined ''null composite frame'')"
      using st2(2) assms(4) by (simp add: syncer_callback_def deref_frame_def is_composite_def)
    have rest: "\<exists>m. bind_result (findMatcher alive a t st) (\<lambda>(k, s2). bind_result (updateLastArrived ts a k s2 st) (\<lambda>s3.
        bind_result (acquire a st) (\<lambda>st2. bind_result (syncer_callback a matches st2) (\<lambda>matches'.
        bind_result (release a st2) (\<lambda>st3. Inr (matches', s3, st3)))))) = Inl (Undefined m)" for t
      using found [of t] st2(1) cb d Some
      by (cases "findMatcher alive a t st"; cases ts) (auto simp: updateLastArrived_def time_of_def)
    show ?thesis
    proof (cases "ts = None \<and> \<not> fe_blocking (fr_ext f)")
      case True
      then show ?thesis using log d by (simp add: syncer_dispatch_def cleanInactiveStreams_def time_of_def)
    next
      case False
      then obtain s1 where "cleanInactiveStreams ts a s st = Inr (s1, st)"
        using clean_ok [OF assms(5,3)] d by (cases ts) (auto simp: cleanInactiveStreams_def)
      then show ?thesis using log rest [of s1] by (simp add: syncer_dispatch_def)
    qed
  qed
qed

theorem syncer_single_frame_crash_witness:
  "\<exists>e. syncer_dispatch (Some 5) (\<lambda>_. True) (0, Obj 1) (new_cq kQueueMaxSize) (new_syncer []) synced_store = Inl (Undefined e)"
proof -
  have l: "look synced_store (0, Obj 1) = Some (obj_frame 1 3)"
    by (simp add: synced_store_def look_def arc_look_def)
  show ?thesis
    by (rule syncer_single_frame_crash [OF frame_reach_ok [OF synced_store_reach] _ l _ sy_ok_new])
      (simp_all add: is_composite_def obj_frame_def new_frame_def)
qed

end
