(* ===== verification/Frame_Delivery.thy ===== *)
theory Frame_Delivery
  imports Frame_Api
begin

text \<open>
  What happens to the store when the aggregator of \<open>Frame_Aggregator\<close> takes one frame: which frames
  keep their content, which archive gains a frame, and what the queue receives when neither it nor the
  archive of composite frames is full.
\<close>

section \<open>What the operations leave alone\<close>

text \<open>The limits of the archives and their callback counters never change.\<close>

definition settings :: "store \<Rightarrow> (u32 \<times> callbacks_heap) list" where
  "settings st = map (\<lambda>A. (max_queue A, callbacks A)) st"

definition limits :: "store \<Rightarrow> u32 list" where
  "limits st = map max_queue st"

lemma settings_limits: "settings st' = settings st \<Longrightarrow> limits st' = limits st"
proof -
  have "limits s = map fst (settings s)" for s by (simp add: limits_def settings_def)
  then show "settings st' = settings st \<Longrightarrow> limits st' = limits st" by simp
qed

lemma unpublish_frame_callbacks: "unpublish_frame l A = Inr A' \<Longrightarrow> callbacks A' = callbacks A"
  by (auto simp: unpublish_frame_def Let_def bind_result_Inr keep_frame_def
      split: option.splits loc.splits if_splits)

lemma settings_eq:
  "settings st' = settings st \<longleftrightarrow> length st' = length st
     \<and> (\<forall>k<length st. max_queue (st' ! k) = max_queue (st ! k) \<and> callbacks (st' ! k) = callbacks (st ! k))"
  by (auto simp: settings_def list_eq_iff_nth_eq)

lemma settings_put [simp]: "settings (put a f st) = settings st"
  by (cases "fst a < length st") (auto simp: settings_eq put_def nth_list_update not_less)

lemma settings_acquire: "acquire a st = Inr st' \<Longrightarrow> settings st' = settings st"
  by (auto simp: acquire_def split: option.splits)

lemma settings_unpublish: "unpublish a st = Inr st' \<Longrightarrow> settings st' = settings st"
  by (auto simp: unpublish_def settings_eq bind_result_Inr nth_list_update unpublish_frame_look(2)
      unpublish_frame_callbacks split: if_splits)

lemma settings_run_release: "run_release ws st = Inr st' \<Longrightarrow> settings st' = settings st"
proof (induction ws st rule: run_release.induct)
  case (2 a ws st)
  then show ?case by (auto simp: Let_def split: option.splits if_splits)
next
  case (3 a ws st)
  then show ?case by (auto split: sum.splits dest: settings_unpublish)
qed simp

lemma settings_release: "release a st = Inr st' \<Longrightarrow> settings st' = settings st"
  unfolding release_def by (rule settings_run_release)

lemma settings_clone_all: "clone_all hs st = Inr st' \<Longrightarrow> settings st' = settings st"
  by (induction hs arbitrary: st rule: somes.induct) (auto simp: bind_result_Inr dest!: settings_acquire)

lemma settings_set_frame: "set_frame g a st = Inr st' \<Longrightarrow> settings st' = settings st"
  by (auto simp: set_frame_def split: option.splits)

lemma settings_upd:
  "max_queue A = max_queue (st ! k) \<Longrightarrow> callbacks A = callbacks (st ! k) \<Longrightarrow> settings (st[k := A]) = settings st"
  by (cases "k < length st") (auto simp: settings_eq nth_list_update not_less)

lemma publish_frame_settings:
  "publish_frame cur A = (r, A') \<Longrightarrow> max_queue A' = max_queue A \<and> callbacks A' = callbacks A"
  using publish_frame_count(2,4) [of cur A] publish_frame_refused [of cur A] by (cases r) auto

lemma settings_alloc: "alloc_and_track k sz ext mem st = Inr (r, st') \<Longrightarrow> settings st' = settings st"
  by (auto simp: alloc_and_track_def bind_result_Inr dest!: settings_acquire publish_frame_settings
      intro: settings_upd split: prod.splits option.splits if_splits)

lemma settings_allocate_composite:
  assumes "allocate_composite k hs st = Inr (r, st')"
  shows "settings st' = settings st"
proof -
  obtain r1 st1 where al: "alloc_and_track k (8 * length hs) new_extension True st = Inr (r1, st1)"
    using assms by (auto simp: allocate_composite_def bind_result_Inr)
  have "settings st' = settings st1"
    using assms al by (cases r1)
      (auto simp: allocate_composite_def bind_result_Inr Let_def dest: settings_run_release
        split: option.splits if_splits)
  then show ?thesis using settings_alloc [OF al] by simp
qed

lemmas settings_ops = settings_acquire settings_release settings_run_release settings_clone_all settings_set_frame
  settings_allocate_composite

lemma settings_assign_last: "assign_last uid a ag st = Inr (ag', st') \<Longrightarrow> settings st' = settings st"
  by (auto simp: assign_last_def Let_def bind_result_Inr dest: settings_release split: option.splits)

lemma settings_agg_enqueue: "agg_enqueue c ag st = Inr (ag', st') \<Longrightarrow> settings st' = settings st"
  by (auto simp: agg_enqueue_def Let_def bind_result_Inr dest: settings_run_release)

lemma settings_agg_pop_front: "agg_pop_front ag st = Inr (ag', st') \<Longrightarrow> settings st' = settings st"
  by (auto simp: agg_pop_front_def bind_result_Inr dest: settings_run_release)

lemma settings_publish_set: "publish_set k a f ag st = Inr (ag', st') \<Longrightarrow> settings st' = settings st"
  unfolding publish_set_def bind_result_Inr
  by (auto simp: bind_result_Inr split: option.splits if_splits
      dest!: settings_ops settings_agg_enqueue settings_agg_pop_front)

lemma settings_processor:
  assumes "processor_on_frame comps k a ag st = Inr (ag', st')" "fst a \<notin> set comps"
  shows "settings st' = settings st"
proof -
  have "settings st1 = settings st" if "handle_single k a ag st = Inr (ag1, st1)" for ag1 st1
    using that by (auto simp: handle_single_def bind_result_Inr split: option.splits if_splits
        dest!: settings_acquire settings_assign_last settings_publish_set)
  with assms show ?thesis
    by (auto simp: processor_on_frame_def handle_frame_def bind_result_Inr split: if_splits dest!: settings_release)
qed

text \<open>How many frames of an archive are in use; the archive refuses when its limit is reached.\<close>

definition taken :: "nat \<Rightarrow> store \<Rightarrow> nat" where
  "taken k st = card {l. \<exists>f. look st (k, l) = Some f \<and> \<not> kept f}"

definition room :: "nat \<Rightarrow> nat \<Rightarrow> store \<Rightarrow> bool" where
  "room k n st \<longleftrightarrow> max_queue (st ! k) = 0 \<or> taken k st + n \<le> unat (max_queue (st ! k))"

lemma taken_unkept: "k < length st \<Longrightarrow> taken k st = card (unkept (st ! k))"
  by (simp add: taken_def look_def unkept_def)

lemma settings_nth:
  assumes "settings st' = settings st" "k < length st"
  shows "max_queue (st' ! k) = max_queue (st ! k)" "callbacks (st' ! k) = callbacks (st ! k)"
  using assms by (simp_all add: settings_eq)

lemma finite_taken: "finite {l. \<exists>f. look st (k, l) = Some f \<and> P f}"
  by (rule finite_subset [OF _ finite_imageI [OF finite_dom_look, of snd st]]) (force simp: image_iff)

lemma taken_mono:
  assumes "shrinks (look st) (look st')"
  shows "taken k st' \<le> taken k st"
  unfolding taken_def
proof (rule card_mono [OF finite_taken])
  show "{l. \<exists>f. look st' (k, l) = Some f \<and> \<not> kept f} \<subseteq> {l. \<exists>f. look st (k, l) = Some f \<and> \<not> kept f}"
  proof
    fix l
    assume "l \<in> {l. \<exists>f. look st' (k, l) = Some f \<and> \<not> kept f}"
    then obtain f where f: "look st' (k, l) = Some f" "\<not> kept f" by blast
    with assms obtain g where g: "look st (k, l) = Some g" "f = g\<lparr>ref_count := ref_count f\<rparr>"
      unfolding shrinks_def by blast
    have "\<not> kept g" using f(2) by (subst (asm) g(2)) simp
    with g(1) show "l \<in> {l. \<exists>f. look st (k, l) = Some f \<and> \<not> kept f}" by blast
  qed
qed

text \<open>The references change nothing but counts, and add at most one frame, to archive \<open>k\<close>.\<close>

definition one_new :: "nat \<Rightarrow> store \<Rightarrow> store \<Rightarrow> bool" where
  "one_new k st st' \<longleftrightarrow> shrinks (look st) (look st')
     \<or> (\<exists>c. fst c = k \<and> look st c = None \<and> shrinks (look st) ((look st')(c := None)))"

lemma one_new_taken:
  assumes "one_new k st st'"
  shows "taken k st' \<le> taken k st + 1"
  using assms unfolding one_new_def
proof (elim disjE exE conjE)
  fix c
  assume c: "fst c = k" and s: "shrinks (look st) ((look st')(c := None))"
  let ?T = "\<lambda>st. {l. \<exists>f. look st (k, l) = Some f \<and> \<not> kept f}"
  have "?T st' \<subseteq> insert (snd c) (?T st)"
  proof
    fix l
    assume "l \<in> ?T st'"
    then obtain f where f: "look st' (k, l) = Some f" "\<not> kept f" by blast
    show "l \<in> insert (snd c) (?T st)"
    proof (cases "l = snd c")
      case False
      then have "((look st')(c := None)) (k, l) = Some f" using f(1) c by (cases c) auto
      with s obtain g where g: "look st (k, l) = Some g" "f = g\<lparr>ref_count := ref_count f\<rparr>"
        unfolding shrinks_def by blast
      have "\<not> kept g" using f(2) by (subst (asm) g(2)) simp
      with g(1) show ?thesis by blast
    qed simp
  qed
  from card_mono [OF _ this] have "card (?T st') \<le> card (insert (snd c) (?T st))"
    by (simp add: finite_taken)
  also have "\<dots> \<le> card (?T st) + 1" by (simp add: card_insert_if finite_taken)
  finally show ?thesis by (simp add: taken_def)
next
  assume "shrinks (look st) (look st')"
  from taken_mono [OF this, of k] show ?thesis by simp
qed

text \<open>A frame somebody holds before and after keeps everything but its count.\<close>

lemma one_new_held:
  assumes new: "one_new k st st'" and f: "look st a = Some f" and held: "frames_ok st' X" "a \<in># X"
  obtains r where "look st' a = Some (f\<lparr>ref_count := r\<rparr>)"
proof -
  obtain g where g: "look st' a = Some g" using held_frame [OF held] .
  from new have "\<exists>h. look st a = Some h \<and> g = h\<lparr>ref_count := ref_count g\<rparr>"
    unfolding one_new_def
  proof (elim disjE exE conjE)
    fix c
    assume "look st c = None" and s: "shrinks (look st) ((look st')(c := None))"
    with f have "((look st')(c := None)) a = Some g" using g by auto
    with s show ?thesis unfolding shrinks_def by blast
  next
    assume "shrinks (look st) (look st')"
    with g show ?thesis unfolding shrinks_def by blast
  qed
  with f g that show thesis by auto
qed

text \<open>An allocated composite frame is new, and only a full archive refuses it.\<close>

lemma allocate_composite_new:
  assumes al: "allocate_composite k (map Some as) st = Inr (r, st')"
    and ok: "frames_ok st X" and as: "mset as \<subseteq># X" and k: "k < length st"
  shows "case r of None \<Rightarrow> shrinks (look st) (look st') \<and> 0 < max_queue (st ! k) \<and> unat (max_queue (st ! k)) \<le> taken k st
    | Some c \<Rightarrow> fst c = k \<and> look st c = None \<and> (\<exists>g. look st' = (look st)(c \<mapsto> g))"
proof -
  obtain r1 st1 where a: "alloc_and_track k (8 * length as) new_extension True st = Inr (r1, st1)"
    and c: "case r1 of None \<Rightarrow> st1 = st \<and> 0 < max_queue (st ! k) \<and> max_queue (st ! k) \<le> published_count (st ! k)
      | Some a \<Rightarrow> fst a = k \<and> frames_ok st1 (add_mset a X)
          \<and> fresh_frame st a st1 (8 * length as) new_extension True"
    using alloc_and_track_ok [OF ok k] by blast
  show ?thesis
  proof (cases r1)
    case None
    then have r: "r = None" "run_release (map Rel as) st = Inr st'"
      using al a c by (auto simp: allocate_composite_def bind_result_Inr)
    have "frames_ok st (X - mset as + mset as)" using ok as by simp
    from releases_ok [OF this] r have "shrinks (look st) (look st')" by auto
    moreover have "published_count (st ! k) = of_nat (taken k st)" "max_queue (st ! k) > 0"
      "max_queue (st ! k) \<le> published_count (st ! k)"
      using ok k c None by (simp_all add: frames_ok_def store_ok_def arc_ok_def taken_unkept)
    moreover from this have "unat (max_queue (st ! k)) \<le> taken k st"
      by (metis le_trans unat_of_nat word_le_nat_alt mod_less_eq_dividend)
    ultimately show ?thesis using r by simp
  next
    case (Some c')
    then obtain g where g: "look st c' = None" "look st1 = (look st)(c' \<mapsto> g)" and k': "fst c' = k"
      using c by (auto simp: fresh_frame_def)
    then obtain h where "r = Some c'" "st' = put c' h st1"
      using al a Some by (auto simp: allocate_composite_def bind_result_Inr Let_def split: if_splits)
    with g k' show ?thesis by (auto simp: look_put [of st1 c' g])
  qed
qed

lemma shrinks_acquire: "acquire a st = Inr st' \<Longrightarrow> shrinks (look st) (look st')"
  by (auto simp: acquire_def look_put shrinks_upd split: option.splits)

lemma clone_all_dom: "clone_all hs st = Inr st' \<Longrightarrow> dom (look st') = dom (look st)"
proof (induction hs arbitrary: st rule: somes.induct)
  case (3 a hs)
  then obtain st1 where "acquire a st = Inr st1" "clone_all hs st1 = Inr st'"
    by (auto simp: bind_result_Inr)
  with 3(1) show ?case by (fastforce simp: acquire_def look_put split: option.splits)
qed simp_all

lemma shrinks_run_release: "run_release ws st = Inr st' \<Longrightarrow> shrinks (look st) (look st')"
proof (induction ws st rule: run_release.induct)
  case (2 a ws st)
  then obtain f where f: "look st a = Some f" by (auto split: option.splits)
  let ?st = "put a (f\<lparr>ref_count := ref_count f - 1\<rparr>) st"
  have "shrinks (look ?st) (look st')"
    using 2 f by (cases "ref_count f = 1") auto
  moreover have "shrinks (look st) (look ?st)" using f unfolding look_put [OF f] by (rule shrinks_upd)
  ultimately show ?case by (blast intro: shrinks_trans)
next
  case (3 a ws st)
  then obtain st1 where st1: "unpublish a st = Inr st1" "shrinks (look st1) (look st')"
    by (auto split: sum.splits)
  have "shrinks (look st) (look st1)" unfolding look_unpublish [OF st1(1)] by (rule shrinks_none)
  then show ?case using st1(2) by (rule shrinks_trans)
qed simp

lemma shrinks_release: "release a st = Inr st' \<Longrightarrow> shrinks (look st) (look st')"
  unfolding release_def by (rule shrinks_run_release)

lemma shrinks_agg_enqueue: "agg_enqueue c ag st = Inr (ag', st') \<Longrightarrow> shrinks (look st) (look st')"
  by (auto simp: agg_enqueue_def Let_def bind_result_Inr dest: shrinks_run_release)

lemma shrinks_agg_pop_front: "agg_pop_front ag st = Inr (ag', st') \<Longrightarrow> shrinks (look st) (look st')"
  by (auto simp: agg_pop_front_def bind_result_Inr dest: shrinks_run_release)

lemma shrinks_assign_last: "assign_last uid a ag st = Inr (ag', st') \<Longrightarrow> shrinks (look st) (look st')"
  by (auto simp: assign_last_def Let_def bind_result_Inr dest: shrinks_release split: option.splits)

lemmas shrinks_ops = shrinks_acquire shrinks_release shrinks_run_release shrinks_agg_enqueue
  shrinks_agg_pop_front shrinks_assign_last

text \<open>From the composite frame on, publishing a set only drops references.\<close>

lemma publish_tail:
  assumes r: "publish_set k a f ag st = Inr (ag', st')"
    and st1: "clone_all (map snd (last_set ag)) st = Inr st1"
    and st2: "allocate_composite k (map snd (last_set ag)) st1 = Inr (Some c, st2)"
    and g: "look st2 c = Some g"
  shows "last_set ag' = [] \<and> shrinks ((look st2)(c := None)) ((look st')(c := None))"
proof -
  let ?st3 = "put c (tag_sync_frame a f st2 g) st2"
  from r st1 st2 g obtain ag4 st4 st5 where
    e: "(if cq_size (agg_queue ag) < kFrameNum2Aggregate
         then bind_result (acquire c ?st3) (agg_enqueue c ag) else agg_pop_front ag ?st3) = Inr (ag4, st4)"
    and rel: "run_release (map Rel (somes (map snd (last_set ag4)))) st4 = Inr st5" "release c st5 = Inr st'"
      "ag' = ag4\<lparr>last_set := []\<rparr>"
    by (auto simp: publish_set_def set_frame_def bind_result_Inr)
  have "shrinks (look ?st3) (look st4)"
    using e by (auto simp: bind_result_Inr split: if_splits dest!: shrinks_ops intro: shrinks_trans)
  with rel have "shrinks (look ?st3) (look st')" by (blast dest: shrinks_ops intro: shrinks_trans)
  then have "shrinks ((look ?st3)(c := None)) ((look st')(c := None))" by (auto simp: shrinks_def)
  then show ?thesis using rel(3) by (simp add: look_put [OF g])
qed

lemma publish_set_new:
  assumes ok: "frames_ok st (X + agg_held ag)" and ag: "agg_ok ag" and k: "k < length st"
    and r: "publish_set k a f ag st = Inr (ag', st')"
  shows "one_new k st st'" "room k 1 st \<Longrightarrow> last_set ag' = []"
proof -
  let ?hs = "map snd (last_set ag)" and ?as = "somes (map snd (last_set ag))"
  have "None \<notin> set ?hs" using ag by (auto simp: agg_ok_def)
  then have hs: "map Some ?as = ?hs" by (rule somes_all_Some)
  have "set_mset (mset ?as) \<subseteq> set_mset (X + agg_held ag)" by (auto simp: agg_held_def)
  from clone_all_ok [OF ok this] obtain st1 where
    st1: "clone_all ?hs st = Inr st1" "frames_ok st1 (X + agg_held ag + mset ?as)"
      "length st1 = length st" by auto
  have sh1: "shrinks (look st) (look st1)" using st1(1) by (rule clone_all_shrinks)
  have k1: "k < length st1" using k st1(3) by simp
  obtain r2 st2 where st2: "allocate_composite k ?hs st1 = Inr (r2, st2)"
    using r st1(1) by (auto simp: publish_set_def bind_result_Inr)
  have sub: "mset ?as \<subseteq># X + agg_held ag + mset ?as" by simp
  have "allocate_composite k (map Some ?as) st1 = Inr (r2, st2)" using st2 by (simp only: hs)
  note new = allocate_composite_new [OF this st1(2) sub k1]
  have "one_new k st st' \<and> (room k 1 st \<longrightarrow> last_set ag' = [])"
  proof (cases r2)
    case None
    then have "st' = st2" using r st1(1) st2 by (simp add: publish_set_def)
    then have "shrinks (look st) (look st')" using new None sh1 by (auto intro: shrinks_trans)
    moreover have "\<not> room k 1 st"
    proof -
      have "max_queue (st1 ! k) = max_queue (st ! k)"
        by (rule settings_nth(1) [OF settings_clone_all [OF st1(1)] k])
      then show ?thesis using new None taken_mono [OF sh1, of k] word_neq_0_conv [of "max_queue (st ! k)"]
        by (auto simp: room_def)
    qed
    ultimately show ?thesis by (simp add: one_new_def)
  next
    case (Some c)
    with new obtain g where c: "fst c = k" "look st1 c = None" "look st2 = (look st1)(c \<mapsto> g)" by auto
    have "look st c = None" using c(2) clone_all_dom [OF st1(1)] by (auto simp: domIff)
    moreover have e: "last_set ag' = [] \<and> shrinks ((look st2)(c := None)) ((look st')(c := None))"
      by (rule publish_tail [OF r st1(1) st2 [unfolded Some]]) (simp add: c(3))
    moreover have "(look st2)(c := None) = look st1" using c(2,3) by (auto simp: fun_eq_iff)
    with e have "shrinks (look st) ((look st')(c := None))" using shrinks_trans [OF sh1] by simp
    ultimately show ?thesis using c(1) unfolding one_new_def by blast
  qed
  then show "one_new k st st'" "room k 1 st \<Longrightarrow> last_set ag' = []" by blast+
qed

section \<open>One frame\<close>

definition keeps :: "addr set \<Rightarrow> store \<Rightarrow> store \<Rightarrow> bool" where
  "keeps B st st' \<longleftrightarrow> (\<forall>b\<in>B. \<forall>f. look st b = Some f \<longrightarrow> (\<exists>r. look st' b = Some (f\<lparr>ref_count := r\<rparr>)))"

lemma keeps_refl: "keeps B st st"
  unfolding keeps_def
proof (intro ballI allI impI)
  fix b f
  assume "look st b = Some f"
  then show "\<exists>r. look st b = Some (f\<lparr>ref_count := r\<rparr>)" by (intro exI [of _ "ref_count f"]) simp
qed

lemma keeps_trans:
  assumes "keeps B st st'" "keeps B st' st''"
  shows "keeps B st st''"
  unfolding keeps_def
proof (intro ballI allI impI)
  fix b f
  assume b: "b \<in> B" "look st b = Some f"
  with assms(1) obtain r where "look st' b = Some (f\<lparr>ref_count := r\<rparr>)" unfolding keeps_def by blast
  with assms(2) b(1) obtain r' where "look st'' b = Some (f\<lparr>ref_count := r\<rparr>\<lparr>ref_count := r'\<rparr>)"
    unfolding keeps_def by blast
  then show "\<exists>r. look st'' b = Some (f\<lparr>ref_count := r\<rparr>)" by auto
qed

lemma keeps_mono: "keeps B st st' \<Longrightarrow> C \<subseteq> B \<Longrightarrow> keeps C st st'"
  unfolding keeps_def by blast

lemma keeps_one_new:
  assumes "one_new k st st'" "frames_ok st' Y" "B \<subseteq> set_mset Y"
  shows "keeps B st st'"
  unfolding keeps_def
proof (intro ballI allI impI)
  fix b f
  assume "b \<in> B" "look st b = Some f"
  with assms(3) obtain r where "look st' b = Some (f\<lparr>ref_count := r\<rparr>)"
    using one_new_held [OF assms(1) _ assms(2)] by blast
  then show "\<exists>r. look st' b = Some (f\<lparr>ref_count := r\<rparr>)" by blast
qed

lemma one_new_shrinks: "shrinks (look st) (look st') \<Longrightarrow> one_new k st st'"
  by (simp add: one_new_def)

text \<open>Outside archive \<open>k\<close> nothing is new.\<close>

definition outside :: "nat \<Rightarrow> store \<Rightarrow> store \<Rightarrow> bool" where
  "outside k st st' \<longleftrightarrow> (\<forall>b f'. fst b \<noteq> k \<longrightarrow> look st' b = Some f'
     \<longrightarrow> (\<exists>f. look st b = Some f \<and> f' = f\<lparr>ref_count := ref_count f'\<rparr>))"

lemma one_new_outside:
  assumes "one_new k st st'"
  shows "outside k st st'"
  unfolding outside_def
proof (intro allI impI)
  fix b f'
  assume b: "fst b \<noteq> k" "look st' b = Some f'"
  from assms show "\<exists>f. look st b = Some f \<and> f' = f\<lparr>ref_count := ref_count f'\<rparr>"
    unfolding one_new_def
  proof (elim disjE exE conjE)
    fix c
    assume "fst c = k" and s: "shrinks (look st) ((look st')(c := None))"
    then have "((look st')(c := None)) b = Some f'" using b by auto
    with s show ?thesis unfolding shrinks_def by blast
  next
    assume "shrinks (look st) (look st')"
    with b(2) show ?thesis unfolding shrinks_def by blast
  qed
qed

lemma outside_trans:
  assumes "outside k st st'" "outside k st' st''"
  shows "outside k st st''"
  unfolding outside_def
proof (intro allI impI)
  fix b f''
  assume b: "fst b \<noteq> k" "look st'' b = Some f''"
  then obtain f' where f': "look st' b = Some f'" "f'' = f'\<lparr>ref_count := ref_count f''\<rparr>"
    using assms(2) unfolding outside_def by blast
  then obtain f where f: "look st b = Some f" "f' = f\<lparr>ref_count := ref_count f'\<rparr>"
    using assms(1) b(1) unfolding outside_def by blast
  have "f'' = f\<lparr>ref_count := ref_count f''\<rparr>" by (subst f'(2), subst f(2)) simp
  with f(1) show "\<exists>f. look st b = Some f \<and> f'' = f\<lparr>ref_count := ref_count f''\<rparr>" by blast
qed

lemma outside_refl: "outside k st st"
  unfolding outside_def by simp

text \<open>What a frame of a wanted stream does when nothing is full.\<close>

definition delivered :: "int \<Rightarrow> addr \<Rightarrow> aggregator \<Rightarrow> aggregator \<Rightarrow> store \<Rightarrow> bool" where
  "delivered u a ag ag' st' \<longleftrightarrow>
     (let m = omap_put u (Some a) (last_set ag)
      in if length m = length (wanted ag)
         then \<exists>c g. ag' = ag\<lparr>agg_queue := (agg_queue ag)\<lparr>items := items (agg_queue ag) @ [c]\<rparr>, last_set := []\<rparr>
                \<and> look st' c = Some g \<and> children g = map (the \<circ> snd) m
         else ag' = ag\<lparr>last_set := m\<rparr>)"

definition can_take :: "nat \<Rightarrow> nat \<Rightarrow> aggregator \<Rightarrow> store \<Rightarrow> bool" where
  "can_take k n ag st \<longleftrightarrow> agg_accepting ag \<and> accepting (agg_queue ag)
     \<and> cq_size (agg_queue ag) + n \<le> kFrameNum2Aggregate \<and> room k n st"

lemma handle_single_delivers:
  assumes st: "frames_ok st (X + agg_held ag)" and a: "a \<in># X" and ag: "agg_ok ag" and k: "k < length st"
    and f: "look st a = Some f" "fr_profile f = Some p" "sp_uid p \<in> set (wanted ag)"
    and can: "can_take k 1 ag st"
  shows "\<exists>ag' st'. handle_single k a ag st = Inr (ag', st') \<and> frames_ok st' (X + agg_held ag') \<and> agg_ok ag'
    \<and> length st' = length st \<and> taken k st' \<le> taken k st + 1
    \<and> keeps (set_mset X \<union> set (items (agg_queue ag))) st st' \<and> outside k st st'
    \<and> delivered (sp_uid p) a ag ag' st'"
proof -
  let ?B = "set_mset X \<union> set (items (agg_queue ag))"
  obtain ag' st' where r: "handle_single k a ag st = Inr (ag', st')" "frames_ok st' (X + agg_held ag')"
    "agg_ok ag'" "length st' = length st" "single_outcome f p a ag ag' st'"
    using handle_single_ok [OF st a ag k] f by blast
  have aX: "a \<in># X + agg_held ag" using a by simp
  from acquire_ok [OF st aX] obtain st1 where
    st1: "acquire a st = Inr st1" "frames_ok st1 (add_mset a (X + agg_held ag))" by blast
  have len1: "length st1 = length st" using st1(1) f by (auto simp: acquire_def put_def)
  have "frames_ok st1 (X + agg_held ag + {#a#})" using st1(2) by (simp add: ac_simps)
  from assign_last_ok [OF this ag f(3)] obtain ag2 st2 where
    st2: "assign_last (sp_uid p) a ag st1 = Inr (ag2, st2)" "frames_ok st2 (X + agg_held ag2)"
      "agg_ok ag2" "ag2 = ag\<lparr>last_set := omap_put (sp_uid p) (Some a) (last_set ag)\<rparr>"
      "length st2 = length st1" by blast
  have sh: "shrinks (look st) (look st2)"
    using shrinks_acquire [OF st1(1)] shrinks_assign_last [OF st2(1)] by (rule shrinks_trans)
  have keep2: "keeps ?B st st2"
    by (rule keeps_one_new [OF one_new_shrinks [OF sh, of k] st2(2)]) (auto simp: agg_held_def st2(4))
  have step: "(if length (last_set ag2) = length (wanted ag2) then publish_set k a f ag2 st2
      else Inr (ag2, st2)) = Inr (ag', st')"
    using r(1) f st1(1) st2(1) by (simp add: handle_single_def)
  have out2: "outside k st st2" by (rule one_new_outside [OF one_new_shrinks [OF sh]])
  have "taken k st' \<le> taken k st + 1 \<and> keeps ?B st st' \<and> outside k st st' \<and> delivered (sp_uid p) a ag ag' st'"
  proof (cases "length (last_set ag2) = length (wanted ag2)")
    case False
    then have "ag' = ag2" "st' = st2" using step by simp_all
    then show ?thesis
      using keep2 out2 taken_mono [OF sh, of k] False st2(4) by (simp add: delivered_def Let_def)
  next
    case True
    then have pub: "publish_set k a f ag2 st2 = Inr (ag', st')" using step by simp
    have k2: "k < length st2" using k len1 st2(5) by simp
    note new = publish_set_new [OF st2(2,3) k2 pub]
    have "max_queue (st2 ! k) = max_queue (st ! k)"
      using settings_acquire [OF st1(1)] settings_assign_last [OF st2(1)] k by (intro settings_nth(1)) auto
    then have "room k 1 st2" using can taken_mono [OF sh, of k] by (auto simp: can_take_def room_def)
    then have empty: "last_set ag' = []" by (rule new(2))
    moreover have "wanted ag2 = wanted ag" by (simp add: st2(4))
    ultimately obtain c g where c: "ag' = ag\<lparr>agg_queue := cq_enqueue c (agg_queue ag), last_set := []\<rparr>"
      "look st' c = Some g" "children g = map (the \<circ> snd) (last_set ag2)"
      using r(5) can True
      by (auto simp: single_outcome_def Let_def st2(4) published_as_def can_take_def sync_frame_ok_def)
    have q: "cq_enqueue c (agg_queue ag) = (agg_queue ag)\<lparr>items := items (agg_queue ag) @ [c]\<rparr>"
      using can ag by (simp add: can_take_def cq_enqueue_def cq_size_def agg_ok_def)
    have "keeps ?B st2 st'"
      by (rule keeps_one_new [OF new(1) r(2)]) (auto simp: agg_held_def c(1) q)
    then have "keeps ?B st st'" by (rule keeps_trans [OF keep2])
    moreover have "delivered (sp_uid p) a ag ag' st'"
      using True c q by (auto simp: delivered_def Let_def st2(4) simp del: split_paired_Ex)
    moreover have "outside k st st'" by (rule outside_trans [OF out2 one_new_outside [OF new(1)]])
    ultimately show ?thesis using one_new_taken [OF new(1)] taken_mono [OF sh, of k] by auto
  qed
  with r show ?thesis by blast
qed

text \<open>With room in the archive a complete set is always taken out, whatever the queue does with it.\<close>

lemma handle_single_completes:
  assumes st: "frames_ok st (X + agg_held ag)" and a: "a \<in># X" and ag: "agg_ok ag" and k: "k < length st"
    and f: "look st a = Some f" "fr_profile f = Some p" "sp_uid p \<in> set (wanted ag)" and room: "room k 1 st"
    and r: "handle_single k a ag st = Inr (ag', st')"
    and full: "length (omap_put (sp_uid p) (Some a) (last_set ag)) = length (wanted ag)"
  shows "last_set ag' = []"
proof -
  have aX: "a \<in># X + agg_held ag" using a by simp
  from acquire_ok [OF st aX] obtain st1 where
    st1: "acquire a st = Inr st1" "frames_ok st1 (add_mset a (X + agg_held ag))" by blast
  have len1: "length st1 = length st" using st1(1) f by (auto simp: acquire_def put_def)
  have "frames_ok st1 (X + agg_held ag + {#a#})" using st1(2) by (simp add: ac_simps)
  from assign_last_ok [OF this ag f(3)] obtain ag2 st2 where
    st2: "assign_last (sp_uid p) a ag st1 = Inr (ag2, st2)" "frames_ok st2 (X + agg_held ag2)"
      "agg_ok ag2" "ag2 = ag\<lparr>last_set := omap_put (sp_uid p) (Some a) (last_set ag)\<rparr>"
      "length st2 = length st1" by blast
  have sh: "shrinks (look st) (look st2)"
    using shrinks_acquire [OF st1(1)] shrinks_assign_last [OF st2(1)] by (rule shrinks_trans)
  have pub: "publish_set k a f ag2 st2 = Inr (ag', st')"
    using r f st1(1) st2(1) full by (simp add: handle_single_def st2(4))
  have k2: "k < length st2" using k len1 st2(5) by simp
  have "max_queue (st2 ! k) = max_queue (st ! k)"
    using settings_acquire [OF st1(1)] settings_assign_last [OF st2(1)] k by (intro settings_nth(1)) auto
  then have "room k 1 st2" using room taken_mono [OF sh, of k] by (auto simp: room_def)
  then show ?thesis by (rule publish_set_new(2) [OF st2(2,3) k2 pub])
qed

text \<open>The stream a frame belongs to, if it has a profile; the children of a composite frame.\<close>

definition stream_of :: "store \<Rightarrow> addr \<Rightarrow> int option" where
  "stream_of st a = (case look st a of None \<Rightarrow> None | Some f \<Rightarrow> map_option sp_uid (fr_profile f))"

definition children_at :: "store \<Rightarrow> addr \<Rightarrow> addr list" where
  "children_at st c = (case look st c of None \<Rightarrow> [] | Some g \<Rightarrow> children g)"

lemma keeps_stream: "keeps B st st' \<Longrightarrow> b \<in> B \<Longrightarrow> look st b = Some f \<Longrightarrow> stream_of st' b = stream_of st b"
  by (fastforce simp: keeps_def stream_of_def)

lemma keeps_children: "keeps B st st' \<Longrightarrow> b \<in> B \<Longrightarrow> look st b = Some f \<Longrightarrow> children_at st' b = children_at st b"
  by (fastforce simp: keeps_def children_at_def)

lemma delivered_keeps:
  assumes "delivered u a ag ag' st" "keeps (set (items (agg_queue ag'))) st st'"
  shows "delivered u a ag ag' st'"
proof (cases "length (omap_put u (Some a) (last_set ag)) = length (wanted ag)")
  case True
  then obtain c g where c: "ag' = ag\<lparr>agg_queue := (agg_queue ag)\<lparr>items := items (agg_queue ag) @ [c]\<rparr>, last_set := []\<rparr>"
    "look st c = Some g" "children g = map (the \<circ> snd) (omap_put u (Some a) (last_set ag))"
    using assms(1) by (auto simp: delivered_def Let_def)
  have "c \<in> set (items (agg_queue ag'))" by (simp add: c(1))
  then obtain r where "look st' c = Some (g\<lparr>ref_count := r\<rparr>)"
    using assms(2) c(2) unfolding keeps_def by blast
  with True c show ?thesis by (auto simp: delivered_def Let_def simp del: split_paired_Ex)
qed (use assms in \<open>simp add: delivered_def\<close>)

definition takes_frame :: "addr \<Rightarrow> aggregator \<Rightarrow> store \<Rightarrow> aggregator \<Rightarrow> store \<Rightarrow> bool" where
  "takes_frame a ag st ag' st' \<longleftrightarrow>
     (case stream_of st a of
        None \<Rightarrow> ag' = ag
      | Some u \<Rightarrow> if u \<in> set (wanted ag) then delivered u a ag ag' st' else ag' = ag)"

lemma takes_frame_queue:
  "takes_frame a ag st ag' st' \<Longrightarrow> wanted ag' = wanted ag \<and> agg_accepting ag' = agg_accepting ag
     \<and> accepting (agg_queue ag') = accepting (agg_queue ag)
     \<and> set (items (agg_queue ag)) \<subseteq> set (items (agg_queue ag'))
     \<and> cq_size (agg_queue ag') \<le> cq_size (agg_queue ag) + 1"
  by (auto simp: takes_frame_def delivered_def Let_def cq_size_def split: option.splits if_splits)

lemma processor_delivers:
  assumes st: "frames_ok st (add_mset a X + agg_held ag)" and ag: "agg_ok ag" and k: "k < length st"
    and single: "fst a \<notin> set comps" and can: "can_take k (Suc n) ag st"
  shows "\<exists>ag' st'. processor_on_frame comps k a ag st = Inr (ag', st') \<and> frames_ok st' (X + agg_held ag')
    \<and> agg_ok ag' \<and> length st' = length st \<and> can_take k n ag' st'
    \<and> keeps (set_mset X \<union> set (items (agg_queue ag))) st st' \<and> outside k st st'
    \<and> takes_frame a ag st ag' st' \<and> settings st' = settings st"
proof -
  let ?B = "set_mset X \<union> set (items (agg_queue ag))"
  have a: "a \<in># add_mset a X" by simp
  then have "a \<in># add_mset a X + agg_held ag" by simp
  then obtain f where f: "look st a = Some f" using held_frame [OF st] by blast
  have can1: "can_take k 1 ag st" using can by (auto simp: can_take_def room_def)
  have "\<exists>ag1 st1. handle_single k a ag st = Inr (ag1, st1) \<and> frames_ok st1 (add_mset a X + agg_held ag1)
    \<and> agg_ok ag1 \<and> length st1 = length st \<and> taken k st1 \<le> taken k st + 1
    \<and> keeps (set_mset (add_mset a X) \<union> set (items (agg_queue ag))) st st1 \<and> outside k st st1
    \<and> takes_frame a ag st ag1 st1"
  proof (cases "\<exists>p. fr_profile f = Some p \<and> sp_uid p \<in> set (wanted ag)")
    case True
    then obtain p where p: "fr_profile f = Some p" "sp_uid p \<in> set (wanted ag)" by blast
    from handle_single_delivers [OF st a ag k f p can1] f p show ?thesis
      by (simp add: takes_frame_def stream_of_def)
  next
    case False
    then have "handle_single k a ag st = Inr (ag, st)" "takes_frame a ag st ag st"
      using f by (auto simp: handle_single_def takes_frame_def stream_of_def split: option.splits)
    moreover have "keeps B st st" for B by (rule keeps_refl)
    ultimately show ?thesis using st ag outside_refl [of k st] by auto
  qed
  then obtain ag1 st1 where h: "handle_single k a ag st = Inr (ag1, st1)"
    "frames_ok st1 (add_mset a X + agg_held ag1)" "agg_ok ag1" "length st1 = length st"
    "taken k st1 \<le> taken k st + 1"
    "keeps (set_mset (add_mset a X) \<union> set (items (agg_queue ag))) st st1" "outside k st st1"
    "takes_frame a ag st ag1 st1"
    by blast
  from release_ok [OF h(2), of a] obtain st2 where
    st2: "release a st1 = Inr st2" "frames_ok st2 (X + agg_held ag1)" "shrinks (look st1) (look st2)"
      "length st2 = length st1" by auto
  have B1: "keeps ?B st st1" using h(6) by (rule keeps_mono) auto
  have "set_mset (X + agg_held ag1) \<supseteq> ?B"
    using takes_frame_queue [OF h(8)] by (auto simp: agg_held_def)
  then have "keeps ?B st1 st2" by (rule keeps_one_new [OF one_new_shrinks [OF st2(3), of k] st2(2)])
  then have keep: "keeps ?B st st2" by (rule keeps_trans [OF B1])
  have "keeps (set (items (agg_queue ag1))) st1 st2"
    by (rule keeps_one_new [OF one_new_shrinks [OF st2(3), of k] st2(2)]) (auto simp: agg_held_def)
  then have t2: "takes_frame a ag st ag1 st2"
    using h(8) by (auto simp: takes_frame_def split: option.splits intro: delivered_keeps)
  have run: "processor_on_frame comps k a ag st = Inr (ag1, st2)"
    using h(1) st2(1) single can by (simp add: processor_on_frame_def handle_frame_def can_take_def)
  have "max_queue (st2 ! k) = max_queue (st ! k)"
    using settings_nth(1) [OF settings_processor [OF run single] k] .
  moreover have "outside k st st2"
    by (rule outside_trans [OF h(7) one_new_outside [OF one_new_shrinks [OF st2(3)]]])
  ultimately have "can_take k n ag1 st2 \<and> outside k st st2"
    using can takes_frame_queue [OF t2] h(5) taken_mono [OF st2(3), of k] by (auto simp: can_take_def room_def)
  with run st2(2,4) h(3,4) keep t2 settings_processor [OF run single] show ?thesis by auto
qed

end
