(* ===== verification/Frame_Feed.thy ===== *)
theory Frame_Feed
  imports Frame_Delivery Pipeline_Api
begin

text \<open>
  From the frames the sensors deliver to the sets the application gets.  The specification
  \<open>agg_spec\<close> says which sets a sequence of frames makes: the last frame of every wanted stream,
  as soon as each stream has one.  The contract of whatever takes frames, one at a time, is the locale
  \<open>frame_consumer\<close>; the aggregator and the pipeline's callback meet it, so that feeding them refines
  the specification, and a poll hands the application exactly those sets.
\<close>

section \<open>The sets a sequence of frames makes\<close>

text \<open>
  The specification.  \<open>W\<close> are the wanted streams and \<open>M\<close> the last frame of each; a frame replaces
  the last one of its stream, and when every wanted stream has one they are a set.
\<close>

fun agg_spec :: "int list \<Rightarrow> (int \<rightharpoonup> addr) \<Rightarrow> (int option \<times> addr) list \<Rightarrow> addr list list \<times> (int \<rightharpoonup> addr)" where
  "agg_spec W M [] = ([], M)"
| "agg_spec W M ((None, a) # es) = agg_spec W M es"
| "agg_spec W M ((Some u, a) # es) =
     (if u \<notin> set W then agg_spec W M es
      else let M' = M(u \<mapsto> a)
           in if list_all (\<lambda>w. M' w \<noteq> None) W
              then (case agg_spec W Map.empty es of (out, N) \<Rightarrow> (map (\<lambda>w. the (M' w)) W # out, N))
              else agg_spec W M' es)"

definition last_map :: "(int \<times> addr option) list \<Rightarrow> (int \<rightharpoonup> addr)" where
  "last_map m = (\<lambda>u. case map_of m u of Some (Some a) \<Rightarrow> Some a | _ \<Rightarrow> None)"

lemma last_map_Nil [simp]: "last_map [] = Map.empty"
  by (simp add: last_map_def)

lemma last_map_put: "omap_ok m \<Longrightarrow> last_map (omap_put u (Some a) m) = (last_map m)(u \<mapsto> a)"
  by (auto simp: last_map_def map_of_omap_put fun_eq_iff)

lemma last_map_nth:
  assumes "omap_ok m" "None \<notin> snd ` set m" "(w, v) \<in> set m"
  shows "last_map m w = Some (the v)"
proof -
  have "map_of m w = Some v" using assms(1,3) by (simp add: distinct_omap)
  moreover have "v \<noteq> None" using assms(2,3) by (metis image_eqI snd_conv)
  ultimately show ?thesis by (auto simp: last_map_def)
qed

lemma last_map_empty:
  assumes "omap_ok m" "None \<notin> snd ` set m" "last_map m = Map.empty"
  shows "m = []"
proof (cases m)
  case (Cons e es)
  then have "(fst e, snd e) \<in> set m" by simp
  from last_map_nth [OF assms(1,2) this] assms(3) show ?thesis by simp
qed

lemma last_map_complete:
  assumes m: "omap_ok m" "None \<notin> snd ` set m" "fst ` set m \<subseteq> set W" and W: "sorted W" "distinct W"
  shows "length m = length W \<longleftrightarrow> list_all (\<lambda>w. last_map m w \<noteq> None) W"
    and "length m = length W \<Longrightarrow> map (the \<circ> snd) m = map (\<lambda>w. the (last_map m w)) W"
proof -
  have d: "distinct (map fst m)" using m(1) by (rule distinct_omap)
  have dom: "last_map m w \<noteq> None \<longleftrightarrow> w \<in> fst ` set m" for w
  proof
    assume "last_map m w \<noteq> None"
    then show "w \<in> fst ` set m"
      by (auto simp: last_map_def split: option.splits dest!: map_of_SomeD intro: image_eqI [rotated])
  qed (use last_map_nth [OF m(1,2)] in force)
  have "length m = length W \<longleftrightarrow> fst ` set m = set W"
    using m(3) distinct_card [OF d] distinct_card [OF W(2)] card_subset_eq [of "set W" "fst ` set m"] by auto
  also have "\<dots> \<longleftrightarrow> list_all (\<lambda>w. last_map m w \<noteq> None) W"
    using m(3) unfolding list_all_iff dom by blast
  finally show "length m = length W \<longleftrightarrow> list_all (\<lambda>w. last_map m w \<noteq> None) W" .
  assume "length m = length W"
  with \<open>length m = length W \<longleftrightarrow> fst ` set m = set W\<close> have "set (map fst m) = set W" by simp
  moreover have "sorted (map fst m)" using m(1) by (simp add: omap_ok_def strict_sorted_iff)
  ultimately have "map fst m = W" using d W by (intro sorted_distinct_set_unique) auto
  moreover have "map (the \<circ> snd) m = map (\<lambda>w. the (last_map m w)) (map fst m)"
    using last_map_nth [OF m(1,2)] by auto
  ultimately show "map (the \<circ> snd) m = map (\<lambda>w. the (last_map m w)) W" by simp
qed

text \<open>One frame refines one step of the specification.\<close>

definition queued :: "aggregator \<Rightarrow> aggregator \<Rightarrow> addr list \<Rightarrow> bool" where
  "queued ag ag' cs \<longleftrightarrow> items (agg_queue ag') = items (agg_queue ag) @ cs"

lemma takes_frame_refines:
  assumes t: "takes_frame a ag st ag' st'" and ag: "agg_ok ag" "sorted (wanted ag)"
  shows "\<exists>cs. queued ag ag' cs \<and> (\<forall>c\<in>set cs. look st' c \<noteq> None)
    \<and> (\<forall>es. agg_spec (wanted ag) (last_map (last_set ag)) ((stream_of st a, a) # es)
      = (case agg_spec (wanted ag) (last_map (last_set ag')) es of
           (out, N) \<Rightarrow> (map (children_at st') cs @ out, N)))"
proof (cases "stream_of st a")
  case None
  then show ?thesis using t by (intro exI [of _ "[]"]) (simp add: takes_frame_def queued_def)
next
  case (Some u)
  show ?thesis
  proof (cases "u \<in> set (wanted ag)")
    case False
    then show ?thesis using t Some by (intro exI [of _ "[]"]) (simp add: takes_frame_def queued_def)
  next
    case True
    let ?m = "omap_put u (Some a) (last_set ag)"
    have om: "omap_ok (last_set ag)" using ag(1) by (simp add: agg_ok_def)
    have m: "omap_ok ?m" "None \<notin> snd ` set ?m" "fst ` set ?m \<subseteq> set (wanted ag)"
      using ag(1) om True snd_omap_put [OF om, of u "Some a"] by (auto simp: agg_ok_def)
    have d: "distinct (wanted ag)" using ag(1) by (simp add: agg_ok_def)
    note comp = last_map_complete [OF m ag(2) d, unfolded last_map_put [OF om]]
    have del: "delivered u a ag ag' st'" using t Some True by (simp add: takes_frame_def)
    show ?thesis
    proof (cases "length ?m = length (wanted ag)")
      case full: True
      then obtain c g where c: "ag' = ag\<lparr>agg_queue := (agg_queue ag)\<lparr>items := items (agg_queue ag) @ [c]\<rparr>, last_set := []\<rparr>"
        "look st' c = Some g" "children g = map (the \<circ> snd) ?m"
        using del by (auto simp: delivered_def Let_def)
      then show ?thesis using comp full True Some
        by (intro exI [of _ "[c]"]) (simp add: queued_def children_at_def Let_def split: prod.split)
    next
      case False
      then have "ag' = ag\<lparr>last_set := ?m\<rparr>" using del by (simp add: delivered_def)
      then show ?thesis using comp(1) False True Some
        by (intro exI [of _ "[]"]) (simp add: queued_def Let_def last_map_put [OF om] split: prod.split)
    qed
  qed
qed

definition frame_events :: "store \<Rightarrow> addr list \<Rightarrow> (int option \<times> addr) list" where
  "frame_events st as = map (\<lambda>a. (stream_of st a, a)) as"

text \<open>One frame of every wanted stream, in any order, makes one set.\<close>

lemma agg_spec_round:
  "fst ` set es \<subseteq> set W \<Longrightarrow> distinct (map fst es) \<Longrightarrow> dom M = set W - fst ` set es \<Longrightarrow> es \<noteq> [] \<Longrightarrow>
   agg_spec W M (map (\<lambda>(u, a). (Some u, a)) es) = ([map (\<lambda>w. the ((M ++ map_of es) w)) W], Map.empty)"
proof (induction es arbitrary: M)
  case (Cons e es)
  obtain u a where e: "e = (u, a)" by (cases e)
  let ?M = "M(u \<mapsto> a)"
  have u: "u \<in> set W" "u \<notin> fst ` set es" using Cons.prems(1,2) e by auto
  have upd: "?M ++ map_of es = M ++ map_of (e # es)"
  proof -
    have "u \<notin> dom (map_of es)" using u(2) by (simp add: dom_map_of_conv_image_fst)
    then have "?M ++ map_of es = (M ++ map_of es)(u \<mapsto> a)" by (rule map_add_upd_left)
    then show ?thesis by (simp add: e)
  qed
  have dom: "dom ?M = set W - fst ` set es" using Cons.prems(3) u e by auto
  have all: "list_all (\<lambda>w. ?M w \<noteq> None) W \<longleftrightarrow> es = []"
  proof
    assume "list_all (\<lambda>w. ?M w \<noteq> None) W"
    then have "\<forall>w\<in>set W. w \<in> dom ?M" unfolding list_all_iff domIff .
    then have "\<forall>w\<in>set W. w \<notin> fst ` set es" unfolding dom by simp
    moreover have "fst ` set es \<subseteq> set W" using Cons.prems(1) by simp
    ultimately show "es = []" by (cases es) auto
  qed (use dom in \<open>auto simp: list_all_iff domIff\<close>)
  show ?case
  proof (cases "es = []")
    case True
    have "?M ++ map_of es = ?M" using True by simp
    then show ?thesis using u(1) all True unfolding upd [symmetric] by (simp add: e Let_def)
  next
    case False
    then have "agg_spec W M (map (\<lambda>(u, a). (Some u, a)) (e # es))
        = agg_spec W ?M (map (\<lambda>(u, a). (Some u, a)) es)"
      using u(1) all by (simp add: e Let_def)
    also have "\<dots> = ([map (\<lambda>w. the ((?M ++ map_of es) w)) W], Map.empty)"
      using Cons.prems(1,2) dom False by (intro Cons.IH) auto
    finally show ?thesis unfolding upd .
  qed
qed simp

lemma agg_spec_one_set:
  assumes "map (stream_of st) as = map Some us" "mset us = mset W" "distinct W" "W \<noteq> []"
  shows "agg_spec W Map.empty (frame_events st as) = ([map (\<lambda>w. the (map_of (zip us as) w)) W], Map.empty)"
proof -
  have len: "length us = length as" using assms(1) by (metis length_map)
  have ev: "frame_events st as = map (\<lambda>(u, a). (Some u, a)) (zip us as)"
  proof (rule nth_equalityI)
    fix i
    assume "i < length (frame_events st as)"
    then have i: "i < length as" by (simp add: frame_events_def)
    have "stream_of st (as ! i) = Some (us ! i)" using assms(1) i len by (metis nth_map)
    then show "frame_events st as ! i = map (\<lambda>(u, a). (Some u, a)) (zip us as) ! i"
      using i len by (simp add: frame_events_def)
  qed (simp add: frame_events_def len)
  have us: "map fst (zip us as) = us" using len by simp
  then have "set W = fst ` set (zip us as)" using assms(2) by (metis mset_eq_setD set_map)
  moreover have "distinct us" using assms(2,3) by (metis mset_eq_imp_distinct_iff)
  moreover have "zip us as \<noteq> []" using assms(2,4) len by auto
  ultimately show ?thesis unfolding ev using agg_spec_round [of "zip us as" W Map.empty] us by simp
qed

lemma children_composite_frame: "children f \<noteq> [] \<Longrightarrow> is_composite f"
  by (auto simp: children_def is_composite_def split: payload.splits)

section \<open>Whatever takes frames one at a time\<close>

text \<open>\<open>feed step\<close> gives the frames to \<open>step\<close> in order.\<close>

fun feed :: "(addr \<Rightarrow> 'p \<Rightarrow> store \<Rightarrow> se_error + 'p \<times> store) \<Rightarrow> addr list \<Rightarrow> 'p \<Rightarrow> store \<Rightarrow> se_error + 'p \<times> store" where
  "feed step [] p st = Inr (p, st)"
| "feed step (a # as) p st = bind_result (step a p st) (\<lambda>(p1, st1). feed step as p1 st1)"

lemma child_live:
  assumes ok: "frames_ok st X" and c: "look st c = Some g" and b: "b \<in> set (children g)"
  shows "look st b \<noteq> None"
proof
  assume none: "look st b = None"
  have "owned (look st) {} X b = 0" using ok none by (intro rc_inv_none) (simp_all add: frames_ok_def)
  then have "refs_from (look st) {} b = 0" by (simp add: owned_def)
  then have "\<forall>d\<in>dom (look st). count_list (children (the (look st d))) b = 0"
    using finite_dom_look [of st] by (simp add: refs_from_def)
  moreover have "c \<in> dom (look st)" using c by (rule domI)
  ultimately have "count_list (children (the (look st c))) b = 0" by blast
  with c b show False by (simp add: count_list_0_iff)
qed

locale frame_consumer =
  fixes step :: "addr \<Rightarrow> 'p \<Rightarrow> store \<Rightarrow> se_error + 'p \<times> store" and agg :: "'p \<Rightarrow> aggregator"
    and good :: "'p \<Rightarrow> store \<Rightarrow> bool" and comps :: "nat list" and k :: nat
  assumes step_takes: "good p st \<Longrightarrow> frames_ok st (add_mset a X + agg_held (agg p)) \<Longrightarrow> agg_ok (agg p) \<Longrightarrow>
      k < length st \<Longrightarrow> fst a \<notin> set comps \<Longrightarrow> can_take k (Suc n) (agg p) st \<Longrightarrow>
      \<exists>p' st'. step a p st = Inr (p', st') \<and> good p' st' \<and> frames_ok st' (X + agg_held (agg p')) \<and> agg_ok (agg p')
        \<and> length st' = length st \<and> limits st' = limits st \<and> can_take k n (agg p') st'
        \<and> keeps (set_mset X \<union> set (items (agg_queue (agg p)))) st st' \<and> outside k st st'
        \<and> takes_frame a (agg p) st (agg p') st'"
begin

lemma feed_refines:
  assumes "good p st" "frames_ok st (X + mset as + agg_held (agg p))" "agg_ok (agg p)" "sorted (wanted (agg p))"
    "k < length st" "list_all (\<lambda>a. fst a \<notin> set comps) as" "can_take k (length as) (agg p) st"
  shows "\<exists>p' st' cs. feed step as p st = Inr (p', st') \<and> good p' st' \<and> frames_ok st' (X + agg_held (agg p'))
    \<and> agg_ok (agg p') \<and> wanted (agg p') = wanted (agg p) \<and> queued (agg p) (agg p') cs
    \<and> limits st' = limits st \<and> can_take k 0 (agg p') st'
    \<and> keeps (set_mset X \<union> set (items (agg_queue (agg p)))) st st' \<and> outside k st st'
    \<and> agg_spec (wanted (agg p)) (last_map (last_set (agg p))) (frame_events st as)
      = (map (children_at st') cs, last_map (last_set (agg p')))"
  using assms
proof (induction as arbitrary: p st)
  case Nil
  then show ?case by (auto simp: queued_def keeps_refl outside_refl frame_events_def)
next
  case (Cons a as)
  let ?B = "set_mset X \<union> set (items (agg_queue (agg p)))"
  have "frames_ok st (add_mset a (X + mset as) + agg_held (agg p))" using Cons.prems(2) by simp
  moreover have "fst a \<notin> set comps" "can_take k (Suc (length as)) (agg p) st" using Cons.prems(6,7) by simp_all
  ultimately obtain p1 st1 where p: "step a p st = Inr (p1, st1)" "good p1 st1"
    "frames_ok st1 (X + mset as + agg_held (agg p1))" "agg_ok (agg p1)" "length st1 = length st"
    "can_take k (length as) (agg p1) st1" "takes_frame a (agg p) st (agg p1) st1" "limits st1 = limits st"
    "keeps (set_mset (X + mset as) \<union> set (items (agg_queue (agg p)))) st st1" "outside k st st1"
    using step_takes [OF Cons.prems(1) _ Cons.prems(3,5)] by metis
  note q = takes_frame_queue [OF p(7)]
  obtain cs1 where c1: "queued (agg p) (agg p1) cs1" "\<forall>c\<in>set cs1. look st1 c \<noteq> None"
    "\<forall>es. agg_spec (wanted (agg p)) (last_map (last_set (agg p))) ((stream_of st a, a) # es)
      = (case agg_spec (wanted (agg p)) (last_map (last_set (agg p1))) es of
           (out, N) \<Rightarrow> (map (children_at st1) cs1 @ out, N))"
    using takes_frame_refines [OF p(7) Cons.prems(3,4)] by blast
  have "sorted (wanted (agg p1))" "k < length st1" "list_all (\<lambda>a. fst a \<notin> set comps) as"
    using p(5) Cons.prems(4,5,6) q by simp_all
  from Cons.IH [OF p(2,3,4) this p(6)] obtain p' st' cs where
    r: "feed step as p1 st1 = Inr (p', st')" "good p' st'" "frames_ok st' (X + agg_held (agg p'))" "agg_ok (agg p')"
      "wanted (agg p') = wanted (agg p1)" "queued (agg p1) (agg p') cs" "limits st' = limits st1" "can_take k 0 (agg p') st'"
      "keeps (set_mset X \<union> set (items (agg_queue (agg p1)))) st1 st'" "outside k st1 st'"
      "agg_spec (wanted (agg p1)) (last_map (last_set (agg p1))) (frame_events st1 as)
        = (map (children_at st') cs, last_map (last_set (agg p')))"
    by blast
  have ev: "frame_events st1 as = frame_events st as"
  proof -
    have "stream_of st1 b = stream_of st b" if "b \<in> set as" for b
    proof -
      have "b \<in># X + mset (a # as) + agg_held (agg p)" using that by simp
      then obtain f where "look st b = Some f" using held_frame [OF Cons.prems(2)] by blast
      with keeps_stream [OF p(9)] that show ?thesis by simp
    qed
    then show ?thesis by (simp add: frame_events_def)
  qed
  have ev1: "frame_events st (a # as) = (stream_of st a, a) # frame_events st as"
    by (simp add: frame_events_def)
  have "map (children_at st1) cs1 = map (children_at st') cs1"
  proof (rule map_cong [OF refl])
    fix c
    assume c: "c \<in> set cs1"
    then obtain g where g: "look st1 c = Some g" using c1(2) by blast
    have "c \<in> set_mset X \<union> set (items (agg_queue (agg p1)))" using c c1(1) by (simp add: queued_def)
    from keeps_children [OF r(9) this g] show "children_at st1 c = children_at st' c" by simp
  qed
  then have "agg_spec (wanted (agg p)) (last_map (last_set (agg p))) (frame_events st (a # as))
      = (map (children_at st') (cs1 @ cs), last_map (last_set (agg p')))"
    using c1(3) r(11) unfolding ev ev1 by (simp add: q)
  moreover have "queued (agg p) (agg p') (cs1 @ cs)" using c1(1) r(6) by (simp add: queued_def)
  moreover have "keeps ?B st st'"
    using keeps_trans [OF keeps_mono [OF p(9), of ?B] keeps_mono [OF r(9), of ?B]] q by auto
  moreover have "outside k st st'" by (rule outside_trans [OF p(10) r(10)])
  ultimately show ?case using p(1,8) r(1-5,7,8) q by (intro exI [of _ p'] exI [of _ st'] exI [of _ "cs1 @ cs"]) simp
qed

text \<open>One frame of every wanted stream: one set is queued, and its frames keep their content.\<close>

lemma feed_one_set:
  assumes "good p st" "frames_ok st (X + mset as + agg_held (agg p))" "agg_ok (agg p)" "sorted (wanted (agg p))"
    "k < length st" "list_all (\<lambda>a. fst a \<notin> set comps) as" "can_take k (length as) (agg p) st"
    and one: "map (stream_of st) as = map Some us" "mset us = mset (wanted (agg p))" "wanted (agg p) \<noteq> []"
    and empty: "last_set (agg p) = []" "items (agg_queue (agg p)) = []" and k: "k \<in> set comps"
  shows "\<exists>p' st' c g. feed step as p st = Inr (p', st') \<and> good p' st' \<and> frames_ok st' (X + agg_held (agg p'))
    \<and> items (agg_queue (agg p')) = [c] \<and> look st' c = Some g
    \<and> children g = map (\<lambda>w. the (map_of (zip us as) w)) (wanted (agg p))
    \<and> keeps (set as) st st' \<and> agg_ok (agg p') \<and> wanted (agg p') = wanted (agg p) \<and> last_set (agg p') = []
    \<and> limits st' = limits st \<and> can_take k 0 (agg p') st'"
proof -
  let ?cs = "map (\<lambda>w. the (map_of (zip us as) w)) (wanted (agg p))"
  have d: "distinct (wanted (agg p))" using assms(3) by (simp add: agg_ok_def)
  obtain p' st' cs where r: "feed step as p st = Inr (p', st')" "good p' st'" "frames_ok st' (X + agg_held (agg p'))"
    "queued (agg p) (agg p') cs" "outside k st st'" "agg_ok (agg p')" "wanted (agg p') = wanted (agg p)"
    "limits st' = limits st" "can_take k 0 (agg p') st'"
    "agg_spec (wanted (agg p)) (last_map (last_set (agg p))) (frame_events st as)
      = (map (children_at st') cs, last_map (last_set (agg p')))"
    using feed_refines [OF assms(1-7)] by blast
  have spec: "map (children_at st') cs = [?cs]" "last_map (last_set (agg p')) = Map.empty"
    using r(10) agg_spec_one_set [OF one(1,2) d one(3)] empty(1) by simp_all
  then have "last_set (agg p') = []" using r(6) by (intro last_map_empty) (simp_all add: agg_ok_def)
  moreover obtain c where c: "cs = [c]" "children_at st' c = ?cs" using spec(1) by auto
  have q: "items (agg_queue (agg p')) = [c]" using r(4) empty(2) c(1) by (simp add: queued_def)
  obtain g where g: "look st' c = Some g" "children g = ?cs"
    using c(2) one(3) by (auto simp: children_at_def split: option.splits)
  moreover have "keeps (set as) st st'"
    unfolding keeps_def
  proof (intro ballI allI impI)
    fix a f
    assume a: "a \<in> set as" and f: "look st a = Some f"
    have "length us = length as" using one(1) by (metis length_map)
    then obtain i where i: "i < length as" "as ! i = a" "i < length us" using a by (metis in_set_conv_nth)
    have "distinct us" using one(2) d by (metis mset_eq_imp_distinct_iff)
    then have "map_of (zip us as) (us ! i) = Some a"
      using i \<open>length us = length as\<close> by (metis map_of_zip_nth)
    moreover have "us ! i \<in> set (wanted (agg p))" using one(2) i(3) by (metis mset_eq_setD nth_mem)
    ultimately have "a \<in> set (children g)" unfolding g(2) by (metis (no_types, lifting) image_eqI image_set option.sel)
    then obtain f' where f': "look st' a = Some f'" using child_live [OF r(3) g(1)] by blast
    have "fst a \<noteq> k" using assms(6) a k by (auto simp: list_all_iff)
    then obtain h where "look st a = Some h" "f' = h\<lparr>ref_count := ref_count f'\<rparr>"
      using r(5) f' unfolding outside_def by blast
    then have "f' = f\<lparr>ref_count := ref_count f'\<rparr>" using f by simp
    with f' show "\<exists>r. look st' a = Some (f\<lparr>ref_count := r\<rparr>)" by metis
  qed
  ultimately show ?thesis using r(1-3,6-9) q g by blast
qed

end

lemma queue_processing:
  "agg_enqueue c ag st = Inr (ag', st') \<Longrightarrow> has_processing ag' = has_processing ag"
  "agg_pop_front ag st = Inr (ag', st') \<Longrightarrow> has_processing ag' = has_processing ag"
  by (simp_all only: agg_enqueue_def agg_pop_front_def Let_def bind_result_Inr) auto

lemma publish_set_processing: "publish_set k a f ag st = Inr (ag', st') \<Longrightarrow> has_processing ag' = has_processing ag"
  unfolding publish_set_def bind_result_Inr
  by (auto simp: bind_result_Inr split: option.splits if_splits dest!: queue_processing)

lemma assign_last_processing: "assign_last u a ag st = Inr (ag', st') \<Longrightarrow> has_processing ag' = has_processing ag"
  by (auto simp: assign_last_def Let_def bind_result_Inr split: option.splits)

lemma processor_processing:
  assumes "processor_on_frame comps k a ag st = Inr (ag', st')" "fst a \<notin> set comps"
  shows "has_processing ag' = has_processing ag"
proof -
  have "has_processing ag1 = has_processing ag" if "handle_single k a ag st = Inr (ag1, st1)" for ag1 st1
    using that by (auto simp: handle_single_def bind_result_Inr
        split: option.splits if_splits dest!: publish_set_processing assign_last_processing)
  with assms show ?thesis
    by (auto simp: processor_on_frame_def handle_frame_def bind_result_Inr split: if_splits)
qed

section \<open>The aggregator and the pipeline\<close>

interpretation af: frame_consumer "processor_on_frame comps k" "\<lambda>ag. ag" "\<lambda>_ _. True" comps k
  for comps k
  by unfold_locales (use processor_delivers settings_limits in \<open>blast\<close>)

text \<open>The pipeline's callback, while it streams to its aggregator.\<close>

definition pipeline_take :: "nat list \<Rightarrow> nat \<Rightarrow> frame_source \<Rightarrow> addr \<Rightarrow> pipeline \<Rightarrow> store \<Rightarrow> se_error + pipeline \<times> store" where
  "pipeline_take comps k src a p st =
     bind_result (pipeline_on_frame comps k src a p st) (\<lambda>(r, p', st'). Inr (p', st'))"

definition aggregator_of :: "pipeline \<Rightarrow> aggregator" where
  "aggregator_of p = the (pl_aggregator p)"

definition streams_to_aggregator :: "pipeline \<Rightarrow> bool" where
  "streams_to_aggregator p \<longleftrightarrow> pl_aggregator p \<noteq> None \<and> pl_output p = None \<and> active_profile p \<noteq> None
     \<and> streams_callback p = None \<and> has_processing (aggregator_of p)"

lemma pipeline_take_step:
  assumes p: "streams_to_aggregator p"
    and s: "processor_on_frame comps k a (aggregator_of p) st = Inr (ag', st')" "fst a \<notin> set comps"
  shows "pipeline_take comps k src a p st = Inr (p\<lparr>pl_aggregator := Some ag'\<rparr>, st')
    \<and> streams_to_aggregator (p\<lparr>pl_aggregator := Some ag'\<rparr>)"
  using p s(1) processor_processing [OF s]
  by (auto simp: pipeline_take_def pipeline_on_frame_def block_invoke_def streams_to_aggregator_def aggregator_of_def)

interpretation pf: frame_consumer "pipeline_take comps k src" aggregator_of "\<lambda>p _. streams_to_aggregator p" comps k
  for comps k src
proof unfold_locales
  fix p st a X n
  assume p: "streams_to_aggregator p" and a: "fst a \<notin> set comps"
    and st: "frames_ok st (add_mset a X + agg_held (aggregator_of p))" "agg_ok (aggregator_of p)" "k < length st"
      "can_take k (Suc n) (aggregator_of p) st"
  from processor_delivers [OF st(1-3) a st(4)] obtain ag' st' where
    "processor_on_frame comps k a (aggregator_of p) st = Inr (ag', st')" "frames_ok st' (X + agg_held ag')"
    "agg_ok ag'" "length st' = length st" "can_take k n ag' st'"
    "keeps (set_mset X \<union> set (items (agg_queue (aggregator_of p)))) st st'" "outside k st st'"
    "takes_frame a (aggregator_of p) st ag' st'" "limits st' = limits st" using settings_limits by blast
  with pipeline_take_step [OF p _ a, of k st ag' st' src]
  show "\<exists>p' st'. pipeline_take comps k src a p st = Inr (p', st') \<and> streams_to_aggregator p'
      \<and> frames_ok st' (X + agg_held (aggregator_of p')) \<and> agg_ok (aggregator_of p')
      \<and> length st' = length st \<and> limits st' = limits st \<and> can_take k n (aggregator_of p') st'
      \<and> keeps (set_mset X \<union> set (items (agg_queue (aggregator_of p)))) st st' \<and> outside k st st'
      \<and> takes_frame a (aggregator_of p) st (aggregator_of p') st'"
    by (intro exI [of _ "p\<lparr>pl_aggregator := Some ag'\<rparr>"] exI [of _ st']) (simp add: aggregator_of_def)
qed

text \<open>The poll that follows hands out the set.\<close>

lemma poll_one_set:
  assumes p: "streams_to_aggregator p" and ok: "frames_ok st (X + agg_held (aggregator_of p))"
    and q: "items (agg_queue (aggregator_of p)) = [c]" and g: "look st c = Some g" "children g \<noteq> []"
  shows "\<exists>fs p' ag'. \<exists>st'. Pipeline_pollForFrames (Some no_frame_set) p (st, x) = (Inr (True, fs), p', (st', x))
    \<and> frame_ref (set_handle fs) = Some c \<and> look st' = look st
    \<and> pl_aggregator p' = Some ag' \<and> items (agg_queue ag') = [] \<and> frames_ok st' (add_mset c X + agg_held ag')"
proof -
  have pl: "pl_aggregator p = Some (aggregator_of p)" "active_profile p \<noteq> None" "streams_callback p = None"
    using p by (auto simp: streams_to_aggregator_def aggregator_of_def)
  have comp: "list_all (holds_composite st) (items (agg_queue (aggregator_of p)))"
    using g by (simp add: q holds_composite_def children_composite_frame)
  have none: "set_refs no_frame_set = {#}" by (simp add: set_refs_def no_frame_set_def no_frame_def)
  have sub: "set_refs no_frame_set \<subseteq># X" by (simp add: none)
  from pollForFrames_ok [OF pl ok comp sub, of x] obtain fs p' ag' st' where
    "Pipeline_pollForFrames (Some no_frame_set) p (st, x) = (Inr (True, fs), p', (st', x))"
      "pl_aggregator p' = Some ag'" "items (agg_queue ag') = []"
      "frames_ok st' (X + set_refs fs + agg_held ag')" "frame_ref (set_handle fs) = Some c" "look st' = look st"
    by (auto simp: q none)
  then show ?thesis
    by (intro exI [of _ fs] exI [of _ p'] exI [of _ ag'] exI [of _ st']) (simp add: set_refs_def)
qed

text \<open>A poll changes the queue of the aggregator and counts, nothing else.\<close>

definition quiet :: "(store \<Rightarrow> (se_error + 'a) \<times> store) \<Rightarrow> bool" where
  "quiet m \<longleftrightarrow> (\<forall>st. settings (snd (m st)) = settings st)"

lemma quiet_bind: "quiet m \<Longrightarrow> (\<And>y. quiet (f y)) \<Longrightarrow> quiet (\<lambda>st. bind_st (m st) f)"
  by (auto simp: quiet_def bind_st_def split: prod.splits sum.splits) (metis snd_conv)+

lemma quiet_Inr: "quiet (\<lambda>st. (r, st))"
  by (simp add: quiet_def)

lemma quiet_lift:
  "quiet (lift_st (acquire a))" "quiet (lift_st (release a))"
  by (auto simp: quiet_def lift_st_def dest: settings_ops split: sum.splits)

lemma quiet_destroy: "quiet (handle_destroy h)"
  using quiet_lift(2) by (auto simp: quiet_def handle_destroy_def holder_destroy_def split: option.splits)

lemma quiet_handle_of: "quiet (handle_of r)"
  by (auto simp: quiet_def handle_of_def split: option.splits sum.splits)

lemma quiet_copy: "quiet (handle_copy h)"
  unfolding handle_copy_def
  by (cases "frame_ref h") (auto intro!: quiet_Inr quiet_bind quiet_lift)

lemma quiet_set_of: "quiet (frame_set_of h)"
  unfolding frame_set_of_def
  by (rule quiet_bind [OF quiet_copy]) (auto simp: quiet_def split: option.splits sum.splits)

lemma quiet_assign_set: "quiet (assign_set r target)"
  unfolding assign_set_def set_of_ref_def handle_assign_def handle_swap_def prod.case
  by (intro quiet_bind quiet_handle_of quiet_set_of quiet_destroy quiet_Inr)

lemma poll_changes:
  assumes p: "streams_to_aggregator p" and r: "Pipeline_pollForFrames (Some t) p (st, x) = (r, p', (st', x'))"
  shows "p' = p\<lparr>pl_aggregator := Some (snd (agg_try_dequeue (aggregator_of p)))\<rparr>" "settings st' = settings st"
proof -
  have give: "give_set q t p0 (st, x) = (r0, p1, (st1, x1)) \<Longrightarrow> p1 = p0 \<and> settings st1 = settings st" for q p0 r0 p1 st1 x1
    using quiet_assign_set [of q t] by (auto simp: give_set_def quiet_def split: option.splits sum.splits prod.splits) (metis snd_conv)+
  obtain prof ag where "active_profile p = Some prof" "streams_callback p = None" "pl_aggregator p = Some ag"
    using p by (auto simp: streams_to_aggregator_def)
  then have "give_set (fst (agg_try_dequeue ag)) t (p\<lparr>pl_aggregator := Some (snd (agg_try_dequeue ag))\<rparr>) (st, x) = (r, p', (st', x'))"
    using r by (auto simp: Pipeline_pollForFrames_def pollForFrames_def split: prod.splits)
  from give [OF this] \<open>pl_aggregator p = Some ag\<close>
  show "p' = p\<lparr>pl_aggregator := Some (snd (agg_try_dequeue (aggregator_of p)))\<rparr>" "settings st' = settings st"
    by (simp_all add: aggregator_of_def)
qed

section \<open>A store for the instances\<close>

text \<open>Two frames, of the streams 1 and 3, and an archive for composite frames.\<close>

definition two_store :: store where
  "two_store =
     [(new_archive 0)\<lparr>published_count := 2, objs := [Some (obj_frame 1 1), Some (obj_frame 1 3)]\<rparr>,
      new_archive 256]"

lemma two_store_reach: "frame_reach [0, 256] two_store {#(0, Obj 1), (0, Obj 0)#}"
proof -
  obtain st1 st2 st3 where
    1: "frame_exec (F_alloc 0 0 new_extension False) (map new_archive [0, 256]) {#} = Inr (st1, {#(0, Obj 0)#})"
    and 2: "frame_exec (F_tag (0, Obj 0) (Some (uid_profile 1)) None) st1 {#(0, Obj 0)#} = Inr (st2, {#(0, Obj 0)#})"
    and 3: "frame_exec (F_alloc 0 0 new_extension False) st2 {#(0, Obj 0)#} = Inr (st3, {#(0, Obj 1), (0, Obj 0)#})"
    and 4: "frame_exec (F_tag (0, Obj 1) (Some (uid_profile 3)) None) st3 {#(0, Obj 1), (0, Obj 0)#}
      = Inr (two_store, {#(0, Obj 1), (0, Obj 0)#})"
    by (simp add: obj_exec_simps two_store_def)
  have "frame_reach [0, 256] st1 {#(0, Obj 0)#}" by (rule frame_reach.step [OF frame_reach.init _ 1]) simp
  then have "frame_reach [0, 256] st2 {#(0, Obj 0)#}" by (rule frame_reach.step [OF _ _ 2]) simp
  moreover have "st2 \<noteq> []" using 1 2 by (auto simp: obj_exec_simps)
  ultimately have "frame_reach [0, 256] st3 {#(0, Obj 1), (0, Obj 0)#}" by (intro frame_reach.step [OF _ _ 3]) simp_all
  then show ?thesis by (rule frame_reach.step [OF _ _ 4]) simp
qed

section \<open>Properties\<close>

text \<open>C7: The aggregator refines its specification: whatever sequence of single frames is delivered,
  as long as neither the queue nor the archive of composite frames gets full, no delivery fails, the
  queue grows by one composite frame for every set the specification makes, with exactly that set's
  frames as children in the order of the stream ids, the last frames kept for the next set are the
  specification's, the frames others hold keep their content, and the reference counts stay exact.\<close>

theorem aggregator_refines_spec:
  assumes "frames_ok st (X + mset as + agg_held ag)" and "agg_ok ag" and "sorted (wanted ag)"
    and "k < length st" and "list_all (\<lambda>a. fst a \<notin> set comps) as" and "can_take k (length as) ag st"
  shows "\<exists>ag' st' cs. feed (processor_on_frame comps k) as ag st = Inr (ag', st')
    \<and> frames_ok st' (X + agg_held ag') \<and> items (agg_queue ag') = items (agg_queue ag) @ cs
    \<and> keeps (set_mset X \<union> set (items (agg_queue ag))) st st' \<and> outside k st st'
    \<and> agg_spec (wanted ag) (last_map (last_set ag)) (frame_events st as)
      = (map (children_at st') cs, last_map (last_set ag'))"
  using af.feed_refines [OF TrueI assms] unfolding queued_def by blast

definition fresh_aggregator :: aggregator where
  "fresh_aggregator = agg_start (new_aggregator [3, 1])"

lemma fresh_aggregator_simps:
  "wanted fresh_aggregator = [1, 3]" "last_set fresh_aggregator = []" "items (agg_queue fresh_aggregator) = []"
  "has_processing fresh_aggregator" "agg_ok fresh_aggregator" "agg_held fresh_aggregator = {#}"
  by (simp_all add: fresh_aggregator_def agg_start_def new_aggregator_def new_cq_def agg_ok_def agg_held_def)

lemma two_store_ok:
  "frames_ok two_store ({#} + mset [(0, Obj 1), (0, Obj 0)] + agg_held fresh_aggregator)"
  using frame_reach_ok [OF two_store_reach] by (simp add: fresh_aggregator_simps)

lemma two_store_look:
  "look two_store (0, Obj 0) = Some (obj_frame 1 1)" "look two_store (0, Obj (Suc 0)) = Some (obj_frame 1 3)"
  by (simp_all add: two_store_def look_def arc_look_def)

lemma two_store_streams:
  "stream_of two_store (0, Obj 0) = Some 1" "stream_of two_store (0, Obj (Suc 0)) = Some 3"
  by (simp_all add: stream_of_def two_store_look obj_frame_def uid_profile_def)

lemma two_store_can: "can_take 1 2 fresh_aggregator two_store"
proof -
  have e: "arc_look (new_archive 256) l = None" for l
    by (cases l) (simp_all add: arc_look_def new_archive_def)
  have "taken 1 two_store = 0" by (simp add: taken_def two_store_def look_def e)
  then show ?thesis
    by (simp add: can_take_def room_def fresh_aggregator_def agg_start_def new_aggregator_def new_cq_def
        cq_size_def kFrameNum2Aggregate_def two_store_def new_archive_def)
qed

theorem aggregator_refines_spec_witness:
  "\<exists>ag' st' c. feed (processor_on_frame [1] 1) [(0, Obj 1), (0, Obj 0)] fresh_aggregator two_store = Inr (ag', st')
    \<and> items (agg_queue ag') = [c] \<and> children_at st' c = [(0, Obj 0), (0, Obj 1)]
    \<and> last_map (last_set ag') = Map.empty"
proof -
  have s: "frame_events two_store [(0, Obj 1), (0, Obj 0)] = [(Some 3, (0, Obj 1)), (Some 1, (0, Obj 0))]"
    by (simp add: frame_events_def two_store_streams)
  have k: "1 < length two_store" "list_all (\<lambda>a. fst a \<notin> set [1]) [(0 :: nat, Obj 1), (0, Obj 0)]"
    by (simp_all add: two_store_def)
  have c: "can_take 1 (length [(0, Obj 1), (0, Obj 0)]) fresh_aggregator two_store"
    using two_store_can by (simp add: numeral_2_eq_2)
  have w: "sorted (wanted fresh_aggregator)" by (simp add: fresh_aggregator_simps)
  from aggregator_refines_spec [OF two_store_ok fresh_aggregator_simps(5) w k c] obtain ag' st' cs where
    r: "feed (processor_on_frame [1] 1) [(0, Obj 1), (0, Obj 0)] fresh_aggregator two_store = Inr (ag', st')"
      "items (agg_queue ag') = cs"
      "([[(0, Obj 0), (0, Obj 1)]], Map.empty) = (map (children_at st') cs, last_map (last_set ag'))"
    unfolding s by (auto simp: fresh_aggregator_simps)
  then obtain c where "cs = [c]" "children_at st' c = [(0, Obj 0), (0, Obj 1)]" by auto
  moreover have "last_map (last_set ag') = Map.empty" using r(3) by simp
  ultimately show ?thesis using r(1,2) by blast
qed

text \<open>C15: What one frame of a wanted stream does, in every case.  It replaces the last frame of its
  stream.  As long as a wanted stream has no frame, nothing is published and the queue is unchanged.
  As soon as every wanted stream has one, the set is taken out and, when the queue has room, exactly
  one composite frame is queued, whose children are the last frames of all wanted streams in the order
  of their ids and whose profile, time stamp and its domain are those of the frame that completed the
  set; when the queue is full, its oldest frame goes and the set is not queued.  This holds for an
  accepting queue and while the archive of composite frames is not full.\<close>

theorem aggregator_publishes_complete_sets:
  assumes "frames_ok st (X + agg_held ag)" and "a \<in># X" and "agg_ok ag" and "sorted (wanted ag)"
    and "k < length st" and "room k 1 st" and "accepting (agg_queue ag)"
    and "look st a = Some f" and "fr_profile f = Some p" and "sp_uid p \<in> set (wanted ag)"
    and "M = (last_map (last_set ag))(sp_uid p \<mapsto> a)"
  shows "\<exists>ag' st'. handle_single k a ag st = Inr (ag', st') \<and>
    (if \<exists>w\<in>set (wanted ag). M w = None
     then agg_queue ag' = agg_queue ag \<and> last_map (last_set ag') = M
     else last_set ag' = []
       \<and> (if cq_size (agg_queue ag) < kFrameNum2Aggregate
          then \<exists>c g. items (agg_queue ag') = items (agg_queue ag) @ [c] \<and> look st' c = Some g
            \<and> children g = map (\<lambda>w. the (M w)) (wanted ag) \<and> fr_profile g = Some p
            \<and> fe_timestamp (fr_ext g) = fe_timestamp (fr_ext f) \<and> fe_domain (fr_ext g) = fe_domain (fr_ext f)
          else items (agg_queue ag') = tl (items (agg_queue ag))))"
proof -
  let ?m = "omap_put (sp_uid p) (Some a) (last_set ag)"
  have om: "omap_ok (last_set ag)" using assms(3) by (simp add: agg_ok_def)
  have m: "omap_ok ?m" "None \<notin> snd ` set ?m" "fst ` set ?m \<subseteq> set (wanted ag)"
    using assms(3,10) om snd_omap_put [OF om, of "sp_uid p" "Some a"] by (auto simp: agg_ok_def)
  have d: "distinct (wanted ag)" using assms(3) by (simp add: agg_ok_def)
  note comp = last_map_complete [OF m assms(4) d, unfolded last_map_put [OF om] assms(11) [symmetric]]
  obtain ag' st' where r: "handle_single k a ag st = Inr (ag', st')" "single_outcome f p a ag ag' st'"
    using handle_single_ok [OF assms(1,2,3,5)] assms(8-10) by blast
  have out: ?thesis if "if \<exists>w\<in>set (wanted ag). M w = None
     then agg_queue ag' = agg_queue ag \<and> last_map (last_set ag') = M
     else last_set ag' = []
       \<and> (if cq_size (agg_queue ag) < kFrameNum2Aggregate
          then \<exists>c g. items (agg_queue ag') = items (agg_queue ag) @ [c] \<and> look st' c = Some g
            \<and> children g = map (\<lambda>w. the (M w)) (wanted ag) \<and> fr_profile g = Some p
            \<and> fe_timestamp (fr_ext g) = fe_timestamp (fr_ext f) \<and> fe_domain (fr_ext g) = fe_domain (fr_ext f)
          else items (agg_queue ag') = tl (items (agg_queue ag)))"
    using r(1) that by blast
  show ?thesis
  proof (cases "length ?m = length (wanted ag)")
    case False
    then have "\<exists>w\<in>set (wanted ag). M w = None" using comp(1) by (auto simp: list_all_iff)
    moreover have "ag' = ag\<lparr>last_set := ?m\<rparr>" using r(2) False by (simp add: single_outcome_def Let_def)
    ultimately show ?thesis by (intro out) (simp add: last_map_put [OF om] assms(11))
  next
    case True
    have empty: "last_set ag' = []"
      by (rule handle_single_completes [OF assms(1,2,3,5,8,9,10,6) r(1) True])
    have all: "\<not> (\<exists>w\<in>set (wanted ag). M w = None)" using comp(1) True by (auto simp: list_all_iff)
    have "ag' \<noteq> ag\<lparr>last_set := ?m\<rparr>"
    proof
      assume "ag' = ag\<lparr>last_set := ?m\<rparr>"
      then have "last_set ag' = ?m" by simp
      with empty show False by simp
    qed
    then have pub: "if cq_size (agg_queue ag) < kFrameNum2Aggregate then published_as f (ag\<lparr>last_set := ?m\<rparr>) ag' st'
        else ag' = ag\<lparr>last_set := ?m, agg_queue := cq_pop_front (agg_queue ag), last_set := []\<rparr>"
      using r(2) True by (simp add: single_outcome_def Let_def)
    show ?thesis
    proof (cases "cq_size (agg_queue ag) < kFrameNum2Aggregate")
      case room: True
      with pub obtain c g where c: "ag' = ag\<lparr>agg_queue := cq_enqueue c (agg_queue ag), last_set := []\<rparr>"
        "look st' c = Some g" "sync_frame_ok f (map (the \<circ> snd) ?m) g"
        using assms(7) by (auto simp: published_as_def)
      have "items (agg_queue ag') = items (agg_queue ag) @ [c]"
        using c(1) room assms(3,7) by (simp add: cq_enqueue_def Let_def cq_size_def agg_ok_def)
      moreover have "children g = map (\<lambda>w. the (M w)) (wanted ag)" "fr_profile g = Some p"
        "fe_timestamp (fr_ext g) = fe_timestamp (fr_ext f)" "fe_domain (fr_ext g) = fe_domain (fr_ext f)"
        using c(3) assms(9) comp(2) [OF True] by (simp_all add: sync_frame_ok_def)
      ultimately show ?thesis using all empty room c(2) by (intro out) (simp only: if_False if_True, blast)
    next
      case full: False
      then have "items (agg_queue ag') = tl (items (agg_queue ag))"
        using pub by (auto simp: cq_pop_front_def)
      with all empty full show ?thesis by (intro out) (simp only: if_False simp_thms)
    qed
  qed
qed

theorem aggregator_publishes_complete_sets_witness:
  "\<exists>ag' st' c g. handle_single 1 (0, Obj 0)
       (fresh_aggregator\<lparr>last_set := [(3, Some (0, Obj 1))]\<rparr>) two_store = Inr (ag', st')
     \<and> last_set ag' = [] \<and> items (agg_queue ag') = [c] \<and> look st' c = Some g
     \<and> children g = [(0, Obj 0), (0, Obj 1)] \<and> fr_profile g = Some (uid_profile 1)"
proof -
  let ?ag = "fresh_aggregator\<lparr>last_set := [(3 :: int, Some (0 :: nat, Obj 1))]\<rparr>"
  have ok: "frames_ok two_store ({#(0, Obj 0)#} + agg_held ?ag)" "agg_ok ?ag"
    using two_store_ok by (simp_all add: fresh_aggregator_def agg_start_def new_aggregator_def new_cq_def
        agg_ok_def agg_held_def add_mset_commute)
  have k: "1 < length two_store" "room 1 1 two_store" using two_store_can
    by (auto simp: two_store_def can_take_def room_def)
  have q: "wanted ?ag = [1, 3]" "accepting (agg_queue ?ag)" "cq_size (agg_queue ?ag) < kFrameNum2Aggregate"
    "last_set ?ag = [(3, Some (0, Obj 1))]" "items (agg_queue ?ag) = []"
    by (simp_all add: fresh_aggregator_def agg_start_def new_aggregator_def new_cq_def cq_size_def
        kFrameNum2Aggregate_def)
  have M: "last_map (last_set ?ag) = [3 \<mapsto> (0, Obj 1)]" by (auto simp: q(4) last_map_def fun_eq_iff)
  have p: "fr_profile (obj_frame 1 1) = Some (uid_profile 1)" "sp_uid (uid_profile 1) = 1"
    by (simp_all add: obj_frame_def uid_profile_def)
  show ?thesis
    using aggregator_publishes_complete_sets [OF ok(1) _ ok(2) _ k q(2) two_store_look(1) p(1) _ refl]
    unfolding M p(2) q(1,5) using q(3) by (simp del: split_paired_Ex) blast
qed

text \<open>From the pipeline's callback to the application: when a streaming pipeline receives one frame
  of every wanted stream, in any order, the next poll returns one set of exactly these frames, in the
  order of the stream ids, and nothing else is queued; the frames keep their content, and the reference
  counts are exact, with one reference to the set in the application's hands.\<close>

theorem frames_reach_application:
  assumes "streams_to_aggregator p" and "frames_ok st (X + mset as + agg_held (aggregator_of p))"
    and "agg_ok (aggregator_of p)" and "sorted (wanted (aggregator_of p))" and "k < length st"
    and "list_all (\<lambda>a. fst a \<notin> set comps) as" and "can_take k (length as) (aggregator_of p) st"
    and "map (stream_of st) as = map Some us" and "mset us = mset (wanted (aggregator_of p))"
    and "wanted (aggregator_of p) \<noteq> []" and "last_set (aggregator_of p) = []"
    and "items (agg_queue (aggregator_of p)) = []" and "k \<in> set comps"
  shows "\<exists>p1 st1 fs p' ag' st' c. feed (pipeline_take comps k src) as p st = Inr (p1, st1)
    \<and> Pipeline_pollForFrames (Some no_frame_set) p1 (st1, x) = (Inr (True, fs), p', (st', x))
    \<and> frame_ref (set_handle fs) = Some c
    \<and> children_at st' c = map (\<lambda>w. the (map_of (zip us as) w)) (wanted (aggregator_of p))
    \<and> keeps (set as) st st' \<and> pl_aggregator p' = Some ag' \<and> items (agg_queue ag') = []
    \<and> frames_ok st' (add_mset c X + agg_held ag')"
proof -
  obtain p1 st1 c g where f: "feed (pipeline_take comps k src) as p st = Inr (p1, st1)" "streams_to_aggregator p1"
    "frames_ok st1 (X + agg_held (aggregator_of p1))" "items (agg_queue (aggregator_of p1)) = [c]"
    "look st1 c = Some g" "children g = map (\<lambda>w. the (map_of (zip us as) w)) (wanted (aggregator_of p))"
    "keeps (set as) st st1"
    using pf.feed_one_set [OF assms] by blast
  have ne: "children g \<noteq> []" using f(6) assms(10) by simp
  from poll_one_set [OF f(2-5) ne, of x] obtain fs p' ag' st' where
    r: "Pipeline_pollForFrames (Some no_frame_set) p1 (st1, x) = (Inr (True, fs), p', (st', x))"
    "frame_ref (set_handle fs) = Some c" "look st' = look st1"
    "pl_aggregator p' = Some ag'" "items (agg_queue ag') = []" "frames_ok st' (add_mset c X + agg_held ag')"
    by blast
  have "children_at st' c = map (\<lambda>w. the (map_of (zip us as) w)) (wanted (aggregator_of p))"
    using r(3) f(5,6) by (simp add: children_at_def)
  moreover have "keeps (set as) st st'" using f(7) r(3) by (simp add: keeps_def)
  ultimately show ?thesis using f(1) r(1,2,4-6) by blast
qed

definition fresh_pipeline :: pipeline where
  "fresh_pipeline = (new_pipeline new_context)\<lparr>active_profile := Some still_profile, pl_aggregator := Some fresh_aggregator\<rparr>"

lemma fresh_pipeline_simps:
  "streams_to_aggregator fresh_pipeline" "aggregator_of fresh_pipeline = fresh_aggregator"
  by (simp_all add: streams_to_aggregator_def aggregator_of_def fresh_pipeline_def new_pipeline_def fresh_aggregator_simps)

theorem frames_reach_application_witness:
  "\<exists>p1 st1 fs p' st' c. feed (pipeline_take [1] 1 (new_source 256)) [(0, Obj 1), (0, Obj 0)] fresh_pipeline two_store = Inr (p1, st1)
    \<and> Pipeline_pollForFrames (Some no_frame_set) p1 (st1, ()) = (Inr (True, fs), p', (st', ()))
    \<and> frame_ref (set_handle fs) = Some c \<and> children_at st' c = [(0, Obj 0), (0, Obj 1)]"
proof -
  let ?ag = "aggregator_of fresh_pipeline"
  have k: "1 < length two_store" "list_all (\<lambda>a. fst a \<notin> set [1]) [(0 :: nat, Obj 1), (0, Obj 0)]"
    by (simp_all add: two_store_def)
  have c: "can_take 1 (length [(0, Obj 1), (0, Obj 0)]) ?ag two_store"
    using two_store_can by (simp add: numeral_2_eq_2 fresh_pipeline_simps)
  have w: "frames_ok two_store ({#} + mset [(0, Obj 1), (0, Obj 0)] + agg_held ?ag)" "agg_ok ?ag" "sorted (wanted ?ag)"
    "wanted ?ag \<noteq> []" "last_set ?ag = []" "items (agg_queue ?ag) = []" "(1 :: nat) \<in> set [1]"
    using two_store_ok by (simp_all add: fresh_pipeline_simps fresh_aggregator_simps)
  have u: "map (stream_of two_store) [(0, Obj 1), (0, Obj 0)] = map Some [3, 1]" "mset [3, 1] = mset (wanted ?ag)"
    by (simp_all add: two_store_streams fresh_pipeline_simps fresh_aggregator_simps)
  from frames_reach_application [OF fresh_pipeline_simps(1) w(1-3) k c u w(4-7), of "new_source 256" "()"]
  obtain p1 st1 fs p' ag' st' c where
    "feed (pipeline_take [1] 1 (new_source 256)) [(0, Obj 1), (0, Obj 0)] fresh_pipeline two_store = Inr (p1, st1)"
    "Pipeline_pollForFrames (Some no_frame_set) p1 (st1, ()) = (Inr (True, fs), p', (st', ()))"
    "frame_ref (set_handle fs) = Some c"
    "children_at st' c = map (\<lambda>w. the (map_of (zip [3, 1] [(0, Obj 1), (0, Obj 0)]) w)) (wanted ?ag)" by blast
  then show ?thesis
    by (intro exI [of _ p1] exI [of _ st1] exI [of _ fs] exI [of _ p'] exI [of _ st'] exI [of _ c])
      (simp add: fresh_pipeline_simps fresh_aggregator_simps)
qed

end
