(* ===== verification/Packet_Delivery.thy ===== *)
theory Packet_Delivery
  imports Frame_Feed Gemini_Sensor
begin

text \<open>
  From the bytes of a packet to the set the application gets: the stream thread cuts the packet into
  frames (\<open>Gemini_Sensor\<close>), the tasks of the sensor's dispatcher give them to the pipeline's callback,
  in the order they were queued (\<open>Dispatcher\<close>), the aggregator makes the set (\<open>Frame_Feed\<close>), and a
  poll hands it out.
\<close>

section \<open>The callback counters\<close>

text \<open>A change of a callback counter is invisible to the frames.\<close>

definition set_callbacks :: "nat \<Rightarrow> callbacks_heap \<Rightarrow> store \<Rightarrow> store" where
  "set_callbacks j h st = st[j := (st ! j)\<lparr>callbacks := h\<rparr>]"

lemma set_callbacks_nth:
  "length (set_callbacks j h st) = length st"
  "i < length st \<Longrightarrow> set_callbacks j h st ! i = (if i = j then (st ! j)\<lparr>callbacks := h\<rparr> else st ! i)"
  by (simp_all add: set_callbacks_def nth_list_update)

lemma arc_look_callbacks [simp]: "arc_look (A\<lparr>callbacks := h\<rparr>) = arc_look A"
  by (simp add: arc_look_def fun_eq_iff split: loc.split)

lemma look_callbacks [simp]: "look (set_callbacks j h st) = look st"
  by (auto simp: look_def set_callbacks_nth fun_eq_iff)

lemma arc_ok_callbacks [simp]: "arc_ok (A\<lparr>callbacks := h\<rparr>) = arc_ok A"
  by (simp add: arc_ok_def unkept_def)

lemma frames_ok_callbacks [simp]: "frames_ok (set_callbacks j h st) X = frames_ok st X"
  by (auto simp: frames_ok_def store_ok_def set_callbacks_nth)

lemma can_take_callbacks [simp]: "k < length st \<Longrightarrow> can_take k n ag (set_callbacks j h st) = can_take k n ag st"
  by (auto simp: can_take_def room_def taken_def set_callbacks_nth)

lemma look_cong:
  assumes "look st1 = look st" "look st1' = look st'"
  shows "keeps B st1 st1' = keeps B st st'" "outside k st1 st1' = outside k st st'"
    "takes_frame a ag st1 ag' st1' = takes_frame a ag st ag' st'"
proof -
  have d: "delivered u a ag ag' st1' = delivered u a ag ag' st'" for u
    by (simp add: delivered_def assms)
  show "keeps B st1 st1' = keeps B st st'" "outside k st1 st1' = outside k st st'"
    by (simp_all add: keeps_def outside_def assms)
  show "takes_frame a ag st1 ag' st1' = takes_frame a ag st ag' st'"
    by (simp add: takes_frame_def stream_of_def d assms split: option.split)
qed

section \<open>The tasks of the sensor's dispatcher\<close>

text \<open>
  \<open>frame_source_->invoke_callback(frame)\<close> with the pipeline's callback: the call is counted in the
  archive of the frame while it runs.
\<close>

definition sensor_task ::
    "nat list \<Rightarrow> nat \<Rightarrow> frame_source \<Rightarrow> frame_source \<Rightarrow> addr \<Rightarrow> pipeline \<Rightarrow> store \<Rightarrow> se_error + pipeline \<times> store" where
  "sensor_task comps k psrc ssrc a p st =
     (case look st a of
        None \<Rightarrow> Inl (Undefined ''use of a freed frame'')
      | Some _ \<Rightarrow>
          with_callback (fst a) st
            (\<lambda>st1. if src_callback ssrc \<noteq> None then pipeline_take comps k psrc a p st1
                   else bind_result (release a st1) (\<lambda>st2. Inr (p, st2))))"

lemma limits_set_callbacks [simp]: "limits (set_callbacks j h st) = limits st"
  by (auto simp: limits_def set_callbacks_nth intro!: nth_equalityI)

definition task_ready :: "frame_source \<Rightarrow> pipeline \<Rightarrow> store \<Rightarrow> bool" where
  "task_ready ssrc p st \<longleftrightarrow> streams_to_aggregator p \<and> src_callback ssrc \<noteq> None
     \<and> list_all (\<lambda>A. heap_inv (callbacks A)) st"

lemma callbacks_inv_nth: "list_all (\<lambda>A. heap_inv (callbacks A)) st \<Longrightarrow> j < length st \<Longrightarrow> heap_inv (callbacks (st ! j))"
  by (simp add: list_all_length)

interpretation sf: frame_consumer "sensor_task comps k psrc ssrc" aggregator_of "task_ready ssrc" comps k
  for comps k psrc ssrc
proof unfold_locales
  fix p st a X n
  assume good: "task_ready ssrc p st" and a: "fst a \<notin> set comps"
    and st: "frames_ok st (add_mset a X + agg_held (aggregator_of p))" "agg_ok (aggregator_of p)" "k < length st"
      "can_take k (Suc n) (aggregator_of p) st"
  let ?j = "fst a" and ?ag = "aggregator_of p"
  have p: "streams_to_aggregator p" "src_callback ssrc \<noteq> None" using good by (simp_all add: task_ready_def)
  obtain f where f: "look st a = Some f" by (rule held_frame [OF st(1)]) auto
  then have j: "?j < length st" by (auto simp: look_def split: if_splits)
  have inv: "heap_inv (callbacks (st ! ?j))"
    using good j by (auto simp: task_ready_def intro: callbacks_inv_nth)
  obtain c h where b: "begin_callback (callbacks (st ! ?j)) = (c, h)" by fastforce
  from begin_end_callback [OF inv b] obtain h' where e: "end_callback c h = Inr h'" "heap_inv h'" by blast
  let ?st1 = "set_callbacks ?j h st"
  have st1: "frames_ok ?st1 (add_mset a X + agg_held ?ag)" "k < length ?st1" "can_take k (Suc n) ?ag ?st1"
    using st by (simp_all add: set_callbacks_nth)
  from processor_delivers [OF st1(1) st(2) st1(2) a st1(3)] obtain ag' st2 where
    r: "processor_on_frame comps k a ?ag ?st1 = Inr (ag', st2)" "frames_ok st2 (X + agg_held ag')" "agg_ok ag'"
      "length st2 = length ?st1" "can_take k n ag' st2" "keeps (set_mset X \<union> set (items (agg_queue ?ag))) ?st1 st2"
      "outside k ?st1 st2" "takes_frame a ?ag ?st1 ag' st2" "settings st2 = settings ?st1" by blast
  let ?p = "p\<lparr>pl_aggregator := Some ag'\<rparr>" and ?st3 = "set_callbacks ?j h' st2"
  have len: "length st2 = length st" using r(4) by (simp add: set_callbacks_nth)
  have h: "callbacks (st2 ! i) = callbacks (?st1 ! i)" if "i < length st" for i
    using r(9) that by (simp add: settings_eq set_callbacks_nth)
  have hj: "callbacks (st2 ! ?j) = h" using h [OF j] j by (simp add: set_callbacks_nth)
  note step = pipeline_take_step [OF p(1) r(1) a]
  have run: "sensor_task comps k psrc ssrc a p st = Inr (?p, ?st3)"
    using f p(2) b step hj e(1)
    by (simp add: sensor_task_def with_callback_def flip: set_callbacks_def)
  have "heap_inv (callbacks (?st3 ! i))" if "i < length st" for i
    using that h [of i] e(2) good len by (auto simp: set_callbacks_nth task_ready_def list_all_length)
  then have "task_ready ssrc ?p ?st3"
    using step p(2) len by (simp add: task_ready_def list_all_length set_callbacks_nth)
  moreover have "keeps (set_mset X \<union> set (items (agg_queue ?ag))) st ?st3" "outside k st ?st3"
    "takes_frame a ?ag st ag' ?st3"
    using r(6-8) by (simp_all add: look_cong [of ?st1 st st2 ?st3])
  ultimately show "\<exists>p' st'. sensor_task comps k psrc ssrc a p st = Inr (p', st') \<and> task_ready ssrc p' st'
      \<and> frames_ok st' (X + agg_held (aggregator_of p')) \<and> agg_ok (aggregator_of p')
      \<and> length st' = length st \<and> limits st' = limits st \<and> can_take k n (aggregator_of p') st'
      \<and> keeps (set_mset X \<union> set (items (agg_queue ?ag))) st st' \<and> outside k st st'
      \<and> takes_frame a ?ag st (aggregator_of p') st'"
    using run r(2,3,5) len st(3) settings_limits [OF r(9)]
    by (intro exI [of _ ?p] exI [of _ ?st3]) (simp add: aggregator_of_def set_callbacks_nth)
qed

section \<open>The frames of a packet\<close>

lemma alloc_filled_place:
  assumes st: "frames_ok st X" and src: "source_within src st"
    and k: "map_of (src_archives src) ty = Some (Some k)"
    and r: "alloc_filled ty sz ext load src st = Inr (q, st')"
  shows "settings st' = settings st" "q = Some a \<Longrightarrow> fst a = k" "room k 1 st \<Longrightarrow> q \<noteq> None"
proof -
  from alloc_and_track_ok [OF st source_withinD [OF src k], of sz ext True] obtain q' st1 where
    al: "alloc_and_track k sz ext True st = Inr (q', st1)"
    and q: "case q' of None \<Rightarrow> st1 = st \<and> 0 < max_queue (st ! k) \<and> max_queue (st ! k) \<le> published_count (st ! k)
      | Some a \<Rightarrow> fst a = k \<and> frames_ok st1 (add_mset a X) \<and> fresh_frame st a st1 sz ext True" by blast
  have sa: "source_alloc_frame ty sz ext True src st = Inr (q', st1)"
    using k al by (simp add: source_alloc_frame_def)
  have same: "q = q'" "settings st' = settings st1"
    using r sa by (auto simp: alloc_filled_def bind_result_Inr split: option.splits)
  show "settings st' = settings st" using same(2) settings_alloc [OF al] by simp
  show "fst a = k" if "q = Some a" using that same(1) q by simp
  show "q \<noteq> None" if "room k 1 st"
  proof
    assume "q = None"
    then have lim: "0 < max_queue (st ! k)" "max_queue (st ! k) \<le> published_count (st ! k)"
      using same(1) q by simp_all
    have kl: "k < length st" by (rule source_withinD [OF src k])
    then have "published_count (st ! k) = of_nat (taken k st)"
      using st by (simp add: frames_ok_def store_ok_def arc_ok_def taken_unkept)
    with lim(2) have "unat (max_queue (st ! k)) \<le> taken k st"
      by (metis le_trans unat_of_nat word_le_nat_alt mod_less_eq_dividend)
    with that lim(1) show False by (auto simp: room_def)
  qed
qed

definition infos_ready :: "gemini_sensor \<Rightarrow> (u32 \<times> frame_info) list \<Rightarrow> bool" where
  "infos_ready sn as \<longleftrightarrow> (\<forall>e\<in>set as. \<exists>info ptr p. fg_infos (usb_group sn) ! unat (fst e) = Some info
     \<and> fg_datas (usb_group sn) ! unat (fst e) = Some ptr
     \<and> map_of (id_profiles sn) (uint (fi_frame_id info)) = Some (Some p))"

lemma handle_received_all:
  assumes "frames_ok st X" "source_within (sn_source sn) st"
    and k: "map_of (src_archives (sn_source sn)) EXT_VIDEO_FRAME = Some (Some k)"
    and "handle_received as sn st = Inr (sn', st', acts)" "infos_ready sn as" "room k (length as) st"
  shows "length acts = length as \<and> settings st' = settings st \<and> length st' = length st
    \<and> (\<forall>b. fst b \<noteq> k \<longrightarrow> look st' b = look st b) \<and> (\<forall>a. Sensor_dispatch a \<in> set acts \<longrightarrow> fst a = k)"
  using assms(1,2,4-6)
proof (induction as arbitrary: st X acts)
  case Nil
  then show ?case by simp
next
  case (Cons e as)
  obtain i fi where e: "e = (i, fi)" by (cases e)
  obtain info ptr p where g: "fg_infos (usb_group sn) ! unat i = Some info" "fg_datas (usb_group sn) ! unat i = Some ptr"
    "map_of (id_profiles sn) (uint (fi_frame_id info)) = Some (Some p)"
    using Cons.prems(4) by (auto simp: infos_ready_def e)
  let ?load = "load_video (sn_id sn) (Some p) (fg_timestamp (usb_group sn)) (sn_buffer sn) ptr info"
  from Cons.prems(3) g obtain q st1 acts' where
    al: "alloc_filled EXT_VIDEO_FRAME (unat (fi_data_size info))
      (new_extension\<lparr>fe_index := ucast (fi_index info), fe_speed := port_speed (sn_port sn)\<rparr>) ?load (sn_source sn) st = Inr (q, st1)"
    and rest: "handle_received as sn st1 = Inr (sn', st', acts')"
    and acts: "acts = (case q of None \<Rightarrow> [] | Some a \<Rightarrow> [Sensor_dispatch a]) @ acts'"
    by (auto simp: e bind_result_Inr)
  have room: "room k 1 st" using Cons.prems(5) by (auto simp: room_def)
  note place = alloc_filled_place [OF Cons.prems(1,2) k al]
  from place(3) [OF room] obtain a where a: "q = Some a" by auto
  have keeps: "\<And>f g. children f = [] \<Longrightarrow> ?load f = Inr g \<Longrightarrow> children g = [] \<and> ref_count g = ref_count f
      \<and> fixed g = fixed f \<and> kept g = kept f"
    by (rule load_video_keeps)
  from alloc_filled_ok [OF Cons.prems(1,2) keeps al] a obtain g' where
    st1: "frames_ok st1 (X + opt_addr q)" "length st1 = length st" "look st1 = (look st)(a \<mapsto> g')" "look st a = None" by auto
  have fa: "fst a = k" by (rule place(2) [OF a])
  have kl: "k < length st" by (rule source_withinD [OF Cons.prems(2) k])
  have "one_new k st st1"
  proof -
    have "(look st1)(a := None) = look st" using st1(3,4) by (auto simp: fun_eq_iff)
    then show ?thesis unfolding one_new_def using fa st1(4) by (intro disjI2 exI [of _ a]) simp
  qed
  then have "room k (length as) st1"
    using one_new_taken [of k st st1] Cons.prems(5) settings_nth(1) [OF place(1) kl] by (auto simp: room_def)
  moreover have "source_within (sn_source sn) st1" using Cons.prems(2) st1(2) by (simp add: source_within_def)
  moreover have "infos_ready sn as" using Cons.prems(4) by (simp add: infos_ready_def)
  ultimately have "length acts' = length as \<and> settings st' = settings st1 \<and> length st' = length st1
      \<and> (\<forall>b. fst b \<noteq> k \<longrightarrow> look st' b = look st1 b) \<and> (\<forall>a. Sensor_dispatch a \<in> set acts' \<longrightarrow> fst a = k)"
    using Cons.IH [OF st1(1) _ rest] by blast
  with acts a place(1) st1(2,3) fa show ?case by auto
qed

text \<open>The frames among the actions of the stream thread.\<close>

fun dispatched :: "sensor_action list \<Rightarrow> addr list" where
  "dispatched [] = []"
| "dispatched (Sensor_dispatch a # acts) = a # dispatched acts"
| "dispatched (_ # acts) = dispatched acts"

lemma dispatched_map [simp]: "dispatched (map Sensor_dispatch as) = as"
  by (induction as) auto

lemma length_somes: "length (somes rs) = length rs \<Longrightarrow> rs = map Some (somes rs)"
proof (induction rs rule: somes.induct)
  case (2 xs)
  have "length (somes xs) \<le> length xs" by (induction xs rule: somes.induct) auto
  with 2 show ?case by simp
qed simp_all

text \<open>
  A packet whose frames all fit: its frames are all in the store, in the video archive, with the content
  of the packet and the stream of their profile, and nothing else has changed.
\<close>

lemma packet_frames:
  assumes st: "frames_ok st X" and src: "source_within (sn_source sn) st"
    and kv: "map_of (src_archives (sn_source sn)) EXT_VIDEO_FRAME = Some (Some kv)"
    and g: "group_ok (active_infos sn) (usb_group sn)" "list_all2 raw_ok (active_infos sn) raws"
    and b: "length head = pack_head_size" "sn_buffer sn = head @ u64_bytes ts @ concat raws @ rest"
    and prof: "\<forall>(i, fi)\<in>set (active_infos sn). map_of (id_profiles sn) (uint (fi_frame_id fi)) = Some (Some (prof fi))"
    and room: "room kv (length (active_infos sn)) st"
  obtains sn' st' as where "handle_packet sn st = Inr (sn', st', map Sensor_dispatch as)" "length as = length (active_infos sn)"
    "frames_ok st' (X + mset as)" "settings st' = settings st" "length st' = length st"
    "\<forall>b. fst b \<noteq> kv \<longrightarrow> look st' b = look st b" "\<forall>a\<in>set as. fst a = kv"
    "\<forall>j<length as. \<exists>f. look st' (as ! j) = Some f
       \<and> video_of (sn_id sn) (prof (snd (active_infos sn ! j))) (sint ts) (snd (active_infos sn ! j)) (raws ! j) f"
    "\<exists>fg. sn' = sn\<lparr>usb_group := fg\<rparr> \<and> group_ok (active_infos sn) fg"
proof -
  let ?es = "active_infos sn"
  obtain sn1 where h: "handle_packet sn st = handle_received ?es sn1 st"
    and sn1: "sn1 = sn\<lparr>usb_group := set_datas ?es (pack_head_size + 8) ((usb_group sn)\<lparr>fg_timestamp := sint ts\<rparr>)\<rparr>"
    and p: "ptrs_ok ?es (length (head @ u64_bytes ts)) (usb_group sn1)"
    and b1: "sn_buffer sn1 = (head @ u64_bytes ts) @ concat raws @ rest" and t: "fg_timestamp (usb_group sn1) = sint ts"
    using packet_received [OF g(1) b] .
  have src1: "source_within (sn_source sn1) st" and kv1: "map_of (src_archives (sn_source sn1)) EXT_VIDEO_FRAME = Some (Some kv)"
    and prof1: "\<forall>(i, fi)\<in>set ?es. map_of (id_profiles sn1) (uint (fi_frame_id fi)) = Some (Some (prof fi))"
    and id: "sn_id sn1 = sn_id sn"
    using src kv prof by (simp_all add: sn1)
  from handle_received_ok [OF st src1 kv1 g(2) p b1 prof1] obtain st' rs where r:
    "handle_received ?es sn1 st = Inr (sn1, st', map Sensor_dispatch (somes rs))" "length rs = length ?es"
    "frames_ok st' (X + mset (somes rs))"
    "\<forall>j<length ?es. \<forall>a. rs ! j = Some a \<longrightarrow> (\<exists>f. look st' a = Some f
       \<and> video_of (sn_id sn) (prof (snd (?es ! j))) (sint ts) (snd (?es ! j)) (raws ! j) f)"
    unfolding t id by blast
  have "ptrs_ok es q fg \<Longrightarrow> e \<in> set es \<Longrightarrow> \<exists>ptr. fg_infos fg ! unat (fst e) = Some (snd e) \<and> fg_datas fg ! unat (fst e) = Some ptr"
    for es q fg e by (induction es q fg rule: ptrs_ok.induct) auto
  then have "infos_ready sn1 ?es" using p prof1 unfolding infos_ready_def by fastforce
  note all' = handle_received_all [OF st src1 kv1 r(1) this room]
  have "\<forall>a\<in>set (somes rs). fst a = kv"
  proof
    fix a
    assume "a \<in> set (somes rs)"
    then have "Sensor_dispatch a \<in> set (map Sensor_dispatch (somes rs))" by simp
    with all' show "fst a = kv" by blast
  qed
  with all' have all: "length (somes rs) = length ?es" "settings st' = settings st" "length st' = length st"
    "\<forall>b. fst b \<noteq> kv \<longrightarrow> look st' b = look st b" "\<forall>a\<in>set (somes rs). fst a = kv" by simp_all
  have rs: "rs = map Some (somes rs)" using all(1) r(2) by (intro length_somes) simp
  have "rs ! j = Some (somes rs ! j)" if "j < length (somes rs)" for j
    using that by (subst rs) simp
  then have "\<forall>j<length (somes rs). \<exists>f. look st' (somes rs ! j) = Some f
       \<and> video_of (sn_id sn) (prof (snd (?es ! j))) (sint ts) (snd (?es ! j)) (raws ! j) f"
    using r(4) all(1) by simp
  moreover have "group_ok ?es (usb_group sn1)" unfolding sn1 using g(1) by (simp add: group_ok_datas)
  then have "\<exists>fg. sn1 = sn\<lparr>usb_group := fg\<rparr> \<and> group_ok ?es fg" by (auto simp: sn1)
  ultimately show thesis using h r(1,3) all by (intro that [of sn1 st' "somes rs"]) simp_all
qed

section \<open>What the packet leaves as it was\<close>

lemma task_ready_settings: "settings st' = settings st \<Longrightarrow> task_ready ssrc p st' = task_ready ssrc p st"
proof -
  have "list_all (\<lambda>A. heap_inv (callbacks A)) s = list_all (\<lambda>x. heap_inv (snd x)) (settings s)" for s
    by (simp add: settings_def list_all_iff)
  then show "settings st' = settings st \<Longrightarrow> task_ready ssrc p st' = task_ready ssrc p st"
    by (simp add: task_ready_def)
qed

lemma can_take_other:
  assumes "settings st' = settings st" "k < length st" "\<forall>b. fst b \<noteq> kv \<longrightarrow> look st' b = look st b" "k \<noteq> kv"
  shows "can_take k n ag st' = can_take k n ag st"
  using assms settings_nth(1) [OF assms(1,2)] by (simp add: can_take_def room_def taken_def)

lemma video_of_count [simp]: "video_of sid q t fi raw (f\<lparr>ref_count := r\<rparr>) = video_of sid q t fi raw f"
  by (simp add: video_of_def)

text \<open>The frame found for each wanted stream is the one at that stream's place.\<close>

lemma zip_children:
  assumes "length us = length as" "mset us = mset W" "distinct W" "i < length as"
  shows "the (map_of (zip us as) (us ! i)) = as ! i" "us ! i \<in> set W"
proof -
  have "distinct us" using assms(2,3) by (metis mset_eq_imp_distinct_iff)
  then show "the (map_of (zip us as) (us ! i)) = as ! i" using assms(1,4) by (simp add: map_of_zip_nth)
  have "us ! i \<in> set us" using assms(1,4) by simp
  then show "us ! i \<in> set W" using assms(2) by (metis mset_eq_setD)
qed

text \<open>
  The tasks of frames of all wanted streams, then a poll.  Afterwards the aggregator is as it was when it
  was started.
\<close>

definition agg_idle :: "aggregator \<Rightarrow> bool" where
  "agg_idle ag \<longleftrightarrow> agg_ok ag \<and> last_set ag = [] \<and> items (agg_queue ag) = [] \<and> agg_accepting ag \<and> accepting (agg_queue ag)"

lemma idle_after_dequeue:
  assumes "agg_ok ag" "last_set ag = []" "items (agg_queue ag) = [c]" "can_take k n ag st"
  shows "agg_idle (snd (agg_try_dequeue ag))" "wanted (snd (agg_try_dequeue ag)) = wanted ag"
    "has_processing (snd (agg_try_dequeue ag)) = has_processing ag"
  using assms by (simp_all add: agg_try_dequeue_def cq_try_dequeue_def cq_take_def agg_idle_def agg_ok_def can_take_def)

lemma tasks_make_set:
  assumes ready: "task_ready ssrc p st" and ok: "frames_ok st (X + mset as + agg_held (aggregator_of p))"
    and ag: "agg_ok (aggregator_of p)" "sorted (wanted (aggregator_of p))" "wanted (aggregator_of p) \<noteq> []"
      "last_set (aggregator_of p) = []" "items (agg_queue (aggregator_of p)) = []"
    and k: "k < length st" "k \<in> set comps" "list_all (\<lambda>a. fst a \<notin> set comps) as"
      "can_take k (length as) (aggregator_of p) st"
    and us: "map (stream_of st) as = map Some us" "mset us = mset (wanted (aggregator_of p))"
  obtains p1 st2 fs p' ag' st3 c where "feed (sensor_task comps k psrc ssrc) as p st = Inr (p1, st2)"
    "Pipeline_pollForFrames (Some no_frame_set) p1 (st2, x) = (Inr (True, fs), p', (st3, x))"
    "frame_ref (set_handle fs) = Some c" "pl_aggregator p' = Some ag'" "frames_ok st3 (add_mset c X + agg_held ag')"
    "map (stream_of st3) (children_at st3 c) = map Some (wanted (aggregator_of p))"
    "set as \<subseteq> set (children_at st3 c)" "keeps (set as) st st3"
    "task_ready ssrc p' st3 \<and> agg_idle ag' \<and> wanted ag' = wanted (aggregator_of p) \<and> limits st3 = limits st"
proof -
  let ?W = "wanted (aggregator_of p)"
  have len: "length us = length as" using us(1) by (metis length_map)
  have d: "distinct ?W" using ag(1) by (simp add: agg_ok_def)
  obtain p1 st2 c g where f: "feed (sensor_task comps k psrc ssrc) as p st = Inr (p1, st2)" "task_ready ssrc p1 st2"
    "frames_ok st2 (X + agg_held (aggregator_of p1))" "items (agg_queue (aggregator_of p1)) = [c]"
    "look st2 c = Some g" "children g = map (\<lambda>w. the (map_of (zip us as) w)) ?W" "keeps (set as) st st2"
    "agg_ok (aggregator_of p1)" "wanted (aggregator_of p1) = ?W" "last_set (aggregator_of p1) = []" "limits st2 = limits st"
    "can_take k 0 (aggregator_of p1) st2"
    using sf.feed_one_set [OF ready ok ag(1,2) k(1,3,4) us ag(3-5) k(2)] by blast
  have p1: "streams_to_aggregator p1" using f(2) by (simp add: task_ready_def)
  have ne: "children g \<noteq> []" using f(6) ag(3) by simp
  from poll_one_set [OF p1 f(3-5) ne, of x] obtain fs p' ag' st3 where
    r: "Pipeline_pollForFrames (Some no_frame_set) p1 (st2, x) = (Inr (True, fs), p', (st3, x))"
    "frame_ref (set_handle fs) = Some c" "look st3 = look st2" "pl_aggregator p' = Some ag'"
    "frames_ok st3 (add_mset c X + agg_held ag')" by blast
  note po = poll_changes [OF p1 r(1)]
  have ag': "ag' = snd (agg_try_dequeue (aggregator_of p1))" using po(1) r(4) by simp
  note idle = idle_after_dequeue [OF f(8,10,4,12), folded ag']
  have "streams_to_aggregator p'" using p1 idle(3) po(1) ag' by (simp add: streams_to_aggregator_def aggregator_of_def)
  then have "task_ready ssrc p' st3"
    using f(2) task_ready_settings [OF po(2), of ssrc p1] by (simp add: task_ready_def)
  then have after: "task_ready ssrc p' st3 \<and> agg_idle ag' \<and> wanted ag' = ?W \<and> limits st3 = limits st"
    using idle(1,2) f(9,11) settings_limits [OF po(2)] by simp
  have ch: "children_at st3 c = map (\<lambda>w. the (map_of (zip us as) w)) ?W"
    using r(3) f(5,6) by (simp add: children_at_def)
  have keep: "keeps (set as) st st3" using f(7) r(3) by (simp add: keeps_def)
  have "stream_of st3 (the (map_of (zip us as) w)) = Some w" if w: "w \<in> set ?W" for w
  proof -
    have "w \<in> set us" using w us(2) by (metis mset_eq_setD)
    then obtain i where i: "i < length as" "us ! i = w" using len by (metis in_set_conv_nth)
    have str: "stream_of st (as ! i) = Some w" using us(1) i len by (metis nth_map)
    then obtain h where "look st (as ! i) = Some h" by (auto simp: stream_of_def split: option.splits)
    then have "stream_of st3 (as ! i) = Some w" using keeps_stream [OF keep] str i(1) by simp
    then show ?thesis using zip_children(1) [OF len us(2) d i(1)] i(2) by simp
  qed
  then have "map (stream_of st3) (children_at st3 c) = map Some ?W" unfolding ch by simp
  moreover have "set as \<subseteq> set (children_at st3 c)"
  proof
    fix a
    assume "a \<in> set as"
    then obtain j where "j < length as" "as ! j = a" by (metis in_set_conv_nth)
    with zip_children [OF len us(2) d, of j] show "a \<in> set (children_at st3 c)"
      unfolding ch by (metis (no_types, lifting) image_eqI image_set)
  qed
  ultimately show thesis using that [OF f(1) r(1,2,4,5)] keep after by blast
qed

text \<open>A packet, the tasks of its frames, and a poll.\<close>

lemma packet_makes_set:
  assumes "frames_ok st (X + agg_held (aggregator_of p))" and "task_ready (sn_source sn) p st"
    and "source_within (sn_source sn) st"
    and "map_of (src_archives (sn_source sn)) EXT_VIDEO_FRAME = Some (Some kv)" and "kv \<notin> set comps"
    and "group_ok (active_infos sn) (usb_group sn)" and "list_all2 raw_ok (active_infos sn) raws"
    and "length head = pack_head_size" and "sn_buffer sn = head @ u64_bytes ts @ concat raws @ rest"
    and "\<forall>(i, fi)\<in>set (active_infos sn). map_of (id_profiles sn) (uint (fi_frame_id fi)) = Some (Some (prof fi))"
    and "room kv (length (active_infos sn)) st"
    and "agg_ok (aggregator_of p)" and "sorted (wanted (aggregator_of p))" and "wanted (aggregator_of p) \<noteq> []"
    and "last_set (aggregator_of p) = []" and "items (agg_queue (aggregator_of p)) = []"
    and "k < length st" and "k \<in> set comps" and "can_take k (length (active_infos sn)) (aggregator_of p) st"
    and "mset (map (\<lambda>e. sp_uid (prof (snd e))) (active_infos sn)) = mset (wanted (aggregator_of p))"
  obtains sn' st1 acts p1 st2 fs p' ag' st3 c where "handle_packet sn st = Inr (sn', st1, acts)"
    "feed (sensor_task comps k psrc (sn_source sn)) (dispatched acts) p st1 = Inr (p1, st2)"
    "Pipeline_pollForFrames (Some no_frame_set) p1 (st2, x) = (Inr (True, fs), p', (st3, x))"
    "frame_ref (set_handle fs) = Some c" "map (stream_of st3) (children_at st3 c) = map Some (wanted (aggregator_of p))"
    "\<forall>j<length (active_infos sn). \<exists>a f. a \<in> set (children_at st3 c) \<and> look st3 a = Some f
       \<and> video_of (sn_id sn) (prof (snd (active_infos sn ! j))) (sint ts) (snd (active_infos sn ! j)) (raws ! j) f"
    "pl_aggregator p' = Some ag'" "frames_ok st3 (add_mset c X + agg_held ag')"
    "\<exists>fg. sn' = sn\<lparr>usb_group := fg\<rparr> \<and> group_ok (active_infos sn) fg"
    "task_ready (sn_source sn) p' st3 \<and> agg_idle ag' \<and> wanted ag' = wanted (aggregator_of p) \<and> limits st3 = limits st"
proof -
  let ?ag = "aggregator_of p" and ?es = "active_infos sn"
  define us where "us = map (\<lambda>e. sp_uid (prof (snd e))) ?es"
  obtain sn' st1 as where pk: "handle_packet sn st = Inr (sn', st1, map Sensor_dispatch as)" "length as = length ?es"
    "frames_ok st1 (X + agg_held ?ag + mset as)" "settings st1 = settings st" "length st1 = length st"
    "\<forall>b. fst b \<noteq> kv \<longrightarrow> look st1 b = look st b" "\<forall>a\<in>set as. fst a = kv"
    "\<forall>j<length as. \<exists>f. look st1 (as ! j) = Some f
       \<and> video_of (sn_id sn) (prof (snd (?es ! j))) (sint ts) (snd (?es ! j)) (raws ! j) f"
    "\<exists>fg. sn' = sn\<lparr>usb_group := fg\<rparr> \<and> group_ok ?es fg"
    using packet_frames [OF assms(1,3,4,6-11)] .
  have str: "stream_of st1 (as ! j) = Some (us ! j)" if "j < length as" for j
    using pk(2,8) that by (force simp: stream_of_def video_of_def us_def)
  have streams: "map (stream_of st1) as = map Some us" "mset us = mset (wanted ?ag)"
    using str assms(20) by (auto simp: us_def pk(2) intro: nth_equalityI)
  have "k \<noteq> kv" using assms(5,18) by auto
  then have can: "can_take k (length as) ?ag st1"
    using assms(19) can_take_other [OF pk(4) assms(17) pk(6)] pk(2) by simp
  have ready: "task_ready (sn_source sn) p st1" using assms(2) task_ready_settings [OF pk(4)] by simp
  have ok1: "frames_ok st1 (X + mset as + agg_held ?ag)" using pk(3) by (simp add: ac_simps)
  have side: "k < length st1" "list_all (\<lambda>a. fst a \<notin> set comps) as"
    using assms(5,17) pk(5,7) by (simp_all add: list_all_iff)
  obtain p1 st2 fs p' ag' st3 c where r: "feed (sensor_task comps k psrc (sn_source sn)) as p st1 = Inr (p1, st2)"
    "Pipeline_pollForFrames (Some no_frame_set) p1 (st2, x) = (Inr (True, fs), p', (st3, x))"
    "frame_ref (set_handle fs) = Some c" "pl_aggregator p' = Some ag'" "frames_ok st3 (add_mset c X + agg_held ag')"
    "map (stream_of st3) (children_at st3 c) = map Some (wanted ?ag)"
    "set as \<subseteq> set (children_at st3 c)" "keeps (set as) st1 st3"
    "task_ready (sn_source sn) p' st3 \<and> agg_idle ag' \<and> wanted ag' = wanted ?ag \<and> limits st3 = limits st1"
    using tasks_make_set [OF ready ok1 assms(12-16) side(1) assms(18) side(2) can streams] .
  have "\<exists>a h. a \<in> set (children_at st3 c) \<and> look st3 a = Some h
      \<and> video_of (sn_id sn) (prof (snd (?es ! j))) (sint ts) (snd (?es ! j)) (raws ! j) h" if j: "j < length ?es" for j
  proof -
    obtain h where h: "look st1 (as ! j) = Some h"
      "video_of (sn_id sn) (prof (snd (?es ! j))) (sint ts) (snd (?es ! j)) (raws ! j) h" using pk(2,8) j by auto
    have a: "as ! j \<in> set as" using j pk(2) by simp
    with r(8) h(1) obtain n where "look st3 (as ! j) = Some (h\<lparr>ref_count := n\<rparr>)" unfolding keeps_def by blast
    with h(2) a r(7) show ?thesis by (intro exI [of _ "as ! j"]) auto
  qed
  then show thesis
    using that [of sn' st1 "map Sensor_dispatch as" p1 st2 fs p' st3 c ag'] pk(1,9) r(1-6,9) settings_limits [OF pk(4)] by simp
qed

text \<open>
  What the receive buffer is in memory: the bytes of the vector and, behind them, those of the block the
  allocator gave for it; \<open>slack\<close> is what that block has more than was asked for, possibly nothing.  A
  packet is written into it as far as it goes.
\<close>

definition memory_block :: "u8 list \<Rightarrow> gemini_sensor \<Rightarrow> gemini_sensor" where
  "memory_block slack sn = sn\<lparr>sn_buffer := sn_buffer sn @ slack\<rparr>"

definition filled :: "'a list \<Rightarrow> 'a list \<Rightarrow> 'a list" where
  "filled xs mem = take (length mem) (xs @ drop (length xs) mem)"

lemma filled_fits: "length xs \<le> length mem \<Longrightarrow> filled xs mem = xs @ drop (length xs) mem"
  by (simp add: filled_def)

lemma length_filled [simp]: "length (filled xs mem) = length mem"
  by (simp add: filled_def)

text \<open>The size \<open>startStream\<close> gives the buffer.\<close>

lemma started_buffer:
  assumes "startStream sn0 = (Inr (), sn1)" "group_ok (active_infos sn0) (usb_group sn0)" "infos_size (active_infos sn0) < 2 ^ 31"
  shows "sn1 = sn0\<lparr>is_streaming := True, missing_cnt := 0, sn_buffer := replicate (infos_size (active_infos sn0) + pack_head_size) 0\<rparr>"
proof -
  have "sint (fg_total (usb_group sn0)) = int (infos_size (active_infos sn0))"
    using assms(2,3) sint_small [of "of_nat (infos_size (active_infos sn0))"] by (simp add: group_ok_def unat_of_nat)
  with assms(1) show ?thesis by (auto simp: startStream_def Let_def nat_add_distrib split: if_splits)
qed

lemma raws_size: "list_all2 raw_ok es raws \<Longrightarrow> length (concat raws) = infos_size es"
  by (induction rule: list_all2_induct) (auto simp: raw_ok_def)

section \<open>Properties\<close>

text \<open>C11: A packet in the buffer of a stream that has been started, with room for its frames in the
  archive.  When the block of the buffer has eight bytes more than \<open>startStream\<close> asked for, the packet is
  cut exactly into the frames of the active streams: the dispatcher gets, in the order of the frame indexes,
  one video frame for each active info, holding the bytes of its own frame (without the embedded line, which
  becomes the metadata), its dimensions, the profile of its id and the packet's time stamp as a double; the
  reference counts stay exact and no earlier frame changes.  When it does not, cutting the packet fails,
  because the frames start eight bytes later than the size was computed for.\<close>

theorem sensor_splits_packet:
  assumes "startStream sn0 = (Inr (), sn1)" and "group_ok (active_infos sn0) (usb_group sn0)"
    and "infos_size (active_infos sn0) < 2 ^ 31" and "active_infos sn0 \<noteq> []"
    and "frames_ok st X" and "source_within (sn_source sn0) st"
    and "map_of (src_archives (sn_source sn0)) EXT_VIDEO_FRAME = Some (Some kv)"
    and "room kv (length (active_infos sn0)) st"
    and "\<forall>(i, fi)\<in>set (active_infos sn0). map_of (id_profiles sn0) (uint (fi_frame_id fi)) = Some (Some (prof fi))"
    and "list_all2 raw_ok (active_infos sn0) raws" and "length head = pack_head_size"
    and "sn = (memory_block slack sn1)\<lparr>sn_buffer := filled (head @ u64_bytes ts @ concat raws) (sn_buffer (memory_block slack sn1))\<rparr>"
  shows "if 8 \<le> length slack
    then \<exists>sn' st' as. handle_packet sn st = Inr (sn', st', map Sensor_dispatch as)
      \<and> length as = length (active_infos sn0) \<and> frames_ok st' (X + mset as)
      \<and> (\<forall>a f. look st a = Some f \<longrightarrow> look st' a = Some f)
      \<and> (\<forall>j<length as. \<exists>f. look st' (as ! j) = Some f
          \<and> video_of (sn_id sn0) (prof (snd (active_infos sn0 ! j))) (sint ts) (snd (active_infos sn0 ! j)) (raws ! j) f)
    else is_error (handle_packet sn st)"
proof -
  let ?es = "active_infos sn0" and ?pkt = "head @ u64_bytes ts @ concat raws"
  define mem where "mem = replicate (infos_size ?es + pack_head_size) 0 @ slack"
  note sn1 = started_buffer [OF assms(1-3)]
  have sn: "active_infos sn = ?es" "usb_group sn = usb_group sn0" "sn_source sn = sn_source sn0"
    "id_profiles sn = id_profiles sn0" "sn_id sn = sn_id sn0" "sn_buffer sn = filled ?pkt mem"
    by (simp_all add: assms(12) sn1 memory_block_def mem_def)
  have lm: "length mem = infos_size ?es + pack_head_size + length slack" by (simp add: mem_def)
  have lp: "length ?pkt = infos_size ?es + pack_head_size + 8" using raws_size [OF assms(10)] assms(11) by simp
  have raws: "list_all2 raw_ok (active_infos sn) raws"
    and prof: "\<forall>(i, fi)\<in>set (active_infos sn). map_of (id_profiles sn) (uint (fi_frame_id fi)) = Some (Some (prof fi))"
    and room: "room kv (length (active_infos sn)) st" and g: "group_ok (active_infos sn) (usb_group sn)"
    and src: "source_within (sn_source sn) st" "map_of (src_archives (sn_source sn)) EXT_VIDEO_FRAME = Some (Some kv)"
    using assms(2,6-10) by (simp_all add: sn)
  show ?thesis
  proof (cases "8 \<le> length slack")
    case True
    then have b: "sn_buffer sn = head @ u64_bytes ts @ concat raws @ drop (length ?pkt) mem"
      using lm lp by (simp add: sn(6) filled_fits)
    obtain sn' st' as where p: "handle_packet sn st = Inr (sn', st', map Sensor_dispatch as)" "length as = length (active_infos sn)"
      "frames_ok st' (X + mset as)"
      "\<forall>j<length as. \<exists>f. look st' (as ! j) = Some f
         \<and> video_of (sn_id sn) (prof (snd (active_infos sn ! j))) (sint ts) (snd (active_infos sn ! j)) (raws ! j) f"
      using packet_frames [OF assms(5) src g raws assms(11) b prof room] by metis
    moreover from packet_cut [OF assms(5) src g raws assms(11) b prof] p(1)
    have "\<forall>a f. look st a = Some f \<longrightarrow> look st' a = Some f" by auto
    ultimately show ?thesis using True unfolding sn
      by (simp only: if_True) (intro exI [of _ sn'] exI [of _ st'] exI [of _ as] conjI, simp_all)
  next
    case False
    have "\<not> (handle_packet sn st = Inr (sn', st', acts))" for sn' st' acts
    proof
      assume h: "handle_packet sn st = Inr (sn', st', acts)"
      obtain t where "handle_received ?es (sn\<lparr>usb_group := set_datas ?es (pack_head_size + 8)
          ((usb_group sn0)\<lparr>fg_timestamp := t\<rparr>)\<rparr>) st = Inr (sn', st', acts)"
        using h by (auto simp: handle_packet_def handle_received_frames_def bind_result_Inr sn)
      note r = this
      let ?sn = "sn\<lparr>usb_group := set_datas ?es (pack_head_size + 8) ((usb_group sn0)\<lparr>fg_timestamp := t\<rparr>)\<rparr>"
      have p: "ptrs_ok ?es (pack_head_size + 8) (usb_group ?sn)"
        using assms(2) by (simp, intro set_datas_ptrs) (auto simp: group_ok_def distinct_omap)
      have "ptrs_ok es q fg \<Longrightarrow> e \<in> set es \<Longrightarrow> \<exists>ptr. fg_infos fg ! unat (fst e) = Some (snd e) \<and> fg_datas fg ! unat (fst e) = Some ptr"
        for es q fg e by (induction es q fg rule: ptrs_ok.induct) auto
      then have "infos_ready ?sn ?es" using p assms(9) sn(4) unfolding infos_ready_def by fastforce
      from handle_received_all [OF assms(5) _ _ r this assms(8)] assms(6,7) have "length acts = length ?es"
        by (simp add: sn)
      with handle_received_fits [OF r p] assms(4) have "pack_head_size + 8 + infos_size ?es \<le> length mem"
        by (simp add: sn)
      with lm False show False by simp
    qed
    then have "is_error (handle_packet sn st)" by (cases "handle_packet sn st") (auto simp: is_error_def)
    with False show ?thesis by simp
  qed
qed

definition wired_sensor :: "u8 list \<Rightarrow> gemini_sensor" where
  "wired_sensor buf = (tiny_sensor buf)\<lparr>sn_source := (sn_source (tiny_sensor buf))\<lparr>src_callback := Some 1\<rparr>\<rparr>"

definition one_stream_pipeline :: pipeline where
  "one_stream_pipeline = (new_pipeline new_context)\<lparr>active_profile := Some still_profile,
     pl_aggregator := Some (agg_start (new_aggregator [5]))\<rparr>"

lemma one_stream_simps:
  "aggregator_of one_stream_pipeline = agg_start (new_aggregator [5])" "streams_to_aggregator one_stream_pipeline"
  "wanted (agg_start (new_aggregator [5])) = [5]" "last_set (agg_start (new_aggregator [5])) = []"
  "items (agg_queue (agg_start (new_aggregator [5]))) = []" "agg_ok (agg_start (new_aggregator [5]))"
  "agg_held (agg_start (new_aggregator [5])) = {#}"
  by (simp_all add: one_stream_pipeline_def aggregator_of_def streams_to_aggregator_def new_pipeline_def agg_start_def
      new_aggregator_def new_cq_def agg_ok_def agg_held_def)

lemma empty_store_room:
  "room 0 1 (map new_archive [0, 256])" "can_take 1 1 (agg_start (new_aggregator [5])) (map new_archive [0, 256])"
proof -
  have "taken j (map new_archive [0, 256]) = 0" for j unfolding taken_def look_new by simp
  then show "room 0 1 (map new_archive [0, 256])" "can_take 1 1 (agg_start (new_aggregator [5])) (map new_archive [0, 256])"
    by (simp_all add: room_def can_take_def agg_start_def new_aggregator_def new_cq_def cq_size_def kFrameNum2Aggregate_def
        new_archive_def)
qed

theorem sensor_splits_packet_witness:
  "\<exists>sn' st' a f. handle_packet ((tiny_sensor (replicate 12 0 @ u64_bytes 9 @ replicate 10 5))\<lparr>is_streaming := True\<rparr>)
      (map new_archive [0, 256]) = Inr (sn', st', [Sensor_dispatch a])
    \<and> look st' a = Some f \<and> fr_payload f = Bytes (replicate 10 5) \<and> fe_timestamp (fr_ext f) = 9"
proof -
  let ?sn0 = "tiny_sensor []" and ?st = "map new_archive [0, 256]" and ?prof = "\<lambda>_ :: frame_info. info_profile 5 tiny_info"
  let ?pkt = "replicate 12 0 @ u64_bytes 9 @ concat [replicate 10 5]"
  have one: "active_infos ?sn0 = [(3, tiny_info)]" "sn_id ?sn0 = 7" by (simp_all add: tiny_sensor_def new_sensor_def)
  obtain sn1 where sn1: "startStream ?sn0 = (Inr (), sn1)"
    by (simp add: startStream_def tiny_sensor_def pack_head_size_def)
  have size: "infos_size (active_infos ?sn0) < 2 ^ 31" "active_infos ?sn0 \<noteq> []" by (simp_all add: one tiny_info_def)
  have ok: "frames_ok ?st {#}" by (rule frame_reach_ok [OF frame_reach.init])
  have src: "source_within (sn_source ?sn0) ?st" "map_of (src_archives (sn_source ?sn0)) EXT_VIDEO_FRAME = Some (Some 0)"
    by (simp_all add: tiny_sensor_def source_within_def)
  have room: "room 0 (length (active_infos ?sn0)) ?st" using empty_store_room by (simp add: one)
  have prof: "\<forall>(i, fi)\<in>set (active_infos ?sn0). map_of (id_profiles ?sn0) (uint (fi_frame_id fi)) = Some (Some (?prof fi))"
    by (simp add: tiny_sensor_def tiny_info_def)
  have raws: "list_all2 raw_ok (active_infos ?sn0) [replicate 10 5]" "length (replicate 12 (0 :: u8)) = pack_head_size"
    by (simp_all add: one raw_ok_def tiny_info_def with_embeddedline_def fid_defs pack_head_size_def)
  let ?sn = "(memory_block (replicate 8 0) sn1)\<lparr>sn_buffer := filled ?pkt (sn_buffer (memory_block (replicate 8 0) sn1))\<rparr>"
  have b: "?sn = (tiny_sensor (replicate 12 0 @ u64_bytes 9 @ replicate 10 5))\<lparr>is_streaming := True\<rparr>"
    unfolding started_buffer [OF sn1 tiny_group size(1)] one
    by (simp add: memory_block_def filled_def tiny_info_def pack_head_size_def) (simp add: tiny_sensor_def new_sensor_def)
  from sensor_splits_packet [OF sn1 tiny_group size ok src room prof raws refl, of "replicate 8 0" 9] one
  obtain sn' st' as where r: "handle_packet ?sn ?st = Inr (sn', st', map Sensor_dispatch as)" "length as = 1"
    "\<exists>f. look st' (as ! 0) = Some f \<and> video_of 7 (info_profile 5 tiny_info) (sint (9 :: u64)) tiny_info (replicate 10 5) f"
    by auto
  from r(2) obtain a where "as = [a]" by (cases as) auto
  moreover from r(3) this obtain f where "look st' a = Some f"
    "video_of 7 (info_profile 5 tiny_info) (sint (9 :: u64)) tiny_info (replicate 10 5) f" by auto
  moreover from this(2) have "fr_payload f = Bytes (replicate 10 5)" "fe_timestamp (fr_ext f) = 9"
    by (simp_all add: video_of_def raw_image_def tiny_info_def with_embeddedline_def fid_defs double_of_small)
  ultimately show ?thesis using r(1) unfolding b by auto
qed

end
