(* ===== verification/User_Callback.thy ===== *)
theory User_Callback
  imports Packet_Delivery
begin

text \<open>
  A pipeline that was started with a callback: the task of the sensor's dispatcher gives each frame to the
  user's callback instead of the aggregator.  What the library asks of a callback is the locale \<open>frame_user\<close>; what it
  promises then, for any number of tasks, is proved there once.
\<close>

section \<open>Callbacks\<close>

text \<open>
  \<open>FrameSource::invoke_callback\<close> with a user's callback, which gets the reference; what it throws is
  caught, and then the output is what it was before.  Output is a list.
\<close>

definition call_user ::
    "(addr \<Rightarrow> store \<Rightarrow> (se_error + 'a list) \<times> store) \<Rightarrow> addr \<Rightarrow> store \<Rightarrow> se_error + 'a list \<times> store" where
  "call_user cb a st =
     with_callback (fst a) st (\<lambda>st1.
       case cb a st1 of
         (Inr out, st2) \<Rightarrow> Inr (out, st2)
       | (Inl e, st2) \<Rightarrow> if is_exception e then Inr ([], st2) else Inl e)"

text \<open>
  A task of the sensor's dispatcher with a pipeline that may have been started with a callback: then the
  frame goes to it instead of the aggregator.
\<close>

definition callback_task ::
    "nat list \<Rightarrow> nat \<Rightarrow> frame_source \<Rightarrow> frame_source \<Rightarrow> (addr \<Rightarrow> store \<Rightarrow> (se_error + 'a list) \<times> store)
      \<Rightarrow> addr \<Rightarrow> pipeline \<Rightarrow> store \<Rightarrow> se_error + ('a list \<times> pipeline) \<times> store" where
  "callback_task comps k psrc ssrc cb a p st =
     (case look st a of
        None \<Rightarrow> Inl (Undefined ''use of a freed frame'')
      | Some _ \<Rightarrow>
          with_callback (fst a) st (\<lambda>st1.
            if src_callback ssrc = None then bind_result (release a st1) (\<lambda>st2. Inr (([], p), st2))
            else if pl_aggregator p \<noteq> None \<and> pl_output p \<noteq> None
            then bind_result (call_user cb a st1) (\<lambda>(out, st2). Inr ((out, p), st2))
            else bind_result (pipeline_take comps k psrc a p st1) (\<lambda>(p', st2). Inr (([], p'), st2))))"

fun callback_tasks ::
    "nat list \<Rightarrow> nat \<Rightarrow> frame_source \<Rightarrow> frame_source \<Rightarrow> (addr \<Rightarrow> store \<Rightarrow> (se_error + 'a list) \<times> store)
      \<Rightarrow> addr list \<Rightarrow> pipeline \<Rightarrow> store \<Rightarrow> se_error + ('a list \<times> pipeline) \<times> store" where
  "callback_tasks comps k psrc ssrc cb [] p st = Inr (([], p), st)"
| "callback_tasks comps k psrc ssrc cb (a # as) p st =
     bind_result (callback_task comps k psrc ssrc cb a p st) (\<lambda>((out, p1), st1).
     bind_result (callback_tasks comps k psrc ssrc cb as p1 st1) (\<lambda>((outs, p2), st2). Inr ((out @ outs, p2), st2)))"

section \<open>What a callback must do\<close>

text \<open>The slots of the callback counters in use, and the limits: what a callback leaves alone.\<close>

definition calm :: "store \<Rightarrow> store \<Rightarrow> bool" where
  "calm st st' \<longleftrightarrow> limits st' = limits st \<and> map (\<lambda>A. heap_used (callbacks A)) st' = map (\<lambda>A. heap_used (callbacks A)) st
     \<and> list_all (\<lambda>A. heap_inv (callbacks A)) st'"

lemma calm_trans: "calm st st1 \<Longrightarrow> calm st1 st2 \<Longrightarrow> calm st st2"
  by (simp add: calm_def)

lemma calm_length: "calm st st' \<Longrightarrow> length st' = length st"
  unfolding calm_def by (metis length_map)

lemma calm_settings:
  "settings st' = settings st \<Longrightarrow> list_all (\<lambda>A. heap_inv (callbacks A)) st \<Longrightarrow> calm st st'"
proof -
  assume s: "settings st' = settings st" and i: "list_all (\<lambda>A. heap_inv (callbacks A)) st"
  have "map callbacks st' = map callbacks st" using arg_cong [OF s, of "map snd"] by (simp add: settings_def comp_def)
  then have "map (f \<circ> callbacks) st' = map (f \<circ> callbacks) st" for f :: "callbacks_heap \<Rightarrow> nat set"
    by (metis map_map)
  moreover have "list_all heap_inv (map callbacks st')" using i \<open>map callbacks st' = _\<close> by (simp add: list_all_iff)
  ultimately show "calm st st'" using settings_limits [OF s] by (simp add: calm_def comp_def list_all_iff)
qed

text \<open>A callback counter is taken and returned around any calm body.\<close>

lemma with_callback_calm:
  assumes inv: "list_all (\<lambda>A. heap_inv (callbacks A)) st" and j: "j < length st"
    and body: "\<And>h. heap_inv h \<Longrightarrow> \<exists>r st2. f (set_callbacks j h st) = Inr (r, st2) \<and> calm (set_callbacks j h st) st2 \<and> Q r st2"
    and Q: "\<And>r st2 h. Q r st2 \<Longrightarrow> Q r (set_callbacks j h st2)"
  shows "\<exists>r st'. with_callback j st f = Inr (r, st') \<and> calm st st' \<and> Q r st'"
proof -
  have hj: "heap_inv (callbacks (st ! j))" by (rule callbacks_inv_nth [OF inv j])
  obtain c h where b: "begin_callback (callbacks (st ! j)) = (c, h)" by fastforce
  have h: "heap_inv h" "case c of None \<Rightarrow> heap_used h = heap_used (callbacks (st ! j))
      | Some i \<Rightarrow> i \<in> heap_used h \<and> heap_used h - {i} = heap_used (callbacks (st ! j))"
    using b hj heap.alloc_Some [of "callbacks (st ! j)" _ h] heap.alloc_None [of "callbacks (st ! j)" h]
    by (auto simp: begin_callback_def split: option.split)
  obtain r st2 where r: "f (set_callbacks j h st) = Inr (r, st2)" "calm (set_callbacks j h st) st2" "Q r st2"
    using body [OF h(1)] by blast
  have len: "length st2 = length st" using calm_length [OF r(2)] by (simp add: set_callbacks_nth)
  have used: "heap_used (callbacks (st2 ! i)) = heap_used (callbacks (set_callbacks j h st ! i))" if "i < length st" for i
    using r(2) that len unfolding calm_def by (metis (no_types, lifting) nth_map set_callbacks_nth(1))
  have inv2: "list_all (\<lambda>A. heap_inv (callbacks A)) st2" using r(2) by (simp add: calm_def)
  have "heap_used (callbacks (st2 ! j)) = heap_used h" using used [OF j] j by (simp add: set_callbacks_nth)
  note u = this
  have i2: "heap_inv (callbacks (st2 ! j))" using callbacks_inv_nth [OF inv2, of j] j len by simp
  have "\<exists>h'. end_callback c (callbacks (st2 ! j)) = Inr h' \<and> heap_inv h' \<and> heap_used h' = heap_used (callbacks (st ! j))"
  proof (cases c)
    case None
    then show ?thesis using h(2) u i2 by (simp add: end_callback_def)
  next
    case (Some i)
    then have i: "i \<in> heap_used (callbacks (st2 ! j))" using h(2) u by simp
    show ?thesis using heap.free_used [OF i2 i, of id] h(2) u Some by (auto simp: end_callback_def)
  qed
  then obtain h' where e: "end_callback c (callbacks (st2 ! j)) = Inr h'" "heap_inv h'"
    "heap_used h' = heap_used (callbacks (st ! j))" by blast
  have run: "with_callback j st f = Inr (r, set_callbacks j h' st2)"
    using r(1) e(1) b by (simp add: with_callback_def flip: set_callbacks_def)
  have "map (\<lambda>A. heap_used (callbacks A)) (set_callbacks j h' st2) = map (\<lambda>A. heap_used (callbacks A)) st"
    using used e(3) len by (intro nth_equalityI) (auto simp: set_callbacks_nth)
  moreover have "list_all (\<lambda>A. heap_inv (callbacks A)) (set_callbacks j h' st2)"
    using inv2 e(2) by (auto simp: list_all_length set_callbacks_nth)
  moreover have "limits (set_callbacks j h' st2) = limits st" using r(2) by (simp add: calm_def)
  ultimately show ?thesis using run Q [OF r(3)] by (auto simp: calm_def)
qed

lemma callbacks_inv_set:
  "list_all (\<lambda>A. heap_inv (callbacks A)) st \<Longrightarrow> heap_inv h \<Longrightarrow> list_all (\<lambda>A. heap_inv (callbacks A)) (set_callbacks j h st)"
  by (auto simp: list_all_length set_callbacks_nth)

lemma keeps_callbacks [simp]:
  "keeps B (set_callbacks j h st) st' = keeps B st st'" "keeps B st (set_callbacks j h st') = keeps B st st'"
  by (simp_all add: keeps_def)

text \<open>
  The contract: a callback that is given a reference to a frame it accepts drops that reference, on every
  path, touches no other frame, and gives the output for the frame, or none when it throws.
\<close>

locale frame_user =
  fixes cb :: "addr \<Rightarrow> store \<Rightarrow> (se_error + 'a list) \<times> store" and accepts :: "addr \<Rightarrow> frame \<Rightarrow> bool"
    and shown :: "frame \<Rightarrow> 'a list"
  assumes user: "frames_ok st (add_mset a X) \<Longrightarrow> look st a = Some f \<Longrightarrow> accepts a f \<Longrightarrow>
      \<exists>r st'. cb a st = (r, st') \<and> (r = Inr (shown f) \<or> (\<exists>e. r = Inl e \<and> is_exception e \<and> shown f = []))
        \<and> frames_ok st' X \<and> settings st' = settings st \<and> keeps (set_mset X) st st'"
    and counts: "accepts a (f\<lparr>ref_count := n\<rparr>) = accepts a f" "shown (f\<lparr>ref_count := n\<rparr>) = shown f"
begin

lemma call_user_ok:
  assumes ok: "frames_ok st (add_mset a X)" and f: "look st a = Some f" "accepts a f"
    and inv: "list_all (\<lambda>A. heap_inv (callbacks A)) st"
  shows "\<exists>st'. call_user cb a st = Inr (shown f, st') \<and> calm st st' \<and> frames_ok st' X \<and> keeps (set_mset X) st st'"
proof -
  let ?Q = "\<lambda>r st'. r = shown f \<and> frames_ok st' X \<and> keeps (set_mset X) st st'"
  let ?body = "\<lambda>st1. case cb a st1 of (Inr out, st2) \<Rightarrow> Inr (out, st2)
       | (Inl e, st2) \<Rightarrow> if is_exception e then Inr ([], st2) else Inl e"
  have j: "fst a < length st" using f(1) by (auto simp: look_def split: if_splits)
  have body: "\<exists>r st2. ?body (set_callbacks (fst a) h st) = Inr (r, st2) \<and> calm (set_callbacks (fst a) h st) st2 \<and> ?Q r st2"
    if h: "heap_inv h" for h
  proof -
    let ?st1 = "set_callbacks (fst a) h st"
    obtain r st2 where r: "cb a ?st1 = (r, st2)" "r = Inr (shown f) \<or> (\<exists>e. r = Inl e \<and> is_exception e \<and> shown f = [])"
      "frames_ok st2 X" "settings st2 = settings ?st1" "keeps (set_mset X) ?st1 st2"
      using user [of ?st1 a X f] ok f by auto
    have "calm ?st1 st2" by (rule calm_settings [OF r(4) callbacks_inv_set [OF inv h]])
    then show ?thesis using r by auto
  qed
  have "\<exists>r st'. with_callback (fst a) st ?body = Inr (r, st') \<and> calm st st' \<and> ?Q r st'"
    by (rule with_callback_calm [OF inv j body]) auto
  then show ?thesis by (auto simp: call_user_def)
qed

lemma task_ok:
  assumes ok: "frames_ok st (add_mset a X)" and f: "look st a = Some f" "accepts a f"
    and inv: "list_all (\<lambda>A. heap_inv (callbacks A)) st"
    and p: "src_callback ssrc \<noteq> None" "pl_aggregator p \<noteq> None" "pl_output p \<noteq> None"
  shows "\<exists>st'. callback_task comps k psrc ssrc cb a p st = Inr ((shown f, p), st') \<and> calm st st' \<and> frames_ok st' X
    \<and> keeps (set_mset X) st st'"
proof -
  let ?Q = "\<lambda>r st'. r = (shown f, p) \<and> frames_ok st' X \<and> keeps (set_mset X) st st'"
  let ?body = "\<lambda>st1. if src_callback ssrc = None then bind_result (release a st1) (\<lambda>st2. Inr (([], p), st2))
            else if pl_aggregator p \<noteq> None \<and> pl_output p \<noteq> None
            then bind_result (call_user cb a st1) (\<lambda>(out, st2). Inr ((out, p), st2))
            else bind_result (pipeline_take comps k psrc a p st1) (\<lambda>(p', st2). Inr (([], p'), st2))"
  have j: "fst a < length st" using f(1) by (auto simp: look_def split: if_splits)
  have body: "\<exists>r st2. ?body (set_callbacks (fst a) h st) = Inr (r, st2) \<and> calm (set_callbacks (fst a) h st) st2 \<and> ?Q r st2"
    if h: "heap_inv h" for h
    using call_user_ok [OF _ _ f(2) callbacks_inv_set [OF inv h], of "fst a" X] ok f(1) p by fastforce
  have "\<exists>r st'. with_callback (fst a) st ?body = Inr (r, st') \<and> calm st st' \<and> ?Q r st'"
    by (rule with_callback_calm [OF inv j body]) auto
  then show ?thesis using f(1) by (auto simp: callback_task_def)
qed

lemma tasks_ok:
  assumes "frames_ok st (mset as + X)" "\<forall>a\<in>set as. \<exists>f. look st a = Some f \<and> accepts a f"
    and "list_all (\<lambda>A. heap_inv (callbacks A)) st"
    and p: "src_callback ssrc \<noteq> None" "pl_aggregator p \<noteq> None" "pl_output p \<noteq> None"
  shows "\<exists>st'. callback_tasks comps k psrc ssrc cb as p st
      = Inr ((concat (map (\<lambda>a. shown (the (look st a))) as), p), st') \<and> calm st st' \<and> frames_ok st' X"
  using assms(1-3)
proof (induction as arbitrary: st)
  case Nil
  then show ?case by (simp add: calm_def)
next
  case (Cons a as)
  obtain f where f: "look st a = Some f" "accepts a f" using Cons.prems(2) by auto
  have ok: "frames_ok st (add_mset a (mset as + X))" using Cons.prems(1) by simp
  from task_ok [OF ok f Cons.prems(3) p, of comps k psrc] obtain st1 where
    1: "callback_task comps k psrc ssrc cb a p st = Inr ((shown f, p), st1)" "calm st st1" "frames_ok st1 (mset as + X)"
      "keeps (set_mset (mset as + X)) st st1" by blast
  have look: "\<exists>g n. look st b = Some g \<and> accepts b g \<and> look st1 b = Some (g\<lparr>ref_count := n\<rparr>)" if b: "b \<in> set as" for b
  proof -
    obtain g where "look st b = Some g" "accepts b g" using Cons.prems(2) b by auto
    then show ?thesis using 1(4) b by (auto simp: keeps_def)
  qed
  have shown: "shown (the (look st1 b)) = shown (the (look st b))" if "b \<in> set as" for b
    using look [OF that] counts(2) by auto
  have acc: "\<forall>b\<in>set as. \<exists>g. look st1 b = Some g \<and> accepts b g" using look counts(1) by fastforce
  have inv: "list_all (\<lambda>A. heap_inv (callbacks A)) st1" using 1(2) by (simp add: calm_def)
  from Cons.IH [OF 1(3) acc inv] obtain st2 where
    2: "callback_tasks comps k psrc ssrc cb as p st1 = Inr ((concat (map (\<lambda>a. shown (the (look st1 a))) as), p), st2)"
      "calm st1 st2" "frames_ok st2 X" by auto
  have "concat (map (\<lambda>a. shown (the (look st1 a))) as) = concat (map (\<lambda>a. shown (the (look st a))) as)"
    using shown by (metis (no_types, lifting) map_eq_conv)
  with 1(1) 2 f(1) calm_trans [OF 1(2) 2(2)] show ?case by auto
qed

end

section \<open>Callbacks that use the frame\<close>

text \<open>A local \<open>Frame\<close>: made by \<open>mk\<close>, destroyed when its block is left, by an exception too.\<close>

definition scoped ::
    "(store \<Rightarrow> (se_error + frame_handle) \<times> store) \<Rightarrow> (frame_handle \<Rightarrow> store \<Rightarrow> (se_error + 'a) \<times> store)
      \<Rightarrow> store \<Rightarrow> (se_error + 'a) \<times> store" where
  "scoped mk body st =
     bind_st (mk st) (\<lambda>v st1.
       case body v st1 of (r, st2) \<Rightarrow> bind_st (handle_destroy v st2) (\<lambda>_ st3. (r, st3)))"

lemma keeps_held:
  assumes "shrinks (look st) (look st')" "frames_ok st' X"
  shows "keeps (set_mset X) st st'"
  unfolding keeps_def
proof (intro ballI allI impI)
  fix b f
  assume b: "b \<in># X" "look st b = Some f"
  obtain g where g: "look st' b = Some g" by (rule held_frame [OF assms(2) b(1)])
  with assms(1) b(2) have "g = f\<lparr>ref_count := ref_count g\<rparr>" unfolding shrinks_def by fastforce
  then show "\<exists>n. look st' b = Some (f\<lparr>ref_count := n\<rparr>)" using g by metis
qed

text \<open>A local copy that only reads leaves no trace.\<close>

lemma scoped_copy:
  assumes ok: "frames_ok st X" and f: "look st a = Some f" and h: "frame_ref h = Some a"
    and mk: "mk = handle_copy h \<or> mk = video_frame_of h"
    and body: "\<And>st1. look st1 = (look st)(a \<mapsto> f\<lparr>ref_count := ref_count f + 1\<rparr>) \<Longrightarrow> body h st1 = (r, st1)"
  obtains st' where "scoped mk body st = (r, st')" "frames_ok st' X" "look st' = look st" "settings st' = settings st"
proof -
  obtain st1 where st1: "acquire a st = Inr st1" "look st1 = (look st)(a \<mapsto> f\<lparr>ref_count := ref_count f + 1\<rparr>)"
    using acquire_live [OF ok f] by blast
  obtain st2 where st2: "release a st1 = Inr st2" "frames_ok st2 X" "look st2 = look st"
    using release_after_acquire [OF ok f st1(1)] .
  have "mk st = (Inr h, st1)" using mk st1(1) h by (auto simp: handle_copy_def video_frame_of_def)
  then have "scoped mk body st = (r, st2)"
    using body [OF st1(2)] st2(1) h by (simp add: scoped_def handle_destroy_def holder_destroy_def)
  moreover have "settings st2 = settings st"
    using settings_release [OF st2(1)] settings_acquire [OF st1(1)] by simp
  ultimately show thesis using that st2(2,3) by blast
qed

end
