(* ===== verification/Packed_Types.thy ===== *)
theory Packed_Types
  imports Serial_Port
begin

text \<open>
  The structs of \<open>include/smartereye2/alg/packed_types.h\<close>, which the perception messages are
  made of.  They are packed (\<open>#pragma pack(1)\<close>), so a struct is its fields one after the other.
  A scalar is its bytes: integers and floats are copied, never computed with.  The members
  declared last with no extent have size zero.
\<close>

section \<open>Layouts\<close>

datatype ctype = Scalar nat | Arr nat ctype | Struct "string list" "ctype list"

definition struct :: "(string \<times> ctype) list \<Rightarrow> ctype" where
  "struct fs = Struct (map fst fs) (map snd fs)"

fun sizeof :: "ctype \<Rightarrow> nat" where
  "sizeof (Scalar n) = n"
| "sizeof (Arr n t) = n * sizeof t"
| "sizeof (Struct ns ts) = sum_list (map sizeof ts)"

fun offset_in :: "string list \<Rightarrow> ctype list \<Rightarrow> string \<Rightarrow> nat option" where
  "offset_in (n # ns) (t # ts) x =
     (if n = x then Some 0 else map_option (\<lambda>k. sizeof t + k) (offset_in ns ts x))"
| "offset_in _ _ x = None"

fun offset_of :: "ctype \<Rightarrow> string \<Rightarrow> nat option" where
  "offset_of (Struct ns ts) x = offset_in ns ts x"
| "offset_of _ x = None"

definition u8_t :: ctype where "u8_t = Scalar 1"
definition u16_t :: ctype where "u16_t = Scalar 2"
definition u32_t :: ctype where "u32_t = Scalar 4"
definition i32_t :: ctype where "i32_t = Scalar 4"
definition u64_t :: ctype where "u64_t = Scalar 8"
definition float_t :: ctype where "float_t = Scalar 4"

definition SEPoint2f :: ctype where
  "SEPoint2f = struct [(''x'', float_t), (''y'', float_t)]"

definition SEPoint3f :: ctype where
  "SEPoint3f = struct [(''x'', float_t), (''y'', float_t), (''z'', float_t)]"

definition SEKeyPoint2f :: ctype where
  "SEKeyPoint2f = struct [(''type'', float_t), (''conf'', float_t), (''pt'', SEPoint2f)]"

definition SERect :: ctype where
  "SERect = struct [(''x'', float_t), (''y'', float_t), (''width'', float_t), (''height'', float_t)]"

definition box_fields :: "ctype \<Rightarrow> (string \<times> ctype) list" where
  "box_fields pt = [(''lower_lt'', pt), (''lower_lb'', pt), (''lower_rb'', pt), (''lower_rt'', pt),
     (''upper_lt'', pt), (''upper_lb'', pt), (''upper_rb'', pt), (''upper_rt'', pt)]"

definition SEBox3D2f :: ctype where
  "SEBox3D2f = struct (box_fields SEPoint2f)"

definition SEBox3D3f :: ctype where
  "SEBox3D3f = struct (box_fields SEPoint3f)"

definition SEObstacle :: ctype where
  "SEObstacle = struct
     [(''valid'', u8_t), (''source'', u8_t), (''b_cipv_mcp'', u8_t), (''replaced'', u8_t),
      (''id'', u32_t), (''age'', i32_t), (''life_time'', i32_t), (''type'', u32_t),
      (''type_confidence'', float_t), (''obs_confidence'', float_t),
      (''img_width_var'', float_t), (''img_height_var'', float_t), (''img_position_var'', Arr 4 float_t),
      (''img_rect'', SERect), (''img_bbox'', SEBox3D3f),
      (''curr_lane'', i32_t), (''traversable'', i32_t),
      (''ttc'', float_t), (''hmw'', float_t), (''yaw'', float_t), (''width'', float_t),
      (''height'', float_t), (''length'', float_t), (''conf_yaw'', float_t), (''sigma_yaw'', float_t),
      (''sigma_width'', float_t), (''sigma_height'', float_t), (''sigma_length'', float_t),
      (''sigma_acc'', Arr 4 float_t), (''sigma_vel'', Arr 4 float_t), (''sigma_position'', Arr 4 float_t),
      (''vel'', Arr 3 float_t), (''acc'', Arr 3 float_t), (''position'', SEPoint3f),
      (''veh_type'', u32_t), (''veh_classification'', u32_t), (''veh_light'', u32_t),
      (''key_point'', SEKeyPoint2f),
      (''ped_pose'', u32_t), (''ped_age'', u32_t), (''ped_pos_neg'', u32_t), (''ped_occlusion'', u32_t),
      (''ped_orientation'', u32_t),
      (''cyc_orientation'', u32_t), (''cyc_occlusion'', u32_t), (''cyc_pos_neg'', u32_t)]"

definition SEObstacles :: ctype where
  "SEObstacles = struct [(''timestamp'', u64_t), (''obs_num'', i32_t), (''obstacles'', Arr 0 SEObstacle)]"

definition SELaneLine :: ctype where
  "SELaneLine = struct
     [(''id'', i32_t), (''life_time'', i32_t), (''coeffs'', Arr 4 float_t),
      (''start_point'', SEPoint3f), (''end_point'', SEPoint3f),
      (''type'', i32_t), (''color'', i32_t), (''source'', i32_t),
      (''dist_to_front_wheel'', float_t), (''width'', float_t), (''confidence'', float_t),
      (''sigma_coeffs'', Arr 16 float_t), (''side_position'', i32_t)]"

definition SELane :: ctype where
  "SELane = struct [(''timestamp'', u64_t), (''line_num'', u32_t), (''lines'', Arr 0 SELaneLine)]"

definition SEFreeSpacePoint :: ctype where
  "SEFreeSpacePoint = struct [(''pointType'', u32_t), (''lateral'', float_t), (''longitudinal'', float_t),
     (''u'', float_t), (''v'', float_t)]"

definition SEFreeSpace :: ctype where
  "SEFreeSpace = struct [(''timestamp'', u64_t), (''point_num'', u32_t), (''points'', Arr 0 SEFreeSpacePoint)]"

definition SEFlatnessPoint :: ctype where
  "SEFlatnessPoint = struct [(''leftWheelHightPoint'', SEPoint2f), (''rightWheelHightPoint'', SEPoint2f)]"

definition SEFlatness :: ctype where
  "SEFlatness = struct [(''timestamp'', u64_t), (''samplingInterval'', float_t), (''point_num'', u32_t),
     (''points'', Arr 0 SEFlatnessPoint)]"

definition SETSRData :: ctype where
  "SETSRData = struct [(''id'', i32_t), (''age'', i32_t), (''life_time'', i32_t), (''confidence'', float_t),
     (''sign_type'', u32_t), (''img_rect'', SERect), (''width'', float_t), (''height'', float_t),
     (''position'', SEPoint3f)]"

definition SETSR :: ctype where
  "SETSR = struct [(''timestamp'', u64_t), (''sign_num'', i32_t), (''signs'', Arr 0 SETSRData)]"

definition SETFLData :: ctype where
  "SETFLData = struct [(''id'', i32_t), (''age'', i32_t), (''life_time'', i32_t), (''confidence'', float_t),
     (''color'', u32_t), (''shapeType'', u32_t), (''img_rect'', SERect), (''width'', float_t), (''height'', float_t),
     (''position'', SEPoint3f)]"

definition SETFL :: ctype where
  "SETFL = struct [(''timestamp'', u64_t), (''light_num'', i32_t), (''lights'', Arr 0 SETFLData)]"

definition SEMeta :: ctype where
  "SEMeta = struct [(''timestamp'', u64_t), (''data_size'', u32_t), (''data'', Arr 0 u8_t)]"

definition SEMatrixData :: ctype where
  "SEMatrixData = struct [(''type'', u32_t), (''matrixData'', Arr 9 float_t)]"

definition SEMatrix :: ctype where
  "SEMatrix = struct [(''timestamp'', u64_t), (''type'', u32_t), (''mat_num'', u32_t), (''data'', Arr 0 SEMatrixData)]"

definition ImageFreg :: ctype where
  "ImageFreg = struct [(''imageSeq'', u16_t), (''total'', u16_t), (''offset'', u32_t)]"

definition ImageFrame :: ctype where
  "ImageFrame = struct [(''dataSize'', u32_t), (''timestamp'', u64_t), (''frameId'', u16_t), (''format'', u16_t),
     (''width'', u16_t), (''height'', u16_t), (''image'', Arr 0 u8_t)]"

section \<open>Values and their bytes\<close>

datatype cval = Raw "u8 list" | Vals "cval list"

fun encode :: "cval \<Rightarrow> u8 list" where
  "encode (Raw bs) = bs"
| "encode (Vals vs) = concat (map encode vs)"

text \<open>A decreasing measure for the walks along a list of types.\<close>

fun nodes :: "ctype \<Rightarrow> nat" where
  "nodes (Scalar n) = 1"
| "nodes (Arr n t) = 1 + n * nodes t"
| "nodes (Struct ns ts) = 1 + sum_list (map nodes ts)"

lemma sum_list_replicate_nat: "sum_list (replicate n (k :: nat)) = n * k"
  by (induction n) auto

text \<open>The values of the types \<open>ts\<close>, one after the other.\<close>

function fits :: "ctype list \<Rightarrow> cval list \<Rightarrow> bool" where
  "fits [] vs = (vs = [])"
| "fits (t # ts) [] = False"
| "fits (Scalar n # ts) (Raw bs # vs) = (length bs = n \<and> fits ts vs)"
| "fits (Scalar n # ts) (Vals us # vs) = False"
| "fits (Arr n t # ts) (Raw bs # vs) = False"
| "fits (Arr n t # ts) (Vals us # vs) = (fits (replicate n t) us \<and> fits ts vs)"
| "fits (Struct ns us # ts) (Raw bs # vs) = False"
| "fits (Struct ns us # ts) (Vals ws # vs) = (fits us ws \<and> fits ts vs)"
  by pat_completeness auto
termination
  by (relation "measure (\<lambda>(ts, _). sum_list (map nodes ts))") (auto simp: sum_list_replicate_nat)

function read_types :: "ctype list \<Rightarrow> u8 list \<Rightarrow> cval list" where
  "read_types [] bs = []"
| "read_types (Scalar n # ts) bs = Raw (take n bs) # read_types ts (drop n bs)"
| "read_types (Arr n t # ts) bs =
     Vals (read_types (replicate n t) bs) # read_types ts (drop (n * sizeof t) bs)"
| "read_types (Struct ns us # ts) bs =
     Vals (read_types us bs) # read_types ts (drop (sum_list (map sizeof us)) bs)"
  by pat_completeness auto
termination
  by (relation "measure (\<lambda>(ts, _). sum_list (map nodes ts))") (auto simp: sum_list_replicate_nat)

definition value_of :: "ctype \<Rightarrow> cval \<Rightarrow> bool" where
  "value_of t v = fits [t] [v]"

text \<open>A cast of the bytes to a pointer to the struct, and the selection of a member.\<close>

definition read_as :: "ctype \<Rightarrow> u8 list \<Rightarrow> cval" where
  "read_as t bs = hd (read_types [t] bs)"

fun select_member :: "ctype \<Rightarrow> string \<Rightarrow> cval \<Rightarrow> cval option" where
  "select_member (Struct ns ts) x (Vals vs) = map_of (zip ns vs) x"
| "select_member _ x _ = None"

lemma fits_length: "fits ts vs \<Longrightarrow> length (concat (map encode vs)) = sum_list (map sizeof ts)"
  by (induction ts vs rule: fits.induct) (auto simp: sum_list_replicate_nat)

lemma read_types_encode: "fits ts vs \<Longrightarrow> read_types ts (concat (map encode vs) @ rest) = vs"
proof (induction ts vs arbitrary: rest rule: fits.induct)
  case (6 n t ts us vs)
  from 6(3) have "length (concat (map encode us)) = n * sizeof t"
    using fits_length [of "replicate n t" us] by (simp add: sum_list_replicate_nat)
  with 6 show ?case by simp
next
  case (8 ns us ts ws vs)
  from 8(3) have "length (concat (map encode ws)) = sum_list (map sizeof us)"
    using fits_length [of us ws] by simp
  with 8 show ?case by simp
qed auto

lemma read_as_encode: "value_of t v \<Longrightarrow> read_as t (encode v @ rest) = v"
  using read_types_encode [of "[t]" "[v]" rest] by (simp add: value_of_def read_as_def)

lemma value_of_length: "value_of t v \<Longrightarrow> length (encode v) = sizeof t"
  using fits_length [of "[t]" "[v]"] by (simp add: value_of_def)

section \<open>The perception messages\<close>

text \<open>The struct a frame class casts its data to, its count, and the type of its elements.\<close>

fun perception_struct :: "se_extension \<Rightarrow> (ctype \<times> string \<times> ctype) option" where
  "perception_struct EXT_OBSTACLE_FRAME = Some (SEObstacles, ''obs_num'', SEObstacle)"
| "perception_struct EXT_LANE_FRAME = Some (SELane, ''line_num'', SELaneLine)"
| "perception_struct EXT_FREESPACE_FRAME = Some (SEFreeSpace, ''point_num'', SEFreeSpacePoint)"
| "perception_struct EXT_TRAFFIC_SIGN_FRAME = Some (SETSR, ''sign_num'', SETSRData)"
| "perception_struct EXT_TRAFFIC_LIGHT_FRAME = Some (SETFL, ''light_num'', SETFLData)"
| "perception_struct EXT_Matrix = Some (SEMatrix, ''mat_num'', SEMatrixData)"
| "perception_struct _ = None"

lemmas packed_defs = SEObstacles_def SEObstacle_def SELane_def SELaneLine_def SEFreeSpace_def
  SEFreeSpacePoint_def SETSR_def SETSRData_def SETFL_def SETFLData_def SEMatrix_def SEMatrixData_def
  SEMeta_def SEFlatness_def SEFlatnessPoint_def SERect_def SEPoint2f_def SEPoint3f_def SEKeyPoint2f_def
  SEBox3D3f_def SEBox3D2f_def box_fields_def struct_def u8_t_def u16_t_def u32_t_def i32_t_def u64_t_def float_t_def

text \<open>The offsets and sizes the parser uses are those of the structs.\<close>

lemma items_layout_packed:
  "items_layout ty
   = map_option (\<lambda>(h, cnt, e). (the (offset_of h cnt), sizeof h, sizeof e)) (perception_struct ty)"
  by (cases ty) (simp_all add: packed_defs)

lemma header_sizes:
  "sizeof SEMeta = 12" "sizeof SEFlatness = 16" "sizeof SEFlatnessPoint = 16"
  "offset_of SEMeta ''data_size'' = Some 8"
  by (simp_all add: packed_defs)

text \<open>A message of structs is laid out as the parser expects it, and its elements read back.\<close>

lemma structs_laid_out:
  assumes "perception_struct ty = Some (h, cnt, e)" "list_all (value_of e) vs"
  shows "items_layout ty = Some (the (offset_of h cnt), sizeof h, sizeof e)"
    "\<forall>x\<in>set (map encode vs). length x = sizeof e" "map (read_as e) (map encode vs) = vs"
proof -
  show "items_layout ty = Some (the (offset_of h cnt), sizeof h, sizeof e)"
    using assms(1) by (simp add: items_layout_packed)
  show "\<forall>x\<in>set (map encode vs). length x = sizeof e"
    using assms(2) value_of_length by (auto simp: list_all_iff)
  show "map (read_as e) (map encode vs) = vs"
    using assms(2) read_as_encode [of e _ "[]"] by (intro map_idI [THEN trans [OF map_map]]) (auto simp: list_all_iff)
qed

section \<open>Properties\<close>

text \<open>C28: What a camera encodes as structs, the application reads back field by field: a
  perception message of obstacles, lane lines, free space points, signs, lights or matrices is parsed
  to elements that, read as the packed struct of their kind, are exactly the values encoded, in
  order; the data is the message, and the time stamp the message's as a double.\<close>

theorem perception_structs_roundtrip:
  assumes "perception_struct ty = Some (h, cnt, e)" and "list_all (value_of e) vs" and "length vs < 2 ^ 31"
    and "length pre = the (offset_of h cnt) - 8"
    and "msg = u64_bytes ts @ pre @ u32_bytes (of_nat (length vs)) @ concat (map encode vs)"
  shows "\<exists>f'. load_perception ty (msg @ stale) (length msg) f = Inr f'
    \<and> map (read_as e) (drop (length (fr_items f)) (fr_items f')) = vs
    \<and> fr_payload f' = Bytes msg \<and> fe_timestamp (fr_ext f') = double_of (uint ts)"
proof -
  note l = structs_laid_out [OF assms(1,2)]
  show ?thesis
    using perception_roundtrip [OF l(1) assms(4) l(2), of msg ts stale f] l(3) assms(3,5)
    by (simp add: frame_set_timestamp_def frame_load_data_def)
qed

definition one_light :: cval where
  "one_light = Vals [Raw [1, 0, 0, 0], Raw [2, 0, 0, 0], Raw [3, 0, 0, 0], Raw [0, 0, 128, 63], Raw [1, 0, 0, 0], Raw [2, 0, 0, 0],
     Vals [Raw [0, 0, 0, 0], Raw [0, 0, 0, 0], Raw [0, 0, 0, 0], Raw [0, 0, 0, 0]],
     Raw [0, 0, 0, 0], Raw [0, 0, 0, 0], Vals [Raw [0, 0, 0, 0], Raw [0, 0, 0, 0], Raw [0, 0, 128, 63]]]"

theorem perception_structs_roundtrip_witness:
  "\<exists>f'. load_perception EXT_TRAFFIC_LIGHT_FRAME ((u64_bytes 7 @ [] @ u32_bytes 1 @ encode one_light) @ [9])
        (length (u64_bytes 7 @ [] @ u32_bytes 1 @ encode one_light)) new_frame = Inr f'
    \<and> map (read_as SETFLData) (fr_items f') = [one_light]
    \<and> fe_timestamp (fr_ext f') = 7 \<and> select_member SETFLData ''color'' one_light = Some (Raw [1, 0, 0, 0])"
proof -
  have v: "list_all (value_of SETFLData) [one_light]"
    by (simp add: value_of_def one_light_def packed_defs)
  have m: "select_member SETFLData ''color'' one_light = Some (Raw [1, 0, 0, 0])"
    by (simp add: one_light_def packed_defs)
  have l: "length ([one_light]) < 2 ^ 31" "length ([] :: u8 list) = the (offset_of SETFL ''light_num'') - 8"
    by (simp_all add: packed_defs)
  from perception_structs_roundtrip [OF perception_struct.simps(5) v l refl, of 7 "[9]" new_frame] m
  show ?thesis by (auto simp: new_frame_def double_of_small)
qed

end
