(* ===== verification/Perception_Delivery.thy ===== *)
theory Perception_Delivery
  imports User_Callback Packed_Types
begin

text \<open>
  Perception: the receive thread of the serial port makes a frame of a perception message, the task of the
  sensor's dispatcher gives it to the pipeline, and the pipeline to the callback it was started with, which
  reads the structs with the accessors of the frame class.
\<close>

section \<open>The frame of a perception message\<close>

definition perceived :: "ctype \<Rightarrow> cval list \<Rightarrow> u8 list \<Rightarrow> u64 \<Rightarrow> stream_profile \<Rightarrow> frame \<Rightarrow> bool" where
  "perceived e vs msg ts pp f \<longleftrightarrow> map (read_as e) (fr_items f) = vs \<and> fr_payload f = Bytes msg
     \<and> fe_timestamp (fr_ext f) = double_of (uint ts) \<and> fr_profile f = Some pp"

lemma perceived_count [simp]: "perceived e vs msg ts pp (f\<lparr>ref_count := n\<rparr>) = perceived e vs msg ts pp f"
  by (simp add: perceived_def)

text \<open>A data unit of a perception kind goes to \<open>dispatch_perception\<close>, unless the port is still syncing.\<close>

lemma handle_perception:
  assumes "perception_of ty = Some ext" "working p \<noteq> Syncing"
  shows "handleTlvData now ty buf sz p src st =
    bind_result (dispatch_perception ext sz (load_perception ext buf sz) p src st) (\<lambda>(st', acts). Inr (p, st', acts))"
proof -
  have "SerialDataUnit_None \<le> ty \<and> ty \<noteq> SerialDataUnit_FileHeader \<and> ty \<noteq> SerialDataUnit_FileData
      \<and> ty \<noteq> SerialDataUnit_FileTail \<and> ty \<noteq> SerialDataUnit_Speed \<and> ty \<noteq> SerialDataUnit_AlgorithmResult"
    using assms(1) unfolding perception_of_def by (auto simp: serial_types split: if_splits)
  then have "handleTlvData now ty buf sz p src st = bind_result
      (bind_result (dispatch_perception ext sz (load_perception ext buf sz) p src st) (\<lambda>(st', acts). Inr (p, st', acts)))
      (\<lambda>(p2, st2, acts2). Inr (p2, st2, [] @ acts2))"
    using assms by (simp add: handleTlvData_def handleDataUnit_def)
  then show ?thesis by (simp add: bind_result_def split: sum.split prod.split)
qed

lemma perception_frame:
  assumes st: "frames_ok st X" and src: "source_within src st"
    and kp: "map_of (src_archives src) ext = Some (Some kp)" and pp: "map_of (port_profiles p) ext = Some pp"
    and ty: "perception_of ty = Some ext" "working p \<noteq> Syncing"
    and e: "perception_struct ext = Some (h, cnt, e)" "list_all (value_of e) vs" "length vs < 2 ^ 31"
      "length pre = the (offset_of h cnt) - 8"
      "msg = u64_bytes ts @ pre @ u32_bytes (of_nat (length vs)) @ concat (map encode vs)"
    and room: "room kp 1 st"
  obtains st' a f where "handleTlvData now ty (msg @ stale) (length msg) p src st = Inr (p, st', [Dispatch_frame a])"
    "fst a = kp" "frames_ok st' (add_mset a X)" "settings st' = settings st" "length st' = length st"
    "look st a = None" "look st' = (look st)(a \<mapsto> f)" "perceived e vs msg ts pp f"
proof -
  let ?load = "\<lambda>f. load_perception ext (msg @ stale) (length msg) (frame_set_sensor (port_sensor p)
      (frame_set_profile (map_of (port_profiles p) ext) f))"
  let ?ext = "new_extension\<lparr>fe_speed := port_speed p\<rparr>"
  note l = structs_laid_out [OF e(1,2)]
  have len: "length (map encode vs) < 2 ^ 31" using e(3) by simp
  have loaded: "?load f = Inr ((frame_set_timestamp (double_of (uint ts)) (frame_load_data msg (frame_set_sensor (port_sensor p)
      (frame_set_profile (Some pp) f))))\<lparr>fr_items := fr_items f @ map encode vs\<rparr>)" for f
    using perception_roundtrip [OF l(1) e(4) l(2) len, of msg ts stale] e(5)
    by (simp add: pp frame_set_sensor_def frame_set_profile_def)
  have keeps: "children g = [] \<and> ref_count g = ref_count f \<and> fixed g = fixed f \<and> kept g = kept f"
    if "children f = []" "?load f = Inr g" for f g
    using load_keeps(2) [OF _ that(2)] that(1) by (simp add: frame_set_sensor_def frame_set_profile_def)
  obtain q st' where al: "alloc_filled ext (length msg) ?ext ?load src st = Inr (q, st')"
    using alloc_filled_succeeds [OF st src kp, of ?ext ?load "length msg"] loaded by blast
  note place = alloc_filled_place [OF st src kp al]
  obtain a where a: "q = Some a" using place(3) [OF room] by auto
  from alloc_filled_ok [OF st src keeps al] a obtain f g where
    g: "frames_ok st' (X + {#a#})" "length st' = length st" "?load f = Inr g" "look st' = (look st)(a \<mapsto> g)"
      "look st a = None" "fr_items f = []" by auto
  have "perceived e vs msg ts pp g"
    using g(3) l(3) unfolding loaded
    by (auto simp: perceived_def g(6) frame_set_timestamp_def frame_load_data_def frame_set_sensor_def frame_set_profile_def)
  moreover have "handleTlvData now ty (msg @ stale) (length msg) p src st = Inr (p, st', [Dispatch_frame a])"
    using al a by (simp add: handle_perception [OF ty] dispatch_perception_def)
  ultimately show thesis using that g place(1,2) a by simp
qed

section \<open>A callback for perception\<close>

text \<open>
  A callback that reads a perception frame with the accessors of its class \<open>cls\<close>: the elements, as structs of
  type \<open>e\<close>, and the time stamp.  \<open>cl\<close> gives the class of the frames of an archive.
\<close>

definition perception_user ::
    "(nat \<Rightarrow> se_extension) \<Rightarrow> se_extension \<Rightarrow> ctype \<Rightarrow> addr \<Rightarrow> store
      \<Rightarrow> (se_error + (stream_profile option \<times> cval list \<times> int) list) \<times> store" where
  "perception_user cl cls e a =
     scoped (handle_of (Some a)) (\<lambda>h st.
       (bind_result (perception_items cl cls h st) (\<lambda>its.
        bind_result (handle_timestamp h st) (\<lambda>t. Inr [(handle_profile h, map (read_as e) its, t)])), st))"

definition of_class :: "(nat \<Rightarrow> se_extension) \<Rightarrow> se_extension \<Rightarrow> addr \<Rightarrow> frame \<Rightarrow> bool" where
  "of_class cl cls a f \<longleftrightarrow> fr_profile f \<noteq> None \<and> \<not> is_composite f \<and> cl (fst a) = cls"

definition structs_seen :: "ctype \<Rightarrow> frame \<Rightarrow> (stream_profile option \<times> cval list \<times> int) list" where
  "structs_seen e f = [(fr_profile f, map (read_as e) (fr_items f), fe_timestamp (fr_ext f))]"

interpretation perception: frame_user "perception_user cl cls e" "of_class cl cls" "structs_seen e" for cl cls e
proof (unfold_locales, goal_cases)
  case (1 st a X f)
  from 1(3) obtain p where p: "fr_profile f = Some p" "\<not> is_composite f" "cl (fst a) = cls" by (auto simp: of_class_def)
  define hd where "hd = \<lparr>frame_ref = Some a, handle_profile = Some p, handle_index = fe_index (fr_ext f)\<rparr>"
  have mk: "handle_of (Some a) st = (Inr hd, st)"
    using 1(2) p by (simp add: handle_of_def deref_frame_def hd_def)
  have hd: "frame_ref hd = Some a" "handle_profile hd = Some p" by (simp_all add: hd_def)
  obtain st3 where st3: "release a st = Inr st3" "frames_ok st3 X" "shrinks (look st) (look st3)"
    using release_ok [OF 1(1), of a] by auto
  have "perception_user cl cls e a st = (Inr (structs_seen e f), st3)"
    using mk hd p 1(2) st3(1)
    by (simp add: perception_user_def scoped_def perception_items_def cast_frame_def deref_frame_def handle_timestamp_def
        handle_get_def structs_seen_def handle_destroy_def holder_destroy_def)
  then show ?case using st3(2) settings_release [OF st3(1)] keeps_held [OF st3(3,2)] by blast
next
  case (2 a f n)
  show ?case by (simp add: of_class_def is_composite_def)
next
  case (3 f n)
  show ?case by (simp add: structs_seen_def)
qed

section \<open>Properties\<close>


text \<open>A port that is connected, a pipeline started with a callback, and one traffic light.\<close>

definition light_source :: frame_source where
  "light_source = (new_source 256)\<lparr>src_archives := [(EXT_TRAFFIC_LIGHT_FRAME, Some 0)], src_callback := Some 1\<rparr>"

definition light_port :: serial_port where "light_port = (new_port 0 None)\<lparr>working := Connected\<rparr>"

definition light_pipeline :: pipeline where
  "light_pipeline = one_stream_pipeline\<lparr>pl_output := Some 2, streams_callback := Some 2\<rparr>"


end
