(* ===== verification/Steady_Stream.thy ===== *)
theory Steady_Stream
  imports Packet_Delivery
begin

text \<open>
  Streaming that goes on: a packet is received and cut into frames, the tasks of the dispatcher give
  them to the pipeline, the application polls, looks at the set and lets it go.  After such a round
  everything is as it was before, so the next packet finds the same room, and no number of rounds
  fills an archive or a queue.  Here is one round from a packet in the receive buffer; \<open>Usb_Stream\<close> reads
  the packets into the buffer of \<open>startStream\<close>.
\<close>

section \<open>A round\<close>

text \<open>What the application sees of a frame: its profile, data, time stamp and dimensions.\<close>

type_synonym frame_seen = "stream_profile option \<times> payload \<times> int \<times> (int \<times> int \<times> int \<times> int)"

type_synonym stream_state = "gemini_sensor \<times> pipeline \<times> store"

definition frame_view :: "store \<Rightarrow> addr \<Rightarrow> frame_seen option" where
  "frame_view st a = map_option (\<lambda>f. (fr_profile f, fr_payload f, fe_timestamp (fr_ext f), fr_dims f)) (look st a)"

definition set_view :: "store \<Rightarrow> frame_set \<Rightarrow> frame_seen option list" where
  "set_view st fs = (case frame_ref (set_handle fs) of None \<Rightarrow> [] | Some c \<Rightarrow> map (frame_view st) (children_at st c))"

text \<open>
  What follows when the sensor thread has queued its tasks: the dispatcher runs them, the application
  polls, looks at what it got and lets it go.
\<close>

definition application_round ::
    "nat list \<Rightarrow> nat \<Rightarrow> frame_source \<Rightarrow> gemini_sensor \<Rightarrow> sensor_action list \<Rightarrow> pipeline \<Rightarrow> store
      \<Rightarrow> se_error + (bool \<times> frame_seen option list) \<times> pipeline \<times> store" where
  "application_round comps k psrc sn acts p st =
     bind_result (feed (sensor_task comps k psrc (sn_source sn)) (dispatched acts) p st) (\<lambda>(p1, st1).
       case Pipeline_pollForFrames (Some no_frame_set) p1 (st1, ()) of
         (Inl e, _) \<Rightarrow> Inl e
       | (Inr (got, fs), p2, (st2, _)) \<Rightarrow>
           (case set_destroy fs st2 of
              (Inl e, _) \<Rightarrow> Inl e
            | (Inr _, st3) \<Rightarrow> Inr ((got, set_view st2 fs), p2, st3)))"

section \<open>What holds between two rounds\<close>

text \<open>An archive or a queue with the limit \<open>m\<close> has room for \<open>n\<close>; zero is no limit.\<close>

definition fits :: "u32 \<Rightarrow> nat \<Rightarrow> bool" where
  "fits m n \<longleftrightarrow> m = 0 \<or> n \<le> unat m"

definition stream_ready ::
    "nat list \<Rightarrow> nat \<Rightarrow> nat \<Rightarrow> (frame_info \<Rightarrow> stream_profile) \<Rightarrow> stream_state \<Rightarrow> bool" where
  "stream_ready comps k kv prof S \<longleftrightarrow>
     (case S of (sn, p, st) \<Rightarrow>
        frames_ok st {#} \<and> task_ready (sn_source sn) p st \<and> source_within (sn_source sn) st
        \<and> map_of (src_archives (sn_source sn)) EXT_VIDEO_FRAME = Some (Some kv) \<and> kv \<notin> set comps
        \<and> k < length st \<and> k \<in> set comps \<and> group_ok (active_infos sn) (usb_group sn)
        \<and> (\<forall>(i, fi)\<in>set (active_infos sn). map_of (id_profiles sn) (uint (fi_frame_id fi)) = Some (Some (prof fi)))
        \<and> agg_idle (aggregator_of p) \<and> sorted (wanted (aggregator_of p)) \<and> wanted (aggregator_of p) \<noteq> []
        \<and> mset (map (\<lambda>e. sp_uid (prof (snd e))) (active_infos sn)) = mset (wanted (aggregator_of p))
        \<and> length (active_infos sn) \<le> kFrameNum2Aggregate
        \<and> fits (limits st ! kv) (length (active_infos sn)) \<and> fits (limits st ! k) (length (active_infos sn)))"

text \<open>The packets: head, time stamp, one raw frame per active stream, and stale bytes.\<close>

type_synonym packet = "u8 list \<times> u64 \<times> u8 list list \<times> u8 list"

definition packet_bytes :: "packet \<Rightarrow> u8 list" where
  "packet_bytes pk = (case pk of (head, ts, raws, rest) \<Rightarrow> head @ u64_bytes ts @ concat raws @ rest)"

definition packet_ok :: "(u32 \<times> frame_info) list \<Rightarrow> packet \<Rightarrow> bool" where
  "packet_ok es pk \<longleftrightarrow> (case pk of (head, ts, raws, rest) \<Rightarrow> length head = pack_head_size \<and> list_all2 raw_ok es raws)"

text \<open>What the application is to see of a packet: for each wanted stream the image of its raw frame.\<close>

definition image_view :: "(frame_info \<Rightarrow> stream_profile) \<Rightarrow> u64 \<Rightarrow> frame_info \<Rightarrow> u8 list
    \<Rightarrow> frame_seen" where
  "image_view prof ts fi raw = (Some (prof fi), Bytes (raw_image fi raw), double_of (sint ts),
     (uint (fi_width fi), uint (fi_height fi), getBppByFormat (uint (fi_format fi)), 0))"

definition packet_view :: "(frame_info \<Rightarrow> stream_profile) \<Rightarrow> (u32 \<times> frame_info) list \<Rightarrow> int list \<Rightarrow> packet
    \<Rightarrow> frame_seen option list" where
  "packet_view prof es ws pk =
     (case pk of (head, ts, raws, rest) \<Rightarrow>
        map (map_of (map (\<lambda>(e, raw). (sp_uid (prof (snd e)), image_view prof ts (snd e) raw)) (zip es raws))) ws)"

section \<open>Lemmas\<close>

lemma no_frames_taken:
  assumes "frames_ok st {#}"
  shows "taken j st = 0"
proof -
  have "look st = Map.empty" using assms ranked_no_leak by (auto simp: frames_ok_def)
  then show ?thesis by (simp add: taken_def)
qed

lemma fits_room: "frames_ok st {#} \<Longrightarrow> j < length st \<Longrightarrow> fits (limits st ! j) n \<Longrightarrow> room j n st"
  by (simp add: room_def fits_def no_frames_taken limits_def)

lemma idle_simps:
  assumes "agg_idle ag"
  shows "agg_ok ag" "last_set ag = []" "items (agg_queue ag) = []" "agg_held ag = {#}"
    "n \<le> kFrameNum2Aggregate \<Longrightarrow> room k n st \<Longrightarrow> can_take k n ag st"
  using assms by (simp_all add: agg_idle_def agg_held_def can_take_def cq_size_def)

lemma limits_length: "limits st' = limits st \<Longrightarrow> length st' = length st"
  by (metis length_map limits_def)

lemma video_view:
  "look st a = Some f \<Longrightarrow> video_of sid (prof fi) (sint ts) fi raw f \<Longrightarrow> frame_view st a = Some (image_view prof ts fi raw)"
  by (simp add: frame_view_def video_of_def image_view_def)

text \<open>The frames of the set are in the order of the streams, each with the image of its raw frame.\<close>

lemma children_view:
  assumes W: "distinct W" "mset (map (\<lambda>e. sp_uid (prof (snd e))) es) = mset W" and raws: "length raws = length es"
    and ch: "map (stream_of st) cs = map Some W"
    and im: "\<forall>j<length es. \<exists>a f. a \<in> set cs \<and> look st a = Some f
      \<and> video_of sid (prof (snd (es ! j))) (sint ts) (snd (es ! j)) (raws ! j) f"
  shows "map (frame_view st) cs = packet_view prof es W (head, ts, raws, rest)"
proof (rule nth_equalityI)
  let ?u = "\<lambda>e. sp_uid (prof (snd e))"
  let ?m = "map (\<lambda>(e, raw). (?u e, image_view prof ts (snd e) raw)) (zip es raws)"
  have len: "length cs = length W" using ch by (metis length_map)
  then show "length (map (frame_view st) cs) = length (packet_view prof es W (head, ts, raws, rest))"
    by (simp add: packet_view_def)
  have str: "stream_of st (cs ! i) = Some (W ! i)" if "i < length cs" for i
    using that ch len by (metis nth_map)
  have keys: "map fst ?m = map ?u es" using raws by (induction es raws rule: list_induct2') auto
  have d: "distinct (map fst ?m)" unfolding keys using W by (metis mset_eq_imp_distinct_iff)
  fix i
  assume "i < length (map (frame_view st) cs)"
  then have i: "i < length cs" "i < length W" using len by simp_all
  have "W ! i \<in> set (map ?u es)" using i(2) W(2) by (metis mset_eq_setD nth_mem)
  then obtain j where j: "j < length es" "?u (es ! j) = W ! i" by (auto simp: in_set_conv_nth)
  obtain a f where a: "a \<in> set cs" "look st a = Some f"
    "video_of sid (prof (snd (es ! j))) (sint ts) (snd (es ! j)) (raws ! j) f" using im j(1) by blast
  obtain l where l: "l < length cs" "cs ! l = a" using a(1) by (auto simp: in_set_conv_nth)
  have "stream_of st a = Some (W ! i)" using a(2,3) j(2) by (simp add: stream_of_def video_of_def)
  then have "W ! l = W ! i" using str [OF l(1)] l(2) by simp
  then have "l = i" using W(1) l(1) i len by (simp add: nth_eq_iff_index_eq)
  have v: "frame_view st (cs ! i) = Some (image_view prof ts (snd (es ! j)) (raws ! j))"
    using video_view [of st a f sid prof, OF a(2,3)] l(2) \<open>l = i\<close> by simp
  have "(es ! j, raws ! j) \<in> set (zip es raws)" using j(1) raws by (metis in_set_zip fst_conv snd_conv)
  then have "(W ! i, image_view prof ts (snd (es ! j)) (raws ! j)) \<in> set ?m" unfolding j(2) [symmetric] by force
  from map_of_is_SomeI [OF d this] show "map (frame_view st) cs ! i = packet_view prof es W (head, ts, raws, rest) ! i"
    using v i by (simp add: packet_view_def)
qed

text \<open>One round: the application sees the packet, and the round can be repeated.\<close>

lemma packet_round_ok:
  assumes ready: "stream_ready comps k kv prof (sn, p, st)" and pk: "packet_ok (active_infos sn) pk"
  obtains fg st1 acts p' st' where
    "handle_packet (sn\<lparr>sn_buffer := packet_bytes pk\<rparr>) st = Inr (sn\<lparr>sn_buffer := packet_bytes pk, usb_group := fg\<rparr>, st1, acts)"
    "application_round comps k psrc (sn\<lparr>sn_buffer := packet_bytes pk, usb_group := fg\<rparr>) acts p st1
      = Inr ((True, packet_view prof (active_infos sn) (wanted (aggregator_of p)) pk), p', st')"
    "stream_ready comps k kv prof (sn\<lparr>sn_buffer := packet_bytes pk, usb_group := fg\<rparr>, p', st')"
    "wanted (aggregator_of p') = wanted (aggregator_of p)"
proof -
  let ?es = "active_infos sn" and ?ag = "aggregator_of p" and ?W = "wanted (aggregator_of p)"
  obtain head ts raws rest where e: "pk = (head, ts, raws, rest)" by (metis prod_cases4)
  have pk': "length head = pack_head_size" "list_all2 raw_ok ?es raws" using pk by (simp_all add: packet_ok_def e)
  define sn0 where "sn0 = sn\<lparr>sn_buffer := packet_bytes pk\<rparr>"
  have sn0: "sn_source sn0 = sn_source sn" "active_infos sn0 = ?es" "usb_group sn0 = usb_group sn" "id_profiles sn0 = id_profiles sn"
    "sn_id sn0 = sn_id sn" "sn_buffer sn0 = head @ u64_bytes ts @ concat raws @ rest"
    by (simp_all add: sn0_def e packet_bytes_def)
  have R: "frames_ok st {#}" "task_ready (sn_source sn) p st" "source_within (sn_source sn) st"
    "map_of (src_archives (sn_source sn)) EXT_VIDEO_FRAME = Some (Some kv)" "kv \<notin> set comps"
    "k < length st" "k \<in> set comps" "group_ok ?es (usb_group sn)"
    "\<forall>(i, fi)\<in>set ?es. map_of (id_profiles sn) (uint (fi_frame_id fi)) = Some (Some (prof fi))"
    "agg_idle ?ag" "sorted ?W" "?W \<noteq> []" "mset (map (\<lambda>e. sp_uid (prof (snd e))) ?es) = mset ?W"
    "length ?es \<le> kFrameNum2Aggregate" "fits (limits st ! kv) (length ?es)" "fits (limits st ! k) (length ?es)"
    using ready unfolding stream_ready_def by simp_all
  note idle = idle_simps [OF R(10)]
  have kv: "kv < length st" by (rule source_withinD [OF R(3,4)])
  have ok: "frames_ok st ({#} + agg_held ?ag)" using R(1) idle(4) by simp
  have room: "room kv (length ?es) st" by (rule fits_room [OF R(1) kv R(15)])
  have can: "can_take k (length ?es) ?ag st" by (rule idle(5) [OF R(14) fits_room [OF R(1,6,16)]])
  note set = packet_makes_set [of st "{#}" p sn0 kv comps raws head ts rest prof k psrc "()", unfolded sn0,
      OF ok R(2-5,8) pk'(2,1) refl R(9) room idle(1) R(11,12) idle(2,3) R(6,7) can R(13)]
  obtain sn1 st1 acts p1 st2 fs p' ag' st3 c where a: "handle_packet sn0 st = Inr (sn1, st1, acts)"
    "feed (sensor_task comps k psrc (sn_source sn)) (dispatched acts) p st1 = Inr (p1, st2)"
    "Pipeline_pollForFrames (Some no_frame_set) p1 (st2, ()) = (Inr (True, fs), p', (st3, ()))"
    "frame_ref (set_handle fs) = Some c" "map (stream_of st3) (children_at st3 c) = map Some ?W"
    "\<forall>j<length ?es. \<exists>a f. a \<in> set (children_at st3 c) \<and> look st3 a = Some f
       \<and> video_of (sn_id sn) (prof (snd (?es ! j))) (sint ts) (snd (?es ! j)) (raws ! j) f"
    "pl_aggregator p' = Some ag'" "frames_ok st3 (add_mset c {#} + agg_held ag')"
    "\<exists>fg. sn1 = sn0\<lparr>usb_group := fg\<rparr> \<and> group_ok ?es fg"
    "task_ready (sn_source sn) p' st3 \<and> agg_idle ag' \<and> wanted ag' = ?W \<and> limits st3 = limits st"
    by (rule set)
  have ag': "aggregator_of p' = ag'" using a(7) by (simp add: aggregator_of_def)
  have ok3: "frames_ok st3 (add_mset c {#})" using a(8,10) idle_simps(4) by simp
  from release_ok [OF ok3, of c] obtain st4 where rel: "release c st3 = Inr st4" "frames_ok st4 {#}" by auto
  have set4: "settings st4 = settings st3" by (rule settings_release [OF rel(1)])
  have lim: "limits st4 = limits st" using settings_limits [OF set4] a(10) by simp
  obtain fg where fg: "sn1 = sn0\<lparr>usb_group := fg\<rparr>" "group_ok ?es fg" using a(9) by blast
  have sn1: "sn_source sn1 = sn_source sn" "active_infos sn1 = ?es" "usb_group sn1 = fg" "id_profiles sn1 = id_profiles sn"
    by (simp_all add: fg(1) sn0)
  have view: "set_view st3 fs = packet_view prof ?es ?W pk"
    using children_view [OF _ R(13) _ a(5,6), of head rest] idle(1) pk'(2) a(4)
    by (simp add: set_view_def e agg_ok_def list_all2_lengthD)
  have run: "application_round comps k psrc sn1 acts p st1 = Inr ((True, packet_view prof ?es ?W pk), p', st4)"
    using a(2-4) rel(1) view sn1(1)
    by (simp add: application_round_def set_destroy_def handle_destroy_def holder_destroy_def)
  have "stream_ready comps k kv prof (sn1, p', st4)"
    using R(4,5,7,9,11-16) rel(2) a(10) task_ready_settings [OF set4] lim limits_length [OF lim] fg(2) R(3,6)
    unfolding stream_ready_def prod.case sn1 ag' by (simp add: source_within_def)
  then show ?thesis using that a(1,10) run ag' unfolding fg(1) sn0_def by simp
qed

text \<open>The sensor of one stream, before its first packet.\<close>

lemma wired_stream_ready:
  "stream_ready [1] 1 0 (\<lambda>_. info_profile 5 tiny_info) (wired_sensor [], one_stream_pipeline, map new_archive [0, 256])"
proof -
  note sd = wired_sensor_def tiny_sensor_def
  have ok: "frames_ok (map new_archive [0, 256]) {#}" by (rule frame_reach_ok [OF frame_reach.init])
  have group: "group_ok (active_infos (wired_sensor [])) (usb_group (wired_sensor []))"
    using tiny_group by (simp add: wired_sensor_def)
  have idle: "agg_idle (aggregator_of one_stream_pipeline)"
    by (simp add: agg_idle_def one_stream_simps) (simp add: agg_start_def new_aggregator_def new_cq_def)
  have ready: "task_ready (sn_source (wired_sensor [])) one_stream_pipeline (map new_archive [0, 256])"
    by (simp add: task_ready_def one_stream_simps sd new_archive_def new_callbacks_def)
  show ?thesis
    using ok group idle ready
    by (simp add: stream_ready_def one_stream_simps(1,3) source_within_def fits_def limits_def kFrameNum2Aggregate_def)
      (simp add: sd tiny_info_def info_profile_def new_archive_def)
qed

end
