(* ===== verification/Serial_Open.thy ===== *)
theory Serial_Open
  imports Gemini_Pipeline
begin

text \<open>
  Opening and closing the serial port (\<open>open\<close> and \<open>close\<close> of \<open>src/gemini/gemini_serial_port.cc\<close>):
  the ports of the machine are listed, their hardware ids are searched for the vendor and the
  product of the camera, and the port that has them is opened.  The serial library is a parameter:
  the list of ports, and which of them can be opened.
\<close>

section \<open>Strings\<close>

text \<open>\<open>std::string::find\<close>: the first place where \<open>pat\<close> stands.\<close>

fun find_str :: "string \<Rightarrow> string \<Rightarrow> nat option" where
  "find_str pat [] = (if pat = [] then Some 0 else None)"
| "find_str pat (c # cs) =
     (if take (length pat) (c # cs) = pat then Some 0 else map_option Suc (find_str pat cs))"

definition hex_digit :: "char \<Rightarrow> nat option" where
  "hex_digit c = (let n = of_char c in
     if 48 \<le> n \<and> n \<le> 57 then Some (n - 48)
     else if 65 \<le> n \<and> n \<le> 70 then Some (n - 55)
     else if 97 \<le> n \<and> n \<le> 102 then Some (n - 87) else None)"

definition is_space :: "char \<Rightarrow> bool" where
  "is_space c \<longleftrightarrow> (of_char c :: nat) = 32 \<or> 9 \<le> (of_char c :: nat) \<and> (of_char c :: nat) \<le> 13"

text \<open>The value of the digits at the front of a string.\<close>

fun hex_run :: "nat \<Rightarrow> string \<Rightarrow> nat" where
  "hex_run acc [] = acc"
| "hex_run acc (c # cs) = (case hex_digit c of None \<Rightarrow> acc | Some d \<Rightarrow> hex_run (16 * acc + d) cs)"

fun take_sign :: "string \<Rightarrow> bool \<times> string" where
  "take_sign [] = (False, [])"
| "take_sign (c # cs) =
     (if c = CHR ''-'' then (True, cs) else if c = CHR ''+'' then (False, cs) else (False, c # cs))"

text \<open>The prefix \<open>0x\<close> counts only with a digit behind it.\<close>

fun drop_0x :: "string \<Rightarrow> string" where
  "drop_0x (z # x # d # cs) =
     (if z = CHR ''0'' \<and> x \<in> {CHR ''x'', CHR ''X''} \<and> hex_digit d \<noteq> None then d # cs else z # x # d # cs)"
| "drop_0x cs = cs"

text \<open>\<open>std::stoi(s, nullptr, 16)\<close>.\<close>

definition stoi16 :: "string \<Rightarrow> se_error + int" where
  "stoi16 s =
     (case take_sign (dropWhile is_space s) of
        (neg, s1) \<Rightarrow>
          let ds = drop_0x s1; n = int (hex_run 0 ds); v = if neg then - n else n
          in if ds = [] \<or> hex_digit (hd ds) = None then Inl (Invalid_argument ''stoi'')
             else if - (2 ^ 31) \<le> v \<and> v < 2 ^ 31 then Inr v else Inl Out_of_range)"

section \<open>Finding the port\<close>

record port_entry =
  po_port :: string
  po_description :: string
  po_hardware :: string

text \<open>The four characters after a tag, as a number; zero when the tag is missing.\<close>

definition id_after :: "string \<Rightarrow> string \<Rightarrow> se_error + int" where
  "id_after tag hw =
     (case find_str tag hw of None \<Rightarrow> Inr 0 | Some pos \<Rightarrow> stoi16 (take 4 (drop (pos + 4) hw)))"

definition port_ids :: "string \<Rightarrow> se_error + int \<times> int" where
  "port_ids hw =
     bind_result (id_after ''VID_'' hw) (\<lambda>vid.
     bind_result (id_after ''PID_'' hw) (\<lambda>pid. Inr (vid, pid)))"

text \<open>
  What the port of a sensor does besides its handlers' actions.  \<open>serial_\<close> is the name of the port
  that is open, \<open>serial_running_\<close> keeps the receive thread going.
\<close>

datatype port_event =
    Open_serial string | Flush_serial | Close_serial
  | Start_writer | Flush_writer | Stop_writer
  | Start_receiver | Join_receiver | Stop_watchdog
  | Port_act port_action

record port_link =
  serial_obj :: "string option"
  serial_running :: bool
  link_port :: serial_port

definition new_link :: "serial_port \<Rightarrow> port_link" where
  "new_link p = \<lparr>serial_obj = None, serial_running = False, link_port = p\<rparr>"

text \<open>The loop over the ports: every match replaces the port opened before.\<close>

fun scan_ports :: "(string \<Rightarrow> bool) \<Rightarrow> u16 \<Rightarrow> u16 \<Rightarrow> port_entry list \<Rightarrow> port_link
    \<Rightarrow> (se_error + unit) \<times> port_link \<times> port_event list" where
  "scan_ports can v p [] l = (Inr (), l, [])"
| "scan_ports can v p (e # es) l =
     (case port_ids (po_hardware e) of
        Inl er \<Rightarrow> (Inl er, l, [])
      | Inr (vid, pid) \<Rightarrow>
          if vid = uint v \<and> pid = uint p
          then (if can (po_port e)
                then (case scan_ports can v p es (l\<lparr>serial_obj := Some (po_port e)\<rparr>) of
                        (r, l', evs) \<Rightarrow> (r, l', Open_serial (po_port e) # evs))
                else (Inl (Runtime_error ''serial::IOException''), l, []))
          else scan_ports can v p es l)"

text \<open>
  \<open>connect()\<close> starts the receive thread.  The head and the buffer are variables of the thread; the
  head has no value before one is read (\<open>junk\<close>), while \<open>is_head_found_\<close> and the counts are members.
\<close>

definition start_receiver :: "u32 \<times> u32 \<Rightarrow> serial_port \<Rightarrow> serial_port" where
  "start_receiver junk p = p\<lparr>receiving := (receiving p)\<lparr>rx_type := fst junk, rx_length := snd junk, recv_buffer := []\<rparr>\<rparr>"

definition port_open ::
    "(string \<Rightarrow> bool) \<Rightarrow> u16 \<Rightarrow> u16 \<Rightarrow> port_entry list \<Rightarrow> u32 \<times> u32 \<Rightarrow> port_link
      \<Rightarrow> (se_error + unit) \<times> port_link \<times> port_event list" where
  "port_open can v p ports junk l =
     (case scan_ports can v p ports l of
        (Inl e, l1, evs) \<Rightarrow> (Inl e, l1, evs)
      | (Inr _, l1, evs) \<Rightarrow>
          (case serial_obj l1 of
             None \<Rightarrow> (Inl (Undefined ''serial_ is null''), l1, evs)
           | Some _ \<Rightarrow>
               (case connect (start_receiver junk (link_port l1)) of
                  (q, acts) \<Rightarrow> (Inr (), l1\<lparr>serial_running := True, link_port := q\<rparr>,
                     evs @ [Flush_serial, Start_writer, Start_receiver] @ map Port_act acts))))"

definition port_close :: "port_link \<Rightarrow> (se_error + unit) \<times> port_link \<times> port_event list" where
  "port_close l =
     (let evs = map Port_act disconnect @ [Stop_watchdog] @ (if serial_running l then [Join_receiver] else [])
                @ [Flush_writer, Stop_writer];
          l1 = l\<lparr>serial_running := False\<rparr>
      in case serial_obj l of
           None \<Rightarrow> (Inl (Undefined ''serial_ is null''), l1, evs)
         | Some _ \<Rightarrow> (Inr (), l1\<lparr>serial_obj := None\<rparr>, evs @ [Close_serial]))"

text \<open>\<open>GeminiSensor::open\<close> with its serial port: \<open>is_opened_\<close> is set before the port is opened.\<close>

definition open_with_port ::
    "'s gemini \<Rightarrow> (string \<Rightarrow> bool) \<Rightarrow> u16 \<Rightarrow> u16 \<Rightarrow> port_entry list \<Rightarrow> u32 \<times> u32 \<Rightarrow> stream_profile list
      \<Rightarrow> gemini_sensor \<Rightarrow> port_link \<Rightarrow> store \<Rightarrow> 's
      \<Rightarrow> se_error + (se_error + unit) \<times> gemini_sensor \<times> port_link \<times> store \<times> 's \<times> port_event list" where
  "open_with_port g can v p ports junk rq sn l st s =
     bind_result (sensor_open g rq sn st s) (\<lambda>(sn1, st1, s1, acts).
       if acts = [] then Inr (Inr (), sn1, l, st1, s1, [])
       else (case port_open can v p ports junk (l\<lparr>link_port := sn_port sn1\<rparr>) of
               (r, l1, evs) \<Rightarrow>
                 let sn2 = sn1\<lparr>sn_port := link_port l1\<rparr>
                 in Inr (r, if is_error r then sn2\<lparr>active_profiles := active_profiles sn\<rparr> else sn2, l1, st1, s1, evs)))"

section \<open>Lemmas\<close>

lemma find_str_here:
  assumes "c \<notin> set pre"
  shows "find_str (c # cs) (pre @ (c # cs) @ rest) = Some (length pre)"
  using assms
proof (induction pre)
  case Nil
  then show ?case by simp
next
  case (Cons a pre)
  then have "take (length (c # cs)) ((a # pre) @ (c # cs) @ rest) \<noteq> c # cs" by auto
  then show ?case using Cons by simp
qed

lemma find_str_missing:
  assumes "c \<in> set pat" "c \<notin> set s"
  shows "find_str pat s = None"
  using assms(2)
proof (induction s)
  case Nil
  then show ?case using assms(1) by auto
next
  case (Cons a s)
  have "take (length pat) (a # s) \<noteq> pat" using assms(1) Cons.prems by (metis in_set_takeD)
  then show ?case using Cons by simp
qed

text \<open>A vendor or product id as four digits, and a hardware id as Windows writes it.\<close>

definition hex_char :: "nat \<Rightarrow> char" where
  "hex_char d = char_of (if d < 10 then 48 + d else 55 + d)"

definition hex4 :: "u16 \<Rightarrow> string" where
  "hex4 v = map (\<lambda>i. hex_char (unat v div 16 ^ i mod 16)) [3, 2, 1, 0]"

definition windows_id :: "string \<Rightarrow> u16 \<Rightarrow> u16 \<Rightarrow> string \<Rightarrow> string" where
  "windows_id pre v p rest = pre @ ''VID_'' @ hex4 v @ ''&PID_'' @ hex4 p @ rest"

lemma of_hex_char: "d < 16 \<Longrightarrow> (of_char (hex_char d) :: nat) = (if d < 10 then 48 + d else 55 + d)"
  by (simp add: hex_char_def)

lemma hex_char_eq: "d < 16 \<Longrightarrow> c = hex_char d \<longleftrightarrow> (of_char c :: nat) = (if d < 10 then 48 + d else 55 + d)"
  unfolding of_hex_char [symmetric] by (rule of_char_eq_iff [symmetric])

lemma hex_digit_char [simp]: "d < 16 \<Longrightarrow> hex_digit (hex_char d) = Some d"
  by (simp add: hex_digit_def of_hex_char Let_def)

lemma hex_char_neq:
  "d < 16 \<Longrightarrow> hex_char d \<noteq> CHR ''P''" "d < 16 \<Longrightarrow> hex_char d \<noteq> CHR ''x''" "d < 16 \<Longrightarrow> hex_char d \<noteq> CHR ''X''"
  "d < 16 \<Longrightarrow> hex_char d \<noteq> CHR ''-''" "d < 16 \<Longrightarrow> hex_char d \<noteq> CHR ''+''" "d < 16 \<Longrightarrow> \<not> is_space (hex_char d)"
proof -
  assume d: "d < 16"
  have "hex_char d \<noteq> c" if "(of_char c :: nat) < 48 \<or> 70 < (of_char c :: nat)" for c
    using of_hex_char [OF d] that d by (auto split: if_splits)
  then show "hex_char d \<noteq> CHR ''P''" "hex_char d \<noteq> CHR ''x''" "hex_char d \<noteq> CHR ''X''"
    "hex_char d \<noteq> CHR ''-''" "hex_char d \<noteq> CHR ''+''" by simp_all
  show "\<not> is_space (hex_char d)" using of_hex_char [OF d] by (simp add: is_space_def)
qed

lemma hex4_digits: "x \<in> set (hex4 v) \<Longrightarrow> \<exists>d<16. x = hex_char d"
  by (auto simp: hex4_def intro: exI [of _ "_ mod 16"])

lemma length_hex4 [simp]: "length (hex4 v) = 4"
  by (simp add: hex4_def)

lemma hex_sum:
  assumes "n < 65536"
  shows "16 * (16 * (16 * (n div 16 ^ 3 mod 16) + n div 16 ^ 2 mod 16) + n div 16 mod 16) + n mod 16 = (n :: nat)"
proof -
  have "n div 16 ^ 3 mod 16 = n div 16 div 16 div 16" "n div 16 ^ 2 = n div 16 div 16"
    using assms by (simp_all add: power2_eq_square power3_eq_cube div_mult2_eq)
  then show ?thesis by (simp only: mult_div_mod_eq)
qed

lemma stoi16_hex4: "stoi16 (hex4 v) = Inr (uint v)"
proof -
  have lt: "unat v < 65536" using unsigned_less [of v] by simp
  let ?d = "\<lambda>i. unat v div 16 ^ i mod 16"
  have sum: "16 * (16 * (16 * ?d 3 + ?d 2) + ?d 1) + ?d 0 = unat v"
    using hex_sum [OF lt] by (simp only: power_0 power_one_right div_by_1)
  have s: "take_sign (dropWhile is_space (hex4 v)) = (False, hex4 v)"
    by (simp add: hex4_def hex_char_neq)
  have "drop_0x (hex4 v) = hex4 v" by (simp add: hex4_def hex_char_neq)
  moreover have "hex_run 0 (hex4 v) = 16 * (16 * (16 * ?d 3 + ?d 2) + ?d 1) + ?d 0" by (simp add: hex4_def)
  then have "hex_run 0 (hex4 v) = unat v" unfolding sum .
  moreover have "hex4 v \<noteq> []" "hex_digit (hd (hex4 v)) \<noteq> None" by (simp_all add: hex4_def)
  moreover have "uint v < 2 ^ 31" using uint_lt2p [of v] by simp
  moreover have "- (2 ^ 31) \<le> uint v" by (rule order_trans [OF _ uint_ge_0]) simp
  ultimately show ?thesis unfolding stoi16_def s by (simp add: Let_def)
qed

lemma port_ids_windows:
  assumes "CHR ''V'' \<notin> set pre" "CHR ''P'' \<notin> set pre"
  shows "port_ids (windows_id pre v p rest) = Inr (uint v, uint p)"
proof -
  have v: "find_str ''VID_'' (windows_id pre v p rest) = Some (length pre)"
    using find_str_here [OF assms(1), of "''ID_''"] by (simp add: windows_id_def)
  let ?pre = "pre @ ''VID_'' @ hex4 v @ ''&''"
  have "CHR ''P'' \<notin> set ?pre" using assms(2) hex4_digits [of "CHR ''P''" v] hex_char_neq(1) by force
  from find_str_here [OF this, of "''ID_''" "hex4 p @ rest"]
  have p: "find_str ''PID_'' (windows_id pre v p rest) = Some (length ?pre)" by (simp add: windows_id_def)
  have "id_after ''VID_'' (windows_id pre v p rest) = Inr (uint v)"
    using v by (simp add: id_after_def windows_id_def stoi16_hex4)
  moreover have "id_after ''PID_'' (windows_id pre v p rest) = Inr (uint p)"
    using p by (simp add: id_after_def windows_id_def stoi16_hex4)
  ultimately show ?thesis by (simp add: port_ids_def)
qed

text \<open>A port whose ids are others is passed over; the last match is the one that stays.\<close>

definition other_port :: "u16 \<Rightarrow> u16 \<Rightarrow> port_entry \<Rightarrow> bool" where
  "other_port v p e \<longleftrightarrow> (\<exists>ids. port_ids (po_hardware e) = Inr ids \<and> ids \<noteq> (uint v, uint p))"

lemma scan_others: "list_all (other_port v p) es \<Longrightarrow> scan_ports can v p (es @ es') l = scan_ports can v p es' l"
  by (induction es) (auto simp: other_port_def)

lemma scan_others_all: "list_all (other_port v p) es \<Longrightarrow> scan_ports can v p es l = (Inr (), l, [])"
  using scan_others [of v p es can "[]" l] by simp

lemma other_port_no_tag:
  assumes "CHR ''_'' \<notin> set (po_hardware e)" "v \<noteq> 0 \<or> p \<noteq> 0"
  shows "other_port v p e"
proof -
  have "port_ids (po_hardware e) = Inr (0, 0)"
    using find_str_missing [OF _ assms(1)] by (simp add: port_ids_def id_after_def)
  then show ?thesis using assms(2) by (auto simp: other_port_def uint_0_iff)
qed

text \<open>
  The hardware id that the serial library of the repository composes on Linux
  (\<open>3rdparty/serial-1.2.1/src/impl/list_ports/list_ports_linux.cc\<close>).
\<close>

definition linux_id :: "string \<Rightarrow> string \<Rightarrow> string \<Rightarrow> string" where
  "linux_id vid pid snr =
     ''USB VID:PID='' @ vid @ '':'' @ pid @ '' '' @ (if snr = [] then [] else ''SNR='' @ snr)"

lemma linux_id_no_tag:
  "CHR ''_'' \<notin> set vid \<Longrightarrow> CHR ''_'' \<notin> set pid \<Longrightarrow> CHR ''_'' \<notin> set snr \<Longrightarrow> CHR ''_'' \<notin> set (linux_id vid pid snr)"
  by (simp add: linux_id_def)

lemma port_opened: "sensor_open g rq sn st s = Inr (sn1, st1, s1, [Port_open]) \<Longrightarrow> is_opened sn1"
  by (auto simp: sensor_open_def bind_result_Inr Let_def split: if_splits)

text \<open>
  Closing and opening again keeps what the receiver knew of the message it was reading: the counts are
  members, so the first bytes of the new connection are taken for the rest of that message, with a
  length that was never read.
\<close>

lemma reopen_keeps_framing:
  assumes "serial_obj l = Some h" "port_close l = (Inr (), l1, ev1)" "port_open can v p ports junk l1 = (Inr (), l2, ev2)"
  shows "is_head_found (receiving (link_port l2)) = is_head_found (receiving (link_port l))
    \<and> pack_read (receiving (link_port l2)) = pack_read (receiving (link_port l))
    \<and> pack_lack (receiving (link_port l2)) = pack_lack (receiving (link_port l))
    \<and> recv_buffer (receiving (link_port l2)) = [] \<and> rx_length (receiving (link_port l2)) = snd junk"
proof -
  have scan: "link_port l' = link_port k" if "scan_ports can v p es k = (r, l', evs)" for es k r l' evs
    using that by (induction es arbitrary: k evs) (auto split: sum.splits prod.splits if_splits)
  have "link_port l1 = link_port l" using assms(1,2) by (auto simp: port_close_def Let_def)
  moreover obtain u l3 evs where s: "scan_ports can v p ports l1 = (Inr u, l3, evs)"
    using assms(3) by (auto simp: port_open_def split: sum.splits prod.splits)
  moreover have "link_port l3 = link_port l1" using scan [OF s] .
  ultimately show ?thesis using assms(3)
    by (auto simp: port_open_def start_receiver_def connect_def offerHand_def split: option.splits)
qed

section \<open>Properties\<close>

text \<open>C30: When exactly one listed port has the camera's vendor and product in its hardware id, as
  Windows writes it, that port is the one opened; it is flushed, the writer and the receiver are
  started, and the handshake is written.\<close>

theorem serial_port_found:
  assumes "list_all (other_port v p) before" and "list_all (other_port v p) after"
    and "po_hardware e = windows_id pre v p rest" and "CHR ''V'' \<notin> set pre" and "CHR ''P'' \<notin> set pre"
    and "can (po_port e)"
  shows "\<exists>q. port_open can v p (before @ e # after) junk l
    = (Inr (), l\<lparr>serial_obj := Some (po_port e), serial_running := True, link_port := q\<rparr>,
       [Open_serial (po_port e), Flush_serial, Start_writer, Start_receiver, Port_act (Write_now hand_bytes)])
    \<and> working q = Syncing"
proof -
  have "port_ids (po_hardware e) = Inr (uint v, uint p)" using port_ids_windows assms(3-5) by simp
  then have "scan_ports can v p (before @ e # after) l = (Inr (), l\<lparr>serial_obj := Some (po_port e)\<rparr>, [Open_serial (po_port e)])"
    using assms(6) scan_others [OF assms(1)] scan_others_all [OF assms(2)] by simp
  then show ?thesis
    by (intro exI [of _ "(start_receiver junk (link_port l))\<lparr>working := Syncing\<rparr>"])
      (simp add: port_open_def connect_def offerHand_def start_receiver_def)
qed

definition windows_port :: port_entry where
  "windows_port = \<lparr>po_port = ''COM3'', po_description = ''camera'', po_hardware = ''USB VID_0525&PID_A4A7&REV_0404''\<rparr>"

definition plain_port :: port_entry where
  "plain_port = \<lparr>po_port = ''COM1'', po_description = ''port'', po_hardware = ''ACPI''\<rparr>"

theorem serial_port_found_witness:
  "\<exists>q. port_open (\<lambda>_. True) 0x525 0xA4A7 [plain_port, windows_port] (0, 0) (new_link (new_port 1 None))
    = (Inr (), (new_link (new_port 1 None))\<lparr>serial_obj := Some ''COM3'', serial_running := True, link_port := q\<rparr>,
       [Open_serial ''COM3'', Flush_serial, Start_writer, Start_receiver, Port_act (Write_now hand_bytes)])
    \<and> working q = Syncing"
proof -
  have hw: "po_hardware windows_port = windows_id ''USB '' 0x525 0xA4A7 ''&REV_0404''"
    by (simp add: windows_port_def windows_id_def hex4_def hex_char_eq)
  have "CHR ''_'' \<notin> set (po_hardware plain_port)" by (simp add: plain_port_def)
  from other_port_no_tag [OF this] have "list_all (other_port 0x525 0xA4A7) [plain_port]" by simp
  then show ?thesis
    using serial_port_found [of "0x525" "0xA4A7" "[plain_port]" "[]" windows_port, OF _ _ hw]
    by (simp add: windows_port_def)
qed

text \<open>C31: On Linux the sensor cannot be opened: the hardware ids that the serial library composes there
  have no tag the search knows, so no port is opened, and flushing the port dereferences a null
  pointer, with the sensor already marked as opened.\<close>

theorem serial_port_never_found_on_linux:
  assumes "v \<noteq> 0 \<or> p \<noteq> 0" and "list_all (\<lambda>e. CHR ''_'' \<notin> set (po_hardware e)) ports" and "serial_obj l = None"
    and "sensor_open g rq sn st s = Inr (sn1, st1, s1, [Port_open])"
  shows "\<exists>sn2. open_with_port g can v p ports junk rq sn l st s
      = Inr (Inl (Undefined ''serial_ is null''), sn2, l\<lparr>link_port := sn_port sn1\<rparr>, st1, s1, [])
    \<and> is_opened sn2 \<and> active_profiles sn2 = active_profiles sn"
proof -
  have "list_all (other_port v p) ports"
    using assms(2) other_port_no_tag [OF _ assms(1)] by (auto simp: list_all_iff)
  from scan_others_all [OF this] show ?thesis
    using assms(3,4) port_opened [OF assms(4)] by (simp add: open_with_port_def port_open_def Let_def)
qed

theorem serial_port_never_found_on_linux_witness:
  "\<exists>sn2 l2 st1. open_with_port ready_gemini (\<lambda>_. True) 0x525 0xA4A7
      [\<lparr>po_port = ''/dev/ttyACM0'', po_description = ''camera'', po_hardware = linux_id ''0525'' ''a4a7'' []\<rparr>]
      (0, 0) [] cam_sensor (new_link (new_port 1 None)) [] ()
    = Inr (Inl (Undefined ''serial_ is null''), sn2, l2, st1, (), []) \<and> is_opened sn2"
proof -
  obtain sn1 st1 where o: "sensor_open ready_gemini [] cam_sensor [] () = Inr (sn1, st1, (), [Port_open])"
    using cam_open by blast
  from serial_port_never_found_on_linux [OF _ _ _ o, of "0x525" "0xA4A7"
      "[\<lparr>po_port = ''/dev/ttyACM0'', po_description = ''camera'', po_hardware = linux_id ''0525'' ''a4a7'' []\<rparr>]"
      "new_link (new_port 1 None)" "\<lambda>_. True" "(0, 0)"]
  show ?thesis by (auto simp: linux_id_no_tag new_link_def)
qed

end
