(* ===== verification/Option_Objects.thy ===== *)
theory Option_Objects
  imports Prelude
begin

text \<open>
  Options of sensors and processing blocks: \<open>OptionsContainer\<close> (\<open>src/core/options.h\<close>,
  \<open>options.cc\<close>), the handle \<open>Options\<close> an application uses, the assignment of \<open>Sensor\<close> handles
  (\<open>src/sensor/sensor.cc\<close>) and the options a processing block registers (\<open>src/proc/processing.cc\<close>).

  \<open>Option\<close> is an abstract class, and no class of the library implements it.  Its methods are the
  parameter \<open>option_ops\<close>, on objects of type \<open>'o\<close> with values of type \<open>'f\<close>.
\<close>

section \<open>The container\<close>

text \<open>\<open>OptionKey\<close>, in the order of the enumeration.\<close>

datatype option_key =
    FRAMES_QUEUE_SIZE | STREAM_FILTER | STREAM_FORMAT_FILTER | STREAM_INDEX_FILTER | COLOR_SCHEME
  | MIN_DISTANCE | MAX_DISTANCE | MOTION_MODULE_TEMPERATURE | MOTION_RANGE | LASER_POWER

fun key_rank :: "option_key \<Rightarrow> nat" where
  "key_rank FRAMES_QUEUE_SIZE = 0"
| "key_rank STREAM_FILTER = 1"
| "key_rank STREAM_FORMAT_FILTER = 2"
| "key_rank STREAM_INDEX_FILTER = 3"
| "key_rank COLOR_SCHEME = 4"
| "key_rank MIN_DISTANCE = 5"
| "key_rank MAX_DISTANCE = 6"
| "key_rank MOTION_MODULE_TEMPERATURE = 7"
| "key_rank MOTION_RANGE = 8"
| "key_rank LASER_POWER = 9"

lemma key_rank_eq: "key_rank a = key_rank b \<longleftrightarrow> a = b"
  by (cases a; cases b) simp_all

instantiation option_key :: linorder
begin

definition less_eq_option_key :: "option_key \<Rightarrow> option_key \<Rightarrow> bool" where
  "a \<le> b \<longleftrightarrow> key_rank a \<le> key_rank b"

definition less_option_key :: "option_key \<Rightarrow> option_key \<Rightarrow> bool" where
  "a < b \<longleftrightarrow> key_rank a < key_rank b"

instance
  by standard (auto simp: less_eq_option_key_def less_option_key_def key_rank_eq)

end

record ('o, 'f) option_ops =
  op_set :: "'f \<Rightarrow> 'o \<Rightarrow> 'o"
  op_query :: "'o \<Rightarrow> 'f"
  op_range :: "'o \<Rightarrow> 'f \<times> 'f \<times> 'f \<times> 'f"
  op_enabled :: "'o \<Rightarrow> bool"
  op_readonly :: "'o \<Rightarrow> bool"
  op_description :: "'o \<Rightarrow> string"
  op_value_description :: "'f \<Rightarrow> 'o \<Rightarrow> string"

text \<open>\<open>std::map<OptionKey, std::shared_ptr<Option>>\<close>; a pointer may be null.\<close>

type_synonym 'o options = "(option_key \<times> 'o option) list"

definition registerOption :: "option_key \<Rightarrow> 'o option \<Rightarrow> 'o options \<Rightarrow> 'o options" where
  "registerOption k v os = omap_put k v os"

definition unregisterOption :: "option_key \<Rightarrow> 'o options \<Rightarrow> 'o options" where
  "unregisterOption k os = filter (\<lambda>e. fst e \<noteq> k) os"

definition getOptionName :: "option_key \<Rightarrow> string" where
  "getOptionName k = []"

text \<open>A reference to the option; using one made from a null pointer is undefined.\<close>

definition container_getOption :: "option_key \<Rightarrow> 'o options \<Rightarrow> se_error + 'o" where
  "container_getOption k os =
     (case map_of os k of
        None \<Rightarrow> Inl (Runtime_error (''Device does not support option '' @ getOptionName k @ ''!''))
      | Some None \<Rightarrow> Inl (Undefined ''null option'')
      | Some (Some v) \<Rightarrow> Inr v)"

definition supportsOption :: "('o, 'f) option_ops \<Rightarrow> option_key \<Rightarrow> 'o options \<Rightarrow> se_error + bool" where
  "supportsOption oo k os =
     (case map_of os k of
        None \<Rightarrow> Inr False
      | Some None \<Rightarrow> Inl (Undefined ''null option'')
      | Some (Some v) \<Rightarrow> Inr (op_enabled oo v))"

definition container_supported :: "'o options \<Rightarrow> option_key list" where
  "container_supported os = map fst os"

section \<open>The handle\<close>

text \<open>
  \<open>Options\<close> holds a pointer to a container, which may be null; \<open>check_ptr\<close> is \<open>CHECK_PTR_NOT_NULL\<close>.
  The containers are \<open>H\<close>, by their object.
\<close>

type_synonym 'o option_heap = "nat \<Rightarrow> 'o options"

definition check_ptr :: "nat option \<Rightarrow> se_error + nat" where
  "check_ptr r =
     (case r of None \<Rightarrow> Inl (Runtime_error ''null pointer passed for argument options_'') | Some c \<Rightarrow> Inr c)"

definition on_option :: "nat option \<Rightarrow> option_key \<Rightarrow> 'o option_heap \<Rightarrow> ('o \<Rightarrow> 'a) \<Rightarrow> se_error + 'a" where
  "on_option r k H f =
     bind_result (check_ptr r) (\<lambda>c. bind_result (container_getOption k (H c)) (\<lambda>v. Inr (f v)))"

definition Options_supports :: "('o, 'f) option_ops \<Rightarrow> nat option \<Rightarrow> option_key \<Rightarrow> 'o option_heap \<Rightarrow> se_error + bool" where
  "Options_supports oo r k H = bind_result (check_ptr r) (\<lambda>c. supportsOption oo k (H c))"

definition getOptionDescription :: "('o, 'f) option_ops \<Rightarrow> nat option \<Rightarrow> option_key \<Rightarrow> 'o option_heap \<Rightarrow> se_error + string" where
  "getOptionDescription oo r k H = on_option r k H (op_description oo)"

definition Options_getOptionName :: "nat option \<Rightarrow> option_key \<Rightarrow> se_error + string" where
  "Options_getOptionName r k = bind_result (check_ptr r) (\<lambda>_. Inr (getOptionName k))"

definition getOptionValueDescription ::
    "('o, 'f) option_ops \<Rightarrow> nat option \<Rightarrow> option_key \<Rightarrow> 'f \<Rightarrow> 'o option_heap \<Rightarrow> se_error + string" where
  "getOptionValueDescription oo r k v H = on_option r k H (op_value_description oo v)"

definition Options_getOption :: "('o, 'f) option_ops \<Rightarrow> nat option \<Rightarrow> option_key \<Rightarrow> 'o option_heap \<Rightarrow> se_error + 'f" where
  "Options_getOption oo r k H = on_option r k H (op_query oo)"

definition getOptionRange ::
    "('o, 'f) option_ops \<Rightarrow> nat option \<Rightarrow> option_key \<Rightarrow> 'o option_heap \<Rightarrow> se_error + 'f \<times> 'f \<times> 'f \<times> 'f" where
  "getOptionRange oo r k H = on_option r k H (op_range oo)"

definition setOption ::
    "('o, 'f) option_ops \<Rightarrow> nat option \<Rightarrow> option_key \<Rightarrow> 'f \<Rightarrow> 'o option_heap \<Rightarrow> se_error + 'o option_heap" where
  "setOption oo r k v H =
     bind_result (on_option r k H (op_set oo v)) (\<lambda>o1.
       Inr (H(the r := map (\<lambda>e. if fst e = k then (k, Some o1) else e) (H (the r)))))"

definition isOptionReadonly :: "('o, 'f) option_ops \<Rightarrow> nat option \<Rightarrow> option_key \<Rightarrow> 'o option_heap \<Rightarrow> se_error + bool" where
  "isOptionReadonly oo r k H = on_option r k H (op_readonly oo)"

definition getSupportedOptions :: "nat option \<Rightarrow> 'o option_heap \<Rightarrow> se_error + option_key list" where
  "getSupportedOptions r H = bind_result (check_ptr r) (\<lambda>c. Inr (container_supported (H c)))"

text \<open>The assignment checks the pointer that it is about to overwrite.\<close>

definition Options_assign :: "nat option \<Rightarrow> nat option \<Rightarrow> se_error + nat option" where
  "Options_assign this other = bind_result (check_ptr this) (\<lambda>_. Inr other)"

text \<open>
  \<open>Sensor\<close> handles.  The assignment first assigns null, which resets both pointers, and then reads
  the other handle, which is itself in a self-assignment.
\<close>

record sensor_handle =
  sh_options :: "nat option"
  sh_sensor :: "nat option"

definition sensor_assign_ptr :: "nat option \<Rightarrow> sensor_handle \<Rightarrow> sensor_handle" where
  "sensor_assign_ptr dev h = h\<lparr>sh_options := dev, sh_sensor := dev\<rparr>"

definition sensor_assign :: "nat \<Rightarrow> nat \<Rightarrow> (nat \<Rightarrow> sensor_handle) \<Rightarrow> nat \<Rightarrow> sensor_handle" where
  "sensor_assign this other hs =
     (let hs1 = hs(this := sensor_assign_ptr None (hs this));
          hs2 = hs1(this := (hs1 this)\<lparr>sh_options := sh_sensor (hs1 other)\<rparr>)
      in hs2(this := (hs2 this)\<lparr>sh_sensor := sh_sensor (hs2 other)\<rparr>))"

section \<open>The options of a processing block\<close>

text \<open>\<open>FrameSource::get_published_size_option()\<close> gives null, and the constructor registers it.\<close>

definition get_published_size_option :: "'o option" where
  "get_published_size_option = None"

definition new_block_options :: "'o options" where
  "new_block_options = registerOption FRAMES_QUEUE_SIZE get_published_size_option []"

text \<open>\<open>registerSimpleOption\<close> does nothing for a supported option, and registers null otherwise.\<close>

definition registerSimpleOption :: "('o, 'f) option_ops \<Rightarrow> option_key \<Rightarrow> 'o options \<Rightarrow> se_error + 'o options" where
  "registerSimpleOption oo k os =
     bind_result (supportsOption oo k os) (\<lambda>b. Inr (if b then os else registerOption k None os))"

section \<open>Lemmas\<close>

lemma sensor_assign_copies: "i \<noteq> j \<Longrightarrow> sensor_assign i j hs i = (hs i)\<lparr>sh_options := sh_sensor (hs j), sh_sensor := sh_sensor (hs j)\<rparr>"
  by (simp add: sensor_assign_def sensor_assign_ptr_def Let_def)

lemma sensor_self_assign_loses: "sh_sensor (sensor_assign i i hs i) = None" "sh_options (sensor_assign i i hs i) = None"
  by (simp_all add: sensor_assign_def sensor_assign_ptr_def Let_def)

lemma default_handle_not_assignable: "Options_assign None other = Inl (Runtime_error ''null pointer passed for argument options_'')"
  by (simp add: Options_assign_def check_ptr_def)

lemma omap_ok_filter_keys: "omap_ok xs \<Longrightarrow> omap_ok (filter P xs)"
  by (induction xs) auto

lemma map_of_filter_key: "map_of (filter (\<lambda>e. fst e \<noteq> k) xs) = (map_of xs)(k := None)"
  by (induction xs) (auto simp: fun_eq_iff)

text \<open>What a sequence of registrations makes of a container, and the map it specifies.\<close>

datatype 'o option_call = Register option_key "'o option" | Unregister option_key

fun option_exec :: "'o option_call \<Rightarrow> 'o options \<Rightarrow> 'o options" where
  "option_exec (Register k v) os = registerOption k v os"
| "option_exec (Unregister k) os = unregisterOption k os"

fun option_spec :: "'o option_call \<Rightarrow> (option_key \<rightharpoonup> 'o option) \<Rightarrow> option_key \<rightharpoonup> 'o option" where
  "option_spec (Register k v) M = M(k \<mapsto> v)"
| "option_spec (Unregister k) M = M(k := None)"

lemma option_exec_spec:
  "omap_ok os \<Longrightarrow> omap_ok (option_exec c os) \<and> map_of (option_exec c os) = option_spec c (map_of os)"
  by (cases c) (simp_all add: registerOption_def unregisterOption_def map_of_omap_put omap_ok_filter_keys map_of_filter_key)

lemma option_run_spec:
  "omap_ok os \<Longrightarrow> omap_ok (fold option_exec cs os) \<and> map_of (fold option_exec cs os) = fold option_spec cs (map_of os)"
  by (induction cs arbitrary: os) (simp_all add: option_exec_spec)

section \<open>Properties\<close>

text \<open>A container of options is a map: after any sequence of registrations, an option is found
  exactly when the last registration under its key was not undone and was not null, and the
  supported keys are those of the map, each once, in the order of the enumeration.\<close>

theorem options_container_refines_map:
  "(container_getOption k (fold option_exec cs []) = Inr v \<longleftrightarrow> fold option_spec cs Map.empty k = Some (Some v))
   \<and> sorted_wrt (<) (container_supported (fold option_exec cs []))
   \<and> set (container_supported (fold option_exec cs [])) = dom (fold option_spec cs Map.empty)"
proof -
  have r: "omap_ok (fold option_exec cs [])" "map_of (fold option_exec cs []) = fold option_spec cs Map.empty"
    using option_run_spec [of "[]" cs] by simp_all
  have "set (container_supported (fold option_exec cs [])) = dom (map_of (fold option_exec cs []))"
    by (simp add: container_supported_def dom_map_of_conv_image_fst)
  then show ?thesis using r
    by (auto simp: container_getOption_def omap_ok_def container_supported_def split: option.splits)
qed

text \<open>Every processing block is built with a null option: asking it whether it supports the
  queue size dereferences a null pointer, and so does asking for any option that was registered with
  \<open>registerSimpleOption\<close>; the container still lists it as supported.\<close>

theorem block_options_are_null:
  assumes "omap_ok os" and "registerSimpleOption oo k os = Inr os'" and "supportsOption oo k os = Inr False"
  shows "supportsOption oo FRAMES_QUEUE_SIZE new_block_options = Inl (Undefined ''null option'')
    \<and> supportsOption oo k os' = Inl (Undefined ''null option'') \<and> k \<in> set (container_supported os')"
  using assms
  by (auto simp: registerSimpleOption_def supportsOption_def new_block_options_def get_published_size_option_def
      registerOption_def map_of_omap_put container_supported_def)

definition plain_option_ops :: "(int, int) option_ops" where
  "plain_option_ops = \<lparr>op_set = (\<lambda>v _. v), op_query = id, op_range = (\<lambda>_. (0, 1, 1, 0)), op_enabled = (\<lambda>_. True),
     op_readonly = (\<lambda>_. False), op_description = (\<lambda>_. []), op_value_description = (\<lambda>_ _. [])\<rparr>"

theorem block_options_are_null_witness:
  "supportsOption plain_option_ops COLOR_SCHEME (registerOption COLOR_SCHEME None []) = Inl (Undefined ''null option'')"
proof -
  have "supportsOption plain_option_ops COLOR_SCHEME [] = Inr False" by (simp add: supportsOption_def)
  then show ?thesis
    using block_options_are_null [of "[]" plain_option_ops COLOR_SCHEME "registerOption COLOR_SCHEME None []"]
    by (simp add: registerSimpleOption_def)
qed

end
