(* ===== verification/Frame_Queue.thy ===== *)
theory Frame_Queue
  imports Frame_Api Option_Objects
begin

text \<open>
  The application's \<open>FrameQueue\<close> (\<open>include/smartereye2/core/frame_queue.hpp\<close>,
  \<open>src/core/frame_queue.cc\<close>) and its filters (\<open>include/smartereye2/proc/filter.hpp\<close>,
  \<open>src/proc/filter.cc\<close>).  A \<open>Frame\<close> that is passed by value belongs to the callee, which destroys it.
\<close>

section \<open>FrameQueue\<close>

text \<open>The queue object of holders is behind a pointer that the constructors leave null.\<close>

record app_queue =
  aq_queue :: "addr option cq option"
  aq_capacity :: nat
  aq_keep :: bool

definition new_app_queue :: "nat \<Rightarrow> bool \<Rightarrow> app_queue" where
  "new_app_queue c keep_frames = \<lparr>aq_queue = None, aq_capacity = c, aq_keep = keep_frames\<rparr>"

definition default_app_queue :: app_queue where
  "default_app_queue = new_app_queue 1 False"

text \<open>
  \<open>ConsumerQueue<FrameHolder>::enqueue\<close>: what falls out of the queue is released by its holder; a
  holder that is not accepted is destroyed by the caller.
\<close>

definition holder_enqueue :: "addr option \<Rightarrow> addr option cq \<Rightarrow> store \<Rightarrow> (se_error + addr option cq) \<times> store" where
  "holder_enqueue a q st =
     (let out = (if \<not> accepting q then [a]
                 else if capacity q < length (items q @ [a]) then [hd (items q @ [a])] else [])
      in bind_st (lift_st (run_release (map Rel (somes out))) st) (\<lambda>_ st'. (Inr (cq_enqueue a q), st')))"

text \<open>
  \<open>enqueue(Frame frame)\<close>: the holder is built on the pointer of the frame, without a reference of
  its own, and the frame is destroyed at the end.
\<close>

definition app_enqueue :: "frame_handle \<Rightarrow> app_queue \<Rightarrow> store \<Rightarrow> (se_error + app_queue) \<times> store" where
  "app_enqueue h fq st =
     bind_st (if aq_keep fq then handle_keep h st else (Inr (), st)) (\<lambda>_ st1.
       case aq_queue fq of
         None \<Rightarrow> (Inl (Undefined ''null queue''), st1)
       | Some q \<Rightarrow>
           bind_st (holder_enqueue (frame_ref h) q st1) (\<lambda>q' st2.
           bind_st (handle_destroy h st2) (\<lambda>_ st3. (Inr (fq\<lparr>aq_queue := Some q'\<rparr>), st3))))"

text \<open>\<open>waitForFrame\<close>; \<open>ops\<close> is what other threads do to the queue during the wait.\<close>

definition app_waitForFrame :: "addr option cq_op list \<Rightarrow> app_queue \<Rightarrow> store \<Rightarrow> (se_error + frame_handle \<times> app_queue) \<times> store" where
  "app_waitForFrame ops fq st =
     (case aq_queue fq of
        None \<Rightarrow> (Inl (Undefined ''null queue''), st)
      | Some q \<Rightarrow>
          (case cq_dequeue ops q of
             (None, q') \<Rightarrow> (Inl (Runtime_error ''Frame did not arrive in time!''), st)
           | (Some r, q') \<Rightarrow> bind_st (handle_of r st) (\<lambda>h st'. (Inr (h, fq\<lparr>aq_queue := Some q'\<rparr>), st'))))"

text \<open>The templates that poll do nothing and give false.\<close>

definition app_pollForFrame :: "app_queue \<Rightarrow> frame_handle \<Rightarrow> bool \<times> frame_handle" where
  "app_pollForFrame fq output = (False, output)"

definition app_tryWaitForFrame :: "app_queue \<Rightarrow> frame_handle \<Rightarrow> bool \<times> frame_handle" where
  "app_tryWaitForFrame fq output = (False, output)"

section \<open>Filters\<close>

text \<open>
  A \<open>Filter\<close> is an \<open>Options\<close> handle on its block, the block, and a queue.  \<open>start\<close> is a template
  that does nothing.
\<close>

record filter_object =
  fo_block :: "nat option"
  fo_queue :: app_queue

definition new_filter :: "nat option \<Rightarrow> nat \<Rightarrow> filter_object" where
  "new_filter block n = \<lparr>fo_block = block, fo_queue = new_app_queue n False\<rparr>"

definition process_error :: string where
  "process_error = ''Error occured during execution of the processing block! See the log for more info''"

definition filter_process :: "filter_object \<Rightarrow> frame_handle \<Rightarrow> store \<Rightarrow> (se_error + frame_handle) \<times> store" where
  "filter_process fo h st =
     (case app_pollForFrame (fo_queue fo) no_frame of
        (got, r) \<Rightarrow>
          bind_st (handle_destroy h st) (\<lambda>_ st'.
            (if got then Inr r else Inl (Runtime_error process_error), st')))"

text \<open>\<open>init()\<close> of every filter of the library gives a null block.\<close>

definition filter_init :: "nat option" where
  "filter_init = None"

definition library_filter :: filter_object where
  "library_filter = new_filter filter_init 1"

text \<open>\<open>PointCloud(FrameId, int)\<close> and \<open>Colorizer(float)\<close> set options in their constructors.\<close>

definition new_PointCloud ::
    "('o, 'f) option_ops \<Rightarrow> 'f \<Rightarrow> 'f \<Rightarrow> 'o option_heap \<Rightarrow> se_error + filter_object \<times> 'o option_heap" where
  "new_PointCloud oo fid index H =
     bind_result (setOption oo (fo_block library_filter) STREAM_FILTER fid H) (\<lambda>H1.
     bind_result (setOption oo (fo_block library_filter) STREAM_INDEX_FILTER index H1) (\<lambda>H2.
       Inr (library_filter, H2)))"

definition new_Colorizer :: "('o, 'f) option_ops \<Rightarrow> 'f \<Rightarrow> 'o option_heap \<Rightarrow> se_error + filter_object \<times> 'o option_heap" where
  "new_Colorizer oo scheme H =
     bind_result (setOption oo (fo_block library_filter) COLOR_SCHEME scheme H) (\<lambda>H1. Inr (library_filter, H1))"

text \<open>
  \<open>calculate\<close>: what \<open>process\<close> gives is points itself, or a set one of whose frames is.  \<open>points\<close> says
  which frames are (\<open>as<Points>()\<close>), \<open>set_of\<close> the frames of a set.
\<close>

definition filter_calculate ::
    "(frame_handle \<Rightarrow> bool) \<Rightarrow> (frame_handle \<Rightarrow> frame_handle list) \<Rightarrow> filter_object \<Rightarrow> frame_handle \<Rightarrow> store
      \<Rightarrow> (se_error + frame_handle) \<times> store" where
  "filter_calculate points set_of fo depth st =
     bind_st (filter_process fo depth st) (\<lambda>r st'.
       if points r then (Inr r, st')
       else case find points (set_of r) of
              Some p \<Rightarrow> (Inr p, st')
            | None \<Rightarrow> (Inl (Runtime_error process_error), st'))"

definition filter_colorize :: "filter_object \<Rightarrow> frame_handle \<Rightarrow> store \<Rightarrow> (se_error + frame_handle) \<times> store" where
  "filter_colorize fo depth st = bind_st (filter_process fo depth st) (\<lambda>r st'. video_frame_of r st')"

section \<open>Properties\<close>

lemma default_queue_is_null:
  "app_enqueue h (new_app_queue c False) st = (Inl (Undefined ''null queue''), st)"
  "app_waitForFrame ops (new_app_queue c b) st = (Inl (Undefined ''null queue''), st)"
  by (simp_all add: app_enqueue_def app_waitForFrame_def new_app_queue_def)

text \<open>A frame that is put into a queue is freed while the queue holds it: the holder takes no
  reference of its own, so when the queue is given the only \<open>Frame\<close> on a frame, the frame is gone when
  \<open>enqueue\<close> returns, and the next wait for a frame uses it after it was freed.\<close>

theorem queued_frame_is_freed:
  assumes "frames_ok st X" and "look st a = Some f" and "ref_count f = 1" and "\<not> is_composite f"
    and "frame_ref h = Some a" and "aq_queue fq = Some (new_cq c)" and "0 < c" and "\<not> aq_keep fq"
  shows "\<exists>fq' st'. app_enqueue h fq st = (Inr fq', st') \<and> aq_queue fq' = Some ((new_cq c)\<lparr>items := [Some a]\<rparr>)
    \<and> look st' a = None
    \<and> app_waitForFrame ops fq' st' = (Inl (Undefined ''use of a freed frame''), st')"
proof -
  have "store_ok st" using assms(1) by (simp add: frames_ok_def)
  from release_last_single [OF this assms(2-4)] obtain st' where
    r: "release a st = Inr st'" "look st' = (look st)(a := None)" .
  let ?q = "(new_cq c)\<lparr>items := [Some a]\<rparr>"
  have "holder_enqueue (Some a) (new_cq c) st = (Inr ?q, st)"
    using assms(7) by (simp add: holder_enqueue_def cq_enqueue_def new_cq_def Let_def)
  then have "app_enqueue h fq st = (Inr (fq\<lparr>aq_queue := Some ?q\<rparr>), st')"
    using r(1) assms(5,6,8) by (simp add: app_enqueue_def handle_destroy_def holder_destroy_def)
  moreover have "cq_dequeue ops ?q = (Some (Some a), cq_deq_enter (new_cq c))"
    by (simp add: cq_dequeue_def cq_deq_enter_def cq_ready_def cq_take_def new_cq_def Let_def)
  then have "app_waitForFrame ops (fq\<lparr>aq_queue := Some ?q\<rparr>) st' = (Inl (Undefined ''use of a freed frame''), st')"
    using r(2) by (simp add: app_waitForFrame_def handle_of_def deref_frame_def)
  ultimately show ?thesis using r(2) by (intro exI [of _ "fq\<lparr>aq_queue := Some ?q\<rparr>"] exI [of _ st']) simp
qed

theorem queued_frame_is_freed_witness:
  "\<exists>fq' st'. app_enqueue \<lparr>frame_ref = Some (0, Obj 0), handle_profile = None, handle_index = 0\<rparr>
      (default_app_queue\<lparr>aq_queue := Some (new_cq 1)\<rparr>) video_store = (Inr fq', st')
    \<and> app_waitForFrame [] fq' st' = (Inl (Undefined ''use of a freed frame''), st')"
proof -
  obtain f where f: "look video_store (0, Obj 0) = Some f" "ref_count f = 1" "\<not> is_composite f"
    using video_store_look by (auto simp: obj_frame_def is_composite_def new_frame_def)
  from queued_frame_is_freed [OF frame_reach_ok [OF video_store_reach] f,
      of "\<lparr>frame_ref = Some (0, Obj 0), handle_profile = None, handle_index = 0\<rparr>"
        "default_app_queue\<lparr>aq_queue := Some (new_cq 1)\<rparr>" 1 "[]"]
  show ?thesis by (auto simp: default_app_queue_def new_app_queue_def)
qed

text \<open>No filter of the library ever gives a frame: whatever frame it is given, \<open>process\<close> throws,
  and with it \<open>calculate\<close> and \<open>colorize\<close>; the reference it was given is released, with exact counts.
  The constructors that set an option throw as well.\<close>

theorem filters_always_throw:
  assumes "frames_ok st (add_mset a X)" and "frame_ref h = Some a"
  shows "\<exists>st'. filter_process fo h st = (Inl (Runtime_error process_error), st')
    \<and> filter_calculate points set_of fo h st = (Inl (Runtime_error process_error), st')
    \<and> filter_colorize fo h st = (Inl (Runtime_error process_error), st')
    \<and> frames_ok st' X
    \<and> is_error (new_PointCloud oo fid index H) \<and> is_error (new_Colorizer oo scheme H)"
proof -
  obtain st' where r: "release a st = Inr st'" "frames_ok st' X" using release_ok [OF assms(1), of a] by auto
  then have "filter_process fo h st = (Inl (Runtime_error process_error), st')"
    using assms(2) by (simp add: filter_process_def app_pollForFrame_def handle_destroy_def holder_destroy_def)
  then show ?thesis using r(2)
    by (simp add: filter_calculate_def filter_colorize_def new_PointCloud_def new_Colorizer_def library_filter_def
        new_filter_def filter_init_def setOption_def on_option_def check_ptr_def)
qed

theorem filters_always_throw_witness:
  "\<exists>st'. filter_process library_filter \<lparr>frame_ref = Some (0, Obj 0), handle_profile = None, handle_index = 0\<rparr> video_store
      = (Inl (Runtime_error process_error), st') \<and> frames_ok st' {#}"
  using filters_always_throw [of video_store "(0, Obj 0)" "{#}" "\<lparr>frame_ref = Some (0, Obj 0), handle_profile = None, handle_index = 0\<rparr>"
      library_filter "\<lambda>_. True" "\<lambda>_. []" plain_option_ops 0 0 "\<lambda>_. []" 0] frame_reach_ok [OF video_store_reach] by auto

end
