(* ===== verification/Device_Objects.thy ===== *)
theory Device_Objects
  imports Device_Registry Option_Objects
begin

text \<open>
  Devices: \<open>DevicePrivate\<close> (\<open>src/device/device.h\<close>, \<open>device.cc\<close>) with its sensors, its validity and its
  extrinsic groups; the handles \<open>Device\<close> and \<open>DeviceList\<close> of the application
  (\<open>include/smartereye2/device\<close>); and the \<open>Context\<close> handle with the events it delivers
  (\<open>src/device/context.cc\<close>).
\<close>

section \<open>DevicePrivate\<close>

text \<open>
  Sensors are the ids of their objects, a pointer may be null.  An extrinsic entry is the group and the
  id of the group's key stream.
\<close>

record device_object =
  dv_sensors :: "nat option list"
  dv_extrinsics :: "(int \<times> int \<times> int) list"
  dv_group :: device_group
  dv_valid :: bool
  dv_notifies :: bool
  dv_callback_id :: int

definition new_device :: "device_group \<Rightarrow> bool \<Rightarrow> device_object" where
  "new_device g notifies = \<lparr>dv_sensors = [], dv_extrinsics = [], dv_group = g, dv_valid = True,
     dv_notifies = notifies, dv_callback_id = 0\<rparr>"

text \<open>The destructor unregisters the callback whose id no code sets.\<close>

definition device_destroy :: "device_object \<Rightarrow> se_context \<Rightarrow> se_context" where
  "device_destroy d c = (if dv_notifies d then unregisterDevicesChangedCallback (dv_callback_id d) c else c)"

definition getSensor :: "nat \<Rightarrow> device_object \<Rightarrow> se_error + nat" where
  "getSensor i d =
     (if i < length (dv_sensors d)
      then (case dv_sensors d ! i of None \<Rightarrow> Inl (Undefined ''null sensor'') | Some s \<Rightarrow> Inr s)
      else Inl (Runtime_error ''std::exception''))"

definition getSensorCount :: "device_object \<Rightarrow> nat" where
  "getSensorCount d = length (dv_sensors d)"

definition isValid :: "device_object \<Rightarrow> bool" where
  "isValid d = dv_valid d"

definition setValid :: "bool \<Rightarrow> device_object \<Rightarrow> device_object" where
  "setValid b d = d\<lparr>dv_valid := b\<rparr>"

definition addSensor :: "nat option \<Rightarrow> device_object \<Rightarrow> int \<times> device_object" where
  "addSensor s d = (int (length (dv_sensors d)), d\<lparr>dv_sensors := dv_sensors d @ [s]\<rparr>)"

text \<open>\<open>operator[]\<close> of a vector checks nothing; the index is a signed byte.\<close>

definition assignSensor :: "nat option \<Rightarrow> 8 word \<Rightarrow> device_object \<Rightarrow> se_error + int \<times> device_object" where
  "assignSensor s idx d =
     (if 0 \<le> sint idx \<and> nat (sint idx) < length (dv_sensors d)
      then Inr (int (length (dv_sensors d)) - 1, d\<lparr>dv_sensors := (dv_sensors d)[nat (sint idx) := s]\<rparr>)
      else Inl (Undefined ''sensors_[idx] past the vector''))"

definition registerStreamToExtrinsicGroup :: "int \<Rightarrow> int \<Rightarrow> device_object \<Rightarrow> device_object" where
  "registerStreamToExtrinsicGroup uid g d =
     d\<lparr>dv_extrinsics := omap_put uid
         (case find (\<lambda>e. fst (snd e) = g) (dv_extrinsics d) of None \<Rightarrow> (g, uid) | Some e \<Rightarrow> snd e) (dv_extrinsics d)\<rparr>"

section \<open>The handles of devices\<close>

text \<open>\<open>SeDevice\<close>: the info may be missing; the object is \<open>'d\<close>, made by a factory.\<close>

record 'd device_handle =
  dh_info :: "device_info option"
  dh_device :: 'd

fun sensors_from :: "nat list \<Rightarrow> device_object \<Rightarrow> se_error + sensor_handle list" where
  "sensors_from [] d = Inr []"
| "sensors_from (i # is) d =
     bind_result (getSensor i d) (\<lambda>s. bind_result (sensors_from is d) (\<lambda>hs.
       Inr (\<lparr>sh_options = Some s, sh_sensor = Some s\<rparr> # hs)))"

definition querySensors :: "device_object \<Rightarrow> se_error + sensor_handle list" where
  "querySensors d = sensors_from [0..<getSensorCount d] d"

definition device_supports :: "nat \<Rightarrow> bool" where
  "device_supports info = container_supportsInfo info"

definition device_getInfo :: "nat \<Rightarrow> se_error + string" where
  "device_getInfo info =
     (if device_supports info then Inr (container_getInfo info) else Inl (Runtime_error ''std::exception''))"

text \<open>\<open>DeviceList\<close> is a pointer to a list of infos.  Its \<open>operator[]\<close> creates a device, on every call.\<close>

type_synonym device_list = "device_info list option"

definition list_infos :: "device_list \<Rightarrow> se_error + device_info list" where
  "list_infos l = (case l of None \<Rightarrow> Inl (Undefined ''null device list'') | Some ds \<Rightarrow> Inr ds)"

definition list_size :: "device_list \<Rightarrow> se_error + int" where
  "list_size l = bind_result (list_infos l) (\<lambda>ds. Inr (int (length ds)))"

definition list_at :: "('d, 'w) device_factory \<Rightarrow> u32 \<Rightarrow> device_list \<Rightarrow> 'w \<Rightarrow> (se_error + 'd device_handle) \<times> 'w" where
  "list_at fac i l w =
     (case list_infos l of
        Inl e \<Rightarrow> (Inl e, w)
      | Inr ds \<Rightarrow>
          if unat i < length ds
          then (case make_device fac (ds ! unat i) w of
                  (Inl e, w') \<Rightarrow> (Inl e, w')
                | (Inr d, w') \<Rightarrow> (Inr \<lparr>dh_info = Some (ds ! unat i), dh_device = d\<rparr>, w'))
          else (Inl (Undefined ''list[index] past the vector''), w))"

definition list_front :: "('d, 'w) device_factory \<Rightarrow> device_list \<Rightarrow> 'w \<Rightarrow> (se_error + 'd device_handle) \<times> 'w" where
  "list_front fac l w = list_at fac 0 l w"

text \<open>The index of \<open>back\<close> is converted to an unsigned number.\<close>

definition list_back :: "('d, 'w) device_factory \<Rightarrow> device_list \<Rightarrow> 'w \<Rightarrow> (se_error + 'd device_handle) \<times> 'w" where
  "list_back fac l w =
     (case list_size l of Inl e \<Rightarrow> (Inl e, w) | Inr n \<Rightarrow> list_at fac (word_of_int (n - 1)) l w)"

text \<open>The iteration of \<open>operator std::vector<Device>\<close> and of the range loops.\<close>

fun list_devices :: "('d, 'w) device_factory \<Rightarrow> u32 list \<Rightarrow> device_list \<Rightarrow> 'w \<Rightarrow> (se_error + 'd device_handle list) \<times> 'w" where
  "list_devices fac [] l w = (Inr [], w)"
| "list_devices fac (i # is) l w =
     (case list_at fac i l w of
        (Inl e, w1) \<Rightarrow> (Inl e, w1)
      | (Inr d, w1) \<Rightarrow>
          (case list_devices fac is l w1 of
             (Inl e, w2) \<Rightarrow> (Inl e, w2)
           | (Inr ds, w2) \<Rightarrow> (Inr (d # ds), w2)))"

definition list_to_vector :: "('d, 'w) device_factory \<Rightarrow> device_list \<Rightarrow> 'w \<Rightarrow> (se_error + 'd device_handle list) \<times> 'w" where
  "list_to_vector fac l w =
     (case list_size l of Inl e \<Rightarrow> (Inl e, w) | Inr n \<Rightarrow> list_devices fac (map of_nat [0..<nat n]) l w)"

text \<open>
  \<open>PipelineProfile::getDevice\<close>: the handle of a device that exists, with a new info that answers with
  the group of the device.
\<close>

definition readonly_handle :: "nat \<Rightarrow> device_group \<Rightarrow> 'd \<Rightarrow> 'd device_handle" where
  "readonly_handle a g d = \<lparr>dh_info = Some (Readonly_info a g), dh_device = d\<rparr>"

definition info_in :: "'d device_handle \<Rightarrow> device_info list \<Rightarrow> bool" where
  "info_in h ds \<longleftrightarrow> (case dh_info h of None \<Rightarrow> False
     | Some i \<Rightarrow> list_ex (\<lambda>x. group_eq (getDeviceData i) (getDeviceData x)) ds)"

definition list_contains :: "'d device_handle \<Rightarrow> device_list \<Rightarrow> se_error + bool" where
  "list_contains h l = bind_result (list_infos l) (\<lambda>ds. Inr (info_in h ds))"

text \<open>The assignment moves its parameter to itself; the handle keeps its list.\<close>

definition list_assign :: "device_info list option \<Rightarrow> device_list \<Rightarrow> device_list" where
  "list_assign other l = l"

section \<open>The handle of the context\<close>

definition Context_queryDevices :: "usb_info list \<Rightarrow> 32 word \<Rightarrow> se_context \<Rightarrow> device_list \<times> se_context" where
  "Context_queryDevices usb prod_mask c =
     (case queryDevices usb prod_mask c of (infos, c') \<Rightarrow> (Some infos, c'))"

definition Context_queryAll :: "usb_info list \<Rightarrow> se_context \<Rightarrow> device_list \<times> se_context" where
  "Context_queryAll usb c = Context_queryDevices usb SE_PRODUCT_ANY c"

text \<open>The loop makes the device of each entry and asks it for its sensors before it goes to the next.\<close>

fun sensors_of_list ::
    "(device_object, 'w) device_factory \<Rightarrow> u32 list \<Rightarrow> device_list \<Rightarrow> 'w \<Rightarrow> (se_error + sensor_handle list) \<times> 'w" where
  "sensors_of_list fac [] l w = (Inr [], w)"
| "sensors_of_list fac (i # is) l w =
     (case list_at fac i l w of
        (Inl e, w1) \<Rightarrow> (Inl e, w1)
      | (Inr d, w1) \<Rightarrow>
          (case querySensors (dh_device d) of
             Inl e \<Rightarrow> (Inl e, w1)
           | Inr hs \<Rightarrow>
               (case sensors_of_list fac is l w1 of
                  (Inl e, w2) \<Rightarrow> (Inl e, w2)
                | (Inr hs', w2) \<Rightarrow> (Inr (hs @ hs'), w2))))"

definition queryAllSensors ::
    "(device_object, 'w) device_factory \<Rightarrow> usb_info list \<Rightarrow> se_context \<Rightarrow> 'w \<Rightarrow> (se_error + sensor_handle list) \<times> se_context \<times> 'w" where
  "queryAllSensors fac usb c w =
     (case Context_queryAll usb c of
        (l, c') \<Rightarrow>
          (case list_size l of
             Inl e \<Rightarrow> (Inl e, c', w)
           | Inr n \<Rightarrow> (case sensors_of_list fac (map of_nat [0..<nat n]) l w of (r, w') \<Rightarrow> (r, c', w'))))"

text \<open>\<open>DeviceChangedEvent\<close>; the device handle may be empty.\<close>

definition wasRemoved :: "'d device_handle option \<Rightarrow> change_event \<Rightarrow> bool" where
  "wasRemoved dev ev = (case (dev, ev) of (None, _) \<Rightarrow> False | (Some h, _, removed, _) \<Rightarrow> info_in h removed)"

definition wasAdded :: "'d device_handle option \<Rightarrow> change_event \<Rightarrow> bool" where
  "wasAdded dev ev = (case (dev, ev) of (None, _) \<Rightarrow> False | (Some h, _, _, added) \<Rightarrow> info_in h added)"

definition getNewDevices :: "change_event \<Rightarrow> device_list" where
  "getNewDevices ev = Some (snd (snd ev))"

text \<open>
  The constructor of \<open>ContextPrivate\<close>: the backend of a recording is null and refused; the playback
  backend has no watcher and no time service, nor has the standard one a time service.  \<open>start\<close> and
  \<open>stop\<close> call the watcher.
\<close>

datatype backend_type = STANDARD | PLAYBACK | RECORD

record context_object =
  co_context :: se_context
  co_watcher :: bool
  co_time_service :: bool

definition new_context_object :: "backend_type \<Rightarrow> se_error + context_object" where
  "new_context_object t =
     (case t of
        STANDARD \<Rightarrow> Inr \<lparr>co_context = new_context, co_watcher = True, co_time_service = False\<rparr>
      | PLAYBACK \<Rightarrow> Inr \<lparr>co_context = new_context, co_watcher = False, co_time_service = False\<rparr>
      | RECORD \<Rightarrow> Inl (Runtime_error ''null pointer passed for argument backend_''))"

definition context_start :: "context_object \<Rightarrow> se_error + context_object" where
  "context_start co =
     (if co_watcher co then Inr (co\<lparr>co_context := watcher_start (co_context co)\<rparr>)
      else Inl (Undefined ''null device watcher''))"

definition context_stop :: "context_object \<Rightarrow> se_error + context_object" where
  "context_stop co =
     (if co_watcher co then Inr (co\<lparr>co_context := watcher_stop (co_context co)\<rparr>)
      else Inl (Undefined ''null device watcher''))"

section \<open>Lemmas\<close>

lemma playback_context_cannot_start:
  "new_context_object PLAYBACK = Inr co \<Longrightarrow> context_start co = Inl (Undefined ''null device watcher'')"
  by (auto simp: new_context_object_def context_start_def)

lemma empty_list_back: "list_back fac (Some []) w = (Inl (Undefined ''list[index] past the vector''), w)"
  by (simp add: list_back_def list_size_def list_infos_def list_at_def)

lemma device_info_always_refused: "device_getInfo info = Inl (Runtime_error ''std::exception'')"
  by (simp add: device_getInfo_def device_supports_def container_supportsInfo_def)

lemma device_destroy_keeps_callbacks: "dv_callback_id d = 0 \<Longrightarrow> 0 \<notin> fst ` set (change_callbacks c) \<Longrightarrow> device_destroy d c = c"
proof -
  assume *: "dv_callback_id d = 0" "0 \<notin> fst ` set (change_callbacks c)"
  then have "\<forall>e\<in>set (change_callbacks c). fst e \<noteq> 0" by force
  then have "filter (\<lambda>(k, _). int k \<noteq> 0) (change_callbacks c) = change_callbacks c" by (intro filter_True) auto
  then show ?thesis using *(1) unfolding device_destroy_def unregisterDevicesChangedCallback_def by simp
qed

text \<open>
  An index past the sensors, or a negative one, is undefined: the handler for \<open>std::out_of_range\<close> is
  never reached.
\<close>

lemma assignSensor_never_throws: "assignSensor s i d \<noteq> Inl (Runtime_error e)"
  by (simp add: assignSensor_def)

lemma querySensors_all:
  assumes "dv_sensors d = map Some ss"
  shows "querySensors d = Inr (map (\<lambda>s. \<lparr>sh_options = Some s, sh_sensor = Some s\<rparr>) ss)"
proof -
  have "sensors_from [i..<length ss] d = Inr (map (\<lambda>s. \<lparr>sh_options = Some s, sh_sensor = Some s\<rparr>) (drop i ss))"
    if "i \<le> length ss" for i
    using that
  proof (induction "length ss - i" arbitrary: i)
    case (Suc n)
    then have "i < length ss" "n = length ss - Suc i" by simp_all
    moreover from this have "[i..<length ss] = i # [Suc i..<length ss]" "drop i ss = ss ! i # drop (Suc i) ss"
      by (simp_all add: upt_conv_Cons Cons_nth_drop_Suc)
    ultimately show ?case using Suc.hyps(1) [of "Suc i"] assms by (simp add: getSensor_def)
  qed simp
  from this [of 0] show ?thesis by (simp add: querySensors_def getSensorCount_def assms)
qed

text \<open>Streams registered in turn.\<close>

definition groups_ok :: "device_object \<Rightarrow> bool" where
  "groups_ok d \<longleftrightarrow> omap_ok (dv_extrinsics d)
     \<and> (\<forall>e\<in>set (dv_extrinsics d). \<forall>e'\<in>set (dv_extrinsics d). fst (snd e) = fst (snd e') \<longrightarrow> snd e = snd e')"

lemma set_omap_put: "omap_ok xs \<Longrightarrow> set (omap_put k v xs) \<subseteq> insert (k, v) (set xs)"
  by (induction k v xs rule: omap_put.induct) auto

lemma groups_ok_register:
  assumes "groups_ok d"
  shows "groups_ok (registerStreamToExtrinsicGroup uid g d)"
proof -
  let ?ex = "dv_extrinsics d"
  let ?v = "case find (\<lambda>e. fst (snd e) = g) ?ex of None \<Rightarrow> (g, uid) | Some e \<Rightarrow> snd e"
  have ok: "omap_ok ?ex" and same: "\<And>e e'. e \<in> set ?ex \<Longrightarrow> e' \<in> set ?ex \<Longrightarrow> fst (snd e) = fst (snd e') \<Longrightarrow> snd e = snd e'"
    using assms by (auto simp: groups_ok_def)
  have v: "snd e = ?v" if "e \<in> set ?ex" "fst (snd e) = fst ?v" for e
  proof (cases "find (\<lambda>e. fst (snd e) = g) ?ex")
    case None
    then have "\<forall>x\<in>set ?ex. fst (snd x) \<noteq> g" unfolding find_None_iff by blast
    moreover have "fst ?v = g" unfolding None by simp
    ultimately show ?thesis using that by auto
  next
    case (Some e1)
    then have "e1 \<in> set ?ex" by (auto simp: find_Some_iff)
    with Some that same show ?thesis by simp
  qed
  have mem: "snd e = ?v \<or> e \<in> set ?ex" if "e \<in> set (omap_put uid ?v ?ex)" for e
    using set_omap_put [OF ok, of uid ?v] that by auto
  have "snd e = snd e'" if "e \<in> set (omap_put uid ?v ?ex)" "e' \<in> set (omap_put uid ?v ?ex)" "fst (snd e) = fst (snd e')" for e e'
    using mem [OF that(1)] mem [OF that(2)]
  proof (elim disjE)
    assume "snd e = ?v" "e' \<in> set ?ex"
    then show ?thesis using v [of e'] that(3) by simp
  next
    assume "e \<in> set ?ex" "snd e' = ?v"
    then show ?thesis using v [of e] that(3) by simp
  next
    assume "e \<in> set ?ex" "e' \<in> set ?ex"
    then show ?thesis using same that(3) by blast
  qed simp
  then show ?thesis using ok by (simp add: groups_ok_def registerStreamToExtrinsicGroup_def)
qed

lemma registered_group:
  assumes "groups_ok d"
  shows "\<exists>s. map_of (dv_extrinsics (registerStreamToExtrinsicGroup uid g d)) uid = Some (g, s)"
proof -
  have ok: "omap_ok (dv_extrinsics d)" using assms by (simp add: groups_ok_def)
  have "fst (snd e) = g" if "find (\<lambda>e. fst (snd e) = g) (dv_extrinsics d) = Some e" for e
    using that by (auto simp: find_Some_iff)
  then show ?thesis
    by (auto simp: registerStreamToExtrinsicGroup_def map_of_omap_put [OF ok] split: option.split)
qed

lemma registered_others:
  assumes "groups_ok d" "u \<noteq> uid"
  shows "map_of (dv_extrinsics (registerStreamToExtrinsicGroup uid g d)) u = map_of (dv_extrinsics d) u"
  using assms by (simp add: registerStreamToExtrinsicGroup_def groups_ok_def map_of_omap_put)

lemma registrations_ok:
  "groups_ok d \<Longrightarrow> groups_ok (fold (\<lambda>(u, g). registerStreamToExtrinsicGroup u g) rs d)"
  by (induction rs arbitrary: d) (auto simp: groups_ok_register)

lemma registrations_groups:
  "groups_ok d \<Longrightarrow> map_option fst (map_of (dv_extrinsics (fold (\<lambda>(u, g). registerStreamToExtrinsicGroup u g) rs d)) u)
     = (case map_of (rev rs) u of Some g \<Rightarrow> Some g | None \<Rightarrow> map_option fst (map_of (dv_extrinsics d) u))"
proof (induction rs arbitrary: d)
  case (Cons r rs)
  obtain v g where r: "r = (v, g)" by (cases r)
  let ?d = "registerStreamToExtrinsicGroup v g d"
  have "map_option fst (map_of (dv_extrinsics ?d) u) = (if u = v then Some g else map_option fst (map_of (dv_extrinsics d) u))"
    using registered_group [OF Cons.prems, of v g] registered_others [OF Cons.prems, of u v g] by auto
  then show ?case using Cons.IH [OF groups_ok_register [OF Cons.prems], of v g]
    by (auto simp: r map_add_def split: option.split)
qed simp

section \<open>Properties\<close>

text \<open>Extrinsic groups: after any sequence of registrations, every stream is in the group it was
  last registered for, and two streams of one group have the same key stream.\<close>

theorem extrinsic_groups_share_key:
  assumes "d = fold (\<lambda>(u, g). registerStreamToExtrinsicGroup u g) rs (new_device grp b)"
  shows "map_option fst (map_of (dv_extrinsics d) u) = map_of (rev rs) u
    \<and> (map_of (dv_extrinsics d) u = Some (g, s) \<longrightarrow> map_of (dv_extrinsics d) v = Some (g, t) \<longrightarrow> s = t)"
proof -
  have new: "groups_ok (new_device grp b)" by (simp add: groups_ok_def new_device_def)
  have "groups_ok d" using registrations_ok [OF new] assms by simp
  then have "s = t" if "map_of (dv_extrinsics d) u = Some (g, s)" "map_of (dv_extrinsics d) v = Some (g, t)"
    using that by (fastforce simp: groups_ok_def dest!: map_of_SomeD)
  moreover have "map_option fst (map_of (dv_extrinsics d) u) = map_of (rev rs) u"
    using registrations_groups [OF new, of rs u] assms by (auto simp: new_device_def split: option.splits)
  ultimately show ?thesis by blast
qed

theorem extrinsic_groups_share_key_witness:
  "map_of (dv_extrinsics (fold (\<lambda>(u, g). registerStreamToExtrinsicGroup u g) [(1, 7), (2, 8), (3, 7)]
      (new_device \<lparr>usb_devices = [], playback_devices = []\<rparr> False))) 3 = Some (7, 1)"
proof -
  let ?d = "fold (\<lambda>(u, g). registerStreamToExtrinsicGroup u g) [(1, 7), (2, 8), (3, 7)]
      (new_device \<lparr>usb_devices = [], playback_devices = []\<rparr> False)"
  have one: "map_of (dv_extrinsics ?d) 1 = Some (7, 1)"
    by (simp add: registerStreamToExtrinsicGroup_def new_device_def)
  note w = extrinsic_groups_share_key [OF refl, of "[(1, 7), (2, 8), (3, 7)]" "\<lparr>usb_devices = [], playback_devices = []\<rparr>" False]
  have "map_option fst (map_of (dv_extrinsics ?d) 3) = Some 7" using w [of 3 7 1 3 1] by simp
  then obtain t where "map_of (dv_extrinsics ?d) 3 = Some (7, t)" by auto
  moreover from this have "1 = t" using w [of 1 7 1 3 t] one by blast
  ultimately show ?thesis by simp
qed

text \<open>Going through a list of devices creates each device once, in the order of the list, and gives
  it the info it was made from; the list contains each of them.\<close>

theorem device_list_creates_all:
  assumes "\<forall>i\<in>set ds. \<forall>w. make_device fac i w = (Inr (mk i), upd i w)" and "length ds < 2 ^ 31"
  shows "list_to_vector fac (Some ds) w
      = (Inr (map (\<lambda>i. \<lparr>dh_info = Some i, dh_device = mk i\<rparr>) ds), fold upd ds w)
    \<and> list_all (\<lambda>i. list_contains \<lparr>dh_info = Some i, dh_device = mk i\<rparr> (Some ds) = Inr True) ds"
proof -
  have "list_devices fac (map of_nat [i..<length ds]) (Some ds) w
      = (Inr (map (\<lambda>i. \<lparr>dh_info = Some i, dh_device = mk i\<rparr>) (drop i ds)), fold upd (drop i ds) w)"
    if "i \<le> length ds" for i w
    using that
  proof (induction "length ds - i" arbitrary: i w)
    case (Suc n)
    then have i: "i < length ds" "n = length ds - Suc i" by simp_all
    then have u: "unat (of_nat i :: u32) = i" using assms(2) by (simp add: unat_of_nat)
    have "[i..<length ds] = i # [Suc i..<length ds]" "drop i ds = ds ! i # drop (Suc i) ds"
      using i by (simp_all add: upt_conv_Cons Cons_nth_drop_Suc)
    then show ?case using Suc.hyps(1) [of "Suc i"] i u assms(1)
      by (simp add: list_at_def list_infos_def)
  qed simp
  from this [of 0 w] have "list_to_vector fac (Some ds) w
      = (Inr (map (\<lambda>i. \<lparr>dh_info = Some i, dh_device = mk i\<rparr>) ds), fold upd ds w)"
    by (simp add: list_to_vector_def list_size_def list_infos_def)
  moreover have "group_eq g g" for g
    by (auto simp: group_eq_def listChanged_def list_all_iff list_ex_iff usb_info_eq_def)
  then have "list_all (\<lambda>i. list_contains \<lparr>dh_info = Some i, dh_device = mk i\<rparr> (Some ds) = Inr True) ds"
    by (auto simp: list_all_iff list_contains_def list_infos_def info_in_def list_ex_iff)
  ultimately show ?thesis by blast
qed

theorem device_list_creates_all_witness:
  "list_to_vector one_device (Some [Gemini_info 4 camera]) 0
    = (Inr [\<lparr>dh_info = Some (Gemini_info 4 camera), dh_device = Gemini_info 4 camera\<rparr>], 1)"
  using device_list_creates_all [of "[Gemini_info 4 camera]" one_device id "\<lambda>_ n. n + 1" 0]
  by (simp add: one_device_def)

text \<open>C25: An event of the context tells cameras by vendor and product id only.  A handle of a camera,
  one of a device list or one of the pipeline's active profile, is reported as removed exactly by the
  events for the last camera that left, and as added exactly by the events for the first one that came,
  whichever camera the handle is of.\<close>

theorem camera_events_name_every_camera:
  assumes "addrs_below c" and "is_gemini u"
    and "dh_info h = Some (Gemini_info a u) \<or> h = readonly_handle a \<lparr>usb_devices = [u], playback_devices = []\<rparr> d"
    and "ev \<in> set (fst (onDeviceChanged old now (playback_map c) (playback_map c) c))"
  shows "wasRemoved (Some h) ev = (list_ex is_gemini old \<and> \<not> list_ex is_gemini now)
    \<and> wasAdded (Some h) ev = (list_ex is_gemini now \<and> \<not> list_ex is_gemini old)"
proof -
  obtain i where i: "dh_info h = Some i" "getDeviceData i = getDeviceData (Gemini_info a u)"
    using assms(3) by (auto simp: readonly_handle_def)
  have p: "info_in h (pickup k us) = list_ex is_gemini us" for k us
  proof (cases "find is_gemini us")
    case None
    then have "\<not> list_ex is_gemini us" unfolding find_None_iff list_ex_iff by blast
    with None show ?thesis by (simp add: pickup_def info_in_def i(1))
  next
    case (Some x)
    then have x: "is_gemini x" "list_ex is_gemini us" by (auto simp: find_Some_iff list_ex_iff)
    then have "usb_info_eq u x" using assms(2) by (simp add: usb_info_eq_def is_gemini_def)
    then have "group_eq (getDeviceData (Gemini_info a u)) (getDeviceData (Gemini_info k x))"
      by (simp add: group_eq_def listChanged_def)
    then show ?thesis using Some x(2) by (simp add: pickup_def info_in_def i)
  qed
  obtain f where "list_ex is_gemini old \<noteq> list_ex is_gemini now"
    "ev = (f, pickup (next_addr c) old, pickup (next_addr c + 1) now)"
    using assms(4) by (auto simp: onDeviceChanged_events [OF assms(1)] split: if_splits)
  then show ?thesis using p by (auto simp: wasRemoved_def wasAdded_def)
qed

theorem camera_events_name_every_camera_witness:
  "wasRemoved (Some (readonly_handle 9 (getDeviceData (Gemini_info 2 camera)) ())) (5, [Gemini_info 0 camera], [])"
proof -
  let ?c = "new_context\<lparr>change_callbacks := [(1, 5)]\<rparr>"
  have a: "addrs_below ?c" by (simp add: addrs_below_def new_context_def live_playback_def List.map_filter_def)
  have "fst (onDeviceChanged [camera] [] (playback_map ?c) (playback_map ?c) ?c) = [(5, [Gemini_info 0 camera], [])]"
    unfolding onDeviceChanged_events [OF a] by (simp add: pickup_def new_context_def)
  then show ?thesis
    using camera_events_name_every_camera [OF a, of camera "readonly_handle 9 (getDeviceData (Gemini_info 2 camera)) ()" 9 "()"
        "(5, [Gemini_info 0 camera], [])" "[camera]" "[]"] by simp
qed

end
