(* ===== verification/Sensor_Api.thy ===== *)
theory Sensor_Api
  imports Gemini_Sensor Device_Registry Option_Objects
begin

text \<open>
  The handles of the application on profiles and sensors: \<open>se2::StreamProfile\<close> with its video and motion
  views (\<open>streaming/stream_profile.cc\<close>, \<open>include/smartereye2/streaming/stream_profile.hpp\<close>) and
  \<open>se2::Sensor\<close> (\<open>sensor/sensor.cc\<close>, \<open>include/smartereye2/sensor/sensor.hpp\<close>) on the model of the
  Gemini sensor.
\<close>

section \<open>Handles on profiles\<close>

text \<open>
  A \<open>StreamProfile\<close> is a plain pointer; it does not keep its object alive.  The profile objects that live
  are a map from addresses.
\<close>

type_synonym profile_heap = "nat \<rightharpoonup> stream_profile"

type_synonym profile_handle = "nat option"

definition no_profile :: profile_handle where
  "no_profile = None"

definition new_StreamProfile :: "nat option option \<Rightarrow> se_error + profile_handle" where
  "new_StreamProfile sp =
     (case sp of
        None \<Rightarrow> Inl (Runtime_error ''null pointer passed for argument profile'')
      | Some None \<Rightarrow> Inl (Runtime_error ''null pointer passed for argument profile->profile'')
      | Some (Some a) \<Rightarrow> Inr (Some a))"

definition profile_at :: "profile_heap \<Rightarrow> profile_handle \<Rightarrow> se_error + stream_profile" where
  "profile_at H h =
     (case h of
        None \<Rightarrow> Inl (Undefined ''null profile_'')
      | Some a \<Rightarrow> (case H a of None \<Rightarrow> Inl (Undefined ''use of a freed profile'') | Some p \<Rightarrow> Inr p))"

definition profile_get :: "(stream_profile \<Rightarrow> 'a) \<Rightarrow> profile_heap \<Rightarrow> profile_handle \<Rightarrow> se_error + 'a" where
  "profile_get f H h = bind_result (profile_at H h) (\<lambda>p. Inr (f p))"

definition profile_index :: "profile_heap \<Rightarrow> profile_handle \<Rightarrow> se_error + int" where
  "profile_index = profile_get sp_index"

definition profile_uniqueId :: "profile_heap \<Rightarrow> profile_handle \<Rightarrow> se_error + int" where
  "profile_uniqueId = profile_get sp_uid"

definition profile_frameId :: "profile_heap \<Rightarrow> profile_handle \<Rightarrow> se_error + frame_id" where
  "profile_frameId = profile_get sp_frame_id"

definition profile_format :: "profile_heap \<Rightarrow> profile_handle \<Rightarrow> se_error + frame_format" where
  "profile_format = profile_get sp_format"

definition profile_fps :: "profile_heap \<Rightarrow> profile_handle \<Rightarrow> se_error + u32" where
  "profile_fps = profile_get sp_fps"

definition profile_getIntrinsics :: "profile_heap \<Rightarrow> profile_handle \<Rightarrow> se_error + u8 list option" where
  "profile_getIntrinsics = profile_get sp_intrinsics"

definition profile_getExtrinsics :: "profile_heap \<Rightarrow> profile_handle \<Rightarrow> se_error + u8 list option" where
  "profile_getExtrinsics = profile_get sp_extrinsics"

text \<open>\<open>a && rest\<close>: the right side is evaluated only when the left side is true.\<close>

definition and_then :: "se_error + bool \<Rightarrow> se_error + bool \<Rightarrow> se_error + bool" where
  "and_then a b = bind_result a (\<lambda>x. if x then b else Inr False)"

definition same_field :: "(profile_handle \<Rightarrow> se_error + 'a) \<Rightarrow> profile_handle \<Rightarrow> profile_handle \<Rightarrow> se_error + bool" where
  "same_field f h k = bind_result (f h) (\<lambda>x. bind_result (f k) (\<lambda>y. Inr (x = y)))"

definition profile_eq :: "profile_heap \<Rightarrow> profile_handle \<Rightarrow> profile_handle \<Rightarrow> se_error + bool" where
  "profile_eq H h k =
     and_then (same_field (profile_index H) h k)
      (and_then (same_field (profile_frameId H) h k)
        (and_then (same_field (profile_format H) h k) (same_field (profile_fps H) h k)))"

text \<open>The views: the cast of a null pointer is null.\<close>

fun is_video :: "profile_kind \<Rightarrow> bool" where
  "is_video (Video_profile _ _) = True"
| "is_video _ = False"

fun is_motion :: "profile_kind \<Rightarrow> bool" where
  "is_motion (Motion_profile _) = True"
| "is_motion _ = False"

definition profile_cast :: "(profile_kind \<Rightarrow> bool) \<Rightarrow> profile_heap \<Rightarrow> profile_handle \<Rightarrow> se_error + stream_profile option" where
  "profile_cast kind H h =
     (case h of
        None \<Rightarrow> Inr None
      | Some _ \<Rightarrow> bind_result (profile_at H h) (\<lambda>p. Inr (if kind (sp_kind p) then Some p else None)))"

definition new_VideoStreamProfile :: "profile_heap \<Rightarrow> profile_handle \<Rightarrow> se_error + profile_handle" where
  "new_VideoStreamProfile H h =
     bind_result (profile_cast is_video H h) (\<lambda>vsp.
       if vsp = None then Inl (Runtime_error ''null pointer passed for argument vsp'') else Inr h)"

definition new_MotionStreamProfile :: "profile_heap \<Rightarrow> profile_handle \<Rightarrow> se_error + profile_handle" where
  "new_MotionStreamProfile H h =
     bind_result (profile_cast is_motion H h) (\<lambda>msp.
       if msp = None then Inl (Runtime_error ''null pointer passed for argument msp'') else Inr h)"

definition video_dims :: "profile_heap \<Rightarrow> profile_handle \<Rightarrow> se_error + int \<times> int" where
  "video_dims H h =
     bind_result (profile_cast is_video H h) (\<lambda>vsp.
       case map_option sp_kind vsp of
         Some (Video_profile w ht) \<Rightarrow> Inr (w, ht)
       | _ \<Rightarrow> Inl (Undefined ''null video profile''))"

definition profile_width :: "profile_heap \<Rightarrow> profile_handle \<Rightarrow> se_error + int" where
  "profile_width H h = bind_result (video_dims H h) (\<lambda>d. Inr (fst d))"

definition profile_height :: "profile_heap \<Rightarrow> profile_handle \<Rightarrow> se_error + int" where
  "profile_height H h = bind_result (video_dims H h) (\<lambda>d. Inr (snd d))"

definition getMotionIntrinsics :: "profile_heap \<Rightarrow> profile_handle \<Rightarrow> se_error + u8 list" where
  "getMotionIntrinsics H h =
     bind_result (profile_cast is_motion H h) (\<lambda>msp.
       case map_option sp_kind msp of
         Some (Motion_profile mi) \<Rightarrow> Inr mi
       | _ \<Rightarrow> Inl (Undefined ''null motion profile''))"

section \<open>The handle on a sensor\<close>

text \<open>
  The sensor behind the handle may be missing.  \<open>open\<close> first takes the shared pointer of each profile,
  then reaches for the sensor.
\<close>

definition on_sensor :: "gemini_sensor option \<Rightarrow> (gemini_sensor \<Rightarrow> se_error + 'a) \<Rightarrow> se_error + 'a" where
  "on_sensor r f = (case r of None \<Rightarrow> Inl (Undefined ''null sensor_'') | Some sn \<Rightarrow> f sn)"

fun requests_of :: "profile_heap \<Rightarrow> profile_handle list \<Rightarrow> se_error + stream_profile list" where
  "requests_of H [] = Inr []"
| "requests_of H (h # hs) = bind_result (profile_at H h) (\<lambda>p. bind_result (requests_of H hs) (\<lambda>ps. Inr (p # ps)))"

definition Sensor_open ::
    "'s gemini \<Rightarrow> profile_heap \<Rightarrow> profile_handle list \<Rightarrow> gemini_sensor option \<Rightarrow> store \<Rightarrow> 's
      \<Rightarrow> se_error + gemini_sensor \<times> store \<times> 's \<times> sensor_action list" where
  "Sensor_open g H hs r st s = bind_result (requests_of H hs) (\<lambda>rq. on_sensor r (\<lambda>sn. sensor_open g rq sn st s))"

definition Sensor_open_one ::
    "'s gemini \<Rightarrow> profile_heap \<Rightarrow> profile_handle \<Rightarrow> gemini_sensor option \<Rightarrow> store \<Rightarrow> 's
      \<Rightarrow> se_error + gemini_sensor \<times> store \<times> 's \<times> sensor_action list" where
  "Sensor_open_one g H h r st s = bind_result (profile_at H h) (\<lambda>p. on_sensor r (\<lambda>sn. sensor_open g [p] sn st s))"

definition Sensor_close :: "gemini_sensor option \<Rightarrow> se_error + gemini_sensor \<times> sensor_action list" where
  "Sensor_close r = on_sensor r sensor_close"

definition Sensor_start :: "nat option \<Rightarrow> gemini_sensor option \<Rightarrow> gemini_sensor option" where
  "Sensor_start callback r = r"

definition Sensor_stop :: "gemini_sensor option \<Rightarrow> gemini_sensor option" where
  "Sensor_stop r = r"

text \<open>
  The lists of handles.  \<open>ps\<close> are the addresses of the profiles the sensor answers with; a profile that the
  sensor holds as a null pointer is refused by the constructor of the handle.
\<close>

fun handles_of :: "nat option list \<Rightarrow> se_error + profile_handle list" where
  "handles_of [] = Inr []"
| "handles_of (p # ps) = bind_result (new_StreamProfile (Some p)) (\<lambda>h. bind_result (handles_of ps) (\<lambda>hs. Inr (h # hs)))"

definition Sensor_getStreamProfiles :: "nat option list \<Rightarrow> gemini_sensor option \<Rightarrow> se_error + profile_handle list" where
  "Sensor_getStreamProfiles ps r = on_sensor r (\<lambda>_. handles_of ps)"

definition Sensor_getActiveStreams :: "nat option list \<Rightarrow> gemini_sensor option \<Rightarrow> se_error + profile_handle list" where
  "Sensor_getActiveStreams ps r = on_sensor r (\<lambda>_. handles_of ps)"

definition Sensor_supports :: "gemini_sensor option \<Rightarrow> nat \<Rightarrow> se_error + bool" where
  "Sensor_supports r info = on_sensor r (\<lambda>_. Inr (container_supportsInfo info))"

definition Sensor_getInfo :: "gemini_sensor option \<Rightarrow> nat \<Rightarrow> se_error + string" where
  "Sensor_getInfo r info = on_sensor r (\<lambda>_. Inr (container_getInfo info))"

section \<open>Lemmas\<close>

lemma handles_of_alive: "handles_of (map Some addrs) = Inr (map Some addrs)"
  by (induction addrs) (simp_all add: new_StreamProfile_def)

lemma requests_of_alive: "map H addrs = map Some ps \<Longrightarrow> requests_of H (map Some addrs) = Inr ps"
proof (induction addrs arbitrary: ps)
  case (Cons a addrs)
  then show ?case by (cases ps) (auto simp: profile_at_def)
qed simp

section \<open>Properties\<close>

text \<open>The profiles a sensor answers with open it: \<open>open\<close> with the handles of
  \<open>getStreamProfiles\<close>, all on live profiles, is the sensor's \<open>open\<close> with exactly these profiles; with a null
  handle among them it is undefined, and the sensor is not reached.\<close>

theorem sensor_handle_opens:
  assumes "map H addrs = map Some ps" and "Sensor_getStreamProfiles (map Some addrs) (Some sn) = Inr hs"
  shows "Sensor_open g H hs (Some sn) st s = sensor_open g ps sn st s
    \<and> Sensor_open g H (hs @ None # hs') (Some sn) st s = Inl (Undefined ''null profile_'')"
proof -
  have hs: "hs = map Some addrs"
    using assms(2) by (simp add: Sensor_getStreamProfiles_def on_sensor_def handles_of_alive)
  have "requests_of H (map Some addrs @ None # hs') = Inl (Undefined ''null profile_'')"
    using assms(1)
  proof (induction addrs arbitrary: ps)
    case (Cons a addrs)
    then show ?case by (cases ps) (auto simp: profile_at_def)
  qed (simp add: profile_at_def)
  then show ?thesis using requests_of_alive [OF assms(1)] by (simp add: Sensor_open_def on_sensor_def hs)
qed

theorem sensor_handle_opens_witness:
  "Sensor_open dead_gemini [1 \<mapsto> new_profile Base_profile] [Some 1, None] (Some (tiny_sensor [])) [] () = Inl (Undefined ''null profile_'')"
  using sensor_handle_opens [of "[1 \<mapsto> new_profile Base_profile]" "[1]" "[new_profile Base_profile]" "tiny_sensor []" "[Some 1]" dead_gemini "[]" "()" "[]"]
  by (simp add: Sensor_getStreamProfiles_def on_sensor_def new_StreamProfile_def)

text \<open>Two handles on live profiles are equal when index, frame id, format and rate agree; the
  dimensions do not matter.  A comparison with an empty handle is undefined.\<close>

theorem profile_equality:
  assumes "H a = Some p" and "H b = Some q"
  shows "profile_eq H (Some a) (Some b)
      = Inr (sp_index p = sp_index q \<and> sp_frame_id p = sp_frame_id q \<and> sp_format p = sp_format q \<and> sp_fps p = sp_fps q)
    \<and> profile_eq H (Some a) no_profile = Inl (Undefined ''null profile_'')"
  using assms
  by (simp add: profile_eq_def and_then_def same_field_def profile_index_def profile_frameId_def profile_format_def
      profile_fps_def profile_get_def profile_at_def no_profile_def)

theorem profile_equality_witness:
  "profile_eq [1 \<mapsto> new_profile (Video_profile 640 480), 2 \<mapsto> new_profile (Video_profile 1280 720)] (Some 1) (Some 2) = Inr True"
  using profile_equality [of "[1 \<mapsto> new_profile (Video_profile 640 480), 2 \<mapsto> new_profile (Video_profile 1280 720)]" 1
      "new_profile (Video_profile 640 480)" 2 "new_profile (Video_profile 1280 720)"]
  by (simp add: new_profile_def)

end
