(* ===== verification/Recording.thy ===== *)
theory Recording
  imports Frame_Refs Option_Objects Device_Registry
begin

text \<open>
  Recording and playback (\<open>src/mock/record/record.h\<close>, \<open>record.cc\<close>, \<open>src/mock/playback/playback.cc\<close>) and
  the values a recording is made of (\<open>src/streaming/serialization.h\<close>).  What the repository has of
  them: lists of device infos appended to one vector and read back by range, blobs, identifiers of
  streams with their order and their text, records with a dynamic type, and the watcher that replays
  changes of devices.
\<close>

section \<open>Identifiers of streams\<close>

datatype sensor_identifier = Sensor_identifier (si_device: u32) (si_sensor: u32)

datatype stream_identifier =
  Stream_identifier (sti_device: u32) (sti_sensor: u32) (sti_frame: frame_id) (sti_index: u32)

text \<open>\<open>operator<\<close> compares the tuples.\<close>

definition id_tuple :: "stream_identifier \<Rightarrow> nat list" where
  "id_tuple i = [unat (sti_device i), unat (sti_sensor i), unat (sti_frame i), unat (sti_index i)]"

lemma id_tuple_eq: "id_tuple a = id_tuple b \<longleftrightarrow> a = b"
  by (cases a; cases b) (simp add: id_tuple_def word_unat_eq_iff)

fun tuple_less :: "nat list \<Rightarrow> nat list \<Rightarrow> bool" where
  "tuple_less (x # xs) (y # ys) = (x < y \<or> x = y \<and> tuple_less xs ys)"
| "tuple_less _ _ = False"

lemma tuple_less_irrefl: "\<not> tuple_less xs xs"
  by (induction xs) auto

lemma tuple_less_trans: "tuple_less xs ys \<Longrightarrow> tuple_less ys zs \<Longrightarrow> tuple_less xs zs"
proof (induction xs ys arbitrary: zs rule: tuple_less.induct)
  case (1 x xs y ys)
  then show ?case by (cases zs) auto
qed auto

lemma tuple_less_total: "length xs = length ys \<Longrightarrow> xs \<noteq> ys \<Longrightarrow> tuple_less xs ys \<or> tuple_less ys xs"
proof (induction xs arbitrary: ys)
  case (Cons x xs)
  then show ?case by (cases ys) auto
qed simp

text \<open>\<open>operator<\<close> of the stream identifiers: \<open>std::tie\<close> of the four numbers compared as tuples.\<close>
definition stream_id_less :: "stream_identifier \<Rightarrow> stream_identifier \<Rightarrow> bool" where
  "stream_id_less a b \<longleftrightarrow> tuple_less (id_tuple a) (id_tuple b)"

instantiation stream_identifier :: linorder
begin

definition less_stream_identifier :: "stream_identifier \<Rightarrow> stream_identifier \<Rightarrow> bool" where
  "a < b \<longleftrightarrow> stream_id_less a b"

definition less_eq_stream_identifier :: "stream_identifier \<Rightarrow> stream_identifier \<Rightarrow> bool" where
  "a \<le> b \<longleftrightarrow> a = b \<or> tuple_less (id_tuple a) (id_tuple b)"

instance
proof
  fix a b c :: stream_identifier
  show "a < b \<longleftrightarrow> a \<le> b \<and> \<not> b \<le> a"
    using tuple_less_irrefl tuple_less_trans by (auto simp: less_stream_identifier_def stream_id_less_def less_eq_stream_identifier_def)
  show "a \<le> a" by (simp add: less_eq_stream_identifier_def)
  show "a \<le> b \<Longrightarrow> b \<le> c \<Longrightarrow> a \<le> c" using tuple_less_trans by (auto simp: less_eq_stream_identifier_def)
  show "a \<le> b \<Longrightarrow> b \<le> a \<Longrightarrow> a = b"
    using tuple_less_irrefl tuple_less_trans by (auto simp: less_eq_stream_identifier_def)
  show "a \<le> b \<or> b \<le> a"
    using tuple_less_total [of "id_tuple a" "id_tuple b"] id_tuple_eq [of a b]
    by (auto simp: less_eq_stream_identifier_def id_tuple_def)
qed

end

definition stream_id_eq :: "stream_identifier \<Rightarrow> stream_identifier \<Rightarrow> bool" where
  "stream_id_eq a b \<longleftrightarrow> sti_device a = sti_device b \<and> sti_sensor a = sti_sensor b \<and> sti_frame a = sti_frame b
     \<and> sti_index a = sti_index b"

text \<open>\<open>operator<<\<close>: decimal numbers, the frame id as a signed one, with slashes between them.\<close>

definition digit :: "nat \<Rightarrow> char" where
  "digit d = char_of (48 + d)"

fun dec :: "nat \<Rightarrow> string" where
  "dec n = (if n < 10 then [digit n] else dec (n div 10) @ [digit (n mod 10)])"

declare dec.simps [simp del]

definition dec_int :: "int \<Rightarrow> string" where
  "dec_int i = (if i < 0 then CHR ''-'' # dec (nat (- i)) else dec (nat i))"

definition print_id :: "stream_identifier \<Rightarrow> string" where
  "print_id i = dec (unat (sti_device i)) @ ''/'' @ dec (unat (sti_sensor i)) @ ''/''
     @ dec_int (sint (sti_frame i)) @ ''/'' @ dec (unat (sti_index i))"

section \<open>Recorded values\<close>

text \<open>The classes of \<open>serialized_data\<close>, with their members; all but the end of file have a time.\<close>

datatype serialized_type = ST_invalid | ST_end_of_file | ST_frame | ST_option | ST_invalid_frame | ST_notificaion | ST_max

datatype serialized_data =
    Serialized_frame u64 stream_identifier "addr option"
  | Serialized_invalid_frame u64 stream_identifier
  | Serialized_option u64 sensor_identifier option_key "nat option"
  | Serialized_end_of_file
  | Serialized_notification u64 sensor_identifier nat

fun sd_type :: "serialized_data \<Rightarrow> serialized_type" where
  "sd_type (Serialized_frame _ _ _) = ST_frame"
| "sd_type (Serialized_invalid_frame _ _) = ST_invalid_frame"
| "sd_type (Serialized_option _ _ _ _) = ST_option"
| "sd_type Serialized_end_of_file = ST_end_of_file"
| "sd_type (Serialized_notification _ _ _) = ST_notificaion"

fun get_timestamp :: "serialized_data \<Rightarrow> u64" where
  "get_timestamp (Serialized_frame t _ _) = t"
| "get_timestamp (Serialized_invalid_frame t _) = t"
| "get_timestamp (Serialized_option t _ _ _) = t"
| "get_timestamp Serialized_end_of_file = 0"
| "get_timestamp (Serialized_notification t _ _) = t"

text \<open>The template parameter of \<open>is\<close> and \<open>as\<close> is a class, given by the value of its \<open>get_type()\<close>.\<close>

definition sd_is :: "serialized_type \<Rightarrow> serialized_data \<Rightarrow> bool" where
  "sd_is t d \<longleftrightarrow> t = sd_type d"

definition sd_as :: "serialized_type \<Rightarrow> serialized_data \<Rightarrow> serialized_data option" where
  "sd_as t d =
     (if \<not> sd_is t d then None
      else if t \<in> {ST_end_of_file, ST_frame, ST_option, ST_notificaion} then Some d else None)"

section \<open>Recordings\<close>

record recording =
  rec_blobs :: "u8 list list"
  rec_infos :: "usb_info list"

definition new_recording :: recording where
  "new_recording = \<lparr>rec_blobs = [], rec_infos = []\<rparr>"

text \<open>Sizes are converted to signed ints.\<close>

definition to_int :: "nat \<Rightarrow> int" where
  "to_int n = sint (of_nat n :: u32)"

fun push_all :: "'a list \<Rightarrow> 'a list \<Rightarrow> 'a list" where
  "push_all [] target = target"
| "push_all (x # xs) target = push_all xs (target @ [x])"

definition insertList :: "'a list \<Rightarrow> 'a list \<Rightarrow> (int \<times> int) \<times> 'a list" where
  "insertList xs target =
     (let first = to_int (length target); target' = push_all xs target
      in ((first, to_int (length target')), target'))"

function load_from :: "'a list \<Rightarrow> int \<Rightarrow> int \<Rightarrow> se_error + 'a list" where
  "load_from source i j =
     (if i < j
      then (if 0 \<le> i \<and> nat i < length source
            then bind_result (load_from source (i + 1) j) (\<lambda>xs. Inr (source ! nat i # xs))
            else Inl (Undefined ''source[i] past the vector''))
      else Inr [])"
  by pat_completeness auto
termination by (relation "measure (\<lambda>(_, i, j). nat (j - i))") auto

declare load_from.simps [simp del]

definition loadList :: "'a list \<Rightarrow> int \<Rightarrow> int \<Rightarrow> se_error + 'a list" where
  "loadList source range_start range_end = load_from source range_start range_end"

text \<open>\<open>saveBlob\<close> copies the bytes to a local vector and gives zero.\<close>

definition saveBlob :: "u8 list \<Rightarrow> recording \<Rightarrow> int \<times> recording" where
  "saveBlob bytes r = (0, r)"

definition load_blob :: "int \<Rightarrow> recording \<Rightarrow> se_error + u8 list" where
  "load_blob i r =
     (if 0 \<le> i \<and> nat i < length (rec_blobs r) then Inr (rec_blobs r ! nat i)
      else Inl (Undefined ''blobs_[id] past the vector''))"

text \<open>\<open>load\<close> only looks whether the file exists.\<close>

definition recording_load :: "(string \<Rightarrow> bool) \<Rightarrow> string \<Rightarrow> se_error + recording" where
  "recording_load exists filename =
     (if \<not> exists filename then Inl (Runtime_error ''Recording file not found!'') else Inr new_recording)"

section \<open>The watcher of a playback\<close>

text \<open>What it does with its dispatcher; a raised change is a task that calls the callback.\<close>

datatype dispatcher_act = Disp_start | Disp_stop | Disp_invoke device_group device_group

record playback_watcher =
  pw_alive :: bool
  pw_callback :: "nat option"

definition new_playback_watcher :: playback_watcher where
  "new_playback_watcher = \<lparr>pw_alive = False, pw_callback = None\<rparr>"

definition pw_stop :: "playback_watcher \<Rightarrow> playback_watcher \<times> dispatcher_act list" where
  "pw_stop w = (if pw_alive w then (w\<lparr>pw_alive := False\<rparr>, [Disp_stop]) else (w, []))"

definition pw_start :: "nat option \<Rightarrow> playback_watcher \<Rightarrow> playback_watcher \<times> dispatcher_act list" where
  "pw_start cb w =
     (case pw_stop w of (w1, acts) \<Rightarrow> (w1\<lparr>pw_callback := cb, pw_alive := True\<rparr>, acts @ [Disp_start]))"

definition raiseCallback :: "device_group \<Rightarrow> device_group \<Rightarrow> playback_watcher \<Rightarrow> playback_watcher \<times> dispatcher_act list" where
  "raiseCallback old now w = (w, [Disp_invoke old now])"

text \<open>The task when it runs: an empty \<open>std::function\<close> throws.\<close>

definition pw_task :: "playback_watcher \<Rightarrow> se_error + nat" where
  "pw_task w = (case pw_callback w of None \<Rightarrow> Inl (Runtime_error ''bad_function_call'') | Some f \<Rightarrow> Inr f)"

section \<open>Lemmas\<close>

lemma push_all_append: "push_all xs target = target @ xs"
  by (induction xs arbitrary: target) auto

lemma to_int_small: "n < 2 ^ 31 \<Longrightarrow> to_int n = int n"
  by (simp add: to_int_def sint_uint unsigned_of_nat signed_take_bit_int_eq_self take_bit_nat_eq_self)

lemma load_from_slice:
  "i + length xs \<le> length source \<Longrightarrow> take (length xs) (drop i source) = xs \<Longrightarrow>
   load_from source (int i) (int (i + length xs)) = Inr xs"
proof (induction xs arbitrary: i)
  case Nil
  then show ?case by (simp add: load_from.simps)
next
  case (Cons x xs)
  have i: "i < length source" using Cons.prems(1) by simp
  then have d: "drop i source = source ! i # drop (Suc i) source" by (simp add: Cons_nth_drop_Suc)
  then have x: "source ! i = x" "take (length xs) (drop (Suc i) source) = xs" using Cons.prems(2) by simp_all
  have "load_from source (int (Suc i)) (int (Suc i + length xs)) = Inr xs"
    using Cons.prems(1) x(2) by (intro Cons.IH) simp_all
  then have "load_from source (int i + 1) (int (i + length (x # xs))) = Inr xs" by (simp add: ac_simps)
  then show ?case using i x(1) by (subst load_from.simps) simp
qed

text \<open>Lists inserted one after the other, with their ranges.\<close>

fun insert_lists :: "'a list list \<Rightarrow> 'a list \<Rightarrow> (int \<times> int) list \<times> 'a list" where
  "insert_lists [] target = ([], target)"
| "insert_lists (xs # xss) target =
     (case insertList xs target of
        (r, target1) \<Rightarrow> (case insert_lists xss target1 of (rs, target2) \<Rightarrow> (r # rs, target2)))"

lemma insert_lists_target: "snd (insert_lists xss target) = target @ concat xss"
proof (induction xss arbitrary: target)
  case (Cons xs xss)
  from Cons [of "target @ xs"] show ?case
    by (auto simp: insertList_def push_all_append Let_def split: prod.splits)
qed simp

lemma insert_lists_loaded:
  "length (target @ concat xss) < 2 ^ 31 \<Longrightarrow>
   list_all2 (\<lambda>r xs. loadList (target @ concat xss) (fst r) (snd r) = Inr xs) (fst (insert_lists xss target)) xss"
proof (induction xss arbitrary: target)
  case (Cons xs xss)
  let ?r = "(to_int (length target), to_int (length (target @ xs)))"
  have "list_all2 (\<lambda>r ys. loadList (target @ xs @ concat xss) (fst r) (snd r) = Inr ys)
      (fst (insert_lists xss (target @ xs))) xss" using Cons.IH [of "target @ xs"] Cons.prems by simp
  moreover have "fst (insert_lists (xs # xss) target) = ?r # fst (insert_lists xss (target @ xs))"
    by (simp add: insertList_def push_all_append Let_def split: prod.split)
  moreover have "loadList (target @ xs @ concat xss) (fst ?r) (snd ?r) = Inr xs"
    using load_from_slice [of "length target" xs "target @ xs @ concat xss"] Cons.prems
    by (simp add: loadList_def to_int_small)
  ultimately show ?case by simp
qed simp

text \<open>Decimal numbers.\<close>

definition undec :: "string \<Rightarrow> nat" where
  "undec s = fold (\<lambda>c n. 10 * n + (of_char c - 48)) s 0"

lemma undec_snoc: "undec (s @ [c]) = 10 * undec s + (of_char c - 48)"
  by (simp add: undec_def)

lemma of_digit: "d < 10 \<Longrightarrow> (of_char (digit d) :: nat) = 48 + d"
  by (simp add: digit_def)

lemma undec_dec [simp]: "undec (dec n) = n"
proof (induction n rule: dec.induct)
  case (1 n)
  show ?case
  proof (cases "n < 10")
    case True
    then show ?thesis using undec_snoc [of "[]" "digit n"] by (subst dec.simps) (simp add: of_digit undec_def)
  next
    case False
    then have "dec n = dec (n div 10) @ [digit (n mod 10)]" by (subst dec.simps) simp
    with 1 False show ?thesis by (simp add: undec_snoc of_digit)
  qed
qed

lemma dec_chars: "c \<in> set (dec n) \<Longrightarrow> 48 \<le> (of_char c :: nat)"
proof (induction n rule: dec.induct)
  case (1 n)
  then show ?case by (subst (asm) dec.simps) (auto simp: of_digit split: if_splits)
qed

lemma dec_no_slash: "CHR ''/'' \<notin> set (dec n)" "CHR ''-'' \<notin> set (dec n)"
  using dec_chars [of "CHR ''/''" n] dec_chars [of "CHR ''-''" n] by auto

lemma dec_int_no_slash: "CHR ''/'' \<notin> set (dec_int i)"
  using dec_no_slash by (simp add: dec_int_def)

lemma dec_int_eq: "dec_int i = dec_int j \<longleftrightarrow> i = j"
proof
  assume eq: "dec_int i = dec_int j"
  have "k = (if hd (dec_int k) = CHR ''-'' then - int (undec (tl (dec_int k))) else int (undec (dec_int k)))" for k
  proof -
    have "dec m \<noteq> []" for m by (subst dec.simps) simp
    then have "hd (dec m) \<noteq> CHR ''-''" for m using dec_no_slash(2) [of m] by (metis list.set_sel(1))
    then show ?thesis by (simp add: dec_int_def)
  qed
  then show "i = j" using eq by metis
qed simp

lemma split_slash:
  assumes "CHR ''/'' \<notin> set a" "CHR ''/'' \<notin> set b" "a @ CHR ''/'' # s = b @ CHR ''/'' # t"
  shows "a = b" "s = t"
proof -
  have "takeWhile (\<lambda>c. c \<noteq> CHR ''/'') (a @ CHR ''/'' # s) = a" "takeWhile (\<lambda>c. c \<noteq> CHR ''/'') (b @ CHR ''/'' # t) = b"
    using assms(1,2) by (auto simp: takeWhile_append takeWhile_eq_all_conv)
  then show "a = b" using assms(3) by simp
  then show "s = t" using assms(3) by simp
qed

lemma print_id_eq: "print_id a = print_id b \<longleftrightarrow> a = b"
proof
  assume "print_id a = print_id b"
  then have e: "dec (unat (sti_device a)) @ CHR ''/'' # dec (unat (sti_sensor a)) @ CHR ''/'' # dec_int (sint (sti_frame a)) @ CHR ''/'' # dec (unat (sti_index a))
      = dec (unat (sti_device b)) @ CHR ''/'' # dec (unat (sti_sensor b)) @ CHR ''/'' # dec_int (sint (sti_frame b)) @ CHR ''/'' # dec (unat (sti_index b))"
    by (simp add: print_id_def)
  note s1 = split_slash [OF dec_no_slash(1) dec_no_slash(1) e]
  note s2 = split_slash [OF dec_no_slash(1) dec_no_slash(1) s1(2)]
  note s3 = split_slash [OF dec_int_no_slash dec_int_no_slash s2(2)]
  have "sti_device a = sti_device b" "sti_sensor a = sti_sensor b" "sti_index a = sti_index b"
    using s1(1) s2(1) s3(2) undec_dec by (metis word_unat_eq_iff)+
  moreover have "sti_frame a = sti_frame b" using s3(1) dec_int_eq by (metis signed_word_eqI)
  ultimately show "a = b" by (cases a; cases b) simp
qed simp

text \<open>The dispatcher of a playback watcher runs while the watcher is alive.\<close>

fun disp_running :: "bool \<Rightarrow> dispatcher_act list \<Rightarrow> bool option" where
  "disp_running b [] = Some b"
| "disp_running b (Disp_start # acts) = (if b then None else disp_running True acts)"
| "disp_running b (Disp_stop # acts) = (if b then disp_running False acts else None)"
| "disp_running b (Disp_invoke g g' # acts) = disp_running b acts"

lemma pw_start_running: "pw_start cb w = (w', acts) \<Longrightarrow> disp_running (pw_alive w) acts = Some (pw_alive w') \<and> pw_alive w' \<and> pw_callback w' = cb"
  by (auto simp: pw_start_def pw_stop_def split: if_splits)

lemma pw_stop_running: "pw_stop w = (w', acts) \<Longrightarrow> disp_running (pw_alive w) acts = Some (pw_alive w') \<and> \<not> pw_alive w'"
  by (auto simp: pw_stop_def split: if_splits)

lemma saved_blob_is_lost: "saveBlob bytes new_recording = (i, r) \<Longrightarrow> load_blob i r = Inl (Undefined ''blobs_[id] past the vector'')"
  by (auto simp: saveBlob_def new_recording_def load_blob_def)

lemma invalid_frame_never_cast: "sd_as ST_invalid_frame d = None"
  by (simp add: sd_as_def)

section \<open>Properties\<close>

text \<open>Recorded lists stay readable: after any number of lists have been appended, the range each
  insertion gave reads back exactly the list that was inserted, as long as all of them together have
  fewer than 2 ^ 31 elements.\<close>

theorem recorded_lists_roundtrip:
  assumes "length (target @ concat xss) < 2 ^ 31" and "insert_lists xss target = (ranges, store')"
  shows "store' = target @ concat xss
    \<and> list_all2 (\<lambda>r xs. loadList store' (fst r) (snd r) = Inr xs) ranges xss"
  using insert_lists_target [of xss target] insert_lists_loaded [OF assms(1)] assms(2) by simp

theorem recorded_lists_roundtrip_witness:
  "insert_lists [[3], [4, 5 :: nat]] [1] = ([(1, 2), (2, 4)], [1, 3, 4, 5]) \<and> loadList [1, 3, 4, 5 :: nat] 2 4 = Inr [4, 5]"
proof -
  have i: "insert_lists [[3], [4, 5 :: nat]] [1] = ([(1, 2), (2, 4)], [1, 3, 4, 5])"
    by (simp add: insertList_def to_int_def)
  have "length ([1] @ concat [[3], [4, 5 :: nat]]) < 2 ^ 31" by simp
  from recorded_lists_roundtrip [OF this i] i show ?thesis by simp
qed

text \<open>The text of a stream identifier determines it, and the order of identifiers is total and agrees
  with their equality.\<close>

theorem stream_identifiers_distinct:
  "(print_id a = print_id b \<longleftrightarrow> stream_id_eq a b) \<and> (stream_id_eq a b \<longleftrightarrow> \<not> a < b \<and> \<not> b < a)"
proof -
  have "stream_id_eq a b \<longleftrightarrow> a = b" by (cases a; cases b) (simp add: stream_id_eq_def)
  then show ?thesis using print_id_eq [of a b] by (auto simp: neq_iff)
qed

end
