(* ===== verification/Usb_Request.thy ===== *)
theory Usb_Request
  imports Usb_Device
begin

text \<open>
  Asynchronous transfers (\<open>src/usb/usb_request.h\<close>, \<open>usb_request.cc\<close>): a \<open>UsbRequest\<close> owns a transfer of
  libusb, which points back to it; the completion of the transfer finds the request by that pointer.
  Requests, native transfers and callback objects are found by their id, and an id is not used again.
\<close>

section \<open>Objects\<close>

record usb_request =
  rq_endpoint :: usb_endpoint
  rq_buffer :: "u8 list"
  rq_callback :: "nat option"
  rq_shared :: bool
  rq_active :: bool
  rq_client_data :: "nat option"

text \<open>What of the native transfer the library sets; a transfer of an unknown type has no callback.\<close>

record usb_transfer =
  tr_address :: "u8 option"
  tr_buffer :: "nat option"
  tr_length :: int
  tr_user :: nat

record usb_requests =
  requests :: "nat \<rightharpoonup> usb_request"
  transfers :: "nat \<rightharpoonup> usb_transfer"
  rq_callbacks :: "nat \<rightharpoonup> bool"

definition no_requests :: usb_requests where
  "no_requests = \<lparr>requests = Map.empty, transfers = Map.empty, rq_callbacks = Map.empty\<rparr>"

definition SE2_USB_ENDPOINT_INTERRUPT :: u8 where "SE2_USB_ENDPOINT_INTERRUPT = 3"

section \<open>Operations\<close>

text \<open>The constructor; \<open>alloc\<close> says whether \<open>libusb_alloc_transfer\<close> gave a transfer.\<close>

definition new_request :: "bool \<Rightarrow> nat \<Rightarrow> usb_endpoint \<Rightarrow> usb_requests \<Rightarrow> se_error + usb_requests" where
  "new_request alloc r ep s =
     (if \<not> alloc then Inl (Undefined ''null transfer'')
      else Inr (s\<lparr>requests := (requests s)(r \<mapsto> \<lparr>rq_endpoint = ep, rq_buffer = [], rq_callback = None, rq_shared = False,
                    rq_active = False, rq_client_data = None\<rparr>),
                  transfers := (transfers s)(r \<mapsto> \<lparr>tr_address =
                      (if ep_attributes ep \<in> {SE2_USB_ENDPOINT_BULK, SE2_USB_ENDPOINT_INTERRUPT} then Some (ep_address ep) else None),
                    tr_buffer = None, tr_length = 0, tr_user = r\<rparr>)\<rparr>))"

definition set_buffer :: "nat \<Rightarrow> u8 list \<Rightarrow> usb_requests \<Rightarrow> usb_requests" where
  "set_buffer r bs s =
     s\<lparr>requests := (requests s)(r := map_option (\<lambda>q. q\<lparr>rq_buffer := bs\<rparr>) (requests s r)),
       transfers := (transfers s)(r := map_option (\<lambda>t. t\<lparr>tr_buffer := Some r, tr_length := sint (of_nat (length bs) :: u32)\<rparr>)
                                        (transfers s r))\<rparr>"

definition upd_request :: "nat \<Rightarrow> (usb_request \<Rightarrow> usb_request) \<Rightarrow> usb_requests \<Rightarrow> usb_requests" where
  "upd_request r f s = s\<lparr>requests := (requests s)(r := map_option f (requests s r))\<rparr>"

definition set_callback :: "nat \<Rightarrow> nat option \<Rightarrow> usb_requests \<Rightarrow> usb_requests" where
  "set_callback r cb s = upd_request r (\<lambda>q. q\<lparr>rq_callback := cb\<rparr>) s"

definition set_shared :: "nat \<Rightarrow> bool \<Rightarrow> usb_requests \<Rightarrow> usb_requests" where
  "set_shared r b s = upd_request r (\<lambda>q. q\<lparr>rq_shared := b\<rparr>) s"

definition set_active :: "nat \<Rightarrow> bool \<Rightarrow> usb_requests \<Rightarrow> usb_requests" where
  "set_active r b s = upd_request r (\<lambda>q. q\<lparr>rq_active := b\<rparr>) s"

text \<open>\<open>UsbRequestCallback\<close>: a function that \<open>cancel\<close> takes away; a call is its id and the request.\<close>

definition new_rq_callback :: "nat \<Rightarrow> usb_requests \<Rightarrow> usb_requests" where
  "new_rq_callback c s = s\<lparr>rq_callbacks := (rq_callbacks s)(c \<mapsto> True)\<rparr>"

definition rq_cancel :: "nat \<Rightarrow> usb_requests \<Rightarrow> usb_requests" where
  "rq_cancel c s = s\<lparr>rq_callbacks := (rq_callbacks s)(c \<mapsto> False)\<rparr>"

definition rq_call :: "nat \<Rightarrow> nat \<Rightarrow> usb_requests \<Rightarrow> (nat \<times> nat) list" where
  "rq_call c r s = (if rq_callbacks s c = Some True then [(c, r)] else [])"

text \<open>\<open>internalCallback\<close>, which libusb calls when the transfer completes.\<close>

definition internalCallback :: "usb_transfer \<Rightarrow> usb_requests \<Rightarrow> se_error + usb_requests \<times> (nat \<times> nat) list" where
  "internalCallback t s =
     (case requests s (tr_user t) of
        None \<Rightarrow> Inl (Undefined ''use of a freed request'')
      | Some q \<Rightarrow>
          (let s1 = set_active (tr_user t) False s
           in if rq_shared q
              then (case rq_callback q of
                      None \<Rightarrow> Inl (Undefined ''null callback'')
                    | Some c \<Rightarrow> Inr (s1, rq_call c (tr_user t) s1))
              else Inr (s1, [])))"

text \<open>
  The destructor: an active request is cancelled, and ten sleeps wait for the completion.  \<open>arrives\<close>
  is the number of the sleep in which it comes; the weak pointer has expired, so it calls nobody.
  The native transfer is freed unless the request is still active.
\<close>

fun wait_inactive :: "nat \<Rightarrow> nat option \<Rightarrow> bool \<Rightarrow> bool" where
  "wait_inactive 0 arrives active = active"
| "wait_inactive (Suc n) arrives active =
     (if \<not> active then False
      else case arrives of
             Some 0 \<Rightarrow> wait_inactive n None False
           | Some (Suc k) \<Rightarrow> wait_inactive n (Some k) active
           | None \<Rightarrow> wait_inactive n None active)"

definition destroy_request :: "nat \<Rightarrow> nat option \<Rightarrow> usb_requests \<Rightarrow> usb_requests" where
  "destroy_request r arrives s =
     (case requests s r of
        None \<Rightarrow> s
      | Some q \<Rightarrow>
          s\<lparr>requests := (requests s)(r := None),
            transfers := (if wait_inactive 10 arrives (rq_active q) then transfers s else (transfers s)(r := None))\<rparr>)"

section \<open>Histories\<close>

datatype rq_op =
    R_new nat usb_endpoint | R_buffer nat "u8 list" | R_callback nat "nat option" | R_shared nat bool
  | R_active nat bool | R_new_callback nat | R_cancel nat | R_complete nat | R_destroy nat "nat option"

text \<open>The callers use live requests and new ids, complete transfers that exist, and give a request that is shared a callback.\<close>

fun rq_exec :: "rq_op \<Rightarrow> usb_requests \<Rightarrow> se_error + usb_requests" where
  "rq_exec (R_new r ep) s = new_request True r ep s"
| "rq_exec (R_buffer r bs) s = Inr (set_buffer r bs s)"
| "rq_exec (R_callback r cb) s = Inr (set_callback r cb s)"
| "rq_exec (R_shared r b) s = Inr (set_shared r b s)"
| "rq_exec (R_active r b) s = Inr (set_active r b s)"
| "rq_exec (R_new_callback c) s = Inr (new_rq_callback c s)"
| "rq_exec (R_cancel c) s = Inr (rq_cancel c s)"
| "rq_exec (R_complete r) s = bind_result (internalCallback (the (transfers s r)) s) (\<lambda>(s', _). Inr s')"
| "rq_exec (R_destroy r n) s = Inr (destroy_request r n s)"

text \<open>Every destroyed request that is active has its completion within the ten sleeps.\<close>

fun rq_allowed :: "rq_op \<Rightarrow> usb_requests \<Rightarrow> bool" where
  "rq_allowed (R_new r ep) s \<longleftrightarrow> requests s r = None \<and> transfers s r = None"
| "rq_allowed (R_buffer r bs) s \<longleftrightarrow> requests s r \<noteq> None"
| "rq_allowed (R_callback r cb) s \<longleftrightarrow> (\<exists>q. requests s r = Some q \<and> (rq_shared q \<longrightarrow> cb \<noteq> None))"
| "rq_allowed (R_shared r b) s \<longleftrightarrow> (\<exists>q. requests s r = Some q \<and> rq_callback q \<noteq> None)"
| "rq_allowed (R_active r b) s \<longleftrightarrow> requests s r \<noteq> None"
| "rq_allowed (R_new_callback c) s \<longleftrightarrow> True"
| "rq_allowed (R_cancel c) s \<longleftrightarrow> True"
| "rq_allowed (R_complete r) s \<longleftrightarrow> transfers s r \<noteq> None"
| "rq_allowed (R_destroy r n) s \<longleftrightarrow> (\<exists>q. requests s r = Some q \<and> (rq_active q \<longrightarrow> (\<exists>k<10. n = Some k)))"

inductive rq_reach :: "usb_requests \<Rightarrow> bool" where
  rq_init: "rq_reach no_requests"
| rq_step: "rq_reach s \<Longrightarrow> rq_allowed oper s \<Longrightarrow> rq_exec oper s = Inr s' \<Longrightarrow> rq_reach s'"

lemma wait_inactive_False [simp]: "\<not> wait_inactive n a False"
  by (cases n) auto

lemma wait_inactive_arrives: "k < n \<Longrightarrow> \<not> wait_inactive n (Some k) active"
  by (induction n "Some k" active arbitrary: k rule: wait_inactive.induct) (auto split: nat.splits)

lemma wait_inactive_never: "wait_inactive n None True"
  by (induction n) auto

text \<open>Every transfer belongs to a live request, and its length is that of the request's buffer.\<close>

definition pair_ok :: "nat \<Rightarrow> usb_request option \<Rightarrow> usb_transfer option \<Rightarrow> bool" where
  "pair_ok r q t \<longleftrightarrow>
     (case (q, t) of
        (None, None) \<Rightarrow> True
      | (Some q, Some t) \<Rightarrow> tr_user t = r \<and> tr_buffer t \<in> {None, Some r}
          \<and> tr_length t = sint (of_nat (length (rq_buffer q)) :: u32) \<and> (rq_shared q \<longrightarrow> rq_callback q \<noteq> None)
      | _ \<Rightarrow> False)"

definition rq_inv :: "usb_requests \<Rightarrow> bool" where
  "rq_inv s \<longleftrightarrow> (\<forall>r. pair_ok r (requests s r) (transfers s r))"

lemma rq_inv_at:
  "rq_inv s \<Longrightarrow> pair_ok r q t \<Longrightarrow> rq_inv (s\<lparr>requests := (requests s)(r := q), transfers := (transfers s)(r := t)\<rparr>)"
  "rq_inv s \<Longrightarrow> pair_ok r q (transfers s r) \<Longrightarrow> rq_inv (s\<lparr>requests := (requests s)(r := q)\<rparr>)"
  by (simp_all add: rq_inv_def)

lemma rq_invD: "rq_inv s \<Longrightarrow> pair_ok r (requests s r) (transfers s r)"
  by (simp add: rq_inv_def)

lemma rq_inv_upd:
  assumes "rq_inv s" "\<And>q. requests s r = Some q \<Longrightarrow> rq_buffer (f q) = rq_buffer q \<and> (rq_shared (f q) \<longrightarrow> rq_callback (f q) \<noteq> None)"
  shows "rq_inv (upd_request r f s)"
  unfolding upd_request_def
  using rq_invD [OF assms(1), of r] assms(2) by (intro rq_inv_at(2) [OF assms(1)]) (auto simp: pair_ok_def split: option.splits)

lemma rq_inv_live: "rq_inv s \<Longrightarrow> transfers s r = Some t \<Longrightarrow> \<exists>q. requests s r = Some q \<and> tr_user t = r
    \<and> (rq_shared q \<longrightarrow> rq_callback q \<noteq> None)"
  using rq_invD [of s r] by (auto simp: pair_ok_def split: option.splits)

lemma completion_ok:
  assumes "rq_inv s" "transfers s r = Some t"
  shows "\<exists>acts. internalCallback t s = Inr (set_active r False s, acts)"
  using rq_inv_live [OF assms] by (auto simp: internalCallback_def Let_def)

lemma rq_inv_active: "rq_inv s \<Longrightarrow> rq_inv (set_active r b s)"
  unfolding set_active_def
  by (rule rq_inv_upd) (use rq_invD [of s r] in \<open>auto simp: pair_ok_def split: option.splits\<close>)

lemma rq_inv_step:
  assumes inv: "rq_inv s" and ok: "rq_allowed oper s" and ex: "rq_exec oper s = Inr s'"
  shows "rq_inv s'"
proof (cases oper)
  case (R_new r ep)
  then show ?thesis using ex by (auto simp: new_request_def pair_ok_def intro!: rq_inv_at(1) [OF inv])
next
  case (R_buffer r bs)
  have "s' = set_buffer r bs s" using ex R_buffer by simp
  then show ?thesis unfolding set_buffer_def using rq_invD [OF inv, of r]
    by (auto simp: pair_ok_def split: option.splits intro!: rq_inv_at(1) [OF inv])
next
  case (R_callback r cb)
  then show ?thesis using ok ex rq_inv_upd [OF inv, of r] by (auto simp: set_callback_def)
next
  case (R_shared r b)
  then show ?thesis using ok ex rq_inv_upd [OF inv, of r] by (auto simp: set_shared_def)
next
  case (R_active r b)
  then show ?thesis using ex rq_inv_active [OF inv] by auto
next
  case (R_complete r)
  then obtain t where "transfers s r = Some t" using ok by auto
  from completion_ok [OF inv this] show ?thesis using R_complete ex rq_inv_active [OF inv] \<open>transfers s r = Some t\<close> by auto
next
  case (R_destroy r n)
  then obtain q where q: "requests s r = Some q" "rq_active q \<longrightarrow> (\<exists>k<10. n = Some k)" using ok by auto
  then have "\<not> wait_inactive 10 n (rq_active q)" using wait_inactive_arrives by (cases "rq_active q") auto
  then have "s' = s\<lparr>requests := (requests s)(r := None), transfers := (transfers s)(r := None)\<rparr>"
    using ex R_destroy q(1) by (simp add: destroy_request_def)
  then show ?thesis by (simp add: pair_ok_def rq_inv_at(1) [OF inv])
qed (use assms in \<open>auto simp: new_rq_callback_def rq_cancel_def rq_inv_def\<close>)

lemma rq_inv_reach: "rq_reach s \<Longrightarrow> rq_inv s"
proof (induction rule: rq_reach.induct)
  case rq_init
  show ?case by (simp add: rq_inv_def pair_ok_def no_requests_def)
qed (blast intro: rq_inv_step)

section \<open>Properties\<close>

text \<open>C10: Completions find their request: as long as every request that is destroyed while active has its
  completion within the ten sleeps of the destructor, the completion of any native transfer that
  still exists finds a live request, makes it inactive and never fails.\<close>

theorem completions_find_requests:
  assumes "rq_reach s" and "transfers s r = Some t"
  shows "\<exists>s' acts q. internalCallback t s = Inr (s', acts) \<and> requests s' r = Some q \<and> \<not> rq_active q \<and> tr_user t = r"
proof -
  have inv: "rq_inv s" by (rule rq_inv_reach [OF assms(1)])
  obtain q where "requests s r = Some q" "tr_user t = r" using rq_inv_live [OF inv assms(2)] by blast
  then show ?thesis using completion_ok [OF inv assms(2)]
    by (auto simp: set_active_def upd_request_def)
qed

definition bulk_endpoint :: usb_endpoint where
  "bulk_endpoint = \<lparr>ep_address = 0x81, ep_attributes = SE2_USB_ENDPOINT_BULK, ep_interface = 0\<rparr>"

definition one_request :: usb_requests where
  "one_request = set_active 1 True (case new_request True 1 bulk_endpoint no_requests of Inr s \<Rightarrow> s | Inl _ \<Rightarrow> no_requests)"

lemma one_request_reach: "rq_reach one_request"
proof -
  obtain s where s: "rq_exec (R_new 1 bulk_endpoint) no_requests = Inr s" by (simp add: new_request_def)
  then have "rq_reach s" by (intro rq_step [OF rq_init _ s]) (simp add: no_requests_def)
  moreover have "one_request = set_active 1 True s" using s by (simp add: one_request_def)
  moreover have "requests s 1 \<noteq> None" using s by (auto simp: new_request_def)
  ultimately show ?thesis using rq_step [of s "R_active 1 True" one_request] by simp
qed

theorem completions_find_requests_witness:
  "\<exists>t s' acts q. transfers one_request 1 = Some t \<and> internalCallback t one_request = Inr (s', acts)
    \<and> requests s' 1 = Some q \<and> \<not> rq_active q"
proof -
  obtain t where "transfers one_request 1 = Some t"
    by (simp add: one_request_def new_request_def set_active_def upd_request_def)
  with completions_find_requests [OF one_request_reach this] show ?thesis by blast
qed

text \<open>A request that is destroyed while active, and whose completion comes later than the ten sleeps,
  leaves its native transfer behind, with a pointer to the destroyed request; the completion uses it.\<close>

theorem late_completion_uses_freed_request:
  assumes "rq_reach s" and "requests s r = Some q" and "rq_active q"
  shows "\<exists>t. transfers (destroy_request r None s) r = Some t
    \<and> internalCallback t (destroy_request r None s) = Inl (Undefined ''use of a freed request'')"
proof -
  obtain t where "transfers s r = Some t" "tr_user t = r"
    using rq_invD [OF rq_inv_reach [OF assms(1)], of r] assms(2) by (auto simp: pair_ok_def split: option.splits)
  then show ?thesis using assms(2,3)
    by (simp add: destroy_request_def wait_inactive_never internalCallback_def)
qed

theorem late_completion_uses_freed_request_witness:
  "\<exists>t. transfers (destroy_request 1 None one_request) 1 = Some t
    \<and> internalCallback t (destroy_request 1 None one_request) = Inl (Undefined ''use of a freed request'')"
proof -
  obtain q where "requests one_request 1 = Some q" "rq_active q"
    by (simp add: one_request_def new_request_def set_active_def upd_request_def)
  then show ?thesis by (rule late_completion_uses_freed_request [OF one_request_reach])
qed

end
