(* ===== verification/Usb_Stream.thy ===== *)
theory Usb_Stream
  imports Steady_Stream
begin

text \<open>
  Streaming over the bus: the loop of the stream thread of \<open>Gemini_Sensor\<close> with the device it reads
  from, beside the dispatcher, the pipeline and the application of \<open>Steady_Stream\<close>.  The device answers
  each request for a frame with a packet, which the bus cuts as it likes, or with an error; the
  thread counts the errors, resets the hardware and marks the device invalid or valid.
\<close>

section \<open>The device\<close>

text \<open>
  What the thread relies on: the device has a list of \<open>answers\<close> to the requests \<open>GET_FRAME\<close>, each an
  error of the status table or the bytes of a packet; it hands out a packet over the bulk pipe, the head and
  the time stamp in the first transfer; resetting the hardware or the endpoint leaves the answers alone.
\<close>

definition answers_requests :: "'s gemini \<Rightarrow> ('s \<Rightarrow> u8 list) \<Rightarrow> ('s \<Rightarrow> (int + u8 list) list) \<Rightarrow> bool" where
  "answers_requests g rem answers \<longleftrightarrow> delivers g rem
     \<and> (\<forall>s e as. answers s = Inl e # as \<and> e < 0 \<longrightarrow>
          (\<exists>s1. control_transfer_out g GET_FRAME 0 [] 0 s = Inr (e, s1) \<and> answers s1 = as))
     \<and> (\<forall>s pkt as. answers s = Inr pkt # as \<longrightarrow>
          (\<exists>s1. control_transfer_out g GET_FRAME 0 [] 0 s = Inr (SE2_USB_STATUS_SUCCESS, s1) \<and> rem s1 = pkt \<and> answers s1 = as
            \<and> (\<forall>mem k bs s2. lu_bulk (messenger g) (ep_address (endpoint_bulk_in g)) mem 1024 80 s1 = (0, int k, bs, s2)
                 \<longrightarrow> 20 \<le> length pkt \<longrightarrow> 20 \<le> k)))
     \<and> (\<forall>buf len tmo s e n bs s'. lu_bulk (messenger g) (ep_address (endpoint_bulk_in g)) buf len tmo s = (e, n, bs, s')
          \<longrightarrow> answers s' = answers s)
     \<and> (\<forall>mem s r mem' s'. control_transfer_in g RESET_USB_EDP 0 (Some mem) 16 s = Inr (r, mem', s') \<longrightarrow> answers s' = answers s)
     \<and> (\<forall>s. \<exists>s'. hardwareReset g s = Inr s' \<and> answers s' = answers s)"

section \<open>A round\<close>

text \<open>Sensor, pipeline, store, whether the device is marked valid, and the device.\<close>

type_synonym 's usb_state = "gemini_sensor \<times> pipeline \<times> store \<times> bool \<times> 's"

fun valid_after :: "sensor_action list \<Rightarrow> bool \<Rightarrow> bool" where
  "valid_after [] v = v"
| "valid_after (Set_valid w # acts) v = valid_after acts w"
| "valid_after (_ # acts) v = valid_after acts v"

text \<open>\<open>None\<close> is a read that never returns; a poll that finds no set gives \<open>Inr (None, _)\<close>.\<close>

definition usb_round ::
    "nat list \<Rightarrow> nat \<Rightarrow> frame_source \<Rightarrow> 's gemini \<Rightarrow> u8 list \<Rightarrow> 's usb_state
      \<Rightarrow> (se_error + frame_seen option list option \<times> 's usb_state) option" where
  "usb_round comps k psrc g junk S =
     (case S of (sn, p, st, v, s) \<Rightarrow>
        map_option (\<lambda>r.
          bind_result r (\<lambda>(sn1, st1, s1, acts).
          bind_result (application_round comps k psrc sn1 acts p st1) (\<lambda>((got, view), p1, st2).
            Inr (if got then Some view else None, sn1, p1, st2, valid_after acts v, s1))))
        (stream_iter g junk sn st s))"

fun usb_rounds ::
    "nat \<Rightarrow> nat list \<Rightarrow> nat \<Rightarrow> frame_source \<Rightarrow> 's gemini \<Rightarrow> u8 list \<Rightarrow> 's usb_state
      \<Rightarrow> (se_error + frame_seen option list option list \<times> 's usb_state) option" where
  "usb_rounds 0 comps k psrc g junk S = Some (Inr ([], S))"
| "usb_rounds (Suc n) comps k psrc g junk S =
     (case usb_round comps k psrc g junk S of
        None \<Rightarrow> None
      | Some (Inl e) \<Rightarrow> Some (Inl e)
      | Some (Inr (x, S1)) \<Rightarrow>
          map_option (\<lambda>r. bind_result r (\<lambda>(xs, S2). Inr (x # xs, S2))) (usb_rounds n comps k psrc g junk S1))"

section \<open>What is expected\<close>

text \<open>A packet with a proper head: the head, the time stamp and the frames, and nothing behind them.\<close>

definition wire_packet :: "(u32 \<times> frame_info) list \<Rightarrow> packet \<Rightarrow> bool" where
  "wire_packet es pk \<longleftrightarrow> packet_ok es pk \<and> snd (snd (snd pk)) = [] \<and> head_magic (packet_bytes pk) = PACK_MAGIC
     \<and> head_pack_length (packet_bytes pk) = of_nat (length (packet_bytes pk))"

fun answer_ok :: "(u32 \<times> frame_info) list \<Rightarrow> int + packet \<Rightarrow> bool" where
  "answer_ok es (Inl e) = (-13 \<le> e \<and> e < 0)"
| "answer_ok es (Inr pk) = wire_packet es pk"

fun no_packet :: "int + packet \<Rightarrow> bool" where
  "no_packet (Inl e) = True"
| "no_packet (Inr pk) = False"

text \<open>The receive buffer has room for a packet.\<close>

definition buffer_fits :: "gemini_sensor \<Rightarrow> bool" where
  "buffer_fits sn \<longleftrightarrow> infos_size (active_infos sn) + pack_head_size + 8 \<le> length (sn_buffer sn)"

fun answer_seen ::
    "(frame_info \<Rightarrow> stream_profile) \<Rightarrow> (u32 \<times> frame_info) list \<Rightarrow> int list \<Rightarrow> int + packet \<Rightarrow> frame_seen option list option" where
  "answer_seen prof es ws (Inl e) = None"
| "answer_seen prof es ws (Inr pk) = Some (packet_view prof es ws pk)"

text \<open>The failed reads since the last packet.\<close>

fun misses :: "(int + packet) list \<Rightarrow> nat \<Rightarrow> nat" where
  "misses [] n = n"
| "misses (Inl e # xs) n = misses xs (n + 1)"
| "misses (Inr pk # xs) n = misses xs 0"

definition wire_answers :: "(int + packet) list \<Rightarrow> (int + u8 list) list" where
  "wire_answers = map (map_sum id packet_bytes)"

section \<open>Lemmas\<close>

lemma packet_view_rest: "packet_view prof es ws (head, ts, raws, rest) = packet_view prof es ws (head', ts, raws, rest')"
  by (simp add: packet_view_def)

text \<open>The sensor's counter and its buffer are not part of what streaming needs.\<close>

lemma stream_ready_sensor [simp]:
  "stream_ready comps k kv prof (sn\<lparr>missing_cnt := n\<rparr>, p, st) = stream_ready comps k kv prof (sn, p, st)"
  "stream_ready comps k kv prof (sn\<lparr>sn_buffer := b\<rparr>, p, st) = stream_ready comps k kv prof (sn, p, st)"
  "stream_ready comps k kv prof (sn\<lparr>is_streaming := u\<rparr>, p, st) = stream_ready comps k kv prof (sn, p, st)"
  by (simp_all add: stream_ready_def)

lemma wire_packet_length:
  assumes "wire_packet es pk"
  shows "length (packet_bytes pk) = infos_size es + pack_head_size + 8"
  using assms raws_size by (cases pk) (auto simp: wire_packet_def packet_ok_def packet_bytes_def)

text \<open>A poll that finds nothing changes nothing.\<close>

lemma idle_round:
  assumes "task_ready ssrc p st" "agg_idle (aggregator_of p)" "dispatched acts = []"
  shows "application_round comps k psrc sn acts p st = Inr ((False, []), p, st)"
proof -
  obtain prof where p: "active_profile p = Some prof" "streams_callback p = None" "pl_aggregator p = Some (aggregator_of p)"
    using assms(1) by (auto simp: task_ready_def streams_to_aggregator_def aggregator_of_def)
  have "agg_try_dequeue (aggregator_of p) = (None, aggregator_of p)"
    using assms(2) by (simp add: agg_idle_def agg_try_dequeue_def cq_try_dequeue_def cq_take_def)
  then have "Pipeline_pollForFrames (Some no_frame_set) p (st, ()) = (Inr (False, no_frame_set), p, (st, ()))"
    using p by (simp add: Pipeline_pollForFrames_def pollForFrames_def give_set_def)
  then show ?thesis using assms(3)
    by (simp add: application_round_def set_destroy_def no_frame_set_def no_frame_def handle_destroy_def holder_destroy_def set_view_def)
qed

locale usb_camera = usb_pipe g rem for g :: "'s gemini" and rem +
  fixes answers :: "'s \<Rightarrow> (int + u8 list) list"
  assumes camera: "answers_requests g rem answers"
begin

lemma camera_laws:
  "answers s = Inl e # as \<Longrightarrow> e < 0 \<Longrightarrow> \<exists>s1. control_transfer_out g GET_FRAME 0 [] 0 s = Inr (e, s1) \<and> answers s1 = as"
  "answers s = Inr pkt # as \<Longrightarrow> \<exists>s1. control_transfer_out g GET_FRAME 0 [] 0 s = Inr (SE2_USB_STATUS_SUCCESS, s1)
     \<and> rem s1 = pkt \<and> answers s1 = as
     \<and> (\<forall>mem k bs s2. lu_bulk (messenger g) (ep_address (endpoint_bulk_in g)) mem 1024 80 s1 = (0, int k, bs, s2)
          \<longrightarrow> 20 \<le> length pkt \<longrightarrow> 20 \<le> k)"
  "lu_bulk (messenger g) (ep_address (endpoint_bulk_in g)) buf len tmo s = (r, n, bs, s') \<Longrightarrow> answers s' = answers s"
  "control_transfer_in g RESET_USB_EDP 0 (Some mem) 16 s = Inr (r, mem', s') \<Longrightarrow> answers s' = answers s"
  "\<exists>s'. hardwareReset g s = Inr s' \<and> answers s' = answers s"
  using camera unfolding answers_requests_def by simp_all

lemma bulk_keeps:
  assumes "bulk_transfer (messenger g) (endpoint_bulk_in g) off mem len tr tmo s = Inr (e, m, t, s')"
  shows "answers s' = answers s"
proof -
  have a: "ep_attributes (endpoint_bulk_in g) = SE2_USB_ENDPOINT_BULK" using pipe by (simp add: delivers_def)
  with assms show ?thesis
    by (auto simp: bulk_transfer_def bind_result_Inr camera_laws(3) split: if_splits prod.splits)
qed

lemma read_rest_keeps:
  assumes "read_rest g off mem rs tr e s = Some (Inr (r, m, s'))"
  shows "answers s' = answers s"
proof -
  have "h = g \<longrightarrow> (\<forall>r m s'. y = Inr (r, m, s') \<longrightarrow> answers s' = answers s)"
    if "read_rest h off mem rs tr e s = Some y" for h :: "'s gemini" and off mem rs tr e s y
  proof (rule read_rest.raw_induct [where P = "\<lambda>h off mem rs tr e s y.
      h = g \<longrightarrow> (\<forall>r m s'. y = Inr (r, m, s') \<longrightarrow> answers s' = answers s)", OF _ that], intro impI allI)
    fix rec h off mem rs tr e s y r m s'
    assume ih: "\<And>h off mem rs tr e s y. rec h off mem rs tr e s = Some y
        \<Longrightarrow> h = g \<longrightarrow> (\<forall>r m s'. y = Inr (r, m, s') \<longrightarrow> answers s' = answers s)"
      and step: "(if tr < rs
        then case bulk_transfer (messenger h) (endpoint_bulk_in h) (off + unat tr) mem (rs - tr) tr kUsbTimeout s of
               Inl err \<Rightarrow> Some (Inl err)
             | Inr r \<Rightarrow>
                 (case r of (e', mem', tr', s') \<Rightarrow>
                    if e' < 0 then Some (bind_result (status_text e') (\<lambda>_. Inr (e', mem', s')))
                    else rec h (off + unat tr) mem' (rs - tr) tr' e' s')
        else Some (Inr (e, mem, s))) = Some y"
      and h: "h = g" "y = Inr (r, m, s')"
    from step show "answers s' = answers s" unfolding h
      by (auto simp: bind_result_Inr split: if_splits sum.splits prod.splits dest: ih bulk_keeps)
        (metis ih bulk_keeps)
  qed
  with assms show ?thesis by blast
qed

lemma reset_if_keeps: "reset_if b g junk s = Inr (e, s') \<Longrightarrow> answers s' = answers s"
  by (auto simp: reset_if_def reset_usb_endpoint_def bind_result_Inr camera_laws(4) split: if_splits)

lemma read_body_keeps: "read_body g m tr s = Some (Inr (r, m', s')) \<Longrightarrow> answers s' = answers s"
  by (auto simp: read_body_def Let_def bind_result_Inr split: sum.splits prod.splits if_splits
      dest!: bulk_keeps read_rest_keeps)

lemma stream_read_keeps:
  assumes "control_transfer_out g GET_FRAME 0 [] 0 s = Inr (e, s1)" "stream_read g junk mem s = Some (Inr (r, m, s'))"
  shows "answers s' = answers s1"
  using assms
  by (auto simp: stream_read_def bind_result_Inr split: sum.splits prod.splits if_splits
      dest!: bulk_keeps reset_if_keeps read_body_keeps)

text \<open>What one request gives: the error, or the whole packet at the start of the buffer.\<close>

lemma read_error:
  assumes "answers s = Inl e # as" "-13 \<le> e" "e < 0"
  obtains s1 where "stream_read g junk mem s = Some (Inr (e, mem, s1))" "answers s1 = as"
proof -
  obtain s1 where "control_transfer_out g GET_FRAME 0 [] 0 s = Inr (e, s1)" "answers s1 = as"
    using camera_laws(1) [OF assms(1,3)] by blast
  moreover obtain t where "status_text e = Inr t" using status_text_known [of e] assms(2,3) by auto
  ultimately show ?thesis
    using that assms(3) by (simp add: stream_read_def SE2_USB_STATUS_SUCCESS_def)
qed

lemma first_transfer:
  assumes "answers s = Inr pkt # as" "20 \<le> length pkt"
  shows "\<exists>s1 k s2. control_transfer_out g GET_FRAME 0 [] 0 s = Inr (SE2_USB_STATUS_SUCCESS, s1) \<and> rem s1 = pkt
    \<and> answers s1 = as \<and> lu_bulk (messenger g) (ep_address (endpoint_bulk_in g)) mem 1024 80 s1 = (0, int k, take k pkt, s2)
    \<and> 20 \<le> k \<and> rem s2 = drop k pkt \<and> k \<le> 1024 \<and> k \<le> length pkt"
proof -
  obtain s1 where s1: "control_transfer_out g GET_FRAME 0 [] 0 s = Inr (SE2_USB_STATUS_SUCCESS, s1)" "rem s1 = pkt"
    "answers s1 = as"
    "\<And>k bs s2. lu_bulk (messenger g) (ep_address (endpoint_bulk_in g)) mem 1024 80 s1 = (0, int k, bs, s2) \<Longrightarrow> 20 \<le> k"
    using camera_laws(2) [OF assms(1)] assms(2) by blast
  have "(0 :: int) \<le> 1024" by simp
  with pipe have "\<exists>n s'. lu_bulk (messenger g) (ep_address (endpoint_bulk_in g)) mem 1024 80 s1 = (0, int n, take n (rem s1), s')
      \<and> rem s' = drop n (rem s1) \<and> n \<le> nat 1024 \<and> n \<le> length (rem s1)"
    unfolding delivers_def by blast
  then obtain k s2 where k: "lu_bulk (messenger g) (ep_address (endpoint_bulk_in g)) mem 1024 80 s1 = (0, int k, take k pkt, s2)"
    "rem s2 = drop k pkt" "k \<le> 1024" "k \<le> length pkt" using s1(2) by auto
  then show ?thesis using s1(1-3) s1(4) [OF k(1)] by blast
qed

lemma read_packet:
  assumes "answers s = Inr pkt # as" "20 \<le> length pkt" "length pkt < 2 ^ 31" "length pkt \<le> length mem"
    and "head_magic pkt = PACK_MAGIC" "head_pack_length pkt = of_nat (length pkt)"
  obtains s1 where "stream_read g junk mem s = Some (Inr (SE2_USB_STATUS_SUCCESS, pkt @ drop (length pkt) mem, s1))"
    "answers s1 = as"
proof -
  obtain s1 k s2 where s1: "control_transfer_out g GET_FRAME 0 [] 0 s = Inr (SE2_USB_STATUS_SUCCESS, s1)" "rem s1 = pkt"
      "answers s1 = as"
    and k: "lu_bulk (messenger g) (ep_address (endpoint_bulk_in g)) mem 1024 80 s1 = (0, int k, take k pkt, s2)"
      "20 \<le> k" "rem s2 = drop k pkt" "k \<le> 1024" "k \<le> length pkt"
    using first_transfer [OF assms(1,2)] by metis
  from stream_read_ok [OF s1(1,2) assms(3-6) k(1,2,5,3,4)] obtain s3 where
    s3: "stream_read g junk mem s = Some (Inr (SE2_USB_STATUS_SUCCESS, pkt @ drop (length pkt) mem, s3))" by blast
  show ?thesis using that [OF s3] stream_read_keeps [OF s1(1) s3] s1(3) by simp
qed

lemma read_overruns:
  assumes "answers s = Inr pkt # as" "20 \<le> length pkt" "length pkt < 2 ^ 31" "length mem < length pkt"
    and "head_magic pkt = PACK_MAGIC" "head_pack_length pkt = of_nat (length pkt)"
  shows "stream_read g junk mem s = Some (Inl (Undefined ''write past the buffer''))"
proof -
  obtain s1 k s2 where s1: "control_transfer_out g GET_FRAME 0 [] 0 s = Inr (SE2_USB_STATUS_SUCCESS, s1)" "rem s1 = pkt"
    and k: "lu_bulk (messenger g) (ep_address (endpoint_bulk_in g)) mem 1024 80 s1 = (0, int k, take k pkt, s2)"
      "20 \<le> k" "rem s2 = drop k pkt" "k \<le> 1024" "k \<le> length pkt"
    using first_transfer [OF assms(1,2)] by metis
  show ?thesis by (rule stream_read_overruns [OF s1 assms(3-6) k(1,2,5,3,4)])
qed

end

section \<open>Rounds\<close>

text \<open>The device's mark follows the number of reads that failed in a row.\<close>

definition valid_ok :: "gemini_sensor \<Rightarrow> bool \<Rightarrow> bool" where
  "valid_ok sn v \<longleftrightarrow> (v \<longleftrightarrow> missing_cnt sn \<le> kMissingFrameThreshold)"

lemma received_valid: "handle_received es sn st = Inr (sn', st', acts) \<Longrightarrow> valid_after acts v = v"
  by (induction es sn st arbitrary: sn' st' acts rule: handle_received.induct)
    (fastforce simp: bind_result_Inr split: option.splits)+

definition round_done ::
    "nat list \<Rightarrow> nat \<Rightarrow> nat \<Rightarrow> (frame_info \<Rightarrow> stream_profile) \<Rightarrow> gemini_sensor \<Rightarrow> pipeline \<Rightarrow> nat
      \<Rightarrow> gemini_sensor \<Rightarrow> pipeline \<Rightarrow> store \<Rightarrow> bool \<Rightarrow> bool" where
  "round_done comps k kv prof sn p n sn' p' st' v' \<longleftrightarrow> stream_ready comps k kv prof (sn', p', st')
     \<and> active_infos sn' = active_infos sn \<and> length (sn_buffer sn') = length (sn_buffer sn)
     \<and> wanted (aggregator_of p') = wanted (aggregator_of p) \<and> missing_cnt sn' = n \<and> valid_ok sn' v'"

context usb_camera
begin

text \<open>An iteration with a failed read only counts, and marks the device when it is one too many.\<close>

lemma iter_error:
  assumes "answers s = Inl e # as" "-13 \<le> e" "e < 0"
  obtains s1 where "answers s1 = as"
    "stream_iter g junk sn st s = Some (Inr (sn\<lparr>missing_cnt := missing_cnt sn + 1\<rparr>, st, s1,
       if kMissingFrameThreshold < missing_cnt sn + 1 then [Set_valid False] else []))"
proof -
  obtain s1 where s1: "stream_read g junk (sn_buffer sn) s = Some (Inr (e, sn_buffer sn, s1))" "answers s1 = as"
    using read_error [OF assms] .
  obtain s2 where s2: "hardwareReset g s1 = Inr s2" "answers s2 = as" using camera_laws(5) s1(2) by metis
  show ?thesis
    using that [of "if kMissingFrameThreshold < missing_cnt sn + 1 then s2 else s1"] s1 s2 assms(3)
    by (simp add: stream_iter_def Let_def split: if_splits)
qed

lemma error_round:
  assumes ready: "stream_ready comps k kv prof (sn, p, st)" and v: "valid_ok sn v"
    and e: "answers s = Inl e # as" "-13 \<le> e" "e < 0"
  shows "\<exists>sn' v' s'. usb_round comps k psrc g junk (sn, p, st, v, s) = Some (Inr (None, sn', p, st, v', s'))
    \<and> round_done comps k kv prof sn p (missing_cnt sn + 1) sn' p st v' \<and> answers s' = as"
proof -
  let ?sn = "sn\<lparr>missing_cnt := missing_cnt sn + 1\<rparr>"
  let ?acts = "if kMissingFrameThreshold < missing_cnt sn + 1 then [Set_valid False] else []"
  obtain s1 where it: "answers s1 = as" "stream_iter g junk sn st s = Some (Inr (?sn, st, s1, ?acts))" by (rule iter_error [OF e])
  have idle: "application_round comps k psrc ?sn acts p st = Inr ((False, []), p, st)" if "dispatched acts = []" for acts
    using ready that by (intro idle_round [of "sn_source sn"]) (auto simp: stream_ready_def)
  have "usb_round comps k psrc g junk (sn, p, st, v, s) = Some (Inr (None, ?sn, p, st, valid_after ?acts v, s1))"
    using it(2) idle by (simp add: usb_round_def)
  moreover have "valid_ok ?sn (valid_after ?acts v)" using v by (auto simp: valid_ok_def)
  ultimately show ?thesis using ready it(1) by (auto simp: round_done_def)
qed

text \<open>An iteration that gets a packet is one call of \<open>handle_packet\<close>, with what the buffer held behind it.\<close>

lemma iter_packet:
  assumes as: "answers s = Inr (packet_bytes (head, ts, raws, [])) # as" and pk: "wire_packet (active_infos sn) (head, ts, raws, [])"
    and fits: "buffer_fits sn" "infos_size (active_infos sn) + 20 < 2 ^ 31"
  obtains rest s1 where "packet_ok (active_infos sn) (head, ts, raws, rest)" "answers s1 = as"
    "length (packet_bytes (head, ts, raws, rest)) = length (sn_buffer sn)"
    "stream_iter g junk sn st s =
      Some (bind_result (handle_packet (sn\<lparr>missing_cnt := 0, sn_buffer := packet_bytes (head, ts, raws, rest)\<rparr>) st)
        (\<lambda>(sn3, st3, acts). Inr (sn3, st3, s1, (if 0 < missing_cnt sn then [Set_valid True] else []) @ acts)))"
proof -
  let ?pkt = "packet_bytes (head, ts, raws, [])"
  note w = pk [unfolded wire_packet_def]
  have len: "length ?pkt = infos_size (active_infos sn) + 20"
    using wire_packet_length [OF pk] by (simp add: pack_head_size_def)
  have size: "20 \<le> length ?pkt" "length ?pkt < 2 ^ 31" "length ?pkt \<le> length (sn_buffer sn)"
    using fits by (simp_all add: len buffer_fits_def pack_head_size_def)
  from read_packet [OF as size] w obtain s1 where
    s1: "stream_read g junk (sn_buffer sn) s = Some (Inr (0, ?pkt @ drop (length ?pkt) (sn_buffer sn), s1))" "answers s1 = as"
    by (metis SE2_USB_STATUS_SUCCESS_def)
  have bytes: "packet_bytes (head, ts, raws, drop (length ?pkt) (sn_buffer sn)) = ?pkt @ drop (length ?pkt) (sn_buffer sn)"
    by (simp add: packet_bytes_def)
  have order: "sn\<lparr>sn_buffer := b, missing_cnt := 0\<rparr> = sn\<lparr>missing_cnt := 0, sn_buffer := b\<rparr>" for b by (cases sn) simp
  show ?thesis
  proof (rule that)
    show "packet_ok (active_infos sn) (head, ts, raws, drop (length ?pkt) (sn_buffer sn))" using w by (simp add: packet_ok_def)
    show "length (packet_bytes (head, ts, raws, drop (length ?pkt) (sn_buffer sn))) = length (sn_buffer sn)"
      using size unfolding bytes by simp
    show "stream_iter g junk sn st s =
      Some (bind_result (handle_packet (sn\<lparr>missing_cnt := 0, sn_buffer := packet_bytes (head, ts, raws, drop (length ?pkt) (sn_buffer sn))\<rparr>) st)
        (\<lambda>(sn3, st3, acts). Inr (sn3, st3, s1, (if 0 < missing_cnt sn then [Set_valid True] else []) @ acts)))"
      unfolding bytes using s1(1) by (simp add: stream_iter_def Let_def order)
  qed (rule s1(2))
qed

lemma packet_round:
  assumes ready: "stream_ready comps k kv prof (sn, p, st)" and v: "valid_ok sn v"
    and as: "answers s = Inr (packet_bytes pk) # as" and pk: "wire_packet (active_infos sn) pk"
    and fits: "buffer_fits sn" "infos_size (active_infos sn) + 20 < 2 ^ 31"
  shows "\<exists>sn' p' st' v' s'. usb_round comps k psrc g junk (sn, p, st, v, s)
      = Some (Inr (Some (packet_view prof (active_infos sn) (wanted (aggregator_of p)) pk), sn', p', st', v', s'))
    \<and> round_done comps k kv prof sn p 0 sn' p' st' v' \<and> answers s' = as"
proof -
  obtain head ts raws where e: "pk = (head, ts, raws, [])" using pk by (cases pk) (auto simp: wire_packet_def)
  obtain rest s1 where it: "packet_ok (active_infos sn) (head, ts, raws, rest)" "answers s1 = as"
    "length (packet_bytes (head, ts, raws, rest)) = length (sn_buffer sn)"
    "stream_iter g junk sn st s =
      Some (bind_result (handle_packet (sn\<lparr>missing_cnt := 0, sn_buffer := packet_bytes (head, ts, raws, rest)\<rparr>) st)
        (\<lambda>(sn3, st3, acts). Inr (sn3, st3, s1, (if 0 < missing_cnt sn then [Set_valid True] else []) @ acts)))"
    using iter_packet [OF as [unfolded e] pk [unfolded e] fits] .
  define pk' where "pk' = (head, ts, raws, rest)"
  have view: "packet_view prof es ws pk' = packet_view prof es ws pk" for es ws
    unfolding pk'_def e by (rule packet_view_rest)
  let ?sn = "sn\<lparr>missing_cnt := 0\<rparr>"
  have "stream_ready comps k kv prof (?sn, p, st)" "packet_ok (active_infos ?sn) pk'"
    using ready it(1) by (simp_all add: pk'_def)
  from packet_round_ok [OF this, of psrc] obtain fg st1 acts p' st' where
    r: "handle_packet (?sn\<lparr>sn_buffer := packet_bytes pk'\<rparr>) st = Inr (?sn\<lparr>sn_buffer := packet_bytes pk', usb_group := fg\<rparr>, st1, acts)"
    "application_round comps k psrc (?sn\<lparr>sn_buffer := packet_bytes pk', usb_group := fg\<rparr>) acts p st1
      = Inr ((True, packet_view prof (active_infos ?sn) (wanted (aggregator_of p)) pk'), p', st')"
    "stream_ready comps k kv prof (?sn\<lparr>sn_buffer := packet_bytes pk', usb_group := fg\<rparr>, p', st')"
    "wanted (aggregator_of p') = wanted (aggregator_of p)" by blast
  let ?sn' = "?sn\<lparr>sn_buffer := packet_bytes pk', usb_group := fg\<rparr>"
  let ?acts = "(if 0 < missing_cnt sn then [Set_valid True] else []) @ acts"
  have valid: "valid_after acts u = u" for u
  proof -
    obtain sn0 where "handle_received (active_infos sn) sn0 st = Inr (?sn\<lparr>sn_buffer := packet_bytes pk', usb_group := fg\<rparr>, st1, acts)"
      using r(1) by (auto simp: handle_packet_def handle_received_frames_def bind_result_Inr)
    then show ?thesis by (rule received_valid)
  qed
  have app: "application_round comps k psrc ?sn' ?acts p st1
      = Inr ((True, packet_view prof (active_infos sn) (wanted (aggregator_of p)) pk), p', st')"
    using r(2) by (simp add: application_round_def view)
  have "valid_ok ?sn' (valid_after ?acts v)" using v valid by (simp add: valid_ok_def kMissingFrameThreshold_def)
  moreover have "length (sn_buffer ?sn') = length (sn_buffer sn)" using it(3) by (simp add: pk'_def)
  ultimately have "round_done comps k kv prof sn p 0 ?sn' p' st' (valid_after ?acts v)"
    using r(3,4) by (simp add: round_done_def)
  moreover have "usb_round comps k psrc g junk (sn, p, st, v, s)
      = Some (Inr (Some (packet_view prof (active_infos sn) (wanted (aggregator_of p)) pk), ?sn', p', st', valid_after ?acts v, s1))"
    using it(4) r(1) app by (simp add: usb_round_def pk'_def)
  ultimately show ?thesis using it(2) by blast
qed

lemma iter_overrun:
  assumes a: "answers s = Inr (packet_bytes pk) # as" and pk: "wire_packet (active_infos sn) pk"
    and fits: "\<not> buffer_fits sn" "infos_size (active_infos sn) + 20 < 2 ^ 31"
  shows "stream_iter g junk sn st s = Some (Inl (Undefined ''write past the buffer''))"
proof -
  have len: "length (packet_bytes pk) = infos_size (active_infos sn) + 20"
    using wire_packet_length [OF pk] by (simp add: pack_head_size_def)
  have "stream_read g junk (sn_buffer sn) s = Some (Inl (Undefined ''write past the buffer''))"
    by (rule read_overruns [OF a]) (use len fits pk in \<open>simp_all add: buffer_fits_def pack_head_size_def wire_packet_def\<close>)
  then show ?thesis by (simp add: stream_iter_def)
qed

lemma any_round:
  assumes "stream_ready comps k kv prof (sn, p, st)" "valid_ok sn v" "answers s = wire_answers (x # xs)"
    and "answer_ok (active_infos sn) x" "no_packet x \<or> buffer_fits sn" "infos_size (active_infos sn) + 20 < 2 ^ 31"
  obtains sn1 p1 st1 v1 s1 where "usb_round comps k psrc g junk (sn, p, st, v, s)
      = Some (Inr (answer_seen prof (active_infos sn) (wanted (aggregator_of p)) x, sn1, p1, st1, v1, s1))"
    "round_done comps k kv prof sn p (misses [x] (missing_cnt sn)) sn1 p1 st1 v1" "answers s1 = wire_answers xs"
proof (cases x)
  case (Inl e)
  with assms(3,4) have "answers s = Inl e # wire_answers xs" "-13 \<le> e" "e < 0" by (simp_all add: wire_answers_def)
  from error_round [OF assms(1,2) this, of psrc junk] Inl that show ?thesis by fastforce
next
  case (Inr pk)
  with assms(3-5) have "answers s = Inr (packet_bytes pk) # wire_answers xs" "wire_packet (active_infos sn) pk" "buffer_fits sn"
    by (simp_all add: wire_answers_def)
  from packet_round [OF assms(1,2) this assms(6), of psrc junk] Inr that show ?thesis by fastforce
qed

lemma rounds_ok:
  assumes "stream_ready comps k kv prof (sn, p, st)" "valid_ok sn v" "answers s = wire_answers xs"
    and "list_all (answer_ok (active_infos sn)) xs" "list_all no_packet xs \<or> buffer_fits sn"
    and "infos_size (active_infos sn) + 20 < 2 ^ 31"
  shows "\<exists>sn' p' st' v' s'. usb_rounds (length xs) comps k psrc g junk (sn, p, st, v, s)
      = Some (Inr (map (answer_seen prof (active_infos sn) (wanted (aggregator_of p))) xs, sn', p', st', v', s'))
    \<and> stream_ready comps k kv prof (sn', p', st') \<and> valid_ok sn' v' \<and> missing_cnt sn' = misses xs (missing_cnt sn)
    \<and> answers s' = []"
  using assms
proof (induction xs arbitrary: sn p st v s)
  case Nil
  then show ?case by (simp add: wire_answers_def)
next
  case (Cons x xs)
  from Cons.prems(4,5) have x: "answer_ok (active_infos sn) x" "no_packet x \<or> buffer_fits sn" by auto
  obtain sn1 p1 st1 v1 s1 where 1: "usb_round comps k psrc g junk (sn, p, st, v, s)
      = Some (Inr (answer_seen prof (active_infos sn) (wanted (aggregator_of p)) x, sn1, p1, st1, v1, s1))"
    "round_done comps k kv prof sn p (misses [x] (missing_cnt sn)) sn1 p1 st1 v1" "answers s1 = wire_answers xs"
    by (rule any_round [OF Cons.prems(1-3) x Cons.prems(6), of psrc junk])
  note d = 1(2) [unfolded round_done_def]
  have "list_all (answer_ok (active_infos sn1)) xs" "list_all no_packet xs \<or> buffer_fits sn1"
    "infos_size (active_infos sn1) + 20 < 2 ^ 31" using d Cons.prems(4-6) by (auto simp: buffer_fits_def)
  from Cons.IH [OF _ _ 1(3) this, of p1 st1 v1] d obtain sn' p' st' v' s' where
    2: "usb_rounds (length xs) comps k psrc g junk (sn1, p1, st1, v1, s1)
      = Some (Inr (map (answer_seen prof (active_infos sn) (wanted (aggregator_of p))) xs, sn', p', st', v', s'))"
    "stream_ready comps k kv prof (sn', p', st')" "valid_ok sn' v'" "missing_cnt sn' = misses xs (missing_cnt sn1)"
    "answers s' = []" by auto
  have "misses xs (missing_cnt sn1) = misses (x # xs) (missing_cnt sn)" using d by (cases x) auto
  with 1(1) 2 show ?case by auto
qed

text \<open>In a buffer that is too small the first packet is written past the end.\<close>

lemma rounds_overrun:
  assumes "stream_ready comps k kv prof (sn, p, st)" "valid_ok sn v" "answers s = wire_answers xs"
    and "list_all (answer_ok (active_infos sn)) xs" "\<not> list_all no_packet xs" "\<not> buffer_fits sn"
    and "infos_size (active_infos sn) + 20 < 2 ^ 31"
  shows "usb_rounds (length xs) comps k psrc g junk (sn, p, st, v, s) = Some (Inl (Undefined ''write past the buffer''))"
  using assms
proof (induction xs arbitrary: sn p st v s)
  case (Cons x xs)
  show ?case
  proof (cases x)
    case (Inl e)
    with Cons.prems(4) have "answer_ok (active_infos sn) x" "no_packet x \<or> buffer_fits sn" by simp_all
    from any_round [OF Cons.prems(1-3) this Cons.prems(7), of psrc junk] obtain sn1 p1 st1 v1 s1 where
      1: "usb_round comps k psrc g junk (sn, p, st, v, s)
        = Some (Inr (answer_seen prof (active_infos sn) (wanted (aggregator_of p)) x, sn1, p1, st1, v1, s1))"
      "round_done comps k kv prof sn p (misses [x] (missing_cnt sn)) sn1 p1 st1 v1" "answers s1 = wire_answers xs" .
    note d = 1(2) [unfolded round_done_def]
    have "list_all (answer_ok (active_infos sn1)) xs" "\<not> list_all no_packet xs" "\<not> buffer_fits sn1"
      "infos_size (active_infos sn1) + 20 < 2 ^ 31" using d Cons.prems(4-7) Inl by (simp_all add: buffer_fits_def)
    from Cons.IH [OF _ _ 1(3) this, of p1 st1 v1] d 1(1) show ?thesis by simp
  next
    case (Inr pk)
    with Cons.prems(3,4) have a: "answers s = Inr (packet_bytes pk) # wire_answers xs" and pk: "wire_packet (active_infos sn) pk"
      by (simp_all add: wire_answers_def)
    show ?thesis using iter_overrun [OF a pk Cons.prems(6,7)] by (simp add: usb_round_def)
  qed
qed simp

end

text \<open>Streaming from a buffer of the size \<open>startStream\<close> gives it, in a block with \<open>slack\<close>.\<close>

lemma streaming_from_buffer:
  assumes "answers_requests g rem answers" and "answers s = wire_answers xs" and "stream_ready comps k kv prof (sn, p, st)"
    and "missing_cnt sn = 0" "length (sn_buffer sn) = infos_size (active_infos sn) + pack_head_size"
    and "infos_size (active_infos sn) + 20 < 2 ^ 31" and "list_all (answer_ok (active_infos sn)) xs"
  shows "if 8 \<le> length slack \<or> list_all no_packet xs
    then \<exists>sn' p' st' v' s'. usb_rounds (length xs) comps k psrc g junk (memory_block slack sn, p, st, True, s)
        = Some (Inr (map (answer_seen prof (active_infos sn) (wanted (aggregator_of p))) xs, sn', p', st', v', s'))
      \<and> stream_ready comps k kv prof (sn', p', st') \<and> look st' = Map.empty
      \<and> missing_cnt sn' = misses xs 0 \<and> (v' \<longleftrightarrow> missing_cnt sn' \<le> 25)
    else usb_rounds (length xs) comps k psrc g junk (memory_block slack sn, p, st, True, s)
      = Some (Inl (Undefined ''write past the buffer''))"
proof -
  let ?sn = "memory_block slack sn"
  have u: "usb_camera g rem answers" using assms(1) by unfold_locales (simp_all add: answers_requests_def)
  have b: "stream_ready comps k kv prof (?sn, p, st)" "active_infos ?sn = active_infos sn" "missing_cnt ?sn = 0"
    "buffer_fits ?sn \<longleftrightarrow> 8 \<le> length slack"
    using assms(3-5) by (simp_all add: memory_block_def buffer_fits_def)
  have v: "valid_ok ?sn True" by (simp add: valid_ok_def b(3))
  have as: "list_all (answer_ok (active_infos ?sn)) xs" "infos_size (active_infos ?sn) + 20 < 2 ^ 31"
    using assms(6,7) by (simp_all add: b(2))
  show ?thesis
  proof (cases "8 \<le> length slack \<or> list_all no_packet xs")
    case True
    then have "list_all no_packet xs \<or> buffer_fits ?sn" by (auto simp: b(4))
    from usb_camera.rounds_ok [OF u b(1) v assms(2) as(1) this as(2), of psrc junk] True show ?thesis
      using ranked_no_leak by (fastforce simp: b(2,3) stream_ready_def frames_ok_def valid_ok_def kMissingFrameThreshold_def)
  next
    case False
    then show ?thesis using usb_camera.rounds_overrun [OF u b(1) v assms(2) as(1) _ _ as(2), of psrc junk] by (simp add: b(4))
  qed
qed

section \<open>A camera\<close>

text \<open>
  A device with a list of answers, that cuts the transfers of a packet to \<open>f\<close>: at least twenty bytes in the
  first and one in the others.  Its state: the transfers so far, the bytes left, the answers left.
\<close>

type_synonym camera = "nat \<times> u8 list \<times> (int + u8 list) list"

fun camera_control :: "int \<Rightarrow> camera \<Rightarrow> int \<times> u8 list \<times> camera" where
  "camera_control cmd (i, bs, Inl e # as) = (if cmd = GET_FRAME then (e, [], i, bs, as) else (0, [], i, bs, Inl e # as))"
| "camera_control cmd (i, bs, Inr pkt # as) = (if cmd = GET_FRAME then (0, [], 0, pkt, as) else (0, [], i, bs, Inr pkt # as))"
| "camera_control cmd (i, bs, []) = (0, [], i, bs, [])"

definition camera_cut :: "(nat \<Rightarrow> nat) \<Rightarrow> nat \<Rightarrow> nat" where
  "camera_cut f i = (if i = 0 then 20 else 1) + f i"

definition camera_gemini :: "(nat \<Rightarrow> nat) \<Rightarrow> camera gemini" where
  "camera_gemini f =
     \<lparr>messenger =
        \<lparr>lu_control = (\<lambda>_ _ cmd _ _ _ _. camera_control cmd),
         lu_bulk = (\<lambda>_ _ len _ (i, bs, as). let n = min (nat len) (min (camera_cut f i) (length bs))
                     in (0, int n, take n bs, (i + 1, drop n bs, as))),
         lu_interrupt = (\<lambda>_ _ _ _ s. (0, 0, [], s)),
         lu_clear_halt = (\<lambda>_ s. (0, s))\<rparr>,
      endpoint_bulk_in = \<lparr>ep_address = 0x81, ep_attributes = 2, ep_interface = 0\<rparr>,
      endpoint_bulk_out = \<lparr>ep_address = 1, ep_attributes = 2, ep_interface = 0\<rparr>\<rparr>"

lemma camera_delivers: "delivers (camera_gemini f) (fst \<circ> snd)"
  unfolding delivers_def by (auto simp: camera_gemini_def camera_cut_def packet_simps Let_def)

lemma camera_state: "answers_requests (camera_gemini f) (fst \<circ> snd) (snd \<circ> snd)"
  unfolding answers_requests_def
proof (intro conjI allI impI)
  let ?g = "camera_gemini f"
  show "delivers ?g (fst \<circ> snd)" by (rule camera_delivers)
  fix s :: camera
  obtain i bs xs where s: "s = (i, bs, xs)" by (cases s)
  show "\<exists>s1. control_transfer_out ?g GET_FRAME 0 [] 0 s = Inr (e, s1) \<and> (snd \<circ> snd) s1 = as"
    if "(snd \<circ> snd) s = Inl e # as \<and> e < 0" for e as
    using that by (simp add: s control_transfer_out_def control_transfer_def camera_gemini_def put_bytes_def)
  show "\<exists>s1. control_transfer_out ?g GET_FRAME 0 [] 0 s = Inr (SE2_USB_STATUS_SUCCESS, s1) \<and> (fst \<circ> snd) s1 = pkt
      \<and> (snd \<circ> snd) s1 = as
      \<and> (\<forall>mem k bs s2. lu_bulk (messenger ?g) (ep_address (endpoint_bulk_in ?g)) mem 1024 80 s1 = (0, int k, bs, s2)
          \<longrightarrow> 20 \<le> length pkt \<longrightarrow> 20 \<le> k)"
    if "(snd \<circ> snd) s = Inr pkt # as" for pkt as
    using that by (simp add: s control_transfer_out_def control_transfer_def camera_gemini_def put_bytes_def
        SE2_USB_STATUS_SUCCESS_def camera_cut_def Let_def)
  show "(snd \<circ> snd) s' = (snd \<circ> snd) s"
    if "lu_bulk (messenger ?g) (ep_address (endpoint_bulk_in ?g)) buf len tmo s = (e, n, b, s')" for buf len tmo e n b s'
    using that by (auto simp: s camera_gemini_def Let_def)
  have other: "camera_control RESET_USB_EDP (i, bs, xs) = (0, [], i, bs, xs)"
    by (cases xs; cases "hd xs") (simp_all add: RESET_USB_EDP_def GET_FRAME_def)
  show "(snd \<circ> snd) s' = (snd \<circ> snd) s"
    if "control_transfer_in ?g RESET_USB_EDP 0 (Some m) 16 s = Inr (r, m', s')" for m r m' s'
    using that other by (auto simp: s control_transfer_in_def control_transfer_def camera_gemini_def bind_result_Inr)
  show "\<exists>s'. hardwareReset ?g s = Inr s' \<and> (snd \<circ> snd) s' = (snd \<circ> snd) s"
    using other by (simp add: s hardwareReset_def control_transfer_out_def control_transfer_def camera_gemini_def put_bytes_def)
qed

interpretation camera: usb_camera "camera_gemini f" "fst \<circ> snd" "snd \<circ> snd" for f
  by unfold_locales (simp_all add: camera_delivers camera_state)

section \<open>Properties\<close>

text \<open>C4: Streaming over the bus, from a start of the stream and an empty store.  Each request \<open>GET_FRAME\<close> is
  answered with an error of the status table or with a whole packet for the active streams; the transfers of a
  packet are not empty and have no error, and the first has at least twenty bytes.  When the block of the receive
  buffer has eight bytes more than \<open>startStream\<close> asked for, or no packet comes, every read returns: each
  packet becomes one set with exactly its images, profiles, dimensions and time stamp in the order of the
  stream ids, an error costs that poll only, nothing stays behind, and the device is marked invalid exactly
  while more than 25 reads in a row have failed.  Otherwise the first packet is written past the buffer.\<close>

theorem usb_streaming_delivers:
  assumes "answers_requests g rem answers" and "answers s = wire_answers xs"
    and "startStream sn0 = (Inr (), sn1)" and "stream_ready comps k kv prof (sn0, p, st)"
    and "infos_size (active_infos sn0) + 20 < 2 ^ 31" and "list_all (answer_ok (active_infos sn0)) xs"
  shows "if 8 \<le> length slack \<or> list_all no_packet xs
    then \<exists>sn' p' st' v' s'. usb_rounds (length xs) comps k psrc g junk (memory_block slack sn1, p, st, True, s)
        = Some (Inr (map (answer_seen prof (active_infos sn0) (wanted (aggregator_of p))) xs, sn', p', st', v', s'))
      \<and> stream_ready comps k kv prof (sn', p', st') \<and> look st' = Map.empty
      \<and> missing_cnt sn' = misses xs 0 \<and> (v' \<longleftrightarrow> missing_cnt sn' \<le> 25)
    else usb_rounds (length xs) comps k psrc g junk (memory_block slack sn1, p, st, True, s)
      = Some (Inl (Undefined ''write past the buffer''))"
proof -
  have "group_ok (active_infos sn0) (usb_group sn0)" "infos_size (active_infos sn0) < 2 ^ 31"
    using assms(4,5) by (simp_all add: stream_ready_def)
  note sn1 = started_buffer [OF assms(3) this]
  have b: "stream_ready comps k kv prof (sn1, p, st)" "missing_cnt sn1 = 0" "active_infos sn1 = active_infos sn0"
    "length (sn_buffer sn1) = infos_size (active_infos sn1) + pack_head_size" "infos_size (active_infos sn1) + 20 < 2 ^ 31"
    "list_all (answer_ok (active_infos sn1)) xs"
    using assms(4-6) by (simp_all add: sn1)
  show ?thesis using streaming_from_buffer [OF assms(1,2) b(1,2,4-6), of slack psrc junk] unfolding b(3) .
qed

text \<open>One packet of thirty bytes for the one stream of \<open>wired_sensor\<close>.\<close>

definition wire_one :: packet where
  "wire_one = ([0x55, 0xAA, 0x55, 0xAA, 30, 0, 0, 0, 16, 0, 0, 0], 9, [replicate 10 5], [])"

lemma wire_one_ok: "wire_packet [(3, tiny_info)] wire_one"
  by (simp add: wire_packet_def wire_one_def packet_ok_def packet_bytes_def pack_head_size_def raw_ok_def tiny_info_def
      with_embeddedline_def fid_defs head_magic_def PACK_MAGIC_def head_pack_length_def u32_of_def)

lemma misses_errors: "misses (replicate n (Inl e)) m = m + n"
  by (induction n arbitrary: m) auto

lemma wired_start: "startStream (wired_sensor []) = (Inr (), snd (startStream (wired_sensor [])))"
  by (simp add: startStream_def wired_sensor_def tiny_sensor_def pack_head_size_def)

theorem usb_streaming_delivers_witness:
  "(\<exists>sn' p' st' s'. usb_rounds 27 [1] 1 (new_source 256) (camera_gemini (\<lambda>_. 0)) []
      (memory_block (replicate 8 0) (snd (startStream (wired_sensor []))), one_stream_pipeline, map new_archive [0, 256], True,
       (0, [], Inr (packet_bytes wire_one) # replicate 26 (Inl (-7))))
    = Some (Inr (Some [Some (image_view (\<lambda>_. info_profile 5 tiny_info) 9 tiny_info (replicate 10 5))] # replicate 26 None,
        sn', p', st', False, s')))
  \<and> usb_rounds 27 [1] 1 (new_source 256) (camera_gemini (\<lambda>_. 0)) []
      (memory_block [] (snd (startStream (wired_sensor []))), one_stream_pipeline, map new_archive [0, 256], True,
       (0, [], Inr (packet_bytes wire_one) # replicate 26 (Inl (-7)))) = Some (Inl (Undefined ''write past the buffer''))"
proof -
  let ?sn = "wired_sensor []" and ?xs = "Inr wire_one # replicate 26 (Inl (-7)) :: (int + packet) list"
  have sn: "active_infos ?sn = [(3, tiny_info)]" by (simp add: wired_sensor_def tiny_sensor_def)
  have wire: "(snd \<circ> snd) (0 :: nat, [] :: u8 list, Inr (packet_bytes wire_one) # replicate 26 (Inl (-7))) = wire_answers ?xs"
    by (simp add: wire_answers_def)
  have ok: "list_all (answer_ok (active_infos ?sn)) ?xs" unfolding sn using wire_one_ok by (simp add: list_all_iff)
  have size: "infos_size (active_infos ?sn) + 20 < 2 ^ 31" by (simp add: sn tiny_info_def)
  have view: "packet_view (\<lambda>_. info_profile 5 tiny_info) [(3, tiny_info)] [5] wire_one
      = [Some (image_view (\<lambda>_. info_profile 5 tiny_info) 9 tiny_info (replicate 10 5))]"
    by (simp add: packet_view_def wire_one_def info_profile_def)
  have m: "misses ?xs 0 = 26" by (simp add: misses_errors)
  note run = usb_streaming_delivers [OF camera_state [of "\<lambda>_. 0"] wire wired_start wired_stream_ready size ok, of _ "new_source 256" "[]"]
  from run [of "replicate 8 0"] obtain sn' p' st' v' s' where
    "usb_rounds (length ?xs) [1] 1 (new_source 256) (camera_gemini (\<lambda>_. 0)) []
      (memory_block (replicate 8 0) (snd (startStream ?sn)), one_stream_pipeline, map new_archive [0, 256], True,
       (0, [], Inr (packet_bytes wire_one) # replicate 26 (Inl (-7))))
    = Some (Inr (map (answer_seen (\<lambda>_. info_profile 5 tiny_info) (active_infos ?sn) (wanted (aggregator_of one_stream_pipeline))) ?xs,
        sn', p', st', v', s'))" "missing_cnt sn' = misses ?xs 0" "v' \<longleftrightarrow> missing_cnt sn' \<le> 25" by auto
  then have "\<exists>sn' p' st' s'. usb_rounds 27 [1] 1 (new_source 256) (camera_gemini (\<lambda>_. 0)) []
      (memory_block (replicate 8 0) (snd (startStream ?sn)), one_stream_pipeline, map new_archive [0, 256], True,
       (0, [], Inr (packet_bytes wire_one) # replicate 26 (Inl (-7))))
    = Some (Inr (Some [Some (image_view (\<lambda>_. info_profile 5 tiny_info) 9 tiny_info (replicate 10 5))] # replicate 26 None,
        sn', p', st', False, s'))"
    unfolding sn m by (cases s') (simp add: one_stream_simps(1,3) view)
  moreover from run [of "[]"] have "usb_rounds 27 [1] 1 (new_source 256) (camera_gemini (\<lambda>_. 0)) []
      (memory_block [] (snd (startStream ?sn)), one_stream_pipeline, map new_archive [0, 256], True,
       (0, [], Inr (packet_bytes wire_one) # replicate 26 (Inl (-7)))) = Some (Inl (Undefined ''write past the buffer''))"
    by simp
  ultimately show ?thesis by (rule conjI)
qed

end
