(* ===== verification/Start_Stream.thy ===== *)
theory Start_Stream
  imports Usb_Stream Gemini_Pipeline
begin

text \<open>
  From \<open>start\<close> to the first packet: a sensor made from the capabilities of its device, the profile that
  resolving gives, the opening and starting by the pipeline, and the state streaming needs
  (\<open>Steady_Stream\<close>).  The aggregator waits for exactly the streams that the sensor will send.
\<close>

section \<open>The profiles of a sensor\<close>

text \<open>The capabilities with the stream ids that \<open>initStreamProfiles\<close> gives them.\<close>

fun numbered :: "int \<Rightarrow> 'a list \<Rightarrow> (int \<times> 'a) list" where
  "numbered u [] = []"
| "numbered u (x # xs) = (u, x) # numbered (u + 1) xs"

lemma numbered_simps [simp]:
  "map snd (numbered u xs) = xs" "snd ` set (numbered u xs) = set xs" "length (numbered u xs) = length xs"
proof (induction xs arbitrary: u)
  case (Cons x xs)
  { case 1 then show ?case using Cons by simp
  next case 2 then show ?case using Cons by simp
  next case 3 then show ?case using Cons by simp }
qed simp_all

lemma numbered_nth: "j < length xs \<Longrightarrow> numbered u xs ! j = (u + int j, xs ! j)"
proof (induction xs arbitrary: u j)
  case (Cons x xs)
  then show ?case by (cases j) simp_all
qed simp

lemma numbered_mem: "(v, x) \<in> set (numbered u xs) \<Longrightarrow> x \<in> set xs"
  by (induction xs arbitrary: u) auto

lemma numbered_has: "x \<in> set xs \<Longrightarrow> \<exists>v. (v, x) \<in> set (numbered u xs)"
  by (induction xs arbitrary: u) auto

lemma numbered_fst: "(v, x) \<in> set (numbered u xs) \<Longrightarrow> u \<le> v"
  by (induction xs arbitrary: u) force+

lemma numbered_distinct: "distinct (map fst (numbered u xs))"
  by (induction xs arbitrary: u) (auto dest: numbered_fst)

definition caps_sensor :: "nat \<Rightarrow> serial_port \<Rightarrow> int \<Rightarrow> frame_info list \<Rightarrow> gemini_sensor" where
  "caps_sensor n port uid fis = snd (add_profiles uid fis (new_sensor n port))"

text \<open>
  The devices' frame ids are separate bits of a set, their indices places in the frame group, and a
  packet of all frames fits an \<open>int\<close>.
\<close>

definition caps_ok :: "frame_info list \<Rightarrow> bool" where
  "caps_ok fis \<longleftrightarrow> distinct (map fi_index fis) \<and> (\<forall>fi\<in>set fis. unat (fi_index fi) < kGroupSlots)
     \<and> (\<forall>x\<in>set fis. \<forall>y\<in>set fis. fi_index x \<noteq> fi_index y \<longrightarrow> fi_frame_id x AND fi_frame_id y = 0)
     \<and> (\<forall>fi\<in>set fis. fi_frame_id fi \<noteq> 0)
     \<and> sum_list (map (unat \<circ> fi_data_size) fis) + 20 < 2 ^ 31"

definition wanted_info :: "frame_info \<Rightarrow> bool" where
  "wanted_info fi \<longleftrightarrow> fid_and (ucast (fi_frame_id fi)) kNecessaryFrameIds \<noteq> 0"

definition caps_profile :: "int \<Rightarrow> frame_info list \<Rightarrow> frame_info \<Rightarrow> stream_profile" where
  "caps_profile uid fis fi = info_profile (the (map_of (map prod.swap (numbered uid fis)) fi)) fi"

definition caps_profiles :: "int \<Rightarrow> frame_info list \<Rightarrow> stream_profile list" where
  "caps_profiles uid fis = map (\<lambda>(u, fi). info_profile u fi) (numbered uid fis)"

text \<open>The profiles that \<open>open\<close> keeps of those requested, the infos of the frames the device will send, and the
  stream ids the aggregator will wait for.\<close>

definition caps_requests :: "int \<Rightarrow> frame_info list \<Rightarrow> stream_profile list" where
  "caps_requests uid fis = filter (\<lambda>p. fid_and (sp_frame_id p) kNecessaryFrameIds \<noteq> 0) (caps_profiles uid fis)"

definition caps_infos :: "int \<Rightarrow> frame_info list \<Rightarrow> (u32 \<times> frame_info) list" where
  "caps_infos uid fis = select_infos (requested_ids (caps_requests uid fis)) fis"

definition caps_wanted :: "int \<Rightarrow> frame_info list \<Rightarrow> int list" where
  "caps_wanted uid fis = map sp_uid (caps_requests uid fis)"

lemma caps_distinct: "caps_ok fis \<Longrightarrow> distinct fis"
  by (auto simp: caps_ok_def distinct_map)

lemma frame_ids_distinct: "caps_ok fis \<Longrightarrow> distinct (map fi_frame_id fis)"
proof -
  assume ok: "caps_ok fis"
  have "inj_on fi_frame_id (set fis)"
  proof (rule inj_onI)
    fix a b
    assume h: "a \<in> set fis" "b \<in> set fis" "fi_frame_id a = fi_frame_id b"
    then have "fi_index a = fi_index b" using ok unfolding caps_ok_def by (metis and.idem)
    then show "a = b" using ok h(1,2) by (auto simp: caps_ok_def distinct_map dest: inj_onD)
  qed
  then show ?thesis using caps_distinct [OF ok] by (simp add: distinct_map)
qed

lemma map_of_swap:
  "distinct xs \<Longrightarrow> (u, x) \<in> set (numbered k xs) \<Longrightarrow> map_of (map prod.swap (numbered k xs)) x = Some u"
proof (induction xs arbitrary: k)
  case (Cons y ys)
  have "(u, y) \<notin> set (numbered (k + 1) ys)" using Cons.prems(1) by (auto dest: numbered_mem)
  with Cons show ?case by auto
qed simp

lemma caps_profile_at:
  "caps_ok fis \<Longrightarrow> (u, fi) \<in> set (numbered uid fis) \<Longrightarrow> caps_profile uid fis fi = info_profile u fi"
  using map_of_swap [OF caps_distinct] by (simp add: caps_profile_def)

definition put_profile :: "int \<times> frame_info \<Rightarrow> (int \<times> stream_profile option) list \<Rightarrow> (int \<times> stream_profile option) list" where
  "put_profile = (\<lambda>(u, fi). omap_put (uint (fi_frame_id fi)) (Some (info_profile u fi)))"

lemma add_profiles_fields:
  "snd (add_profiles uid fis sn) = sn
     \<lparr>sn_profiles := sn_profiles sn @ caps_profiles uid fis, supported_infos := supported_infos sn @ fis,
      id_profiles := fold put_profile (numbered uid fis) (id_profiles sn)\<rparr>"
  by (induction uid fis sn rule: add_profiles.induct) (simp_all add: caps_profiles_def put_profile_def)

lemma fold_id_other:
  "omap_ok m \<Longrightarrow> k \<notin> (\<lambda>e. uint (fi_frame_id (snd e))) ` set xs \<Longrightarrow> map_of (fold put_profile xs m) k = map_of m k"
  by (induction xs arbitrary: m) (auto simp: put_profile_def map_of_omap_put split: prod.splits)

lemma fold_id_profiles:
  "distinct (map (fi_frame_id \<circ> snd) xs) \<Longrightarrow> omap_ok m \<Longrightarrow> (u, fi) \<in> set xs \<Longrightarrow>
     map_of (fold put_profile xs m) (uint (fi_frame_id fi)) = Some (Some (info_profile u fi))"
proof (induction xs arbitrary: m)
  case (Cons x xs)
  have m: "omap_ok (put_profile x m)" using Cons.prems(2) by (simp add: put_profile_def split: prod.split)
  show ?case
  proof (cases "x = (u, fi)")
    case True
    then have "uint (fi_frame_id fi) \<notin> (\<lambda>e. uint (fi_frame_id (snd e))) ` set xs"
      using Cons.prems(1) by (auto simp: image_iff word_uint_eq_iff)
    then show ?thesis
      using fold_id_other [OF m] Cons.prems(2) True by (simp add: map_of_omap_put put_profile_def)
  next
    case False
    then show ?thesis using Cons.IH [OF _ m] Cons.prems by simp
  qed
qed simp

section \<open>The active infos\<close>

lemma bit_requested:
  "bit (requested_ids ps) n \<longleftrightarrow> (\<exists>p\<in>set ps. bit (sp_frame_id p) n)"
proof -
  have "bit (foldl fid_or a xs) n \<longleftrightarrow> bit a n \<or> (\<exists>x\<in>set xs. bit x n)" for a xs
    by (induction xs arbitrary: a) (auto simp: fid_or_def bit_or_iff)
  then have "bit (requested_ids ps) n \<longleftrightarrow> (\<exists>p\<in>set ps. sp_frame_id p \<noteq> 0 \<and> bit (sp_frame_id p) n)"
    by (auto simp: requested_ids_def fid_NotUsed_def)
  then show ?thesis by (metis bit_0_eq bot_apply bot_bool_def)
qed

lemma and_nonzero: "(x :: 'a :: len word) AND y \<noteq> 0 \<longleftrightarrow> (\<exists>n. bit x n \<and> bit y n)"
proof -
  have "x AND y = 0 \<longleftrightarrow> (\<forall>n. \<not> bit (x AND y) n)" by (auto simp: bit_eq_iff dest: bit_imp_le_length)
  then show ?thesis by (simp add: bit_and_iff)
qed

text \<open>Because the ids are separate bits, the ids that are asked for select exactly the infos they come from.\<close>

lemma select_wanted:
  assumes ok: "caps_ok fis" and fi: "fi \<in> set fis"
    and ps: "sp_frame_id ` set ps = (\<lambda>fi. ucast (fi_frame_id fi)) ` {x \<in> set fis. wanted_info x}"
  shows "fi_frame_id fi AND ucast (requested_ids ps) \<noteq> 0 \<longleftrightarrow> wanted_info fi"
proof
  have bits: "bit (ucast (fi_frame_id x) :: u32) n \<longleftrightarrow> bit (fi_frame_id x) n" for x n
    by (auto simp: bit_ucast_iff dest: bit_imp_le_length)
  have req: "bit (requested_ids ps) n \<longleftrightarrow> (\<exists>x\<in>set fis. wanted_info x \<and> bit (fi_frame_id x) n)" for n
  proof -
    have "bit (requested_ids ps) n \<longleftrightarrow> (\<exists>i\<in>sp_frame_id ` set ps. bit i n)" by (simp add: bit_requested)
    then show ?thesis unfolding ps by (auto simp: bits)
  qed
  { assume "fi_frame_id fi AND ucast (requested_ids ps) \<noteq> 0"
    then obtain n where n: "bit (fi_frame_id fi) n" "bit (requested_ids ps) n"
      by (auto simp: and_nonzero bit_ucast_iff)
    then obtain x where x: "x \<in> set fis" "wanted_info x" "bit (fi_frame_id x) n" by (auto simp: req)
    have "fi_frame_id fi AND fi_frame_id x \<noteq> 0" using n(1) x(3) by (auto simp: and_nonzero)
    then have "fi_index fi = fi_index x" using ok fi x(1) by (auto simp: caps_ok_def)
    then have "fi = x" using ok fi x(1) by (auto simp: caps_ok_def distinct_map dest: inj_onD)
    then show "wanted_info fi" using x(2) by simp }
  { assume w: "wanted_info fi"
    have "fi_frame_id fi \<noteq> 0" using ok fi by (simp add: caps_ok_def)
    then obtain n where n: "bit (fi_frame_id fi) n" by (metis and_nonzero and.idem)
    then have "bit (requested_ids ps) n" using w fi by (auto simp: req)
    moreover have "n < 16" using bit_imp_le_length [OF n] by simp
    ultimately show "fi_frame_id fi AND ucast (requested_ids ps) \<noteq> 0"
      using n by (auto simp: and_nonzero bit_ucast_iff intro!: exI [of _ n]) }
qed

lemma fold_by_index:
  assumes "distinct (map fi_index xs)" "omap_ok m" "fst ` set m \<inter> fi_index ` set xs = {}"
  shows "mset (map snd (fold (\<lambda>fi. omap_put (fi_index fi) fi) xs m)) = mset (map snd m) + mset xs"
  using assms
proof (induction xs arbitrary: m)
  case (Cons x xs)
  have "map_of m (fi_index x) = None" using Cons.prems(3) by (auto simp: map_of_eq_None_iff)
  then have "mset (map snd (omap_put (fi_index x) x m)) = add_mset x (mset (map snd m))"
    using mset_omap_put [of m "fi_index x" x] Cons.prems(2) by simp
  with Cons.IH [of "omap_put (fi_index x) x m"] Cons.prems show ?case by auto
qed simp

lemma select_infos_mset:
  assumes "caps_ok fis" "\<And>fi. fi \<in> set fis \<Longrightarrow> fi_frame_id fi AND ucast ids \<noteq> 0 \<longleftrightarrow> wanted_info fi"
  shows "mset (map snd (select_infos ids fis)) = mset (filter wanted_info fis)"
proof -
  have f: "filter (\<lambda>fi. fi_frame_id fi AND ucast ids \<noteq> 0) fis = filter wanted_info fis"
    by (rule filter_cong [OF refl]) (rule assms(2))
  have "distinct (map fi_index (filter wanted_info fis))"
    using assms(1) by (simp add: caps_ok_def distinct_map_filter)
  from fold_by_index [OF this, of "[]"] show ?thesis by (simp add: select_infos_def f)
qed

lemma info_profile_simps [simp]:
  "sp_uid (info_profile u fi) = u" "sp_frame_id (info_profile u fi) = ucast (fi_frame_id fi)"
  by (simp_all add: info_profile_def)

lemma caps_requests_eq:
  "caps_requests uid fis = map (\<lambda>(u, fi). info_profile u fi) (filter (\<lambda>(u, fi). wanted_info fi) (numbered uid fis))"
  by (simp add: caps_requests_def caps_profiles_def filter_map comp_def wanted_info_def split_def)

lemma requests_uids: "caps_wanted uid fis = map fst (filter (\<lambda>(u, fi). wanted_info fi) (numbered uid fis))"
  by (simp add: caps_wanted_def caps_requests_eq case_prod_beta)

lemma wanted_sorted: "sorted (caps_wanted uid fis)" "distinct (caps_wanted uid fis)"
proof -
  have "sorted (map fst (numbered uid fis))"
    by (induction fis arbitrary: uid) (force dest: numbered_fst)+
  then show "sorted (caps_wanted uid fis)" unfolding requests_uids by (rule sorted_filter)
  show "distinct (caps_wanted uid fis)" unfolding requests_uids
    by (rule distinct_map_filter [OF numbered_distinct])
qed

lemma caps_infos_mset:
  assumes "caps_ok fis"
  shows "mset (map snd (caps_infos uid fis)) = mset (filter wanted_info fis)"
proof -
  have "sp_frame_id ` set (caps_requests uid fis) = (\<lambda>fi. ucast (fi_frame_id fi)) ` {x \<in> set fis. wanted_info x}"
    unfolding caps_requests_eq by (auto simp: image_iff dest: numbered_mem) (metis numbered_has)
  from select_infos_mset [OF assms select_wanted [OF assms _ this]] show ?thesis by (simp add: caps_infos_def)
qed

text \<open>The aggregator waits for the streams of the frames that will come.\<close>

lemma caps_streams:
  assumes "caps_ok fis"
  shows "mset (map (\<lambda>e. sp_uid (caps_profile uid fis (snd e))) (caps_infos uid fis)) = mset (caps_wanted uid fis)"
proof -
  let ?u = "\<lambda>fi. sp_uid (caps_profile uid fis fi)"
  have "mset (map (\<lambda>e. ?u (snd e)) (caps_infos uid fis)) = image_mset ?u (mset (map snd (caps_infos uid fis)))"
    by (simp add: multiset.map_comp comp_def)
  also have "\<dots> = mset (map ?u (filter wanted_info fis))" unfolding caps_infos_mset [OF assms] by simp
  also have "map ?u (filter wanted_info fis) = map ?u (filter wanted_info (map snd (numbered uid fis)))" by simp
  also have "\<dots> = map (\<lambda>e. ?u (snd e)) (filter (\<lambda>(u, fi). wanted_info fi) (numbered uid fis))"
    by (simp only: filter_map map_map comp_def split_def)
  also have "\<dots> = caps_wanted uid fis"
    unfolding requests_uids by (rule map_cong) (auto simp: caps_profile_at [OF assms])
  finally show ?thesis .
qed

lemma caps_infos_size:
  assumes "caps_ok fis"
  shows "infos_size (caps_infos uid fis) < 2 ^ 31" "(i, fi) \<in> set (caps_infos uid fis) \<Longrightarrow> fi \<in> set fis \<and> fi_index fi = i"
    "length (caps_infos uid fis) \<le> kGroupSlots" "infos_size (caps_infos uid fis) + 20 < 2 ^ 31"
proof -
  have "infos_size (caps_infos uid fis) = sum_list (map (unat \<circ> fi_data_size) (map snd (caps_infos uid fis)))"
    by (simp add: infos_size_def split_def comp_def)
  also have "\<dots> = sum_mset (image_mset (unat \<circ> fi_data_size) (mset (map snd (caps_infos uid fis))))"
    by (metis mset_map sum_mset_sum_list)
  also have "\<dots> = sum_list (map (unat \<circ> fi_data_size) (filter wanted_info fis))"
    unfolding caps_infos_mset [OF assms] by (metis mset_map sum_mset_sum_list)
  also have "\<dots> \<le> sum_list (map (unat \<circ> fi_data_size) fis)" by (induction fis) auto
  finally show "infos_size (caps_infos uid fis) < 2 ^ 31" "infos_size (caps_infos uid fis) + 20 < 2 ^ 31"
    using assms by (simp_all add: caps_ok_def)
  have "set (map snd (caps_infos uid fis)) = set (filter wanted_info fis)"
    using caps_infos_mset [OF assms] by (metis set_mset_mset)
  then have mem: "fi \<in> set fis \<and> fi_index fi = i" if "(i, fi) \<in> set (caps_infos uid fis)" for i fi
    using that select_infos_ok [of _ fis] unfolding caps_infos_def by force
  then show "(i, fi) \<in> set (caps_infos uid fis) \<Longrightarrow> fi \<in> set fis \<and> fi_index fi = i" .
  have d: "distinct (map fst (caps_infos uid fis))"
    unfolding caps_infos_def using select_infos_ok distinct_omap by blast
  have "unat ` fst ` set (caps_infos uid fis) \<subseteq> {..<kGroupSlots}" using mem assms by (fastforce simp: caps_ok_def)
  then have "card (unat ` fst ` set (caps_infos uid fis)) \<le> kGroupSlots" using card_mono [of "{..<kGroupSlots}"] by fastforce
  moreover have "card (unat ` fst ` set (caps_infos uid fis)) = length (caps_infos uid fis)"
  proof -
    have "card (unat ` fst ` set (caps_infos uid fis)) = card (fst ` set (caps_infos uid fis))"
      by (rule card_image) (auto simp: inj_on_def word_unat_eq_iff)
    also have "\<dots> = length (caps_infos uid fis)" using d distinct_card [of "map fst (caps_infos uid fis)"] by simp
    finally show ?thesis .
  qed
  ultimately show "length (caps_infos uid fis) \<le> kGroupSlots" by simp
qed

section \<open>New archives\<close>

lemma settings_append: "settings (st @ st') = settings st @ settings st'"
  by (simp add: settings_def)

lemma look_append_new: "look (st @ replicate n (new_archive m)) = look st"
proof -
  have "arc_look (new_archive m) l = None" for l
    using fun_cong [OF look_new [of "[m]"], of "(0, l)"] by (simp add: look_def)
  then show ?thesis by (auto simp: look_def nth_append fun_eq_iff)
qed

lemma frames_ok_append_new: "frames_ok st X \<Longrightarrow> frames_ok (st @ replicate n (new_archive m)) X"
  by (auto simp: frames_ok_def look_append_new store_ok_def nth_append arc_ok_new)

lemma arc_sensor_store:
  fixes st :: store and k :: nat and s :: "nat option"
  defines "st' \<equiv> st[k := (st ! k)\<lparr>arc_sensor := s\<rparr>]"
  shows "look st' = look st" "settings st' = settings st" "frames_ok st' X = frames_ok st X" "length st' = length st"
proof -
  have l: "arc_look (A\<lparr>arc_sensor := s\<rparr>) = arc_look A" for A
    by (simp add: arc_look_def fun_eq_iff split: loc.split)
  have ok: "arc_ok (A\<lparr>arc_sensor := s\<rparr>) = arc_ok A" for A by (simp add: arc_ok_def unkept_def l)
  have n: "st' ! i = (if i = k then (st ! k)\<lparr>arc_sensor := s\<rparr> else st ! i)" if "i < length st" for i
    using that by (simp add: st'_def nth_list_update)
  have len: "length st' = length st" by (simp add: st'_def)
  show look: "look st' = look st" by (auto simp: look_def len n l fun_eq_iff)
  show "settings st' = settings st" by (auto simp: settings_def len n intro!: nth_equalityI)
  show "length st' = length st" by (rule len)
  show "frames_ok st' X = frames_ok st X"
    unfolding frames_ok_def look by (auto simp: store_ok_def len n ok split: if_splits)
qed

lemma archives_set_sensor_keeps:
  "archives_set_sensor s as st = Inr st' \<Longrightarrow> look st' = look st \<and> settings st' = settings st
     \<and> frames_ok st' X = frames_ok st X \<and> length st' = length st"
  by (induction s as st rule: archives_set_sensor.induct) (auto simp: arc_sensor_store)

section \<open>Opening and starting the sensor\<close>

lemma fill_group_Inr:
  "\<forall>(i, fi)\<in>set as. unat i < kGroupSlots \<Longrightarrow> \<exists>fg'. fill_group as fg = Inr fg'"
  by (induction as fg rule: fill_group.induct) auto

lemma caps_sensor_fields [simp]:
  "sn_profiles (caps_sensor n port uid fis) = caps_profiles uid fis" "supported_infos (caps_sensor n port uid fis) = fis"
  "id_profiles (caps_sensor n port uid fis) = fold put_profile (numbered uid fis) []"
  "sn_source (caps_sensor n port uid fis) = new_source 256" "sn_id (caps_sensor n port uid fis) = n"
  "\<not> is_opened (caps_sensor n port uid fis)" "\<not> is_streaming (caps_sensor n port uid fis)"
  by (simp_all add: caps_sensor_def add_profiles_fields new_sensor_def)

definition accepts_ids :: "'s gemini \<Rightarrow> frame_id \<Rightarrow> 's \<Rightarrow> bool" where
  "accepts_ids g ids s \<longleftrightarrow> (case control_transfer_in g SET_FRAME_IDS (sint ids) (Some (replicate BUFFER_SIZE 0)) (of_nat BUFFER_SIZE) s of
     Inl _ \<Rightarrow> False | Inr (ret, _, _) \<Rightarrow> 0 \<le> ret)"

text \<open>The device after it was asked for the frames of \<open>ids\<close>.\<close>

definition after_ids :: "'s gemini \<Rightarrow> frame_id \<Rightarrow> 's \<Rightarrow> 's" where
  "after_ids g ids s = (case control_transfer_in g SET_FRAME_IDS (sint ids) (Some (replicate BUFFER_SIZE 0)) (of_nat BUFFER_SIZE) s of
     Inl _ \<Rightarrow> s | Inr (_, _, s') \<Rightarrow> s')"

text \<open>The receive buffer of \<open>startStream\<close>: the frames and the head, without the time stamp.\<close>

definition start_buffer :: "int \<Rightarrow> frame_info list \<Rightarrow> u8 list" where
  "start_buffer uid fis = replicate (infos_size (caps_infos uid fis) + pack_head_size) 0"

definition opened_sensor :: "nat \<Rightarrow> serial_port \<Rightarrow> int \<Rightarrow> frame_info list \<Rightarrow> frame_source \<Rightarrow> frame_group \<Rightarrow> gemini_sensor" where
  "opened_sensor n port uid fis src fg = (caps_sensor n port uid fis)\<lparr>sn_source := src,
     active_infos := caps_infos uid fis, usb_group := fg, is_opened := True, active_profiles := caps_requests uid fis\<rparr>"

lemma source_init_video:
  assumes "source_init (new_source 256) st = Inr (src, st')"
  shows "map_of (src_archives src) EXT_VIDEO_FRAME = Some (Some (length st))"
proof -
  let ?tys = "tl source_supported" and ?s = "(new_source 256)\<lparr>src_archives := [(EXT_VIDEO_FRAME, Some (length st))]\<rparr>"
  have "source_init (new_source 256) st = source_add ?tys ?s (st @ [new_archive 256])"
    by (simp add: source_init_def source_supported_def makeArchive_def new_source_def bind_result_def)
  moreover have "EXT_UNKNOWN \<notin> set ?tys" "EXT_VIDEO_FRAME \<notin> set ?tys" by (simp_all add: source_supported_def)
  moreover have "omap_ok (src_archives ?s)" by simp
  ultimately show ?thesis using source_add_Inr [of ?tys ?s "st @ [new_archive 256]"] assms by fastforce
qed

lemma caps_open:
  assumes caps: "caps_ok fis" and st: "frames_ok st {#}" and acc: "accepts_ids g (requested_ids (caps_requests uid fis)) s"
  obtains src fg st' kv where
    "sensor_open g (caps_profiles uid fis) (caps_sensor n port uid fis) st s
      = Inr (opened_sensor n port uid fis src fg, st', after_ids g (requested_ids (caps_requests uid fis)) s, [Port_open])"
    "frames_ok st' {#}" "settings st' = settings st @ replicate 17 (256, new_callbacks)" "source_within src st'"
    "map_of (src_archives src) EXT_VIDEO_FRAME = Some (Some kv)" "kv = length st"
    "group_ok (caps_infos uid fis) fg"
proof -
  have un: "EXT_UNKNOWN \<notin> set source_supported" "EXT_VIDEO_FRAME \<in> set source_supported" "length source_supported = 17"
    by (simp_all add: source_supported_def)
  have src0: "omap_ok (src_archives (new_source 256))" "src_max (new_source 256) = 256" "src_archives (new_source 256) = []"
    by (simp_all add: new_source_def)
  obtain src where src: "source_init (new_source 256) st = Inr (src, st @ replicate 17 (new_archive 256))"
    "omap_ok (src_archives src)"
    and mem: "\<And>ty. ty \<notin> set source_supported \<Longrightarrow> map_of (src_archives src) ty = None"
      "\<And>ty. ty \<in> set source_supported \<Longrightarrow> \<exists>k. map_of (src_archives src) ty = Some (Some k) \<and> length st \<le> k \<and> k < length st + 17"
    using source_add_Inr [OF un(1) src0(1), of st] unfolding source_init_def un(3) src0(2,3) map_of.simps(1) by blast
  from mem(2) [OF un(2)] obtain kv where
    kv: "map_of (src_archives src) EXT_VIDEO_FRAME = Some (Some kv)" by blast
  have kv': "kv = length st" using kv source_init_video [of st src] src(1) un(3) by (simp add: source_init_def)
  have val: "\<exists>k. v = Some k \<and> k < length st + 17" if "(ty, v) \<in> set (src_archives src)" for ty v
  proof -
    have "map_of (src_archives src) ty = Some v" using that distinct_omap [OF src(2)] by simp
    then show ?thesis using mem(1) [of ty] mem(2) [of ty] by (cases "ty \<in> set source_supported") auto
  qed
  have "None \<notin> snd ` set (src_archives src)" using val by fastforce
  from archives_set_sensor_Inr [OF this, of "Some n" "st @ replicate 17 (new_archive 256)"] obtain st' where
    set: "archives_set_sensor (Some n) (src_archives src) (st @ replicate 17 (new_archive 256)) = Inr st'" by blast
  note k = archives_set_sensor_keeps [OF set]
  obtain ret m s' where ct: "control_transfer_in g SET_FRAME_IDS (sint (requested_ids (caps_requests uid fis)))
      (Some (replicate BUFFER_SIZE 0)) (of_nat BUFFER_SIZE) s = Inr (ret, m, s')" "0 \<le> ret"
    using acc by (auto simp: accepts_ids_def split: sum.splits prod.splits)
  have "\<forall>(i, fi)\<in>set (caps_infos uid fis). unat i < kGroupSlots"
    using caps_infos_size(2) [OF caps] caps by (fastforce simp: caps_ok_def)
  from fill_group_Inr [OF this] obtain fg where fg: "fill_group (caps_infos uid fis) new_group = Inr fg" by blast
  have opens: "sensor_open g (caps_profiles uid fis) (caps_sensor n port uid fis) st s
      = Inr (opened_sensor n port uid fis src fg, st', after_ids g (requested_ids (caps_requests uid fis)) s, [Port_open])"
    using src(1) set ct fg
    by (simp add: sensor_open_def after_ids_def source_set_sensor_def Let_def opened_sensor_def
        caps_requests_def [symmetric] caps_infos_def [symmetric])
  show ?thesis
  proof (rule that [OF opens])
    show "frames_ok st' {#}" using k frames_ok_append_new [OF st] by simp
    show "settings st' = settings st @ replicate 17 (256, new_callbacks)"
      using k [of "{#}"] by (simp add: settings_def new_archive_def)
    show "source_within src st'" using val k [of "{#}"] by (fastforce simp: source_within_def)
    show "group_ok (caps_infos uid fis) fg" using fg open_group_ok unfolding caps_infos_def by blast
  qed (use kv kv' in simp_all)
qed

lemma caps_start:
  assumes "caps_ok fis" "group_ok (caps_infos uid fis) fg"
  obtains acts where "sensor_start cb (opened_sensor n port uid fis src fg)
    = (Inr (), (opened_sensor n port uid fis src fg)\<lparr>sn_source := src\<lparr>src_callback := cb\<rparr>, is_streaming := True,
         missing_cnt := 0, sn_buffer := start_buffer uid fis\<rparr>, acts)"
proof -
  have "unat (fg_total fg) = infos_size (caps_infos uid fis)"
    using assms(2) caps_infos_size(1) [OF assms(1), of uid] by (simp add: group_ok_def unat_of_nat)
  then have t: "sint (fg_total fg) = int (infos_size (caps_infos uid fis))"
    using sint_small [of "fg_total fg"] caps_infos_size(1) [OF assms(1), of uid] by simp
  then have mem: "replicate (nat (sint (fg_total fg) + int pack_head_size)) 0 = start_buffer uid fis"
    by (simp add: start_buffer_def nat_add_distrib)
  have "sensor_start cb (opened_sensor n port uid fis src fg)
    = (Inr (), (opened_sensor n port uid fis src fg)\<lparr>sn_source := src\<lparr>src_callback := cb\<rparr>, is_streaming := True,
         missing_cnt := 0, sn_buffer := start_buffer uid fis\<rparr>,
       [Dispatcher_start, Thread_start])"
    unfolding mem [symmetric] using t by (simp add: sensor_start_def startStream_def Let_def opened_sensor_def source_set_callback_def)
  then show ?thesis by (rule that)
qed

section \<open>The pipeline\<close>

lemma limits_settings: "limits st = map fst (settings st)"
  by (simp add: limits_def settings_def)

lemma callbacks_settings: "list_all (\<lambda>A. heap_inv (callbacks A)) st \<longleftrightarrow> list_all heap_inv (map snd (settings st))"
  by (simp add: settings_def list_all_iff)

lemma fits_mono: "fits m n \<Longrightarrow> j \<le> n \<Longrightarrow> fits m j"
  by (auto simp: fits_def)

lemma caps_nonempty:
  assumes "\<exists>fi\<in>set fis. wanted_info fi"
  shows "caps_profiles uid fis \<noteq> []" "caps_wanted uid fis \<noteq> []"
proof -
  from assms obtain u fi where "(u, fi) \<in> set (numbered uid fis)" "wanted_info fi" using numbered_has by metis
  then show "caps_wanted uid fis \<noteq> []" by (auto simp: requests_uids filter_empty_conv)
  then show "caps_profiles uid fis \<noteq> []" by (auto simp: caps_wanted_def caps_requests_def)
qed

lemma caps_id_profiles:
  assumes "caps_ok fis"
  shows "\<forall>(i, fi)\<in>set (caps_infos uid fis). map_of (fold put_profile (numbered uid fis) []) (uint (fi_frame_id fi))
    = Some (Some (caps_profile uid fis fi))"
proof clarify
  fix i fi
  assume "(i, fi) \<in> set (caps_infos uid fis)"
  from caps_infos_size(2) [OF assms this] obtain u where u: "(u, fi) \<in> set (numbered uid fis)" using numbered_has by metis
  have "distinct (map fi_frame_id fis)" using assms frame_ids_distinct by blast
  then have "distinct (map (fi_frame_id \<circ> snd) (numbered uid fis))" by (metis map_map numbered_simps(1))
  from fold_id_profiles [OF this _ u, of "[]"]
  show "map_of (fold put_profile (numbered uid fis) []) (uint (fi_frame_id fi)) = Some (Some (caps_profile uid fis fi))"
    using caps_profile_at [OF assms u] by simp
qed

lemma agg_idle_start: "agg_idle (agg_start (new_aggregator ids))"
  by (simp add: agg_idle_def agg_ok_def agg_start_def new_aggregator_def new_cq_def)

text \<open>The state a start ends in, with and without a callback.\<close>

lemma start_state:
  assumes env: "gemini_env g env" and res: "start_resolve forced env conf (is_stopping p) w = (Resolved prof, conf1, stop1, (st, x))"
    and prof: "prof = new_pipeline_profile (gemini_ops g) d to_file (st, x)" "dev_sensors d = [s]"
    and p: "active_profile p = None" "pl_aggregator p = None"
    and sn: "s < length (gw_sensors x)" "gw_sensors x ! s = caps_sensor n port uid fis" "caps_ok fis" "\<exists>fi\<in>set fis. wanted_info fi"
    and acc: "accepts_ids g (requested_ids (caps_requests uid fis)) (gw_device x)"
    and st: "frames_ok st {#}" "list_all (\<lambda>A. heap_inv (callbacks A)) st"
  obtains conf' p' st' x' src fg kv where "pipeline_start forced env conf cb p w = (Inr (Some prof), conf', p', (st', x'))"
    "s < length (gw_sensors x')" "gw_sensors x' ! s = (opened_sensor n port uid fis src fg)\<lparr>sn_source := src\<lparr>src_callback := Some (pe_output env)\<rparr>,
       is_streaming := True, missing_cnt := 0, sn_buffer := start_buffer uid fis\<rparr>"
    "active_profile p' = Some prof" "pl_aggregator p' = Some (agg_start (new_aggregator (caps_wanted uid fis)))" "pl_output p' = cb \<and> streams_callback p' = cb"
    "frames_ok st' {#}" "settings st' = settings st @ replicate 17 (256, new_callbacks)" "source_within src st'"
    "map_of (src_archives src) EXT_VIDEO_FRAME = Some (Some kv)" "kv = length st"
    "group_ok (caps_infos uid fis) fg"
    "list_all (\<lambda>A. heap_inv (callbacks A)) st'" "length st' = length st + 17" "ms_sensors (pp_multi_stream prof) = [s]"
    "gw_device x' = after_ids g (requested_ids (caps_requests uid fis)) (gw_device x)"
proof -
  let ?s' = "after_ids g (requested_ids (caps_requests uid fis)) (gw_device x)"
  have op: "pe_ops env = gemini_ops g" using env by (simp add: gemini_env_def)
  have ne: "caps_profiles uid fis \<noteq> []" using caps_nonempty [OF sn(4)] by blast
  have ms: "ms_sensors (pp_multi_stream prof) = [s]" "ms_sensor_profiles (pp_multi_stream prof) = [(s, caps_profiles uid fis)]"
    "ms_all_profiles (pp_multi_stream prof) = caps_profiles uid fis"
    using sn(1,2) by (simp_all add: prof new_pipeline_profile_def new_multi_stream_def gemini_ops_def getStreamProfiles_def)
  obtain src fg st' kv where o: "sensor_open g (caps_profiles uid fis) (caps_sensor n port uid fis) st (gw_device x)
      = Inr (opened_sensor n port uid fis src fg, st', ?s', [Port_open])"
    "frames_ok st' {#}" "settings st' = settings st @ replicate 17 (256, new_callbacks)" "source_within src st'"
    "map_of (src_archives src) EXT_VIDEO_FRAME = Some (Some kv)" "kv = length st"
    "group_ok (caps_infos uid fis) fg"
    using caps_open [OF sn(3) st(1) acc] .
  let ?sn1 = "opened_sensor n port uid fis src fg"
  obtain acts where b: "sensor_start (Some (pe_output env)) ?sn1
    = (Inr (), ?sn1\<lparr>sn_source := src\<lparr>src_callback := Some (pe_output env)\<rparr>, is_streaming := True, missing_cnt := 0, sn_buffer := start_buffer uid fis\<rparr>, acts)"
    using caps_start [OF sn(3) o(7)] .
  let ?sn2 = "?sn1\<lparr>sn_source := src\<lparr>src_callback := Some (pe_output env)\<rparr>, is_streaming := True, missing_cnt := 0, sn_buffer := start_buffer uid fis\<rparr>"
  define x1 where "x1 = (gw_put s ?sn1 [Port_open] x)\<lparr>gw_device := ?s'\<rparr>"
  define x2 where "x2 = gw_put s ?sn2 acts x1"
  have x1: "gw_sensors x1 ! s = ?sn1" "s < length (gw_sensors x1)" using sn(1) by (simp_all add: x1_def gw_put_def)
  have x2: "s < length (gw_sensors x2)" "gw_sensors x2 ! s = ?sn2" using x1(2) by (simp_all add: x2_def)
  have dev: "gw_device x2 = ?s'" by (simp add: x2_def x1_def gw_put_def)
  define c where "c = (if cb = None then pl_context p else snd (registerDevicesChangedCallback (Some (pe_restart env)) (pl_context p)))"
  let ?p1 = "p\<lparr>streams_callback := cb, pl_context := c, is_stopping := stop1\<rparr>"
  let ?p3 = "?p1\<lparr>pl_aggregator := Some (agg_start (new_aggregator (caps_wanted uid fis))), pl_output := cb\<rparr>"
  let ?p4 = "?p3\<lparr>active_profile := Some prof, prev_conf := Some (copy_config conf1)\<rparr>"
  have opens: "ms_open (gemini_ops g) (pp_multi_stream prof) (st, x) = (Inr (), (st', x1))"
    using sn(1,2) o(1) by (simp add: ms_open_def ms gemini_ops_def gemini_open_def x1_def)
  have starts: "ms_start (gemini_ops g) (Some (pe_output env)) (pp_multi_stream prof) (st', x1) = (Inr (), (st', x2))"
    using x1 b by (simp add: ms_start_def ms gemini_ops_def gemini_start_def x2_def)
  have "map sp_uid (profile_active_streams (gemini_ops g) prof (st', x1)) = caps_wanted uid fis"
    using x1 by (simp add: profile_active_streams_def ms gemini_ops_def caps_wanted_def) (simp add: opened_sensor_def)
  then have on: "onStart env prof ?p1 (st', x1) = Inr (?p3, (st', x1))"
    using p(2) by (simp add: onStart_def op agg_destroy_def)
  have un: "unsafeStart forced env conf (p\<lparr>streams_callback := cb, pl_context := c\<rparr>) w = (Inr True, conf1, ?p4, (st', x2))"
    using res ne opens on starts by (simp add: unsafeStart_def Let_def op ms(3))
  have run: "pipeline_start forced env conf cb p w = (Inr (Some prof), conf1, ?p4\<lparr>pl_context := watcher_start c\<rparr>, (st', x2))"
    using p(1) un by (simp add: pipeline_start_def c_def [symmetric])
  have len: "length st' = length st + 17"
    using o(3) by (metis length_append length_map length_replicate settings_def)
  have cbs: "list_all (\<lambda>A. heap_inv (callbacks A)) st'"
    using st(2) unfolding callbacks_settings o(3) by (simp add: list_all_iff new_callbacks_def)
  show ?thesis by (rule that [OF run x2]) (use o cbs len ms dev in simp_all)
qed

lemma start_ready:
  assumes start: "gemini_env g env" "start_resolve forced env conf (is_stopping p) w = (Resolved prof, conf1, stop1, (st, x))"
      "prof = new_pipeline_profile (gemini_ops g) d to_file (st, x)" "dev_sensors d = [s]" "active_profile p = None" "pl_aggregator p = None"
      "s < length (gw_sensors x)" "gw_sensors x ! s = caps_sensor n port uid fis"
    and caps: "caps_ok fis" "\<exists>fi\<in>set fis. wanted_info fi"
    and acc: "accepts_ids g (requested_ids (caps_requests uid fis)) (gw_device x)"
    and st: "frames_ok st {#}" "list_all (\<lambda>A. heap_inv (callbacks A)) st"
    and comps: "k \<in> set comps" "set comps \<subseteq> {..<length st}" "fits (limits st ! k) kGroupSlots"
  obtains conf' p' st' x' kv where "pipeline_start forced env conf None p w = (Inr (Some prof), conf', p', (st', x'))"
    "stream_ready comps k kv (caps_profile uid fis) (gw_sensors x' ! s, p', st')"
    "active_infos (gw_sensors x' ! s) = caps_infos uid fis" "wanted (aggregator_of p') = caps_wanted uid fis"
    "missing_cnt (gw_sensors x' ! s) = 0" "sn_buffer (gw_sensors x' ! s) = start_buffer uid fis"
    "gw_device x' = after_ids g (requested_ids (caps_requests uid fis)) (gw_device x)"
proof -
  obtain conf' p' st' x' src fg kv where a: "pipeline_start forced env conf None p w = (Inr (Some prof), conf', p', (st', x'))"
    "s < length (gw_sensors x')" "gw_sensors x' ! s = (opened_sensor n port uid fis src fg)\<lparr>sn_source := src\<lparr>src_callback := Some (pe_output env)\<rparr>,
       is_streaming := True, missing_cnt := 0, sn_buffer := start_buffer uid fis\<rparr>"
    "active_profile p' = Some prof" "pl_aggregator p' = Some (agg_start (new_aggregator (caps_wanted uid fis)))" "pl_output p' = None \<and> streams_callback p' = None"
    "frames_ok st' {#}" "settings st' = settings st @ replicate 17 (256, new_callbacks)" "source_within src st'"
    "map_of (src_archives src) EXT_VIDEO_FRAME = Some (Some kv)" "kv = length st"
    "group_ok (caps_infos uid fis) fg"
    "list_all (\<lambda>A. heap_inv (callbacks A)) st'" "length st' = length st + 17" "ms_sensors (pp_multi_stream prof) = [s]"
    "gw_device x' = after_ids g (requested_ids (caps_requests uid fis)) (gw_device x)"
    using start_state [OF start caps acc st] .
  let ?sn = "gw_sensors x' ! s" and ?ag = "agg_start (new_aggregator (caps_wanted uid fis))"
  have ag: "aggregator_of p' = ?ag" using a(5) by (simp add: aggregator_of_def)
  have ws: "wanted ?ag = caps_wanted uid fis"
    using wanted_sorted [of uid fis] by (simp add: agg_start_def new_aggregator_def distinct_remdups_id sorted_sort_id)
  have sn: "active_infos ?sn = caps_infos uid fis" "usb_group ?sn = fg" "sn_source ?sn = src\<lparr>src_callback := Some (pe_output env)\<rparr>"
    "id_profiles ?sn = fold put_profile (numbered uid fis) []" "missing_cnt ?sn = 0" "sn_buffer ?sn = start_buffer uid fis"
    by (simp_all add: a(3) opened_sensor_def)
  have few: "length (caps_infos uid fis) \<le> kGroupSlots" by (rule caps_infos_size(3) [OF caps(1)])
  have lim: "limits st' ! kv = 256" "limits st' ! k = limits st ! k"
    using a(8,11) comps(1,2) by (auto simp: limits_settings nth_append settings_def)
  have task: "task_ready (src\<lparr>src_callback := Some (pe_output env)\<rparr>) p' st'"
    using a(4-6,13) by (simp add: task_ready_def streams_to_aggregator_def aggregator_of_def agg_start_def)
  have "stream_ready comps k kv (caps_profile uid fis) (?sn, p', st')"
    unfolding stream_ready_def prod.case sn(1-3) ag ws
  proof (intro conjI)
    show "\<forall>(i, fi)\<in>set (caps_infos uid fis). map_of (id_profiles ?sn) (uint (fi_frame_id fi)) = Some (Some (caps_profile uid fis fi))"
      unfolding sn(4) by (rule caps_id_profiles [OF caps(1)])
    show "mset (map (\<lambda>e. sp_uid (caps_profile uid fis (snd e))) (caps_infos uid fis)) = mset (caps_wanted uid fis)"
      by (rule caps_streams [OF caps(1)])
    show "fits (limits st' ! kv) (length (caps_infos uid fis))" "fits (limits st' ! k) (length (caps_infos uid fis))"
      using few fits_mono [OF comps(3)] by (simp_all add: lim fits_def kGroupSlots_def)
    show "kv \<notin> set comps" using comps(2) a(11) by auto
    show "length (caps_infos uid fis) \<le> kFrameNum2Aggregate" using few by (simp add: kGroupSlots_def kFrameNum2Aggregate_def)
  qed (use a task comps caps_nonempty [OF caps(2)] wanted_sorted(1) agg_idle_start in \<open>auto simp: source_within_def\<close>)
  from that [OF a(1) this sn(1) _ sn(5,6) a(16)] show ?thesis unfolding ag ws by simp
qed

section \<open>A camera that boots\<close>

text \<open>
  A device that fails the first time it is opened and reports a negative state when its capabilities are
  first asked for; then it answers with one stream.
\<close>

definition booting :: "nat gemini" where
  "booting = \<lparr>messenger = \<lparr>lu_control = (\<lambda>_ _ cmd _ _ _ _ n.
       if cmd = OPEN_CAM then (if n = 0 then (-7, [], 1) else (0, [], n))
       else if n = 1 then (12, replicate 10 0 @ [255, 255], 2)
       else (28, replicate 10 0 @ [1, 0] @ info_bytes tiny_info, n)),
     lu_bulk = (\<lambda>_ _ _ _ s. (-4, 0, [], s)), lu_interrupt = (\<lambda>_ _ _ _ s. (-4, 0, [], s)), lu_clear_halt = (\<lambda>_ s. (-4, s))\<rparr>,
     endpoint_bulk_in = \<lparr>ep_address = 0x81, ep_attributes = 2, ep_interface = 0\<rparr>,
     endpoint_bulk_out = \<lparr>ep_address = 1, ep_attributes = 2, ep_interface = 0\<rparr>\<rparr>"

lemma booting_open:
  "gives booting OPEN_CAM ([(-7, replicate BUFFER_SIZE 0, 1)] @ [(SE2_USB_STATUS_SUCCESS, replicate BUFFER_SIZE 0, 1)])
     (replicate BUFFER_SIZE 0) 0"
  "head_state (replicate BUFFER_SIZE 0) = 0"
proof -
  have "take 2 (drop 10 (replicate BUFFER_SIZE (0 :: u8))) = [0, 0]"
    by (simp add: BUFFER_SIZE_def numeral_2_eq_2)
  then show "head_state (replicate BUFFER_SIZE 0) = 0" by (simp add: head_state_def)
qed (simp add: control_transfer_in_def control_transfer_def booting_def put_bytes_def write_at_def SE2_USB_STATUS_SUCCESS_def)

lemma booting_caps:
  "gives booting QUERY_FRAME_CAP ([(0, (replicate 10 0 @ [255, 255]) @ replicate 1012 0, 2)]
      @ [(SE2_USB_STATUS_SUCCESS, (replicate 10 0 @ [1, 0]) @ concat (map info_bytes [tiny_info]) @ replicate 996 0, 2)])
     (replicate BUFFER_SIZE 0) 1"
  "head_state ((replicate 10 0 @ [255, 255]) @ replicate 1012 0) < 0" "head_state (replicate 10 0 @ [1, 0]) = 1"
  by (simp_all add: control_transfer_in_def control_transfer_def booting_def put_bytes_def write_at_def
      SE2_USB_STATUS_SUCCESS_def BUFFER_SIZE_def QUERY_FRAME_CAP_def OPEN_CAM_def frame_info_of_bytes(2) head_state_def)

lemma always_refused:
  assumes "\<And>mem. control_transfer_in g cmd 0 (Some mem) (of_nat BUFFER_SIZE) s = Inr (e, Some mem, s)"
  shows "gives g cmd (replicate n (e, mem, s)) mem s"
  using assms by (induction n) simp_all

section \<open>Properties\<close>

text \<open>C27: A sensor is made from what its device reports.  When the device answers the repeated \<open>OPEN_CAM\<close> with
  failures or a non-zero state, and then with success and state zero, and the repeated
  \<open>QUERY_FRAME_CAP\<close> with failures or a negative state, and then with the infos of its streams and their
  number as the state, the sensor gets exactly those infos, in their order, a profile for each
  with the next stream ids, and under each frame id, when the ids differ, the profile of its
  info.  When every \<open>OPEN_CAM\<close> is refused, the call never returns: the loop has no limit.\<close>

theorem sensor_init_reads_capabilities:
  "(gives g OPEN_CAM (rs @ [(SE2_USB_STATUS_SUCCESS, mem1, s1)]) (replicate BUFFER_SIZE 0) s
     \<and> list_all open_refused rs \<and> head_state mem1 = 0
     \<and> gives g QUERY_FRAME_CAP (qs @ [(SE2_USB_STATUS_SUCCESS, head @ concat (map info_bytes fis) @ rest, s2)]) mem1 s1
     \<and> list_all cap_refused qs \<and> length head = pack_head_size \<and> head_state head = int (length fis)
   \<longrightarrow> (\<exists>sn'. initStreamProfiles g uid (new_sensor n port) s = Some (Inr (uid + int (length fis), sn', s2))
     \<and> supported_infos sn' = fis \<and> length (sn_profiles sn') = length fis
     \<and> (\<forall>j<length fis. sn_profiles sn' ! j = info_profile (uid + int j) (fis ! j)
        \<and> (distinct (map fi_frame_id fis) \<longrightarrow>
             map_of (id_profiles sn') (uint (fi_frame_id (fis ! j))) = Some (Some (info_profile (uid + int j) (fis ! j)))))))
   \<and> ((\<forall>m. \<exists>rs. length rs = m \<and> gives g OPEN_CAM rs (replicate BUFFER_SIZE 0) s \<and> list_all open_refused rs)
   \<longrightarrow> initStreamProfiles g uid (new_sensor n port) s = None)"
proof (intro conjI impI; (elim conjE)?)
  assume o: "gives g OPEN_CAM (rs @ [(SE2_USB_STATUS_SUCCESS, mem1, s1)]) (replicate BUFFER_SIZE 0) s" "list_all open_refused rs"
      "head_state mem1 = 0"
    and q: "gives g QUERY_FRAME_CAP (qs @ [(SE2_USB_STATUS_SUCCESS, head @ concat (map info_bytes fis) @ rest, s2)]) mem1 s1"
      "list_all cap_refused qs"
    and h: "length head = pack_head_size" "head_state head = int (length fis)"
  let ?mem = "head @ concat (map info_bytes fis) @ rest"
  have parse: "parse_infos ?mem = Inr fis" by (rule frame_caps_roundtrip [OF h])
  have "take 2 (drop 10 ?mem) = take 2 (drop 10 head)" using h(1) by (simp add: pack_head_size_def)
  then have "0 \<le> head_state ?mem" unfolding head_state_def using h(2) [unfolded head_state_def] by (simp only: of_nat_0_le_iff)
  note w = wait_open_cam_accepted [OF o] wait_frame_cap_accepted [OF q this]
  have new: "(new_sensor n port)\<lparr>sn_profiles := [], supported_infos := []\<rparr> = new_sensor n port"
    by (simp add: new_sensor_def)
  have next_uid: "fst (add_profiles u xs sn) = u + int (length xs)" for u xs sn
    by (induction u xs sn rule: add_profiles.induct) simp_all
  let ?sn = "caps_sensor n port uid fis"
  have run: "initStreamProfiles g uid (new_sensor n port) s = Some (Inr (uid + int (length fis), ?sn, s2))"
    using w parse next_uid [of uid fis "new_sensor n port"]
    by (simp add: initStreamProfiles_def new caps_sensor_def split_beta)
  have prof: "sn_profiles ?sn ! j = info_profile (uid + int j) (fis ! j)" if "j < length fis" for j
    using that by (simp add: caps_profiles_def numbered_nth)
  have ids: "map_of (id_profiles ?sn) (uint (fi_frame_id (fis ! j))) = Some (Some (info_profile (uid + int j) (fis ! j)))"
    if "distinct (map fi_frame_id fis)" "j < length fis" for j
  proof -
    have "(uid + int j, fis ! j) \<in> set (numbered uid fis)"
      using that(2) numbered_nth [of j fis uid] nth_mem [of j "numbered uid fis"] by simp
    moreover have "distinct (map (fi_frame_id \<circ> snd) (numbered uid fis))" using that(1) by (metis map_map numbered_simps(1))
    ultimately show ?thesis using fold_id_profiles by simp
  qed
  show "\<exists>sn'. initStreamProfiles g uid (new_sensor n port) s = Some (Inr (uid + int (length fis), sn', s2))
     \<and> supported_infos sn' = fis \<and> length (sn_profiles sn') = length fis
     \<and> (\<forall>j<length fis. sn_profiles sn' ! j = info_profile (uid + int j) (fis ! j)
        \<and> (distinct (map fi_frame_id fis) \<longrightarrow>
             map_of (id_profiles sn') (uint (fi_frame_id (fis ! j))) = Some (Some (info_profile (uid + int j) (fis ! j)))))"
  proof (rule exI [of _ ?sn], intro conjI allI impI)
    show "initStreamProfiles g uid (new_sensor n port) s = Some (Inr (uid + int (length fis), ?sn, s2))" by (rule run)
    show "supported_infos ?sn = fis" "length (sn_profiles ?sn) = length fis" by (simp_all add: caps_profiles_def)
  qed (rule prof ids, assumption+)+
next
  assume "\<forall>m. \<exists>rs. length rs = m \<and> gives g OPEN_CAM rs (replicate BUFFER_SIZE 0) s \<and> list_all open_refused rs"
  then have "wait_open_cam g (replicate BUFFER_SIZE 0) s = None" by (intro wait_open_cam_never) (rule spec)
  then show "initStreamProfiles g uid (new_sensor n port) s = None" by (simp add: initStreamProfiles_def)
qed

theorem sensor_init_reads_capabilities_witness:
  "(\<exists>sn'. initStreamProfiles booting 5 (new_sensor 7 (new_port 1 None)) 0 = Some (Inr (6, sn', 2))
     \<and> supported_infos sn' = [tiny_info] \<and> sn_profiles sn' ! 0 = info_profile 5 tiny_info)
   \<and> initStreamProfiles dead_gemini 5 (new_sensor 7 (new_port 1 None)) () = None"
proof -
  let ?sn = "new_sensor 7 (new_port 1 None)"
  have refused: "list_all open_refused [(-7, replicate BUFFER_SIZE 0, 1 :: nat)]"
    "list_all cap_refused [(0, (replicate 10 0 @ [255, 255]) @ replicate 1012 0, 2 :: nat)]"
    using booting_caps(2) by (simp_all add: open_refused_def cap_refused_def SE2_USB_STATUS_SUCCESS_def)
  have head: "length (replicate 10 0 @ [1, 0 :: u8]) = pack_head_size"
    "head_state (replicate 10 0 @ [1, 0]) = int (length [tiny_info])"
    using booting_caps(3) by (simp_all add: pack_head_size_def)
  note run = sensor_init_reads_capabilities [THEN conjunct1, THEN mp, OF conjI [OF booting_open(1) conjI [OF refused(1)
      conjI [OF booting_open(2) conjI [OF booting_caps(1) conjI [OF refused(2) conjI [OF head]]]]]], of 5 7 "new_port 1 None"]
  have "control_transfer_in dead_gemini OPEN_CAM 0 (Some mem) (of_nat BUFFER_SIZE) () = Inr (-99, Some mem, ())" for mem
    by (simp add: control_transfer_in_def control_transfer_def dead_gemini_def put_bytes_def write_at_def)
  from always_refused [of dead_gemini, OF this]
  have "\<exists>rs. length rs = m \<and> gives dead_gemini OPEN_CAM rs (replicate BUFFER_SIZE 0) () \<and> list_all open_refused rs" for m
    by (intro exI [of _ "replicate m (-99, replicate BUFFER_SIZE 0, ())"])
      (simp add: list_all_iff open_refused_def SE2_USB_STATUS_SUCCESS_def)
  then have "initStreamProfiles dead_gemini 5 ?sn () = None"
    using sensor_init_reads_capabilities [of dead_gemini _ _ _ "()", THEN conjunct2] by blast
  with run show ?thesis by auto
qed



text \<open>The default configuration, with a camera of one stream.\<close>

definition steady_env :: "'s gemini \<Rightarrow> 's gemini_world pipe_env" where
  "steady_env g = \<lparr>pe_ops = gemini_ops g, pe_wait = (\<lambda>serial w. (Inr (pp_device cam_profile), w)),
     pe_valid = \<lambda>d w. True, pe_output = 0, pe_restart = 1\<rparr>"

definition device_world :: "gemini_sensor \<Rightarrow> 's \<Rightarrow> 's gemini_world" where
  "device_world sn s = \<lparr>gw_sensors = [sn], gw_device = s, gw_log = []\<rparr>"

lemma steady_resolve:
  "start_resolve (\<lambda>k. False) (steady_env g) new_config False w
    = (Resolved (new_pipeline_profile (gemini_ops g) (pp_device cam_profile) '''' w),
       new_config\<lparr>resolved_profile := Some (new_pipeline_profile (gemini_ops g) (pp_device cam_profile) '''' w)\<rparr>,
       False, w)"
proof -
  have "resolve_config (pe_ops (steady_env g)) (pe_wait (steady_env g)) new_config w
    = (Inr (new_pipeline_profile (gemini_ops g) (pp_device cam_profile) '''' w),
       new_config\<lparr>resolved_profile := Some (new_pipeline_profile (gemini_ops g) (pp_device cam_profile) '''' w)\<rparr>, w)"
    by (simp add: resolve_config_def resolveDeviceRequests_def resolve_device_def new_config_def Let_def steady_env_def)
  then have "start_retry m (\<lambda>k. False) (steady_env g) new_config False w
    = (Resolved (new_pipeline_profile (gemini_ops g) (pp_device cam_profile) '''' w),
       new_config\<lparr>resolved_profile := Some (new_pipeline_profile (gemini_ops g) (pp_device cam_profile) '''' w)\<rparr>,
       False, w)" for m
    by (cases m) (simp_all add: start_try_def)
  then show ?thesis by (simp add: start_resolve_def getCachedResolvedProfile_def) (simp add: new_config_def)
qed

lemma one_stream_caps:
  assumes "fi_frame_id fi = 64" "fi_index fi = 3"
  shows "wanted_info fi" "caps_requests 5 [fi] = [info_profile 5 fi]" "caps_infos 5 [fi] = [(3, fi)]" "caps_wanted 5 [fi] = [5]"
    "caps_profile 5 [fi] fi = info_profile 5 fi"
proof -
  show w: "wanted_info fi"
    using assms by (simp add: wanted_info_def fid_and_def fid_or_def kNecessaryFrameIds_def fid_defs)
  show r: "caps_requests 5 [fi] = [info_profile 5 fi]"
    using w by (simp add: caps_requests_def caps_profiles_def wanted_info_def)
  have q: "requested_ids [info_profile 5 fi] = 64"
    using assms by (simp add: requested_ids_def fid_or_def fid_NotUsed_def)
  show "caps_infos 5 [fi] = [(3, fi)]" unfolding caps_infos_def r q using assms by (simp add: select_infos_def)
  show "caps_wanted 5 [fi] = [5]" by (simp add: caps_wanted_def r)
  show "caps_profile 5 [fi] fi = info_profile 5 fi" by (simp add: caps_profile_def)
qed

lemma tiny_caps: "caps_ok [tiny_info]" "wanted_info tiny_info" "caps_requests 5 [tiny_info] = [info_profile 5 tiny_info]"
  "caps_infos 5 [tiny_info] = [(3, tiny_info)]" "caps_wanted 5 [tiny_info] = [5]"
  "caps_profile 5 [tiny_info] tiny_info = info_profile 5 tiny_info"
  using one_stream_caps [of tiny_info] by (simp_all add: caps_ok_def tiny_info_def kGroupSlots_def)

lemma camera_accepts: "accepts_ids (camera_gemini f) i (n, bs, as)" "after_ids (camera_gemini f) i (n, bs, as) = (n, bs, as)"
proof -
  have "camera_control SET_FRAME_IDS (n, bs, as) = (0, [], n, bs, as)"
    by (cases as; cases "hd as") (simp_all add: SET_FRAME_IDS_def GET_FRAME_def)
  then have "control_transfer_in (camera_gemini f) SET_FRAME_IDS j (Some (replicate BUFFER_SIZE 0)) (of_nat BUFFER_SIZE) (n, bs, as)
      = Inr (0, Some (replicate BUFFER_SIZE 0), (n, bs, as))" for j
    by (simp add: control_transfer_in_def control_transfer_def camera_gemini_def put_bytes_def write_at_def)
  then show "accepts_ids (camera_gemini f) i (n, bs, as)" "after_ids (camera_gemini f) i (n, bs, as) = (n, bs, as)"
    by (simp_all add: accepts_ids_def after_ids_def)
qed


end
