(* ===== verification/Example_App.thy ===== *)
theory Example_App
  imports Start_Stream User_Callback Device_Objects
begin

text \<open>
  The example program (\<open>examples/hello_smartereye/hello_smartereye.cc\<close>): an application that gets its
  frames by callback.  It wraps each frame in a \<open>Frame\<close>, looks at the stream, copies the frame into the
  class of the stream, and shows the images with OpenCV.  \<open>GET_SYNCED_FRAME\<close> is not defined.

  The example's callback is an instance of \<open>frame_user\<close> (\<open>User_Callback\<close>).  OpenCV
  is not part of the repository: its functions are the fields of \<open>opencv\<close>.
\<close>

section \<open>The callback of the example\<close>

text \<open>
  A \<open>cv::Mat\<close> on the data of a frame: rows, columns, bytes of an element, and the bytes OpenCV reads
  when it uses it.  A conversion or window that gives \<open>None\<close> or \<open>False\<close> throws \<open>cv::Exception\<close>.
\<close>

record cv_mat =
  mat_rows :: int
  mat_cols :: int
  mat_elem :: nat
  mat_bytes :: "u8 list"

record opencv =
  cv_yuyv_to_bgr :: "cv_mat \<Rightarrow> cv_mat option"
  cv_minmax_to_8u :: "cv_mat \<Rightarrow> cv_mat option"
  cv_imshow :: "string \<Rightarrow> cv_mat \<Rightarrow> bool"

type_synonym window = "string \<times> cv_mat"

definition mat_of :: "int \<Rightarrow> int \<Rightarrow> nat \<Rightarrow> payload \<Rightarrow> se_error + cv_mat" where
  "mat_of rows cols elem p =
     (case p of
        Children _ \<Rightarrow> Inl (Undefined ''pointers read as pixels'')
      | Bytes bs \<Rightarrow>
          if nat (rows * cols) * elem \<le> length bs
          then Inr \<lparr>mat_rows = rows, mat_cols = cols, mat_elem = elem, mat_bytes = take (nat (rows * cols) * elem) bs\<rparr>
          else Inl (Undefined ''read past the data''))"

definition show_mat :: "opencv \<Rightarrow> string \<Rightarrow> cv_mat \<Rightarrow> se_error + window list" where
  "show_mat cv name m = (if cv_imshow cv name m then Inr [(name, m)] else Inl (Runtime_error ''cv::Exception''))"

definition converted :: "cv_mat option \<Rightarrow> se_error + cv_mat" where
  "converted r = (case r of None \<Rightarrow> Inl (Runtime_error ''cv::Exception'') | Some m \<Rightarrow> Inr m)"

text \<open>
  The blocks of the switch that show an image: the dimensions come from the copy, the data from the
  frame or the copy.
\<close>

definition frame_mat ::
    "(nat \<Rightarrow> se_extension) \<Rightarrow> frame_handle \<Rightarrow> frame_handle \<Rightarrow> nat \<Rightarrow> store \<Rightarrow> se_error + cv_mat" where
  "frame_mat ty v d elem st =
     bind_result (video_height ty v st) (\<lambda>r.
     bind_result (video_width ty v st) (\<lambda>c.
     bind_result (handle_data d st) (\<lambda>p. mat_of r c elem p)))"

definition show_left :: "opencv \<Rightarrow> (nat \<Rightarrow> se_extension) \<Rightarrow> frame_handle \<Rightarrow> frame_handle \<Rightarrow> store \<Rightarrow> se_error + window list" where
  "show_left cv ty h v st =
     bind_result (frame_mat ty v h 2 st) (\<lambda>m. bind_result (converted (cv_yuyv_to_bgr cv m)) (show_mat cv ''ori_left''))"

definition show_right :: "opencv \<Rightarrow> (nat \<Rightarrow> se_extension) \<Rightarrow> frame_handle \<Rightarrow> store \<Rightarrow> se_error + window list" where
  "show_right cv ty v st = bind_result (frame_mat ty v v 1 st) (show_mat cv ''ori_right'')"

definition show_disparity :: "opencv \<Rightarrow> (nat \<Rightarrow> se_extension) \<Rightarrow> frame_handle \<Rightarrow> store \<Rightarrow> se_error + window list" where
  "show_disparity cv ty v st =
     bind_result (frame_mat ty v v 2 st) (\<lambda>m. bind_result (converted (cv_minmax_to_8u cv m)) (show_mat cv ''disparity''))"

text \<open>The blocks of the other streams only copy the frame; \<open>VehicleInfo\<close> falls through to \<open>default\<close>.\<close>

definition handleCurrentFrame ::
    "opencv \<Rightarrow> (nat \<Rightarrow> se_extension) \<Rightarrow> frame_handle \<Rightarrow> store \<Rightarrow> (se_error + window list) \<times> store" where
  "handleCurrentFrame cv ty h st =
     (case handle_profile h of
        None \<Rightarrow> (Inl (Undefined ''null profile''), st)
      | Some p \<Rightarrow>
          if sp_frame_id p = fid_LeftCamera
          then scoped (video_frame_of h) (\<lambda>v st1. (show_left cv ty h v st1, st1)) st
          else if sp_frame_id p = fid_RightCamera
          then scoped (video_frame_of h) (\<lambda>v st1. (show_right cv ty v st1, st1)) st
          else if sp_frame_id p = fid_Disparity
          then scoped (video_frame_of h) (\<lambda>v st1. (show_disparity cv ty v st1, st1)) st
          else if sp_frame_id p \<in> {fid_J2Perception, fid_Obstacle, fid_FreeSpace, fid_SmallObstacle, fid_VehicleInfo}
          then scoped (handle_copy h) (\<lambda>_ st1. (Inr [], st1)) st
          else (Inr [], st))"

text \<open>\<open>frame_handler_func\<close>, behind \<open>FramCallback::onFrame\<close>.\<close>

definition frame_handler :: "opencv \<Rightarrow> (nat \<Rightarrow> se_extension) \<Rightarrow> addr \<Rightarrow> store \<Rightarrow> (se_error + window list) \<times> store" where
  "frame_handler cv ty a = scoped (handle_of (Some a)) (handleCurrentFrame cv ty)"

section \<open>The example as a frame user\<close>

text \<open>What is shown of a frame of a stream, with its dimensions and bytes.\<close>

definition stream_result :: "opencv \<Rightarrow> frame_id \<Rightarrow> int \<Rightarrow> int \<Rightarrow> payload \<Rightarrow> se_error + window list" where
  "stream_result cv fid w h p =
     (if fid = fid_LeftCamera
      then bind_result (mat_of h w 2 p) (\<lambda>m. bind_result (converted (cv_yuyv_to_bgr cv m)) (show_mat cv ''ori_left''))
      else if fid = fid_RightCamera then bind_result (mat_of h w 1 p) (show_mat cv ''ori_right'')
      else if fid = fid_Disparity
      then bind_result (mat_of h w 2 p) (\<lambda>m. bind_result (converted (cv_minmax_to_8u cv m)) (show_mat cv ''disparity''))
      else Inr [])"

definition windows_of :: "opencv \<Rightarrow> frame \<Rightarrow> window list" where
  "windows_of cv f =
     (case (fr_profile f, fr_dims f) of
        (None, _) \<Rightarrow> []
      | (Some p, w, h, _) \<Rightarrow>
          (case stream_result cv (sp_frame_id p) w h (fr_payload f) of Inl _ \<Rightarrow> [] | Inr out \<Rightarrow> out))"

definition image_streams :: "frame_id list" where
  "image_streams = [fid_LeftCamera, fid_RightCamera, fid_Disparity]"

definition showable :: "(nat \<Rightarrow> se_extension) \<Rightarrow> addr \<Rightarrow> frame \<Rightarrow> bool" where
  "showable ty a f \<longleftrightarrow>
     (case (fr_profile f, fr_payload f, fr_dims f) of
        (Some p, Bytes bs, w, h, _) \<Rightarrow>
          sp_frame_id p \<in> set image_streams \<longrightarrow> ty (fst a) \<in> set video_classes
            \<and> nat (h * w) * (if sp_frame_id p = fid_RightCamera then 1 else 2) \<le> length bs
      | _ \<Rightarrow> False)"

lemma stream_result_throws:
  "(sp \<in> set image_streams \<longrightarrow> nat (h * w) * (if sp = fid_RightCamera then 1 else 2) \<le> length bs) \<Longrightarrow>
     stream_result cv sp w h (Bytes bs) = Inl e \<Longrightarrow> is_exception e"
  by (auto simp: stream_result_def mat_of_def show_mat_def converted_def image_streams_def fid_defs
      split: if_splits option.splits)

lemma frame_mat_reads:
  assumes "look st a = Some f" "frame_ref v = Some a" "frame_ref d = Some a" "ty (fst a) \<in> set video_classes"
    and "fr_dims f = (w, h, b, s)"
  shows "frame_mat ty v d elem st = mat_of h w elem (fr_payload f)"
  using assms by (simp add: frame_mat_def video_height_def video_width_def handle_data_def handle_get_def cast_frame_def deref_frame_def)

interpretation example: frame_user "frame_handler cv ty" "showable ty" "windows_of cv" for cv ty
proof (unfold_locales, goal_cases)
  case (1 st a X f)
  obtain p bs w h b s where f: "fr_profile f = Some p" "fr_payload f = Bytes bs" "fr_dims f = (w, h, b, s)"
    and sz: "sp_frame_id p \<in> set image_streams \<longrightarrow> ty (fst a) \<in> set video_classes
      \<and> nat (h * w) * (if sp_frame_id p = fid_RightCamera then 1 else 2) \<le> length bs"
    using 1(3) by (auto simp: showable_def split: option.splits payload.splits prod.splits)
  let ?r = "stream_result cv (sp_frame_id p) w h (fr_payload f)"
  define hd where "hd = \<lparr>frame_ref = Some a, handle_profile = Some p, handle_index = fe_index (fr_ext f)\<rparr>"
  have mk: "handle_of (Some a) st = (Inr hd, st)"
    using 1(2) f by (simp add: handle_of_def deref_frame_def is_composite_def hd_def)
  have hd: "frame_ref hd = Some a" "handle_profile hd = Some p" by (simp_all add: hd_def)
  have mats: "frame_mat ty hd hd n st1 = mat_of h w n (fr_payload f)"
    if "look st1 = (look st)(a \<mapsto> f\<lparr>ref_count := ref_count f + 1\<rparr>)" "sp_frame_id p \<in> set image_streams" for st1 n
    using frame_mat_reads [of st1 a "f\<lparr>ref_count := ref_count f + 1\<rparr>" hd hd ty w h b s n] that sz f(3) hd by simp
  have "\<exists>st2. handleCurrentFrame cv ty hd st = (?r, st2) \<and> frames_ok st2 (add_mset a X) \<and> look st2 = look st
      \<and> settings st2 = settings st"
  proof (cases "sp_frame_id p \<in> set image_streams")
    case True
    let ?body = "\<lambda>v st1. (if sp_frame_id p = fid_LeftCamera then show_left cv ty hd v st1
      else if sp_frame_id p = fid_RightCamera then show_right cv ty v st1 else show_disparity cv ty v st1, st1)"
    have r: "?body hd st1 = (?r, st1)" if "look st1 = (look st)(a \<mapsto> f\<lparr>ref_count := ref_count f + 1\<rparr>)" for st1
      using mats [OF that True] True
      by (auto simp: stream_result_def show_left_def show_right_def show_disparity_def image_streams_def fid_defs)
    obtain st2 where "scoped (video_frame_of hd) ?body st = (?r, st2)" "frames_ok st2 (add_mset a X)" "look st2 = look st"
      "settings st2 = settings st"
      using scoped_copy [where mk = "video_frame_of hd" and body = ?body and r = ?r, OF 1(1,2) hd(1) _ r] by blast
    then show ?thesis using True hd(2) by (auto simp: handleCurrentFrame_def image_streams_def)
  next
    case False
    then have r: "?r = Inr []" by (auto simp: stream_result_def image_streams_def)
    have "(\<lambda>(_ :: frame_handle) st1. (Inr [], st1)) hd st1 = (?r, st1)" for st1 by (simp add: r)
    from scoped_copy [where mk = "handle_copy hd" and body = "\<lambda>_ st1. (Inr [], st1)" and r = ?r, OF 1(1,2) hd(1) _ this]
    obtain st2 where
      "scoped (handle_copy hd) (\<lambda>_ st1. (Inr [], st1)) st = (?r, st2)" "frames_ok st2 (add_mset a X)" "look st2 = look st"
      "settings st2 = settings st" by metis
    then show ?thesis using False hd(2) 1(1) r by (auto simp: handleCurrentFrame_def image_streams_def)
  qed
  then obtain st2 where st2: "handleCurrentFrame cv ty hd st = (?r, st2)" "frames_ok st2 (add_mset a X)" "look st2 = look st"
    "settings st2 = settings st" by blast
  obtain st3 where st3: "release a st2 = Inr st3" "frames_ok st3 X" "shrinks (look st2) (look st3)"
    using release_ok [OF st2(2), of a] by auto
  have run: "frame_handler cv ty a st = (?r, st3)"
    using mk st2(1) st3(1) hd(1) by (simp add: frame_handler_def scoped_def handle_destroy_def holder_destroy_def)
  have "?r = Inr (windows_of cv f) \<or> (\<exists>e. ?r = Inl e \<and> is_exception e \<and> windows_of cv f = [])"
    using stream_result_throws [of "sp_frame_id p" h w bs cv] sz f by (cases ?r) (auto simp: windows_of_def)
  moreover have "settings st3 = settings st" using settings_release [OF st3(1)] st2(4) by simp
  moreover have "keeps (set_mset X) st st3" using keeps_held [OF st3(3,2)] st2(3) by (simp add: keeps_def)
  ultimately show ?case using run st3(2) by blast
next
  case (2 a f n)
  show ?case by (simp add: showable_def)
next
  case (3 f n)
  show ?case by (auto simp: windows_of_def split: option.split prod.split)
qed

section \<open>Streaming to a callback\<close>

text \<open>What holds between two packets, for a pipeline that was started with a callback.\<close>

definition callback_ready :: "nat \<Rightarrow> (frame_info \<Rightarrow> stream_profile) \<Rightarrow> stream_state \<Rightarrow> bool" where
  "callback_ready kv prof S \<longleftrightarrow>
     (case S of (sn, p, st) \<Rightarrow>
        frames_ok st {#} \<and> source_within (sn_source sn) st
        \<and> map_of (src_archives (sn_source sn)) EXT_VIDEO_FRAME = Some (Some kv)
        \<and> group_ok (active_infos sn) (usb_group sn)
        \<and> (\<forall>(i, fi)\<in>set (active_infos sn). map_of (id_profiles sn) (uint (fi_frame_id fi)) = Some (Some (prof fi)))
        \<and> fits (limits st ! kv) (length (active_infos sn)) \<and> list_all (\<lambda>A. heap_inv (callbacks A)) st
        \<and> src_callback (sn_source sn) \<noteq> None \<and> pl_aggregator p \<noteq> None \<and> pl_output p \<noteq> None)"

text \<open>
  An iteration of the stream thread and the tasks it queued.  The block of the receive buffer has \<open>slack\<close> behind
  the bytes of the vector (\<open>memory_block\<close>).  When the read never returns nothing more comes.
\<close>

type_synonym 's reading_state = "gemini_sensor \<times> pipeline \<times> store \<times> 's"

definition camera_read ::
    "nat list \<Rightarrow> nat \<Rightarrow> frame_source \<Rightarrow> 's gemini \<Rightarrow> u8 list \<Rightarrow> u8 list \<Rightarrow> (addr \<Rightarrow> store \<Rightarrow> (se_error + 'a list) \<times> store)
      \<Rightarrow> 's reading_state \<Rightarrow> se_error + 'a list \<times> 's reading_state" where
  "camera_read comps k psrc g junk slack cb S =
     (case S of (sn, p, st, s) \<Rightarrow>
        (case stream_iter g junk (memory_block slack sn) st s of
           None \<Rightarrow> Inr ([], S)
         | Some r \<Rightarrow>
             bind_result r (\<lambda>(sn1, st1, s1, acts).
             bind_result (callback_tasks comps k psrc (sn_source sn1) cb (dispatched acts) p st1) (\<lambda>((out, p1), st2).
               Inr (out, sn1\<lparr>sn_buffer := take (length (sn_buffer sn)) (sn_buffer sn1)\<rparr>, p1, st2, s1)))))"

fun camera_reads ::
    "nat \<Rightarrow> nat list \<Rightarrow> nat \<Rightarrow> frame_source \<Rightarrow> 's gemini \<Rightarrow> u8 list \<Rightarrow> u8 list \<Rightarrow> (addr \<Rightarrow> store \<Rightarrow> (se_error + 'a list) \<times> store)
      \<Rightarrow> 's reading_state \<Rightarrow> se_error + 'a list \<times> 's reading_state" where
  "camera_reads 0 comps k psrc g junk slack cb S = Inr ([], S)"
| "camera_reads (Suc n) comps k psrc g junk slack cb S =
     bind_result (camera_read comps k psrc g junk slack cb S) (\<lambda>(out, S1).
     bind_result (camera_reads n comps k psrc g junk slack cb S1) (\<lambda>(outs, S2). Inr (out @ outs, S2)))"

definition info_showable :: "(frame_info \<Rightarrow> stream_profile) \<Rightarrow> frame_info \<Rightarrow> bool" where
  "info_showable prof fi \<longleftrightarrow> (sp_frame_id (prof fi) \<in> set image_streams \<longrightarrow>
     nat (uint (fi_height fi) * uint (fi_width fi)) * (if sp_frame_id (prof fi) = fid_RightCamera then 1 else 2)
       \<le> unat (fi_data_size fi) - (if with_embeddedline (fi_frame_id fi) then embedded_size else 0))"

text \<open>What the application is to show of a packet.\<close>

definition info_windows :: "opencv \<Rightarrow> (frame_info \<Rightarrow> stream_profile) \<Rightarrow> frame_info \<Rightarrow> u8 list \<Rightarrow> window list" where
  "info_windows cv prof fi raw =
     (case stream_result cv (sp_frame_id (prof fi)) (uint (fi_width fi)) (uint (fi_height fi)) (Bytes (raw_image fi raw)) of
        Inl _ \<Rightarrow> [] | Inr out \<Rightarrow> out)"

definition packet_windows ::
    "opencv \<Rightarrow> (frame_info \<Rightarrow> stream_profile) \<Rightarrow> (u32 \<times> frame_info) list \<Rightarrow> packet \<Rightarrow> window list" where
  "packet_windows cv prof es pk =
     (case pk of (head, ts, raws, rest) \<Rightarrow> concat (map2 (\<lambda>e raw. info_windows cv prof (snd e) raw) es raws))"

fun answer_windows ::
    "opencv \<Rightarrow> (frame_info \<Rightarrow> stream_profile) \<Rightarrow> (u32 \<times> frame_info) list \<Rightarrow> int + packet \<Rightarrow> window list" where
  "answer_windows cv prof es (Inl e) = []"
| "answer_windows cv prof es (Inr pk) = packet_windows cv prof es pk"

text \<open>What holds between two reads: the buffer has the size \<open>startStream\<close> gave it.\<close>

definition camera_ready :: "nat \<Rightarrow> (frame_info \<Rightarrow> stream_profile) \<Rightarrow> (u32 \<times> frame_info) list \<Rightarrow> stream_state \<Rightarrow> bool" where
  "camera_ready kv prof es S \<longleftrightarrow> callback_ready kv prof S
     \<and> (case S of (sn, p, st) \<Rightarrow> active_infos sn = es \<and> length (sn_buffer sn) = infos_size es + pack_head_size
          \<and> is_opened sn \<and> is_streaming sn)"

lemma callback_ready_sensor [simp]:
  "callback_ready kv prof (sn\<lparr>missing_cnt := n\<rparr>, p, st) = callback_ready kv prof (sn, p, st)"
  "callback_ready kv prof (sn\<lparr>sn_buffer := b\<rparr>, p, st) = callback_ready kv prof (sn, p, st)"
  by (simp_all add: callback_ready_def)

lemma memory_block_simps [simp]:
  "active_infos (memory_block slack sn) = active_infos sn" "sn_source (memory_block slack sn) = sn_source sn"
  "missing_cnt (memory_block slack sn) = missing_cnt sn" "sn_buffer (memory_block slack sn) = sn_buffer sn @ slack"
  "is_opened (memory_block slack sn) = is_opened sn" "is_streaming (memory_block slack sn) = is_streaming sn"
  "callback_ready kv prof (memory_block slack sn, p, st) = callback_ready kv prof (sn, p, st)"
  by (simp_all add: memory_block_def)

lemma video_shown:
  assumes v: "video_of sid (prof fi) ts fi raw f" and raw: "raw_ok (i, fi) raw" and fi: "info_showable prof fi"
    and ty: "ty (fst a) = EXT_VIDEO_FRAME"
  shows "showable ty a f" "windows_of cv f = info_windows cv prof fi raw"
proof -
  have f: "fr_profile f = Some (prof fi)" "fr_payload f = Bytes (raw_image fi raw)"
    "fr_dims f = (uint (fi_width fi), uint (fi_height fi), getBppByFormat (uint (fi_format fi)), 0)"
    using v by (simp_all add: video_of_def)
  have "length (raw_image fi raw) = unat (fi_data_size fi) - (if with_embeddedline (fi_frame_id fi) then embedded_size else 0)"
    using raw by (auto simp: raw_image_def raw_ok_def)
  then show "showable ty a f" using fi ty f by (simp add: showable_def info_showable_def video_classes_def)
  show "windows_of cv f = info_windows cv prof fi raw" using f by (simp add: windows_of_def info_windows_def)
qed

text \<open>A packet in the buffer: the callback shows its images.\<close>

lemma callback_packet_ok:
  assumes ready: "callback_ready kv prof (sn, p, st)" and pk: "packet_ok (active_infos sn) pk"
    and ty: "ty kv = EXT_VIDEO_FRAME" and fis: "\<forall>(i, fi)\<in>set (active_infos sn). info_showable prof fi"
  shows "\<exists>fg st1 acts st2. handle_packet (sn\<lparr>sn_buffer := packet_bytes pk\<rparr>) st
      = Inr (sn\<lparr>sn_buffer := packet_bytes pk, usb_group := fg\<rparr>, st1, acts)
    \<and> callback_tasks comps k psrc (sn_source sn) (frame_handler cv ty) (dispatched acts) p st1
      = Inr ((packet_windows cv prof (active_infos sn) pk, p), st2)
    \<and> callback_ready kv prof (sn\<lparr>sn_buffer := packet_bytes pk, usb_group := fg\<rparr>, p, st2)"
proof -
  let ?es = "active_infos sn"
  obtain head ts raws rest where e: "pk = (head, ts, raws, rest)" by (metis prod_cases4)
  have pk': "length head = pack_head_size" "list_all2 raw_ok ?es raws" using pk by (simp_all add: packet_ok_def e)
  define sn0 where "sn0 = sn\<lparr>sn_buffer := packet_bytes pk\<rparr>"
  have sn0: "sn_source sn0 = sn_source sn" "active_infos sn0 = ?es" "usb_group sn0 = usb_group sn" "id_profiles sn0 = id_profiles sn"
    "sn_id sn0 = sn_id sn" "sn_buffer sn0 = head @ u64_bytes ts @ concat raws @ rest"
    by (simp_all add: sn0_def e packet_bytes_def)
  have R: "frames_ok st {#}" "source_within (sn_source sn) st"
    "map_of (src_archives (sn_source sn)) EXT_VIDEO_FRAME = Some (Some kv)" "group_ok ?es (usb_group sn)"
    "\<forall>(i, fi)\<in>set ?es. map_of (id_profiles sn) (uint (fi_frame_id fi)) = Some (Some (prof fi))"
    "fits (limits st ! kv) (length ?es)" "list_all (\<lambda>A. heap_inv (callbacks A)) st"
    "src_callback (sn_source sn) \<noteq> None" "pl_aggregator p \<noteq> None" "pl_output p \<noteq> None"
    using ready unfolding callback_ready_def by simp_all
  have kv: "kv < length st" by (rule source_withinD [OF R(2,3)])
  have room: "room kv (length ?es) st" by (rule fits_room [OF R(1) kv R(6)])
  obtain sn1 st1 as where a: "handle_packet sn0 st = Inr (sn1, st1, map Sensor_dispatch as)" "length as = length ?es"
    "frames_ok st1 ({#} + mset as)" "settings st1 = settings st" "length st1 = length st"
    "\<forall>b. fst b \<noteq> kv \<longrightarrow> look st1 b = look st b" "\<forall>a\<in>set as. fst a = kv"
    "\<forall>j<length as. \<exists>f. look st1 (as ! j) = Some f
       \<and> video_of (sn_id sn) (prof (snd (?es ! j))) (sint ts) (snd (?es ! j)) (raws ! j) f"
    "\<exists>fg. sn1 = sn0\<lparr>usb_group := fg\<rparr> \<and> group_ok ?es fg"
    by (rule packet_frames [of st "{#}" sn0 kv raws head ts rest prof, unfolded sn0, OF R(1-4) pk'(2,1) refl R(5) room])
  obtain fg where fg: "sn1 = sn0\<lparr>usb_group := fg\<rparr>" "group_ok ?es fg" using a(9) by blast
  have len: "length raws = length ?es" using pk'(2) by (simp add: list_all2_lengthD)
  have frame: "\<exists>f. look st1 (as ! j) = Some f \<and> showable ty (as ! j) f
      \<and> windows_of cv f = info_windows cv prof (snd (?es ! j)) (raws ! j)" if j: "j < length as" for j
  proof -
    obtain f where f: "look st1 (as ! j) = Some f" "video_of (sn_id sn) (prof (snd (?es ! j))) (sint ts) (snd (?es ! j)) (raws ! j) f"
      using a(8) j by blast
    have "raw_ok (?es ! j) (raws ! j)" using pk'(2) j a(2) by (simp add: list_all2_conv_all_nth)
    moreover have "info_showable prof (snd (?es ! j))" using fis j a(2) by (metis case_prod_beta nth_mem)
    ultimately show ?thesis
      using video_shown [of "sn_id sn" prof "snd (?es ! j)" "sint ts" "raws ! j" f "fst (?es ! j)" ty "as ! j"] f j a(7) ty by auto
  qed
  then have acc: "\<forall>a\<in>set as. \<exists>f. look st1 a = Some f \<and> showable ty a f" by (metis in_set_conv_nth)
  have "list_all (\<lambda>A. heap_inv (callbacks A)) st1" using calm_settings [OF a(4) R(7)] by (simp add: calm_def)
  from example.tasks_ok [OF _ acc this R(8-10), of "{#}" comps k psrc cv] a(3) obtain st2 where
    t: "callback_tasks comps k psrc (sn_source sn) (frame_handler cv ty) as p st1
      = Inr ((concat (map (\<lambda>a. windows_of cv (the (look st1 a))) as), p), st2)" "calm st1 st2" "frames_ok st2 {#}" by auto
  have "map (\<lambda>a. windows_of cv (the (look st1 a))) as = map2 (\<lambda>e raw. info_windows cv prof (snd e) raw) ?es raws"
    using frame a(2) len by (intro nth_equalityI) fastforce+
  then have out: "concat (map (\<lambda>a. windows_of cv (the (look st1 a))) as) = packet_windows cv prof ?es pk"
    by (simp add: packet_windows_def e)
  have sn1: "sn_source sn1 = sn_source sn" "active_infos sn1 = ?es" "usb_group sn1 = fg" "id_profiles sn1 = id_profiles sn"
    by (simp_all add: fg(1) sn0)
  have lim: "limits st2 = limits st" "list_all (\<lambda>A. heap_inv (callbacks A)) st2"
    using t(2) settings_limits [OF a(4)] by (simp_all add: calm_def)
  have "callback_ready kv prof (sn1, p, st2)"
    using R t(3) fg(2) lim limits_length [OF lim(1)] by (simp add: callback_ready_def sn1 source_within_def)
  then have ready': "callback_ready kv prof (sn\<lparr>sn_buffer := packet_bytes pk, usb_group := fg\<rparr>, p, st2)"
    by (simp add: fg(1) sn0_def)
  have run: "handle_packet (sn\<lparr>sn_buffer := packet_bytes pk\<rparr>) st
      = Inr (sn\<lparr>sn_buffer := packet_bytes pk, usb_group := fg\<rparr>, st1, map Sensor_dispatch as)"
    using a(1) by (simp add: fg(1) sn0_def)
  have "callback_tasks comps k psrc (sn_source sn) (frame_handler cv ty) (dispatched (map Sensor_dispatch as)) p st1
      = Inr ((packet_windows cv prof ?es pk, p), st2)"
    using t(1) out by simp
  with run ready' show ?thesis by blast
qed

context usb_camera
begin

text \<open>One answer of the device, and any number of them.\<close>

lemma camera_read_ok:
  assumes ready: "camera_ready kv prof es (sn, p, st)" and as: "answers s = wire_answers (x # xs)"
    and x: "answer_ok es x" "no_packet x \<or> 8 \<le> length slack" "infos_size es + 20 < 2 ^ 31"
    and ty: "ty kv = EXT_VIDEO_FRAME" "\<forall>(i, fi)\<in>set es. info_showable prof fi"
  shows "\<exists>sn' st' s'. camera_read comps k psrc g junk slack (frame_handler cv ty) (sn, p, st, s)
      = Inr (answer_windows cv prof es x, sn', p, st', s')
    \<and> camera_ready kv prof es (sn', p, st') \<and> answers s' = wire_answers xs"
proof -
  let ?sn = "memory_block slack sn"
  have r: "callback_ready kv prof (sn, p, st)" "active_infos sn = es" "length (sn_buffer sn) = infos_size es + pack_head_size"
    "is_opened sn" "is_streaming sn"
    using ready by (simp_all add: camera_ready_def)
  show ?thesis
  proof (cases x)
    case (Inl e)
    with as x(1) have "answers s = Inl e # wire_answers xs" "-13 \<le> e" "e < 0" by (simp_all add: wire_answers_def)
    from iter_error [OF this, of junk ?sn st] obtain s1 where it: "answers s1 = wire_answers xs"
      "stream_iter g junk ?sn st s = Some (Inr (?sn\<lparr>missing_cnt := missing_cnt ?sn + 1\<rparr>, st, s1,
         if kMissingFrameThreshold < missing_cnt ?sn + 1 then [Set_valid False] else []))" .
    have d: "dispatched (if kMissingFrameThreshold < missing_cnt ?sn + 1 then [Set_valid False] else []) = []" by simp
    let ?sn' = "?sn\<lparr>missing_cnt := missing_cnt ?sn + 1, sn_buffer := sn_buffer sn\<rparr>"
    have "camera_read comps k psrc g junk slack (frame_handler cv ty) (sn, p, st, s) = Inr ([], ?sn', p, st, s1)"
      using it(2) d by (simp add: camera_read_def)
    moreover have "camera_ready kv prof es (?sn', p, st)" using r by (simp add: camera_ready_def)
    ultimately show ?thesis using it(1) Inl by auto
  next
    case (Inr pk)
    obtain head ts raws where e: "pk = (head, ts, raws, [])" using x(1) Inr by (cases pk) (auto simp: wire_packet_def)
    have "answers s = Inr (packet_bytes (head, ts, raws, [])) # wire_answers xs" using as Inr by (simp add: wire_answers_def e)
    moreover have "wire_packet (active_infos ?sn) (head, ts, raws, [])" using x(1) Inr r(2) by (simp add: e)
    moreover have "buffer_fits ?sn" "infos_size (active_infos ?sn) + 20 < 2 ^ 31"
      using x(2,3) Inr r(2,3) by (simp_all add: buffer_fits_def)
    ultimately obtain rest s1 where it: "packet_ok (active_infos ?sn) (head, ts, raws, rest)" "answers s1 = wire_answers xs"
      "length (packet_bytes (head, ts, raws, rest)) = length (sn_buffer ?sn)"
      "stream_iter g junk ?sn st s =
        Some (bind_result (handle_packet (?sn\<lparr>missing_cnt := 0, sn_buffer := packet_bytes (head, ts, raws, rest)\<rparr>) st)
          (\<lambda>(sn3, st3, acts). Inr (sn3, st3, s1, (if 0 < missing_cnt ?sn then [Set_valid True] else []) @ acts)))"
      using iter_packet [of s head ts raws "wire_answers xs" ?sn junk st] by blast
    let ?snz = "?sn\<lparr>missing_cnt := 0\<rparr>" and ?pk = "(head, ts, raws, rest)"
    have "callback_ready kv prof (?snz, p, st)" "packet_ok (active_infos ?snz) ?pk" "\<forall>(i, fi)\<in>set (active_infos ?snz). info_showable prof fi"
      using r(1,2) it(1) ty(2) by simp_all
    from callback_packet_ok [where ty = ty and kv = kv, OF this(1,2) ty(1) this(3), of comps k psrc cv] obtain fg st1 acts st2 where
      h: "handle_packet (?snz\<lparr>sn_buffer := packet_bytes ?pk\<rparr>) st = Inr (?snz\<lparr>sn_buffer := packet_bytes ?pk, usb_group := fg\<rparr>, st1, acts)"
      "callback_tasks comps k psrc (sn_source ?snz) (frame_handler cv ty) (dispatched acts) p st1
        = Inr ((packet_windows cv prof (active_infos ?snz) ?pk, p), st2)"
      "callback_ready kv prof (?snz\<lparr>sn_buffer := packet_bytes ?pk, usb_group := fg\<rparr>, p, st2)" by blast
    let ?acts = "(if 0 < missing_cnt ?sn then [Set_valid True] else []) @ acts"
    let ?b = "take (length (sn_buffer sn)) (packet_bytes ?pk)"
    let ?sny = "?snz\<lparr>sn_buffer := packet_bytes ?pk, usb_group := fg\<rparr>"
    have w: "packet_windows cv prof es ?pk = packet_windows cv prof es pk" by (simp add: packet_windows_def e)
    have d: "dispatched ?acts = dispatched acts" by simp
    have it': "stream_iter g junk ?sn st s = Some (Inr (?sny, st1, s1, ?acts))"
      using it(4) h(1) by simp
    have "sn_source ?sny = sn_source ?snz" by simp
    then have "camera_read comps k psrc g junk slack (frame_handler cv ty) (sn, p, st, s)
        = Inr (packet_windows cv prof es pk, ?sny\<lparr>sn_buffer := ?b\<rparr>, p, st2, s1)"
      using h(2) w r(2) unfolding camera_read_def prod.case it' option.case bind_result_simps d by simp
    moreover have "camera_ready kv prof es (?sny\<lparr>sn_buffer := ?b\<rparr>, p, st2)"
    proof -
      have "callback_ready kv prof (?sny\<lparr>sn_buffer := ?b\<rparr>, p, st2)" using h(3) by (simp only: callback_ready_sensor(2))
      moreover have "length ?b = infos_size es + pack_head_size" using it(3) r(3) by simp
      ultimately show ?thesis using r(2,4,5) by (simp add: camera_ready_def)
    qed
    ultimately show ?thesis using it(2) Inr by auto
  qed
qed

lemma camera_reads_ok:
  assumes "camera_ready kv prof es (sn, p, st)" "answers s = wire_answers (xs @ ys)" "list_all (answer_ok es) xs"
    and "list_all no_packet xs \<or> 8 \<le> length slack" "infos_size es + 20 < 2 ^ 31"
    and "ty kv = EXT_VIDEO_FRAME" "\<forall>(i, fi)\<in>set es. info_showable prof fi"
  shows "\<exists>sn' st' s'. camera_reads (length xs) comps k psrc g junk slack (frame_handler cv ty) (sn, p, st, s)
      = Inr (concat (map (answer_windows cv prof es) xs), sn', p, st', s')
    \<and> camera_ready kv prof es (sn', p, st') \<and> answers s' = wire_answers ys"
  using assms(1-4)
proof (induction xs arbitrary: sn st s)
  case Nil
  then show ?case by auto
next
  case (Cons x xs)
  have x: "answers s = wire_answers (x # xs @ ys)" "answer_ok es x" "no_packet x \<or> 8 \<le> length slack"
    using Cons.prems(2-4) by auto
  from camera_read_ok [where ty = ty and kv = kv, OF Cons.prems(1) x assms(5-7), of comps k psrc junk cv] obtain sn1 st1 s1 where
    1: "camera_read comps k psrc g junk slack (frame_handler cv ty) (sn, p, st, s) = Inr (answer_windows cv prof es x, sn1, p, st1, s1)"
    "camera_ready kv prof es (sn1, p, st1)" "answers s1 = wire_answers (xs @ ys)" by blast
  from Cons.IH [OF 1(2,3)] Cons.prems(3,4) 1(1) show ?case by auto
qed

lemma camera_reads_overrun:
  assumes "camera_ready kv prof es (sn, p, st)" "answers s = wire_answers (xs @ ys)" "list_all (answer_ok es) xs"
    and "\<not> list_all no_packet xs" "length slack < 8" "infos_size es + 20 < 2 ^ 31"
    and "ty kv = EXT_VIDEO_FRAME" "\<forall>(i, fi)\<in>set es. info_showable prof fi"
  shows "camera_reads (length xs) comps k psrc g junk slack (frame_handler cv ty) (sn, p, st, s)
    = Inl (Undefined ''write past the buffer'')"
  using assms(1-4)
proof (induction xs arbitrary: sn st s)
  case (Cons x xs)
  have x: "answers s = wire_answers (x # xs @ ys)" "answer_ok es x" using Cons.prems(2,3) by auto
  show ?case
  proof (cases "no_packet x")
    case True
    from camera_read_ok [where ty = ty and kv = kv, OF Cons.prems(1) x _ assms(6-8), of slack comps k psrc junk cv] True obtain sn1 st1 s1 where
      1: "camera_read comps k psrc g junk slack (frame_handler cv ty) (sn, p, st, s) = Inr (answer_windows cv prof es x, sn1, p, st1, s1)"
      "camera_ready kv prof es (sn1, p, st1)" "answers s1 = wire_answers (xs @ ys)" by blast
    from Cons.IH [OF 1(2,3)] Cons.prems(3,4) True 1(1) show ?thesis by simp
  next
    case False
    then obtain pk where pk: "x = Inr pk" by (cases x) auto
    let ?sn = "memory_block slack sn"
    have r: "active_infos sn = es" "length (sn_buffer sn) = infos_size es + pack_head_size"
      using Cons.prems(1) by (simp_all add: camera_ready_def)
    have "answers s = Inr (packet_bytes pk) # wire_answers (xs @ ys)" "wire_packet (active_infos ?sn) pk" "\<not> buffer_fits ?sn"
      "infos_size (active_infos ?sn) + 20 < 2 ^ 31"
      using x pk r assms(5,6) by (simp_all add: wire_answers_def buffer_fits_def)
    from iter_overrun [OF this] show ?thesis by (simp add: camera_read_def)
  qed
qed simp

end

section \<open>The main function\<close>

text \<open>
  The loop of the keys: \<open>run\<close> is what the other threads do during a call of \<open>cv::waitKey\<close>, which gives the
  key.  \<open>None\<close> is a loop that still waits when the given keys are used up.
\<close>

fun key_loop :: "('k \<Rightarrow> 's \<Rightarrow> se_error + 's) \<Rightarrow> ('k \<Rightarrow> int) \<Rightarrow> int \<Rightarrow> 'k list \<Rightarrow> 's \<Rightarrow> (se_error + 's) option" where
  "key_loop run key k [] s = (if k = 27 then Some (Inr s) else None)"
| "key_loop run key k (x # xs) s =
     (if k = 27 then Some (Inr s)
      else case run x s of Inl e \<Rightarrow> Some (Inl e) | Inr s' \<Rightarrow> key_loop run key (key x) xs s')"

text \<open>What the callback for device changes prints.\<close>

definition device_message :: "'d device_handle option \<Rightarrow> change_event \<Rightarrow> string list" where
  "device_message dev ev =
     (if wasAdded dev ev then [''current device connected!!!'']
      else if wasRemoved dev ev then [''current device disconnected!!!''] else [])"

text \<open>After the loop; at the end the pipeline is destroyed.\<close>

definition example_finish :: "'x pipe_env \<Rightarrow> int \<Rightarrow> pipeline \<Rightarrow> 'x world \<Rightarrow> se_error + se_context \<times> 'x world" where
  "example_finish env i p w =
     (case Pipeline_stop False env (Pipeline_unregisterDevicesChangedCallback i p) w of
        (Inl e, _, _) \<Rightarrow> Inl e
      | (Inr _, p1, w1) \<Rightarrow> bind_result (pipeline_destroy env p1 w1) (\<lambda>w2. Inr (pl_context p1, w2)))"

text \<open>
  \<open>main\<close>, with the addresses of its two callbacks; an exception of the pipeline is not caught.  The
  threads that run meanwhile have an output, which is a list.
\<close>

definition example_main ::
    "(nat \<Rightarrow> bool) \<Rightarrow> 'x pipe_env \<Rightarrow> nat \<Rightarrow> nat
      \<Rightarrow> ('k \<Rightarrow> (pipeline \<times> 'x world) \<times> 'o list \<Rightarrow> se_error + (pipeline \<times> 'x world) \<times> 'o list)
      \<Rightarrow> ('k \<Rightarrow> int) \<Rightarrow> 'k list \<Rightarrow> se_context \<Rightarrow> 'x world \<Rightarrow> (se_error + (se_context \<times> 'x world) \<times> 'o list) option" where
  "example_main forced env cb dev_cb run key keys c w =
     (case Pipeline_start_callback forced env cb (new_pipeline c) w of
        (Inl e, _, _) \<Rightarrow> Some (Inl e)
      | (Inr _, p1, w1) \<Rightarrow>
          (case active_device p1 of
             Inl e \<Rightarrow> Some (Inl e)
           | Inr _ \<Rightarrow>
               (case Pipeline_registerInternalDeviceCallback (Some dev_cb) p1 of
                  (i, p2) \<Rightarrow>
                    (case key_loop run key 0 keys ((p2, w1), []) of
                       None \<Rightarrow> None
                     | Some (Inl e) \<Rightarrow> Some (Inl e)
                     | Some (Inr ((p3, w3), out)) \<Rightarrow>
                         Some (bind_result (example_finish env i p3 w3) (\<lambda>v. Inr (v, out)))))))"

lemma key_loop_map: "key_loop run key k (map f xs) s = key_loop (\<lambda>x. run (f x)) (\<lambda>x. key (f x)) k xs s"
  by (induction xs arbitrary: k s) (auto split: sum.split)

text \<open>What happens until the key 27, and that the loop ends with it.\<close>

fun pressed :: "('k \<Rightarrow> int) \<Rightarrow> int \<Rightarrow> 'k list \<Rightarrow> 'k list" where
  "pressed key k [] = []"
| "pressed key k (x # xs) = (if k = 27 then [] else x # pressed key (key x) xs)"

lemma key_loop_out:
  assumes "k = 27 \<or> (\<exists>x\<in>set xs. key x = 27)" and "I xs t" and "\<forall>x\<in>set (pressed key k xs). ok x"
    and step: "\<And>x ys t out. ok x \<Longrightarrow> I (x # ys) t \<Longrightarrow> \<exists>t'. run x (t, out) = Inr (t', out @ f x) \<and> I ys t'"
  shows "\<exists>t' ys. key_loop run key k xs (t, out) = Some (Inr (t', out @ concat (map f (pressed key k xs)))) \<and> I ys t'"
  using assms(1-3)
proof (induction xs arbitrary: k t out)
  case (Cons x xs)
  show ?case
  proof (cases "k = 27")
    case False
    with step [of x xs t out] Cons.prems(2,3) obtain t' where t: "run x (t, out) = Inr (t', out @ f x)" "I xs t'" by auto
    from Cons.prems(1) False have "key x = 27 \<or> (\<exists>y\<in>set xs. key y = 27)" by auto
    from Cons.IH [OF this t(2), of "out @ f x"] Cons.prems(3) t(1) False show ?thesis by auto
  qed (use Cons.prems(2) in auto)
qed auto

lemma key_loop_error:
  assumes "I xs t" and "\<exists>x\<in>set (pressed key k xs). \<not> ok x"
    and step: "\<And>x ys t out. ok x \<Longrightarrow> I (x # ys) t \<Longrightarrow> \<exists>t'. run x (t, out) = Inr (t', out @ f x) \<and> I ys t'"
    and err: "\<And>x ys t out. \<not> ok x \<Longrightarrow> I (x # ys) t \<Longrightarrow> run x (t, out) = Inl e"
  shows "key_loop run key k xs (t, out) = Some (Inl e)"
  using assms(1,2)
proof (induction xs arbitrary: k t out)
  case (Cons x xs)
  from Cons.prems(2) have k: "k \<noteq> 27" by auto
  show ?case
  proof (cases "ok x")
    case True
    with step [of x xs t out] Cons.prems(1) obtain t' where t: "run x (t, out) = Inr (t', out @ f x)" "I xs t'" by auto
    from Cons.IH [OF t(2)] Cons.prems(2) True k t(1) show ?thesis by auto
  qed (use err Cons.prems(1) k in simp)
qed simp

lemma unsafeStart_context: "unsafeStart forced env conf p w = (r, conf', p', w') \<Longrightarrow> pl_context p' = pl_context p"
  by (auto simp: unsafeStart_def onStart_def Let_def bind_result_def split: start_outcome.splits sum.splits prod.splits if_splits)

lemma pipeline_stop_context: "pipeline_stop force env p w = (r, p', w') \<Longrightarrow> pl_context p' = pl_context p"
  by (auto simp: pipeline_stop_def unsafeStop_def reset_pipeline_def Let_def split: sum.splits prod.splits if_splits option.splits)

lemma cb_insert_newest: "\<forall>(k, _)\<in>set xs. k < i \<Longrightarrow> cb_insert i f xs = (i, f) # xs"
  by (cases xs) auto

lemma start_callback_context:
  assumes start: "Pipeline_start_callback forced env cb (new_pipeline c) w = (Inr r, p, w')"
    and act: "active_profile p \<noteq> None" and ids: "\<forall>(k, _)\<in>set (change_callbacks c). k \<le> last_id c"
  shows "change_callbacks (pl_context p) = (last_id c + 1, pe_restart env) # change_callbacks c"
    "last_id (pl_context p) = last_id c + 1"
proof -
  let ?c1 = "snd (registerDevicesChangedCallback (Some (pe_restart env)) c)"
  have c1: "change_callbacks ?c1 = (last_id c + 1, pe_restart env) # change_callbacks c" "last_id ?c1 = last_id c + 1"
    using ids by (auto simp: registerDevicesChangedCallback_def intro!: cb_insert_newest)
  have "change_callbacks (pl_context p) = change_callbacks ?c1 \<and> last_id (pl_context p) = last_id ?c1"
    using start act by (auto simp: Pipeline_start_callback_def Pipeline_start_default_def pipeline_start_def new_pipeline_def Let_def
        watcher_start_def watcher_stop_def dest!: unsafeStart_context split: sum.splits prod.splits bool.splits if_splits)
  then show "change_callbacks (pl_context p) = (last_id c + 1, pe_restart env) # change_callbacks c"
    "last_id (pl_context p) = last_id c + 1" using c1 by simp_all
qed

text \<open>The device callback goes; that of the pipeline stays.\<close>

lemma register_unregister:
  assumes "\<forall>(k, _)\<in>set (change_callbacks (pl_context p)). k \<le> last_id (pl_context p)"
    and "Pipeline_registerInternalDeviceCallback (Some f) p = (i, p')"
  shows "change_callbacks (unregisterDevicesChangedCallback i (pl_context p')) = change_callbacks (pl_context p)"
    "p' = p\<lparr>pl_context := pl_context p'\<rparr>"
proof -
  have "p' = p\<lparr>pl_context := snd (registerDevicesChangedCallback (Some f) (pl_context p))\<rparr>" "i = int (last_id (pl_context p) + 1)"
    using assms(2) by (auto simp: Pipeline_registerInternalDeviceCallback_def registerDevicesChangedCallback_def Let_def)
  then show "change_callbacks (unregisterDevicesChangedCallback i (pl_context p')) = change_callbacks (pl_context p)"
    "p' = p\<lparr>pl_context := pl_context p'\<rparr>"
    using assms(1) cb_insert_newest [of "change_callbacks (pl_context p)" "last_id (pl_context p) + 1" f]
    by (auto simp: registerDevicesChangedCallback_def unregisterDevicesChangedCallback_def Let_def less_Suc_eq_le filter_id_conv)
qed

lemma example_finish_ok:
  assumes "gemini_env g env" "active_profile p = Some prof" "pl_aggregator p = Some (agg_start (new_aggregator ids))"
    and "all_streaming prof w" "distinct (ms_sensors (pp_multi_stream prof))"
  shows "\<exists>w'. example_finish env i p w = Inr ((unregisterDevicesChangedCallback i (pl_context p)), w')
    \<and> all_closed prof w' \<and> fst w' = fst w"
proof -
  let ?p = "Pipeline_unregisterDevicesChangedCallback i p"
  have p: "active_profile ?p = Some prof" "pl_aggregator ?p = Some (agg_start (new_aggregator ids))"
    "pl_context ?p = unregisterDevicesChangedCallback i (pl_context p)"
    using assms(2,3) by (simp_all only: Pipeline_unregisterDevicesChangedCallback_def) simp_all
  from stop_started [OF assms(1) p(1,2) assms(4,5), of False] obtain p2 w2 where
    s: "pipeline_stop False env ?p w = (Inr (), p2, w2)" "all_closed prof w2" "active_profile p2 = None" "fst w2 = fst w" by blast
  have "pipeline_destroy env p2 w2 = Inr w2" using s(3) by (simp add: pipeline_destroy_def unsafeStop_def)
  then show ?thesis
    using s pipeline_stop_context [OF s(1)] p(3) by (simp add: example_finish_def Pipeline_stop_def)
qed

section \<open>The example with a camera\<close>

text \<open>What the stream thread does between two keys: a number of reads, and the callback shows what comes.\<close>

definition camera_run ::
    "nat list \<Rightarrow> nat \<Rightarrow> frame_source \<Rightarrow> 's gemini \<Rightarrow> u8 list \<Rightarrow> u8 list \<Rightarrow> opencv \<Rightarrow> (nat \<Rightarrow> se_extension) \<Rightarrow> nat \<Rightarrow> nat \<times> int
      \<Rightarrow> (pipeline \<times> 's gemini_world world) \<times> window list \<Rightarrow> se_error + (pipeline \<times> 's gemini_world world) \<times> window list" where
  "camera_run comps k psrc g junk slack cv ty s ev S =
     (case S of ((p, (st, x)), out) \<Rightarrow>
        bind_result (camera_reads (fst ev) comps k psrc g junk slack (frame_handler cv ty) (gw_sensors x ! s, p, st, gw_device x))
          (\<lambda>(ws, sn, p', st', d). Inr ((p', (st', (gw_put s sn [] x)\<lparr>gw_device := d\<rparr>)), out @ ws)))"

text \<open>The answers that come between two keys, and the key.\<close>

type_synonym camera_event = "(int + packet) list \<times> int"

definition event_windows ::
    "opencv \<Rightarrow> (frame_info \<Rightarrow> stream_profile) \<Rightarrow> (u32 \<times> frame_info) list \<Rightarrow> camera_event \<Rightarrow> window list" where
  "event_windows cv prof es ev = concat (map (answer_windows cv prof es) (fst ev))"

definition event_reads :: "camera_event \<Rightarrow> nat \<times> int" where
  "event_reads ev = (length (fst ev), snd ev)"

definition answers_of :: "camera_event list \<Rightarrow> (int + packet) list" where
  "answers_of evs = concat (map fst evs)"

lemma snd_event_reads [simp]: "snd (event_reads ev) = snd ev"
  by (simp add: event_reads_def)

text \<open>What holds while the example runs and the answers of \<open>evs\<close> are still to come.\<close>

definition example_runs ::
    "('s \<Rightarrow> (int + u8 list) list) \<Rightarrow> nat \<Rightarrow> (frame_info \<Rightarrow> stream_profile) \<Rightarrow> (u32 \<times> frame_info) list \<Rightarrow> nat \<Rightarrow> pipeline
      \<Rightarrow> camera_event list \<Rightarrow> pipeline \<times> 's gemini_world world \<Rightarrow> bool" where
  "example_runs answers kv prof es s p0 evs S \<longleftrightarrow>
     (case S of (p, (st, x)) \<Rightarrow>
        p = p0 \<and> s < length (gw_sensors x) \<and> camera_ready kv prof es (gw_sensors x ! s, p, st)
        \<and> answers (gw_device x) = wire_answers (answers_of evs) \<and> (\<forall>ev\<in>set evs. list_all (answer_ok es) (fst ev)))"

lemma camera_run_ok:
  assumes u: "usb_camera g rem answers" and runs: "example_runs answers kv prof es s p0 (ev # evs) S"
    and size: "infos_size es + 20 < 2 ^ 31" and ty: "ty kv = EXT_VIDEO_FRAME" "\<forall>(i, fi)\<in>set es. info_showable prof fi"
  shows "list_all no_packet (fst ev) \<or> 8 \<le> length slack \<Longrightarrow>
      \<exists>S'. camera_run comps k psrc g junk slack cv ty s (event_reads ev) (S, out) = Inr (S', out @ event_windows cv prof es ev)
        \<and> example_runs answers kv prof es s p0 evs S'"
    "\<not> (list_all no_packet (fst ev) \<or> 8 \<le> length slack) \<Longrightarrow>
      camera_run comps k psrc g junk slack cv ty s (event_reads ev) (S, out) = Inl (Undefined ''write past the buffer'')"
proof -
  obtain p st x where S: "S = (p, (st, x))" by (metis prod.exhaust)
  let ?sn = "gw_sensors x ! s"
  have I: "p = p0" "s < length (gw_sensors x)" "camera_ready kv prof es (?sn, p, st)"
    "answers (gw_device x) = wire_answers (fst ev @ answers_of evs)" "list_all (answer_ok es) (fst ev)"
    "\<forall>ev\<in>set evs. list_all (answer_ok es) (fst ev)"
    using runs unfolding example_runs_def S prod.case by (auto simp: answers_of_def)
  { assume "list_all no_packet (fst ev) \<or> 8 \<le> length slack"
    from usb_camera.camera_reads_ok [where ty = ty and kv = kv, OF u I(3-5) this size ty, of comps k psrc junk cv] obtain sn' st' d where
      "camera_reads (length (fst ev)) comps k psrc g junk slack (frame_handler cv ty) (?sn, p, st, gw_device x)
        = Inr (event_windows cv prof es ev, sn', p, st', d)"
      "camera_ready kv prof es (sn', p, st')" "answers d = wire_answers (answers_of evs)"
      by (auto simp: event_windows_def)
    then show "\<exists>S'. camera_run comps k psrc g junk slack cv ty s (event_reads ev) (S, out) = Inr (S', out @ event_windows cv prof es ev)
        \<and> example_runs answers kv prof es s p0 evs S'"
      using I(1,2,6) by (simp add: camera_run_def event_reads_def S example_runs_def gw_put_def) }
  { assume "\<not> (list_all no_packet (fst ev) \<or> 8 \<le> length slack)"
    then have n: "\<not> list_all no_packet (fst ev)" "length slack < 8" by auto
    from usb_camera.camera_reads_overrun [where ty = ty and kv = kv, OF u I(3-5) n size ty, of comps k psrc junk cv]
    show "camera_run comps k psrc g junk slack cv ty s (event_reads ev) (S, out) = Inl (Undefined ''write past the buffer'')"
      by (simp add: camera_run_def event_reads_def S) }
qed

lemma start_example:
  assumes start: "gemini_env g env" "start_resolve forced env new_config False w = (Resolved prof, conf1, stop1, (st, x))"
      "prof = new_pipeline_profile (gemini_ops g) d to_file (st, x)" "dev_sensors d = [s]"
      "s < length (gw_sensors x)" "gw_sensors x ! s = caps_sensor n port uid fis"
    and caps: "caps_ok fis" "\<exists>fi\<in>set fis. wanted_info fi"
    and acc: "accepts_ids g (requested_ids (caps_requests uid fis)) (gw_device x)"
    and st: "frames_ok st {#}" "list_all (\<lambda>A. heap_inv (callbacks A)) st"
    and as: "answers (after_ids g (requested_ids (caps_requests uid fis)) (gw_device x)) = wire_answers (answers_of evs)"
      "\<forall>ev\<in>set evs. list_all (answer_ok (caps_infos uid fis)) (fst ev)"
  obtains p' S where "Pipeline_start_callback forced env cb (new_pipeline c) w = (Inr (Some prof), p', S)"
    "example_runs answers (length st) (caps_profile uid fis) (caps_infos uid fis) s p' evs (p', S)"
    "active_profile p' = Some prof" "pl_aggregator p' = Some (agg_start (new_aggregator (caps_wanted uid fis)))"
    "ms_sensors (pp_multi_stream prof) = [s]"
proof -
  have new: "active_profile (new_pipeline c) = None" "pl_aggregator (new_pipeline c) = None" "is_stopping (new_pipeline c) = False"
    by (simp_all add: new_pipeline_def)
  obtain conf' p' st' x' src fg kv where a: "pipeline_start forced env new_config (Some cb) (new_pipeline c) w
      = (Inr (Some prof), conf', p', (st', x'))"
    "s < length (gw_sensors x')" "gw_sensors x' ! s = (opened_sensor n port uid fis src fg)\<lparr>sn_source := src\<lparr>src_callback := Some (pe_output env)\<rparr>,
       is_streaming := True, missing_cnt := 0, sn_buffer := start_buffer uid fis\<rparr>"
    "active_profile p' = Some prof" "pl_aggregator p' = Some (agg_start (new_aggregator (caps_wanted uid fis)))"
    "pl_output p' = Some cb \<and> streams_callback p' = Some cb"
    "frames_ok st' {#}" "settings st' = settings st @ replicate 17 (256, new_callbacks)" "source_within src st'"
    "map_of (src_archives src) EXT_VIDEO_FRAME = Some (Some kv)" "kv = length st"
    "group_ok (caps_infos uid fis) fg"
    "list_all (\<lambda>A. heap_inv (callbacks A)) st'" "length st' = length st + 17" "ms_sensors (pp_multi_stream prof) = [s]"
    "gw_device x' = after_ids g (requested_ids (caps_requests uid fis)) (gw_device x)"
    using start_state [of g env forced new_config "new_pipeline c" w prof conf1 stop1 st x, unfolded new(3), OF start(1-4) new(1,2) start(5,6) caps acc st] .
  let ?sn = "gw_sensors x' ! s"
  have sn: "active_infos ?sn = caps_infos uid fis" "usb_group ?sn = fg" "sn_source ?sn = src\<lparr>src_callback := Some (pe_output env)\<rparr>"
    "id_profiles ?sn = fold put_profile (numbered uid fis) []" "is_opened ?sn" "is_streaming ?sn"
    by (simp_all add: a(3) opened_sensor_def)
  have lim: "limits st' ! length st = 256" using a(8) by (simp add: limits_settings nth_append settings_def)
  have few: "length (caps_infos uid fis) \<le> kGroupSlots" by (rule caps_infos_size(3) [OF caps(1)])
  have ready: "callback_ready (length st) (caps_profile uid fis) (?sn, p', st')"
    unfolding callback_ready_def prod.case sn(1-4)
  proof (intro conjI)
    show "\<forall>(i, fi)\<in>set (caps_infos uid fis). map_of (fold put_profile (numbered uid fis) []) (uint (fi_frame_id fi))
        = Some (Some (caps_profile uid fis fi))" by (rule caps_id_profiles [OF caps(1)])
    show "fits (limits st' ! length st) (length (caps_infos uid fis))" using few by (simp add: lim fits_def kGroupSlots_def)
  qed (use a in \<open>simp_all add: source_within_def\<close>)
  have run: "Pipeline_start_callback forced env cb (new_pipeline c) w = (Inr (Some prof), p', (st', x'))"
    using a(1) by (simp add: Pipeline_start_callback_def Pipeline_start_default_def)
  show ?thesis
  proof (rule that [OF run _ a(4,5,15)])
    have "length (sn_buffer ?sn) = infos_size (caps_infos uid fis) + pack_head_size" by (simp add: a(3) start_buffer_def)
    then have "camera_ready (length st) (caps_profile uid fis) (caps_infos uid fis) (?sn, p', st')"
      using ready sn(1,5,6) by (simp add: camera_ready_def)
    then show "example_runs answers (length st) (caps_profile uid fis) (caps_infos uid fis) s p' evs (p', st', x')"
      using a(2,16) as by (simp add: example_runs_def)
  qed
qed

section \<open>Properties\<close>


text \<open>A camera with one disparity stream and ten pixels; a thousand packets come, then escape is pressed.\<close>

definition wide_info :: frame_info where
  "wide_info = tiny_info\<lparr>fi_data_size := 20\<rparr>"

definition wide_packet :: packet where
  "wide_packet = ([0x55, 0xAA, 0x55, 0xAA, 40, 0, 0, 0, 16, 0, 0, 0], 9, [replicate 20 5], [])"

definition pixel_opencv :: opencv where
  "pixel_opencv = \<lparr>cv_yuyv_to_bgr = (\<lambda>_. None), cv_minmax_to_8u = (\<lambda>m. Some (m\<lparr>mat_elem := 1, mat_bytes := take 10 (mat_bytes m)\<rparr>)),
     cv_imshow = (\<lambda>_ _. True)\<rparr>"

definition wide_events :: "camera_event list" where
  "wide_events = [(replicate 1000 (Inr wide_packet), 0), ([Inl (-7)], 27), ([Inr wide_packet], 0)]"

lemma wide_caps: "caps_ok [wide_info]" "wanted_info wide_info" "caps_infos 5 [wide_info] = [(3, wide_info)]"
  "caps_profile 5 [wide_info] wide_info = info_profile 5 wide_info"
  using one_stream_caps [of wide_info] by (simp_all add: caps_ok_def wide_info_def tiny_info_def kGroupSlots_def)

lemma wide_ok: "wire_packet [(3, wide_info)] wide_packet" "info_showable (caps_profile 5 [wide_info]) wide_info"
  "packet_windows pixel_opencv (caps_profile 5 [wide_info]) [(3, wide_info)] wide_packet
    = [(''disparity'', \<lparr>mat_rows = 1, mat_cols = 10, mat_elem = 1, mat_bytes = replicate 10 5\<rparr>)]"
proof -
  have line: "\<not> with_embeddedline (fi_frame_id wide_info)"
    by (simp add: wide_info_def tiny_info_def with_embeddedline_def fid_defs)
  have "packet_ok [(3, wide_info)] wide_packet"
    using line by (simp add: wide_packet_def packet_ok_def pack_head_size_def raw_ok_def) (simp add: wide_info_def)
  then show "wire_packet [(3, wide_info)] wide_packet"
    by (simp add: wire_packet_def) (simp add: wide_packet_def packet_bytes_def head_magic_def PACK_MAGIC_def head_pack_length_def u32_of_def)
  show "info_showable (caps_profile 5 [wide_info]) wide_info"
    using line by (simp add: info_showable_def wide_caps(4)) (simp add: wide_info_def tiny_info_def fid_defs)
  have "info_windows pixel_opencv (caps_profile 5 [wide_info]) wide_info (replicate 20 5)
      = [(''disparity'', \<lparr>mat_rows = 1, mat_cols = 10, mat_elem = 1, mat_bytes = replicate 10 5\<rparr>)]"
    using line by (simp add: info_windows_def stream_result_def wide_caps(4) raw_image_def)
      (simp add: wide_info_def tiny_info_def fid_defs mat_of_def pixel_opencv_def converted_def show_mat_def)
  then show "packet_windows pixel_opencv (caps_profile 5 [wide_info]) [(3, wide_info)] wide_packet
    = [(''disparity'', \<lparr>mat_rows = 1, mat_cols = 10, mat_elem = 1, mat_bytes = replicate 10 5\<rparr>)]"
    by (simp add: packet_windows_def wide_packet_def)
qed

lemma wide_events_shown:
  "concat (map (event_windows pixel_opencv (caps_profile 5 [wide_info]) (caps_infos 5 [wide_info])) (pressed snd 0 wide_events))
     = replicate 1000 (''disparity'', \<lparr>mat_rows = 1, mat_cols = 10, mat_elem = 1, mat_bytes = replicate 10 5\<rparr>)"
  "\<exists>ev\<in>set (pressed snd 0 wide_events). \<not> list_all no_packet (fst ev)"
proof -
  have r: "map f (replicate 1000 y) = replicate 1000 (f y)" "concat (replicate 1000 [z]) = replicate 1000 z" for f :: "int + packet \<Rightarrow> window list" and y z
    by (simp_all add: map_replicate concat_replicate_single)
  show "concat (map (event_windows pixel_opencv (caps_profile 5 [wide_info]) (caps_infos 5 [wide_info])) (pressed snd 0 wide_events))
     = replicate 1000 (''disparity'', \<lparr>mat_rows = 1, mat_cols = 10, mat_elem = 1, mat_bytes = replicate 10 5\<rparr>)"
    unfolding wide_events_def wide_caps(3) by (simp add: event_windows_def wide_ok(3) r)
  show "\<exists>ev\<in>set (pressed snd 0 wide_events). \<not> list_all no_packet (fst ev)"
    by (simp add: wide_events_def list_all_iff)
qed


end
