(* ===== verification/Spec2Isabelle.thy ===== *)
theory Spec2Isabelle
  imports Small_Heap Dispatcher Frame_Aggregator Usb_Device Gemini_Sensor Gemini_Pipeline Pipeline_Api
    Syncer User_Callback Perception_Delivery Steady_Stream Serial_Open Frame_Queue Device_Objects Sensor_Api Recording
    Usb_Request Usb_Stream Start_Stream Example_App
begin

text \<open>
  libsmartereye2 is the host library of the Smarter Eye stereo cameras.  An application
  creates a pipeline, which waits for a camera, opens its sensors, starts them, and hands out
  sets of frames that belong together.  This development is a shallow embedding of that
  library: its operations as functions on explicit states, with the errors of the C++ code as
  values, and the properties that make them correct.  Paths are relative to \<open>src\<close> unless they
  start with \<open>include\<close> or \<open>3rdparty\<close>.

  \<^bold>\<open>How the parts interact.\<close>  The camera is reached over USB (\<open>usb\<close>, \<open>gemini/gemini_device\<close>)
  and over a serial port (\<open>gemini/gemini_serial_port\<close>).  The stream thread of the sensor
  (\<open>gemini/gemini_sensor\<close>) reads packets, cuts them into frames, and allocates each frame in
  the archive of its type (\<open>core/frame_source\<close>, \<open>core/frame_archive.h\<close>), whose memory is a fixed
  pool (\<open>SmallHeap\<close>).  Frames are counted by reference (\<open>core/frame_data\<close>).  The callback of
  the sensor is the frame aggregator (\<open>core/frame_aggregator\<close>), which collects the last frame
  of every wanted stream and publishes complete sets, as composite frames, on a bounded queue
  (\<open>concurrency/consumer_queue.h\<close>) from which the pipeline (\<open>pipeline/pipeline\<close>) serves the
  application.  The context and the device hub (\<open>device\<close>) notice cameras that come and go, by
  a thread of the dispatcher (\<open>concurrency/dispatcher\<close>).

  \<^bold>\<open>The theories.\<close>

  \<^item> \<open>Prelude\<close>: widths of integers, the errors, little-endian fields of packed structs, and
    lemmas on lists, options and words that the components share.  Locale \<open>stream_codec\<close> holds
    the laws of a self-delimiting encoding.
  \<^item> \<open>Small_Heap\<close>: \<open>SmallHeap\<close> of \<open>include/smartereye2/se_types.hpp\<close> and the callback holder.
    A pool is a vector of items and a vector of marks; its contract is the locale
    \<open>slot_allocator\<close>.
  \<^item> \<open>Consumer_Queue\<close>: \<open>ConsumerQueue\<close>.  Each wait on a condition variable is a pair of steps,
    so a history is any interleaving of whole operations and of the halves of the waits.  Its
    contract with those who use it without waiting is the locale \<open>bounded_fifo\<close>.
  \<^item> \<open>Dispatcher\<close>: \<open>Dispatcher\<close> and \<open>Watchdog\<close>: the worker thread, the owner and the invokers
    are program counters of a step relation.
  \<^item> \<open>Stream_Types\<close>: frame ids, formats, profiles (\<open>streaming\<close>) and their tags.
  \<^item> \<open>Frame_Store\<close>, \<open>Frame_Refs\<close>, \<open>Frame_Safety\<close>: frames, archives and composite frames.
    The store is a list of archives, an address an archive with a slot of its pool or an
    object of the heap.  A use of an address that holds no frame is the error
    \<open>Undefined\<close>, so a proof that an operation yields \<open>Inr\<close> is a proof that it uses no freed
    frame.  The releases of nested composite frames are a worklist that ends because every
    step lowers the sum of the counts, or the number of pending calls (locale \<open>frame_memory\<close>).
  \<^item> \<open>Frame_Source\<close>: the archives by frame type, created, found, emptied and reset.
  \<^item> \<open>Frame_Aggregator\<close>: \<open>handleFrame\<close> with both branches, \<open>start\<close>, \<open>stop\<close>,
    \<open>ProcessingBlock::invoke\<close>.
  \<^item> \<open>Serial_Tlv\<close>, \<open>Serial_Port\<close>: the framing of \<open>gemini/tlv_data.h\<close>, the receive loop with its
    timeouts, the handshake, the handlers of all messages, and the parsing of perception data.
  \<^item> \<open>Usb_Transfer\<close>, \<open>Usb_Device\<close>: the messenger, the protocol of \<open>GeminiDevice\<close>, interfaces,
    handles, enumeration, the event thread.  A bus that delivers a packet in pieces is the locale
    \<open>usb_pipe\<close>.
  \<^item> \<open>Gemini_Sensor\<close>: capabilities, \<open>open\<close>, \<open>close\<close>, \<open>start\<close>, \<open>stop\<close>, the stream thread.
  \<^item> \<open>Device_Registry\<close>: the polling watcher (\<open>device/backend\<close>), the context, the hub.
  \<^item> \<open>Pipeline_Config\<close>: requests, \<open>MultiStream\<close>, the resolution of a configuration.
  \<^item> \<open>Pipeline\<close>, \<open>Gemini_Pipeline\<close>: start with its retries, stop, restart, the waits and the
    reconnection; then the pipeline on the model of the Gemini sensor, through the locale
    \<open>sensor_lifecycle\<close>.
  \<^item> \<open>Frame_Api\<close>, \<open>Pipeline_Api\<close>: the handles of the application (\<open>Frame\<close>, \<open>FrameSet\<close>,
    \<open>FrameHolder\<close>), their copies and destructors, the lookup in a set, and the public waits.
  \<^item> \<open>Packed_Types\<close>: the packed structs of \<open>include/smartereye2/alg/packed_types.h\<close> as layouts,
    with the encoding of their values and the reading of a field.
  \<^item> \<open>Syncer\<close>: matchers, dispatch and the processing function of \<open>proc/syncer_process\<close>.
  \<^item> \<open>Serial_Open\<close>: the search for the port of the camera among the ports of the serial library,
    opening and closing it, and the sensor's \<open>open\<close> with it.
  \<^item> \<open>Option_Objects\<close>, \<open>Frame_Queue\<close>: options with their container and handle (\<open>core/options\<close>), the
    application's frame queue, and the filters (\<open>proc/filter\<close>).
  \<^item> \<open>Device_Objects\<close>: device objects, lists and handles of devices, the events of the context, and
    the context with its backends (\<open>device/device\<close>, \<open>device/context\<close>).
  \<^item> \<open>Sensor_Api\<close>: the application's handles on profiles (\<open>streaming/stream_profile.cc\<close>) and on sensors
    (\<open>sensor/sensor.cc\<close>), over the Gemini sensor.
  \<^item> \<open>Recording\<close>: identifiers and kinds of recorded data (\<open>streaming/serialization.h\<close>), recordings and
    the watcher of the playback backend (\<open>mock\<close>).
  \<^item> \<open>Usb_Request\<close>: asynchronous requests; libusb completes a transfer as a step of its own.
  \<^item> \<open>Frame_Delivery\<close>, \<open>Frame_Feed\<close>, \<open>Packet_Delivery\<close>: the composition.  The aggregator is refined to a
    function of the frames it was given (\<open>agg_spec\<close>); what gives frames to it, the callback of the pipeline or a
    task of the sensor's dispatcher, is the locale \<open>frame_consumer\<close>; and a packet is followed from the bytes in
    the receive buffer to the set a poll returns.  The buffer in memory is the vector of \<open>startStream\<close> with
    the slack of its block behind it (\<open>memory_block\<close>).
  \<^item> \<open>User_Callback\<close>: a pipeline that was started with a callback; what the library asks of a callback is the
    locale \<open>frame_user\<close>.  \<open>Perception_Delivery\<close>: a perception message from the serial port to such a callback.
  \<^item> \<open>Steady_Stream\<close>: the round of a packet: its tasks, a poll, the release of the set, and the state before again.
  \<^item> \<open>Usb_Stream\<close>: any number of rounds with the loop of the stream thread and the device it reads from (locale
    \<open>usb_camera\<close>, which extends \<open>usb_pipe\<close>); a round is a read into the buffer of \<open>startStream\<close>, which may fail.
  \<^item> \<open>Start_Stream\<close>: from the capabilities of a camera, as its sensor asks for them, through the start of the
    pipeline to these rounds.
  \<^item> \<open>Example_App\<close>: the example program and its \<open>main\<close>, which gets its frames by callback, with the stream thread
    and the camera that run meanwhile.

  \<^bold>\<open>What the lemmas show.\<close>  For memory: every operation on a reachable store by code that
  uses only frames it holds succeeds, the counts are exact, nothing leaks, and the number of
  published frames is bounded (\<open>Frame_Safety\<close>); the aggregator, the handlers of the serial
  port and the stop of a pipeline keep this.  For data: packets and messages are
  reassembled and cut exactly when their heads come whole, however bus and port split the rest
  (\<open>Serial_Tlv\<close>, \<open>Usb_Transfer\<close>, \<open>Packet_Delivery\<close>).  For concurrency: order and capacity of the queue, order of the tasks of
  the dispatcher, what holds after its \<open>stop\<close>.  For the life cycle: which states of sensor and
  pipeline can be reached, what starting and stopping do to the sensors, and when waiting ends.
  Properties that state a defect of the code (a request that is ignored, a packet that does not
  fit, a null pointer) are stated of the definitions as the code is.  For the composition: one frame
  of every wanted stream, however they were made and in whatever order they come, is one set at the
  application, with its contents unchanged and the counts exact; and this can be repeated for ever, because a
  set that is let go leaves no frame in any archive; a start brings the pipeline into a state
  where this holds, reads that fail cost one poll each, and the example program, which is called for every
  frame, shows each image and keeps none.  The receive buffer the code allocates is eight bytes too small
  for a packet.  So each composed property on packets has two cases: the block that the allocator gave for the
  buffer has at least eight bytes more than was asked for, and everything is delivered; or it has not, and the
  first packet is written past the buffer.

  \<^bold>\<open>Numbers.\<close>  Machine integers have their width.  A time stamp is a \<open>double\<close> that was made from a 64-bit
  integer: its value is that integer rounded to 53 significant bits, ties to even (\<open>double_of\<close>).  The counts of
  references are unbounded integers: each reference is a holder in memory.

  \<^bold>\<open>Bounds.\<close>  No operation of the code is cut short by fuel.  Loops that may run for ever are
  \<open>partial_function (option)\<close> or take the list of what the other side does, so that not returning
  is a value.  The constants are those of the code: 3000 attempts to start, pools of
  128 frames, 250 sets in the queue of the aggregator, 1024 bytes for the first read of a packet.

  \<^bold>\<open>Parameters.\<close>  libusb is a record of functions on a state of the bus; the devices it lists
  and the answers of a camera are arguments.  The serial library is the list of what its reads
  return.  OpenCV is a record of functions.  What another thread does during a wait is an argument of the operation that waits.
  A condition variable may wake up at any time; the clock enters only as the outcome of a
  timed wait, and in the syncer as the time service, which the code leaves null (\<open>createTimeService\<close>).

  \<^bold>\<open>Not modelled.\<close>  Logging, the pauses of the threads, and names of threads.  The comparisons of
  floating-point time stamps of the syncer, which no code calls.  What is a stub in the
  code: calibrated and updatable devices, the playback device and sensor, saving a recording,
  intrinsics and extrinsics.  The abstract reader and writer of recordings, and the printing of names.
\<close>

end
